(* ===== verification/Prelude.thy ===== *)
theory Prelude
  imports Main "HOL-Library.Sublist"
begin

text \<open>
  What every component shares: the result type of fallible operations, first-occurrence
  deduplication of a list (the \<open>seen\<close>-map loops of the code), updates of a table held as a list
  of rows, signed 64-bit wrap-around, and the collections of simplification rules the component
  proofs use.
\<close>

named_theorems store_simps \<open>characteristic equations of the store operations\<close>
named_theorems go_simps \<open>characteristic equations of the modelled standard library\<close>

section \<open>Results\<close>

text \<open>A Go function returning \<open>(T, error)\<close> returns a value of this type: \<open>Inl\<close> carries the
  error message, \<open>Inr\<close> the value.\<close>

type_synonym 'a res = "string + 'a"

abbreviation Err :: "string \<Rightarrow> 'a res" where "Err \<equiv> Inl"
abbreviation Ok :: "'a \<Rightarrow> 'a res" where "Ok \<equiv> Inr"

definition is_ok :: "'a res \<Rightarrow> bool" where
  "is_ok r = (case r of Inl _ \<Rightarrow> False | Inr _ \<Rightarrow> True)"

lemma is_ok_simps [simp]: "is_ok (Inr x)" "\<not> is_ok (Inl e)"
  by (simp_all add: is_ok_def)

lemma is_ok_iff: "is_ok r \<longleftrightarrow> (\<exists>x. r = Inr x)"
  by (cases r) (auto simp: is_ok_def)

section \<open>First occurrences\<close>

text \<open>The loops that keep a \<open>seen\<close> map and append what was not seen yet: the result is in the
  order of the first occurrences.\<close>

fun dedup_by :: "('a \<Rightarrow> 'k) \<Rightarrow> 'k list \<Rightarrow> 'a list \<Rightarrow> 'a list" where
  "dedup_by key seen [] = []"
| "dedup_by key seen (x # xs) =
     (if key x \<in> set seen then dedup_by key seen xs
      else x # dedup_by key (key x # seen) xs)"

lemma dedup_by_keys:
  "key ` set (dedup_by key seen xs) = key ` set xs - set seen"
  by (induction xs arbitrary: seen) auto

lemma dedup_by_subset: "set (dedup_by key seen xs) \<subseteq> set xs"
  by (induction xs arbitrary: seen) (auto dest: subsetD)

lemma distinct_dedup_by:
  "distinct (map key (dedup_by key seen xs)) \<and> key ` set (dedup_by key seen xs) \<inter> set seen = {}"
  by (induction xs arbitrary: seen) (auto simp: dedup_by_keys)

lemma dedup_by_id:
  "distinct (map key xs) \<Longrightarrow> key ` set xs \<inter> set seen = {} \<Longrightarrow> dedup_by key seen xs = xs"
  by (induction xs arbitrary: seen) auto

abbreviation dedup :: "'a list \<Rightarrow> 'a list" where
  "dedup \<equiv> dedup_by (\<lambda>x. x) []"

lemma set_dedup [simp]: "set (dedup xs) = set xs"
  using dedup_by_keys [of "\<lambda>x. x" "[]" xs] by simp

lemma distinct_dedup [simp]: "distinct (dedup xs)"
  using distinct_dedup_by [of "\<lambda>x. x" "[]" xs] by simp

section \<open>Tables\<close>

text \<open>A table is the list of its rows in insertion order. \<open>update_where\<close> is SQL's
  \<open>update ... where\<close>, \<open>count_where\<close> the number of rows it affects.\<close>

definition update_where :: "('r \<Rightarrow> bool) \<Rightarrow> ('r \<Rightarrow> 'r) \<Rightarrow> 'r list \<Rightarrow> 'r list" where
  "update_where p f rows = map (\<lambda>r. if p r then f r else r) rows"

definition delete_where :: "('r \<Rightarrow> bool) \<Rightarrow> 'r list \<Rightarrow> 'r list" where
  "delete_where p rows = filter (\<lambda>r. \<not> p r) rows"

definition count_where :: "('r \<Rightarrow> bool) \<Rightarrow> 'r list \<Rightarrow> nat" where
  "count_where p rows = length (filter p rows)"

lemma set_update_where [simp]:
  "set (update_where p f rows) = (\<lambda>r. if p r then f r else r) ` set rows"
  by (simp add: update_where_def)

lemma set_delete_where [simp]: "set (delete_where p rows) = {r \<in> set rows. \<not> p r}"
  by (auto simp: delete_where_def)

lemma update_where_Nil [simp]: "update_where p f [] = []"
  by (simp add: update_where_def)

lemma delete_where_Nil [simp]: "delete_where p [] = []"
  by (simp add: delete_where_def)

lemma map_update_where_key:
  "(\<And>r. p r \<Longrightarrow> key (f r) = key r) \<Longrightarrow> map key (update_where p f rows) = map key rows"
  by (simp add: update_where_def)

lemma distinct_delete_where: "distinct (map key rows) \<Longrightarrow> distinct (map key (delete_where p rows))"
  unfolding delete_where_def by (rule distinct_map_filter)

lemma count_where_0: "count_where p rows = 0 \<longleftrightarrow> (\<forall>r \<in> set rows. \<not> p r)"
  by (simp add: count_where_def filter_empty_conv)

lemma count_where_append: "count_where p (xs @ ys) = count_where p xs + count_where p ys"
  by (simp add: count_where_def)

lemma count_where_pos: "0 < count_where p rows \<longleftrightarrow> (\<exists>r \<in> set rows. p r)"
  using count_where_0 [of p rows] by (cases "count_where p rows = 0") auto

lemma update_where_none: "(\<forall>r \<in> set rows. \<not> p r) \<Longrightarrow> update_where p f rows = rows"
  by (simp add: update_where_def map_idI)

lemma find_update_where_other:
  "(\<And>r. p r \<Longrightarrow> \<not> q r \<and> \<not> q (f r)) \<Longrightarrow> find q (update_where p f rows) = find q rows"
  by (induction rows) (auto simp: update_where_def)

lemma count_where_key_le_1:
  "distinct (map key rows) \<Longrightarrow> (\<And>r. p r \<Longrightarrow> key r = k) \<Longrightarrow> count_where p rows \<le> 1"
proof (induction rows)
  case Nil
  then show ?case by (simp add: count_where_def)
next
  case (Cons r rows)
  show ?case
  proof (cases "p r")
    case True
    have "\<not> p x" if "x \<in> set rows" for x
    proof
      assume "p x"
      with True Cons.prems(2) have "key x = key r" by metis
      with that Cons.prems(1) show False by (auto intro: rev_image_eqI)
    qed
    then have "filter p rows = []" by (simp add: filter_empty_conv)
    with True show ?thesis by (simp add: count_where_def)
  next
    case False
    with Cons show ?thesis by (simp add: count_where_def)
  qed
qed

lemma distinct_key_unique:
  "distinct (map key rows) \<Longrightarrow> r \<in> set rows \<Longrightarrow> r' \<in> set rows \<Longrightarrow> key r = key r' \<Longrightarrow> r = r'"
  by (auto simp: distinct_map inj_on_def)

section \<open>Single rows\<close>

lemma find_SomeD: "find p xs = Some x \<Longrightarrow> x \<in> set xs \<and> p x"
  by (induction xs) (auto split: if_splits)

lemma find_append_new: "find p xs = None \<Longrightarrow> find p (xs @ [x]) = (if p x then Some x else None)"
  by (induction xs) auto

lemma find_append: "find p (xs @ ys) = (case find p xs of None \<Rightarrow> find p ys | Some x \<Rightarrow> Some x)"
  by (induction xs) auto

lemma find_None_key: "find (\<lambda>x. key x = k) xs = None \<Longrightarrow> k \<notin> key ` set xs"
  by (induction xs) (auto split: if_splits)

lemma find_update_where_key:
  "(\<And>r. key (f r) = key r) \<Longrightarrow>
     find (\<lambda>r. key r = k) (update_where p f rows) = map_option (\<lambda>r. if p r then f r else r) (find (\<lambda>r. key r = k) rows)"
  by (induction rows) (auto simp: update_where_def)

lemma find_unique:
  assumes "distinct (map key xs)" "x \<in> set xs" "p x" "\<And>y. y \<in> set xs \<Longrightarrow> p y \<Longrightarrow> key y = key x"
  shows "find p xs = Some x"
proof (cases "find p xs")
  case None
  with assms(2,3) show ?thesis by (auto simp: find_None_iff)
next
  case (Some y)
  have y: "y \<in> set xs" "p y" using find_SomeD [OF Some] by simp_all
  have "y = x" by (rule distinct_key_unique [OF assms(1) y(1) assms(2) assms(4) [OF y]])
  with Some show ?thesis by simp
qed

section \<open>Signed 64-bit arithmetic\<close>

text \<open>Go's \<open>int64\<close> (and \<open>time.Duration\<close>) wraps around in two's complement.\<close>

definition wrap64 :: "int \<Rightarrow> int" where
  "wrap64 x = (x + 2 ^ 63) mod 2 ^ 64 - 2 ^ 63"

definition in_int64 :: "int \<Rightarrow> bool" where
  "in_int64 x \<longleftrightarrow> - (2 ^ 63) \<le> x \<and> x < 2 ^ 63"

lemma wrap64_id [simp]: "in_int64 x \<Longrightarrow> wrap64 x = x"
  by (simp add: wrap64_def in_int64_def)

lemma wrap64_range: "in_int64 (wrap64 x)"
  by (simp add: wrap64_def in_int64_def)

end
