(* ===== verification/Go_Strings.thy ===== *)
theory Go_Strings
  imports Prelude
begin

text \<open>
  The part of Go's \<open>strings\<close> and \<open>strconv\<close> packages the modelled code uses. A Go string is a byte
  sequence and is modelled as a HOL \<open>string\<close>, one \<open>char\<close> per byte, so lengths and indices are byte
  counts. White space is Unicode's \<open>White_Space\<close> property, given by its UTF-8 encodings.
\<close>

section \<open>Prefixes, suffixes and substrings\<close>

fun has_prefix :: "string \<Rightarrow> string \<Rightarrow> bool" where
  "has_prefix s [] = True"
| "has_prefix [] (_ # _) = False"
| "has_prefix (c # s) (d # p) = (c = d \<and> has_prefix s p)"

lemma has_prefix_iff: "has_prefix s p \<longleftrightarrow> (\<exists>t. s = p @ t)"
  by (induction s p rule: has_prefix.induct) auto

lemma has_prefix_append [simp]: "has_prefix (p @ t) p"
  by (auto simp: has_prefix_iff)

definition has_suffix :: "string \<Rightarrow> string \<Rightarrow> bool" where
  "has_suffix s p = has_prefix (rev s) (rev p)"

lemma has_suffix_iff: "has_suffix s p \<longleftrightarrow> (\<exists>t. s = t @ p)"
  unfolding has_suffix_def has_prefix_iff
  by (metis rev_append rev_rev_ident)

definition trim_prefix :: "string \<Rightarrow> string \<Rightarrow> string" where
  "trim_prefix s p = (if has_prefix s p then drop (length p) s else s)"

fun contains :: "string \<Rightarrow> string \<Rightarrow> bool" where
  "contains s p = (has_prefix s p \<or> (case s of [] \<Rightarrow> False | _ # t \<Rightarrow> contains t p))"

declare contains.simps [simp del]

lemma contains_iff: "contains s p \<longleftrightarrow> (\<exists>a b. s = a @ p @ b)"
proof (induction s)
  case Nil
  show ?case by (subst contains.simps) (auto simp: has_prefix_iff)
next
  case (Cons c s)
  show ?case
    by (subst contains.simps) (auto simp: has_prefix_iff Cons.IH Cons_eq_append_conv)
qed

text \<open>\<open>strings.Cut\<close>: the text before and after the first occurrence of a one-byte separator.\<close>

fun cut_at :: "char \<Rightarrow> string \<Rightarrow> string \<times> string \<times> bool" where
  "cut_at sep [] = ([], [], False)"
| "cut_at sep (c # s) =
     (if c = sep then ([], s, True)
      else (case cut_at sep s of (a, b, found) \<Rightarrow> (c # a, b, found)))"

lemma cut_at_found: "cut_at sep (a @ sep # b) = (a, b, True)" if "sep \<notin> set a"
  using that by (induction a) auto

lemma cut_at_absent: "sep \<notin> set s \<Longrightarrow> cut_at sep s = (s, [], False)"
  by (induction s) auto

text \<open>\<open>strings.Split\<close> with a one-byte separator, and \<open>strings.Join\<close>.\<close>

fun split_on :: "char \<Rightarrow> string \<Rightarrow> string list" where
  "split_on sep [] = [[]]"
| "split_on sep (c # s) =
     (if c = sep then [] # split_on sep s
      else (case split_on sep s of [] \<Rightarrow> [[c]] | w # ws \<Rightarrow> (c # w) # ws))"

fun join_with :: "string \<Rightarrow> string list \<Rightarrow> string" where
  "join_with sep [] = []"
| "join_with sep [w] = w"
| "join_with sep (w # ws) = w @ sep @ join_with sep ws"

lemma split_on_not_Nil [simp]: "split_on sep s \<noteq> []"
  by (induction s) (auto split: list.splits)

lemma join_split: "join_with [sep] (split_on sep s) = s"
proof (induction s)
  case Nil
  show ?case by simp
next
  case (Cons c s)
  obtain w ws where s: "split_on sep s = w # ws" by (cases "split_on sep s") auto
  show ?case using Cons s by (cases ws) auto
qed

text \<open>\<open>strings.Replace(s, old, new, n)\<close> with \<open>n < 0\<close> for a non-empty \<open>old\<close> of any length; the
  counter skips the bytes of a match.\<close>

fun replace_all_aux :: "nat \<Rightarrow> string \<Rightarrow> string \<Rightarrow> string \<Rightarrow> string" where
  "replace_all_aux k p q [] = []"
| "replace_all_aux (Suc k) p q (c # s) = replace_all_aux k p q s"
| "replace_all_aux 0 p q (c # s) =
     (if has_prefix (c # s) p then q @ replace_all_aux (length p - 1) p q s
      else c # replace_all_aux 0 p q s)"

definition replace_all :: "string \<Rightarrow> string \<Rightarrow> string \<Rightarrow> string" where
  "replace_all s p q = replace_all_aux 0 p q s"

section \<open>White space\<close>

text \<open>The UTF-8 encodings of the code points \<open>unicode.IsSpace\<close> accepts: U+0009 to U+000D, U+0020,
  U+0085, U+00A0, U+1680, U+2000 to U+200A, U+2028, U+2029, U+202F, U+205F and U+3000.\<close>

definition space_codes :: "string list" where
  "space_codes =
    [[CHR 0x09], [CHR 0x0A], [CHR 0x0B], [CHR 0x0C], [CHR 0x0D], [CHR 0x20],
     [CHR 0xC2, CHR 0x85], [CHR 0xC2, CHR 0xA0], [CHR 0xE1, CHR 0x9A, CHR 0x80],
     [CHR 0xE2, CHR 0x80, CHR 0x80], [CHR 0xE2, CHR 0x80, CHR 0x81],
     [CHR 0xE2, CHR 0x80, CHR 0x82], [CHR 0xE2, CHR 0x80, CHR 0x83],
     [CHR 0xE2, CHR 0x80, CHR 0x84], [CHR 0xE2, CHR 0x80, CHR 0x85],
     [CHR 0xE2, CHR 0x80, CHR 0x86], [CHR 0xE2, CHR 0x80, CHR 0x87],
     [CHR 0xE2, CHR 0x80, CHR 0x88], [CHR 0xE2, CHR 0x80, CHR 0x89],
     [CHR 0xE2, CHR 0x80, CHR 0x8A], [CHR 0xE2, CHR 0x80, CHR 0xA8],
     [CHR 0xE2, CHR 0x80, CHR 0xA9], [CHR 0xE2, CHR 0x80, CHR 0xAF],
     [CHR 0xE2, CHR 0x81, CHR 0x9F], [CHR 0xE3, CHR 0x80, CHR 0x80]]"

text \<open>The number of bytes of the first code of the list that the string starts with, 0 for none.\<close>

fun code_prefix_len :: "string list \<Rightarrow> string \<Rightarrow> nat" where
  "code_prefix_len [] s = 0"
| "code_prefix_len (c # cs) s = (if has_prefix s c then length c else code_prefix_len cs s)"

function trim_with :: "string list \<Rightarrow> string \<Rightarrow> string" where
  "trim_with cs s =
     (let n = code_prefix_len cs s in
      if n = 0 \<or> s = [] then s else trim_with cs (drop n s))"
  by pat_completeness auto
termination
  by (relation "measure (\<lambda>(_, s). length s)") auto

declare trim_with.simps [simp del]

definition trim_left :: "string \<Rightarrow> string" where
  "trim_left s = trim_with space_codes s"

definition trim_right :: "string \<Rightarrow> string" where
  "trim_right s = rev (trim_with (map rev space_codes) (rev s))"

definition trim_space :: "string \<Rightarrow> string" where
  "trim_space s = trim_right (trim_left s)"

lemma trim_with_suffix: "\<exists>t. s = t @ trim_with cs s"
proof (induction cs s rule: trim_with.induct)
  case (1 cs s)
  show ?case
  proof (cases "code_prefix_len cs s = 0 \<or> s = []")
    case True
    then show ?thesis by (subst trim_with.simps) (auto simp: Let_def)
  next
    case False
    with 1 [OF refl] obtain t where "drop (code_prefix_len cs s) s = t @ trim_with cs (drop (code_prefix_len cs s) s)"
      by blast
    then have "s = (take (code_prefix_len cs s) s @ t) @ trim_with cs (drop (code_prefix_len cs s) s)"
      by (metis append_assoc append_take_drop_id)
    moreover have "trim_with cs s = trim_with cs (drop (code_prefix_len cs s) s)"
      using False by (subst trim_with.simps) (auto simp: Let_def)
    ultimately show ?thesis by metis
  qed
qed

lemma trim_with_stop: "trim_with cs s = [] \<or> code_prefix_len cs (trim_with cs s) = 0"
proof (induction cs s rule: trim_with.induct)
  case (1 cs s)
  show ?case
  proof (cases "code_prefix_len cs s = 0 \<or> s = []")
    case True
    then show ?thesis by (subst (1 2) trim_with.simps) (auto simp: Let_def)
  next
    case False
    with 1 [OF refl] show ?thesis by (subst (1 2) trim_with.simps) (auto simp: Let_def)
  qed
qed

lemma trim_with_id: "s = [] \<or> code_prefix_len cs s = 0 \<Longrightarrow> trim_with cs s = s"
  by (subst trim_with.simps) (auto simp: Let_def)

lemma has_prefix_shorten: "has_prefix s c \<Longrightarrow> has_prefix (s @ t) c"
  by (auto simp: has_prefix_iff)

lemma code_prefix_len_shorten:
  "[] \<notin> set cs \<Longrightarrow> code_prefix_len cs (s @ t) = 0 \<Longrightarrow> code_prefix_len cs s = 0"
  by (induction cs) (auto dest: has_prefix_shorten split: if_splits)

lemma space_codes_nonempty: "[] \<notin> set space_codes" "[] \<notin> set (map rev space_codes)"
  by (simp_all add: space_codes_def)

lemma trim_right_prefix: "\<exists>t. s = trim_right s @ t"
proof -
  obtain t where "rev s = t @ trim_with (map rev space_codes) (rev s)"
    using trim_with_suffix [of "rev s"] by blast
  then have "s = rev (trim_with (map rev space_codes) (rev s)) @ rev t"
    by (metis rev_append rev_rev_ident)
  then show ?thesis unfolding trim_right_def by blast
qed

lemma trim_left_clean: "trim_left s = [] \<or> code_prefix_len space_codes (trim_left s) = 0"
  unfolding trim_left_def by (rule trim_with_stop)

lemma trim_right_idem [simp]: "trim_right (trim_right s) = trim_right s"
  using trim_with_stop [of "map rev space_codes" "rev s"]
  by (simp add: trim_right_def trim_with_id)

lemma trim_space_idem [simp]: "trim_space (trim_space s) = trim_space s"
proof -
  obtain t where t: "trim_left s = trim_right (trim_left s) @ t"
    using trim_right_prefix by blast
  have "trim_right (trim_left s) = [] \<or> code_prefix_len space_codes (trim_right (trim_left s)) = 0"
    using trim_left_clean [of s] t code_prefix_len_shorten [OF space_codes_nonempty(1)]
    by (metis append_is_Nil_conv)
  then have "trim_left (trim_right (trim_left s)) = trim_right (trim_left s)"
    unfolding trim_left_def by (rule trim_with_id)
  then show ?thesis by (simp add: trim_space_def)
qed

lemma trim_space_Nil [simp]: "trim_space [] = []"
  by (simp add: trim_space_def trim_left_def trim_right_def trim_with_id)

lemma trim_space_length: "length (trim_space s) \<le> length s"
proof -
  have "length (trim_with cs u) \<le> length u" for cs u
    using trim_with_suffix [of u cs] by (metis le_add2 length_append)
  then show ?thesis
    unfolding trim_space_def trim_left_def trim_right_def
    by (metis length_rev order_trans)
qed

text \<open>The equations that evaluate trimming on a literal.\<close>

lemma trim_with_Nil [simp]: "trim_with cs [] = []"
  by (simp add: trim_with_id)

lemma trim_with_Cons [simp]:
  "trim_with cs (c # s) =
     (case code_prefix_len cs (c # s) of 0 \<Rightarrow> c # s | Suc n \<Rightarrow> trim_with cs (drop n s))"
  by (subst trim_with.simps) (simp add: Let_def split: nat.splits)

lemmas trim_eval = trim_space_def trim_left_def trim_right_def space_codes_def

section \<open>Letter case\<close>

text \<open>\<open>strings.ToLower\<close> as far as a comparison with an ASCII constant can see: the ASCII capitals,
  and the two code points outside ASCII whose lower case is an ASCII letter, U+0130 and U+212A.
  Any other code point keeps a byte above 127, before and after the conversion.\<close>

definition lower_char :: "char \<Rightarrow> char" where
  "lower_char c = (let n = of_char c :: nat in if 65 \<le> n \<and> n \<le> 90 then char_of (n + 32) else c)"

definition bytes_u0130 :: string where "bytes_u0130 = [CHR 0xC4, CHR 0xB0]"
definition bytes_u212A :: string where "bytes_u212A = [CHR 0xE2, CHR 0x84, CHR 0xAA]"

definition to_lower :: "string \<Rightarrow> string" where
  "to_lower s = map lower_char (replace_all (replace_all s bytes_u0130 ''i'') bytes_u212A ''k'')"

section \<open>Decimal numbers\<close>

definition digit_char :: "nat \<Rightarrow> char" where
  "digit_char d = char_of (48 + d)"

fun itoa_nat :: "nat \<Rightarrow> string" where
  "itoa_nat n = (if n < 10 then [digit_char n] else itoa_nat (n div 10) @ [digit_char (n mod 10)])"

declare itoa_nat.simps [simp del]

definition itoa :: "int \<Rightarrow> string" where
  "itoa i = (if i < 0 then CHR ''-'' # itoa_nat (nat (- i)) else itoa_nat (nat i))"

definition digit_val :: "char \<Rightarrow> nat option" where
  "digit_val c = (let n = of_char c :: nat in if 48 \<le> n \<and> n \<le> 57 then Some (n - 48) else None)"

fun digits_val :: "nat \<Rightarrow> string \<Rightarrow> nat option" where
  "digits_val acc [] = Some acc"
| "digits_val acc (c # s) = (case digit_val c of None \<Rightarrow> None | Some d \<Rightarrow> digits_val (10 * acc + d) s)"

text \<open>\<open>strconv.Atoi\<close> on a 64-bit platform: an optional sign, at least one digit, nothing else, and a
  value in the range of \<open>int64\<close>.\<close>

definition atoi :: "string \<Rightarrow> int option" where
  "atoi s =
     (let (neg, ds) = (case s of [] \<Rightarrow> (False, []) | c # t \<Rightarrow>
            if c = CHR ''-'' then (True, t) else if c = CHR ''+'' then (False, t) else (False, s));
          v = (if ds = [] then None else digits_val 0 ds)
      in case v of None \<Rightarrow> None
         | Some n \<Rightarrow> (let i = (if neg then - int n else int n) in
             if in_int64 i then Some i else None))"

lemma digit_val_char: "d < 10 \<Longrightarrow> digit_val (digit_char d) = Some d"
  by (simp add: digit_val_def digit_char_def)

lemma digits_val_append:
  "digits_val acc (s @ t) = (case digits_val acc s of None \<Rightarrow> None | Some a \<Rightarrow> digits_val a t)"
  by (induction s arbitrary: acc) (auto split: option.splits)

lemma digits_val_itoa: "digits_val 0 (itoa_nat n) = Some n"
proof (induction n rule: itoa_nat.induct)
  case (1 n)
  show ?case
  proof (cases "n < 10")
    case True
    then show ?thesis by (subst itoa_nat.simps) (simp add: digit_val_char)
  next
    case False
    with 1 show ?thesis
      by (subst itoa_nat.simps) (simp add: digits_val_append digit_val_char)
  qed
qed

lemma itoa_nat_not_Nil [simp]: "itoa_nat n \<noteq> []"
  by (subst itoa_nat.simps) simp

lemma itoa_nat_hd: "hd (itoa_nat n) \<noteq> CHR ''-'' \<and> hd (itoa_nat n) \<noteq> CHR ''+''"
proof (induction n rule: itoa_nat.induct)
  case (1 n)
  have d: "digit_char d \<noteq> CHR ''-'' \<and> digit_char d \<noteq> CHR ''+''" if "d < 10" for d
  proof -
    have "digit_val CHR ''-'' = None" "digit_val CHR ''+'' = None" by (simp_all add: digit_val_def)
    with digit_val_char [OF that] show ?thesis by auto
  qed
  show ?case
  proof (cases "n < 10")
    case True
    then show ?thesis by (subst (1 2) itoa_nat.simps) (simp add: d)
  next
    case False
    with 1 show ?thesis by (subst (1 2) itoa_nat.simps) (simp add: hd_append)
  qed
qed

lemma atoi_itoa: "in_int64 i \<Longrightarrow> atoi (itoa i) = Some i"
proof (cases "i < 0")
  case True
  assume "in_int64 i"
  with True show ?thesis by (simp add: atoi_def itoa_def digits_val_itoa)
next
  case False
  assume i: "in_int64 i"
  obtain c t where ct: "itoa_nat (nat i) = c # t" by (cases "itoa_nat (nat i)") auto
  then have "c \<noteq> CHR ''-''" "c \<noteq> CHR ''+''" using itoa_nat_hd [of "nat i"] by simp_all
  then have "atoi (itoa i) = (case digits_val 0 (itoa_nat (nat i)) of None \<Rightarrow> None
      | Some n \<Rightarrow> if in_int64 (int n) then Some (int n) else None)"
    using False ct by (simp add: atoi_def itoa_def Let_def split: option.splits)
  with False i show ?thesis by (simp add: digits_val_itoa)
qed

end
