(* ===== verification/Go_Time.thy ===== *)
theory Go_Time
  imports Prelude
begin

text \<open>
  The part of Go's \<open>time\<close> package the modelled code uses. An instant is the number of nanoseconds
  since the Unix epoch (an unbounded \<open>int\<close>: the code's instants lie far inside the range of
  \<open>time.Time\<close>); a location is its lookup function from Unix seconds to the zone in force. The
  calendar is the proleptic Gregorian one. The zone data itself is not part of the program and stays
  a parameter.
\<close>

type_synonym instant = int

definition nanos :: int where "nanos = 1000000000"

text \<open>The zero \<open>time.Time\<close>, January 1 of year 1.\<close>

definition zero_time :: instant where "zero_time = - 62135596800 * nanos"

section \<open>The calendar\<close>

definition is_leap :: "int \<Rightarrow> bool" where
  "is_leap y \<longleftrightarrow> y mod 4 = 0 \<and> (y mod 100 \<noteq> 0 \<or> y mod 400 = 0)"

definition days_in_month :: "int \<Rightarrow> int \<Rightarrow> int" where
  "days_in_month y m =
     (if m = 2 then (if is_leap y then 29 else 28)
      else if m \<in> {4, 6, 9, 11} then 30 else 31)"

definition days_before_year :: "int \<Rightarrow> int" where
  "days_before_year y = 365 * (y - 1) + (y - 1) div 4 - (y - 1) div 100 + (y - 1) div 400"

definition days_before_month :: "int \<Rightarrow> int \<Rightarrow> int" where
  "days_before_month y m =
     (if m \<le> 1 then 0 else if m = 2 then 31 else
      (if is_leap y then 1 else 0) +
      (if m = 3 then 59 else if m = 4 then 90 else if m = 5 then 120 else if m = 6 then 151
       else if m = 7 then 181 else if m = 8 then 212 else if m = 9 then 243 else if m = 10 then 273
       else if m = 11 then 304 else 334))"

text \<open>Days since January 1, 1970 of the given civil date; the day may lie outside its month.\<close>

definition days_of_civil :: "int \<Rightarrow> int \<Rightarrow> int \<Rightarrow> int" where
  "days_of_civil y m d = days_before_year y + days_before_month y m + d - 1 - 719162"

definition month_of_yday :: "int \<Rightarrow> int \<Rightarrow> int" where
  "month_of_yday y yd =
     (if yd < days_before_month y 2 then 1 else if yd < days_before_month y 3 then 2
      else if yd < days_before_month y 4 then 3 else if yd < days_before_month y 5 then 4
      else if yd < days_before_month y 6 then 5 else if yd < days_before_month y 7 then 6
      else if yd < days_before_month y 8 then 7 else if yd < days_before_month y 9 then 8
      else if yd < days_before_month y 10 then 9 else if yd < days_before_month y 11 then 10
      else if yd < days_before_month y 12 then 11 else 12)"

definition year_of_days :: "int \<Rightarrow> int" where
  "year_of_days n =
     (let k = n + 719162; r400 = k mod 146097; n100 = min 3 (r400 div 36524);
          r100 = r400 - n100 * 36524; r4 = r100 mod 1461; n1 = min 3 (r4 div 365)
      in 400 * (k div 146097) + 100 * n100 + 4 * (r100 div 1461) + n1 + 1)"

definition civil_of_days :: "int \<Rightarrow> int \<times> int \<times> int" where
  "civil_of_days n =
     (let y = year_of_days n; yd = n + 719162 - days_before_year y; m = month_of_yday y yd
      in (y, m, yd - days_before_month y m + 1))"

definition valid_date :: "int \<Rightarrow> int \<Rightarrow> int \<Rightarrow> bool" where
  "valid_date y m d \<longleftrightarrow> 1 \<le> m \<and> m \<le> 12 \<and> 1 \<le> d \<and> d \<le> days_in_month y m"

definition year_length :: "int \<Rightarrow> int" where
  "year_length y = (if is_leap y then 366 else 365)"

lemma div_pred:
  fixes y k :: int
  assumes k: "0 < k"
  shows "y div k = (y - 1) div k + (if y mod k = 0 then 1 else 0)"
proof -
  define q where "q = (y - 1) div k"
  define r where "r = (y - 1) mod k"
  have y: "y = k * q + r + 1" by (simp add: q_def r_def)
  have r: "0 \<le> r" "r < k" using k by (simp_all add: r_def)
  show ?thesis
  proof (cases "r + 1 = k")
    case True
    then have e: "y = k * (q + 1)" using y by (simp add: algebra_simps)
    have "y div k = q + 1" "y mod k = 0" unfolding e using k by simp_all
    then show ?thesis by (simp add: q_def)
  next
    case False
    with r have "r + 1 < k" by simp
    with r have "y div k = q" "y mod k = r + 1"
      by (auto intro: int_div_pos_eq int_mod_pos_eq simp: y)
    with r show ?thesis by (simp add: q_def)
  qed
qed

lemma days_before_year_Suc: "days_before_year (y + 1) = days_before_year y + year_length y"
proof -
  let ?i = "\<lambda>k. if y mod k = 0 then 1 else 0 :: int"
  have bools: "(p400 \<Longrightarrow> p100) \<Longrightarrow> (p100 \<Longrightarrow> p4) \<Longrightarrow>
      (if p4 \<and> (\<not> p100 \<or> p400) then 366 else 365 :: int) =
      365 + (if p4 then 1 else 0) - (if p100 then 1 else 0) + (if p400 then 1 else 0)"
    for p4 p100 p400 by (cases p4; cases p100; cases p400) simp_all
  have div: "y mod 400 = 0 \<Longrightarrow> y mod 100 = 0" "y mod 100 = 0 \<Longrightarrow> y mod 4 = 0"
    unfolding mod_eq_0_iff_dvd by (rule dvd_trans [rotated], assumption, simp)+
  have len: "year_length y = 365 + ?i 4 - ?i 100 + ?i 400"
    unfolding year_length_def is_leap_def by (rule bools) (erule div)+
  have sum: "L = 365 + a - b + c \<Longrightarrow> p = p' + a \<Longrightarrow> q = q' + b \<Longrightarrow> r = r' + c \<Longrightarrow>
      365 * (y + 1 - 1) + p - q + r = 365 * (y - 1) + p' - q' + r' + L"
    for L a b c p q r p' q' r' :: int by simp
  show ?thesis
    unfolding days_before_year_def add_diff_cancel_right'
    by (rule sum [OF len, unfolded add_diff_cancel_right']) (rule div_pred; simp)+
qed

lemma days_before_year_mono: "y \<le> y' \<Longrightarrow> days_before_year y + 365 * (y' - y) \<le> days_before_year y'"
proof (induction "nat (y' - y)" arbitrary: y')
  case 0
  then show ?case by simp
next
  case (Suc n)
  from Suc.hyps(2) have "n = nat (y' - 1 - y)" "y \<le> y' - 1" by linarith+
  from Suc.hyps(1) [OF this] have "days_before_year y + 365 * (y' - 1 - y) \<le> days_before_year (y' - 1)" .
  moreover have "days_before_year y' = days_before_year (y' - 1) + year_length (y' - 1)"
    using days_before_year_Suc [of "y' - 1"] by simp
  moreover have "365 \<le> year_length (y' - 1)" by (simp add: year_length_def)
  ultimately show ?case by simp
qed

lemma year_of_days_bounds:
  fixes n :: int
  defines "y \<equiv> year_of_days n"
  shows "days_before_year y \<le> n + 719162 \<and> n + 719162 < days_before_year y + year_length y"
proof -
  define k where "k = n + 719162"
  define a where "a = k div 146097"
  define r where "r = k mod 146097"
  define b where "b = min 3 (r div 36524)"
  define r2 where "r2 = r - b * 36524"
  define c where "c = r2 div 1461"
  define r3 where "r3 = r2 mod 1461"
  define d where "d = min 3 (r3 div 365)"
  have y: "y = 400 * a + 100 * b + 4 * c + d + 1"
    unfolding y_def year_of_days_def Let_def k_def a_def r_def b_def r2_def c_def r3_def d_def by (rule refl)
  have k: "k = 146097 * a + r" "0 \<le> r" "r < 146097" by (simp_all add: a_def r_def)
  have b: "0 \<le> b" "b \<le> 3" "0 \<le> r2" "b < 3 \<longrightarrow> r2 < 36524" "r2 \<le> 36524"
    using k(2,3) div_mult_mod_eq [of r 36524] pos_mod_bound [of 36524 r] pos_mod_sign [of 36524 r]
    unfolding b_def r2_def by (auto simp: min_def)
  have c: "r2 = 1461 * c + r3" "0 \<le> r3" "r3 < 1461" by (simp_all add: c_def r3_def)
  have c': "0 \<le> c" "c \<le> 24" using b(3,5) c by linarith+
  have d: "0 \<le> d" "d \<le> 3" "365 * d \<le> r3" "d < 3 \<longrightarrow> r3 < 365 * d + 365"
    using c(2,3) div_mult_mod_eq [of r3 365] pos_mod_bound [of 365 r3] pos_mod_sign [of 365 r3]
    unfolding d_def by (auto simp: min_def)
  have divs: "(y - 1) div 4 = 100 * a + 25 * b + c" "(y - 1) div 100 = 4 * a + b" "(y - 1) div 400 = a"
    unfolding y using b c' d by (auto intro!: int_div_pos_eq)
  have dby: "days_before_year y = 146097 * a + 36524 * b + 1461 * c + 365 * d"
    unfolding days_before_year_def divs unfolding y by simp
  have kk: "k = 146097 * a + 36524 * b + 1461 * c + r3" using k(1) c(1) by (simp add: r2_def)
  have leap: "is_leap y" if "d = 3" "b = 3 \<or> c < 24"
  proof -
    have e: "y = 4 * (100 * a + 25 * b + c + 1)" "y = 400 * a + (100 * b + 4 * c + 4)"
      using y that(1) by simp_all
    have "y mod 4 = 0" unfolding e(1) by simp
    moreover have "y mod 100 \<noteq> 0 \<or> y mod 400 = 0"
    proof (cases "c < 24")
      case True
      have "y mod 100 = 4 * c + 4"
        using True c' by (intro int_mod_pos_eq [where q = "4 * a + b"]) (simp_all add: e(2))
      with c' show ?thesis by simp
    next
      case False
      with that(2) c' have "b = 3" "c = 24" by auto
      then have "y = 400 * (a + 1)" by (simp add: e(2))
      then show ?thesis by simp
    qed
    ultimately show ?thesis by (simp add: is_leap_def)
  qed
  have "r3 < 365 * d + year_length y"
  proof (cases "d = 3")
    case False
    with d show ?thesis by (simp add: year_length_def)
  next
    case True
    show ?thesis
    proof (cases "b = 3 \<or> c < 24")
      case True
      with leap \<open>d = 3\<close> c(3) show ?thesis by (simp add: year_length_def)
    next
      case False
      then have "r2 < 36524" "c = 24" using b c' by linarith+
      with c(1) \<open>d = 3\<close> show ?thesis by (simp add: year_length_def)
    qed
  qed
  with dby kk d(3) show ?thesis by (simp add: k_def)
qed

lemma month_cases:
  fixes m :: int
  assumes "1 \<le> m" "m \<le> 12"
  shows "m \<in> {1, 2, 3, 4, 5, 6, 7, 8, 9, 10, 11, 12}"
  using assms by (simp; presburger)

lemma if_cases: "(if b then x else y) = z \<Longrightarrow> (b \<Longrightarrow> x = z \<Longrightarrow> R) \<Longrightarrow> (\<not> b \<Longrightarrow> y = z \<Longrightarrow> R) \<Longrightarrow> R"
  by (cases b) auto

lemma month_of_yday_bounds:
  assumes "0 \<le> yd" "yd < year_length y"
  defines "m \<equiv> month_of_yday y yd"
  shows "1 \<le> m \<and> m \<le> 12 \<and> days_before_month y m \<le> yd \<and> yd < days_before_month y m + days_in_month y m"
proof -
  have "month_of_yday y yd = m" by (simp add: m_def)
  then show ?thesis
    using assms(1,2) unfolding month_of_yday_def
    by (elim if_cases) (simp_all add: days_before_month_def days_in_month_def year_length_def split: if_splits)
qed

theorem civil_of_days_valid:
  assumes "civil_of_days n = (y, m, d)"
  shows "valid_date y m d \<and> days_of_civil y m d = n"
proof -
  define yd where "yd = n + 719162 - days_before_year y"
  have y: "y = year_of_days n" and m: "m = month_of_yday y yd" and d: "d = yd - days_before_month y m + 1"
    using assms by (auto simp: civil_of_days_def Let_def yd_def)
  have "0 \<le> yd" "yd < year_length y"
    using year_of_days_bounds [of n] unfolding yd_def y by linarith+
  from month_of_yday_bounds [OF this] show ?thesis
    unfolding valid_date_def days_of_civil_def m [symmetric] using d by (simp add: yd_def)
qed

lemma days_before_month_Suc:
  "1 \<le> m \<Longrightarrow> m < 12 \<Longrightarrow> days_before_month y (m + 1) = days_before_month y m + days_in_month y m"
  using month_cases [of m] by (auto simp: days_before_month_def days_in_month_def)

lemma days_before_month_mono:
  assumes "1 \<le> m" "m < m'" "m' \<le> 12"
  shows "days_before_month y m + days_in_month y m \<le> days_before_month y m'"
proof -
  have "m' \<in> {m + 1 .. 12}" using assms by simp
  have "days_before_month y (m + 1) \<le> days_before_month y (m + 1 + int k)"
    if "m + 1 + int k \<le> 12" for k
    using that
  proof (induction k)
    case 0
    then show ?case by simp
  next
    case (Suc k)
    then have "days_before_month y (m + 1 + int k + 1) =
        days_before_month y (m + 1 + int k) + days_in_month y (m + 1 + int k)"
      using assms(1) by (intro days_before_month_Suc) simp_all
    moreover have "0 < days_in_month y (m + 1 + int k)" by (simp add: days_in_month_def)
    ultimately show ?case using Suc by (simp add: add.assoc add.commute add.left_commute)
  qed
  from this [of "nat (m' - m - 1)"] assms show ?thesis
    using days_before_month_Suc [of m y] by simp
qed

lemma days_before_month_12: "days_before_month y 12 + days_in_month y 12 = year_length y"
  by (simp add: days_before_month_def days_in_month_def year_length_def)

lemma valid_date_yday:
  assumes "valid_date y m d"
  shows "0 \<le> days_before_month y m + d - 1 \<and> days_before_month y m + d - 1 < year_length y"
proof -
  have m: "1 \<le> m" "m \<le> 12" and d: "1 \<le> d" "d \<le> days_in_month y m"
    using assms by (simp_all add: valid_date_def)
  have "days_before_month y m + days_in_month y m \<le> year_length y"
  proof (cases "m = 12")
    case False
    then have "days_before_month y m + days_in_month y m \<le> days_before_month y 12"
      using m by (intro days_before_month_mono) simp_all
    then show ?thesis using days_before_month_12 [of y] days_in_month_def [of y 12] by simp
  qed (simp add: days_before_month_12)
  moreover have "0 \<le> days_before_month y m" by (simp add: days_before_month_def)
  ultimately show ?thesis using d by linarith
qed

text \<open>Earlier dates have smaller day numbers: the calendar order is the order of the day numbers.\<close>

lemma days_of_civil_less:
  assumes v: "valid_date y m d" "valid_date y' m' d'"
    and lt: "y < y' \<or> (y = y' \<and> (m < m' \<or> (m = m' \<and> d < d')))"
  shows "days_of_civil y m d < days_of_civil y' m' d'"
proof (cases "y < y'")
  case True
  then have "days_before_year (y + 1) \<le> days_before_year y'"
    using days_before_year_mono [of "y + 1" y'] by simp
  then show ?thesis
    using days_before_year_Suc [of y] valid_date_yday [OF v(1)] valid_date_yday [OF v(2)]
    unfolding days_of_civil_def by linarith
next
  case False
  with lt have y: "y' = y" and md: "m < m' \<or> (m = m' \<and> d < d')" by auto
  show ?thesis
  proof (cases "m < m'")
    case True
    then show ?thesis
      using days_before_month_mono [of m m' y] v unfolding y valid_date_def days_of_civil_def by linarith
  next
    case False
    with md show ?thesis unfolding y days_of_civil_def by simp
  qed
qed

theorem civil_of_days_of_civil:
  assumes v: "valid_date y m d"
  shows "civil_of_days (days_of_civil y m d) = (y, m, d)"
proof (rule ccontr)
  obtain y' m' d' where c: "civil_of_days (days_of_civil y m d) = (y', m', d')" by (metis prod_cases3)
  from civil_of_days_valid [OF c] have v': "valid_date y' m' d'"
    and e: "days_of_civil y' m' d' = days_of_civil y m d" by simp_all
  assume "civil_of_days (days_of_civil y m d) \<noteq> (y, m, d)"
  with c have "(y' < y \<or> (y' = y \<and> (m' < m \<or> (m' = m \<and> d' < d)))) \<or>
     (y < y' \<or> (y = y' \<and> (m < m' \<or> (m = m' \<and> d < d'))))" by auto
  with days_of_civil_less [OF v v'] days_of_civil_less [OF v' v] e show False by auto
qed

lemma days_in_month_range: "28 \<le> days_in_month y m" "days_in_month y m \<le> 31"
  by (simp_all add: days_in_month_def)

text \<open>Sunday is 0.\<close>

definition weekday_of_days :: "int \<Rightarrow> int" where
  "weekday_of_days n = (n + 4) mod 7"

section \<open>Locations\<close>

record zone =
  zoff :: int
  zstart :: int
  zend :: int

type_synonym location = "int \<Rightarrow> zone"

text \<open>A location with one zone; its validity bounds are Go's \<open>alpha\<close> and \<open>omega\<close>.\<close>

definition fixed_zone :: "int \<Rightarrow> location" where
  "fixed_zone off = (\<lambda>_. \<lparr>zoff = off, zstart = - (2 ^ 63), zend = 2 ^ 63 - 1\<rparr>)"

definition utc :: location where "utc = fixed_zone 0"

definition unix_of :: "instant \<Rightarrow> int" where "unix_of t = t div nanos"

text \<open>Seconds on the wall clock of a location, counted from 1970-01-01T00:00:00 of that clock.\<close>

definition wall :: "location \<Rightarrow> instant \<Rightarrow> int" where
  "wall loc t = unix_of t + zoff (loc (unix_of t))"

definition civil_of :: "location \<Rightarrow> instant \<Rightarrow> int \<times> int \<times> int" where
  "civil_of loc t = civil_of_days (wall loc t div 86400)"

definition clock_of :: "location \<Rightarrow> instant \<Rightarrow> int \<times> int \<times> int" where
  "clock_of loc t = (let s = wall loc t mod 86400 in (s div 3600, s mod 3600 div 60, s mod 60))"

definition weekday_of :: "location \<Rightarrow> instant \<Rightarrow> int" where
  "weekday_of loc t = weekday_of_days (wall loc t div 86400)"

text \<open>\<open>time.Date\<close>: the month is normalised into the year, the other fields are linear, and the zone is
  looked up at the wall clock read as UTC, then once more at the corrected instant when that one lies
  outside the zone found first.\<close>

definition zone_adjust :: "location \<Rightarrow> int \<Rightarrow> int" where
  "zone_adjust loc u =
     (let z = loc u in
      if zoff z = 0 then u
      else (let v = u - zoff z in
            if v < zstart z \<or> zend z \<le> v then u - zoff (loc v) else v))"

definition time_date :: "location \<Rightarrow> int \<Rightarrow> int \<Rightarrow> int \<Rightarrow> int \<Rightarrow> int \<Rightarrow> int \<Rightarrow> int \<Rightarrow> instant" where
  "time_date loc y mo d h mi s ns =
     (let y' = y + (mo - 1) div 12; mo' = (mo - 1) mod 12 + 1;
          u = days_of_civil y' mo' d * 86400 + h * 3600 + mi * 60 + s + ns div nanos
      in zone_adjust loc u * nanos + ns mod nanos)"

definition add_date :: "location \<Rightarrow> instant \<Rightarrow> int \<Rightarrow> int \<Rightarrow> int \<Rightarrow> instant" where
  "add_date loc t years months days =
     (case civil_of loc t of (y, m, d) \<Rightarrow> case clock_of loc t of (h, mi, s) \<Rightarrow>
        time_date loc (y + years) (m + months) (d + days) h mi s (t mod nanos))"

lemma nanos_pos: "0 < nanos" by (simp add: nanos_def)

lemma zone_adjust_fixed: "zone_adjust (fixed_zone off) u = u - off"
  by (simp add: zone_adjust_def fixed_zone_def Let_def)

lemma zone_adjust_utc [simp]: "zone_adjust utc u = u"
  by (simp add: utc_def zone_adjust_fixed)

lemma wall_fixed: "wall (fixed_zone off) t = unix_of t + off"
  by (simp add: wall_def fixed_zone_def)

lemma unix_of_mult [simp]: "unix_of (u * nanos) = u"
  by (simp add: unix_of_def nanos_def)

lemma clock_secs:
  assumes "clock_of loc t = (h, mi, s)"
  shows "h * 3600 + mi * 60 + s = wall loc t mod 86400"
proof -
  define w where "w = wall loc t mod 86400"
  have c: "h = w div 3600" "mi = w mod 3600 div 60" "s = w mod 60"
    using assms by (simp_all add: clock_of_def Let_def w_def)
  have "w = w div 3600 * 3600 + w mod 3600" by simp
  moreover have "w mod 3600 = w mod 3600 div 60 * 60 + w mod 3600 mod 60" by simp
  moreover have "w mod 3600 mod 60 = w mod 60" by (simp add: mod_mod_cancel)
  ultimately show ?thesis unfolding c w_def [symmetric] by linarith
qed

text \<open>Adding whole years in UTC goes forward by at least 365 days a year.\<close>

lemma add_years_utc:
  assumes "0 \<le> k"
  shows "t + 365 * k * 86400 * nanos - 86400 * nanos \<le> add_date utc t k 0 0"
proof -
  obtain y m d where c: "civil_of utc t = (y, m, d)" by (metis prod_cases3)
  obtain h mi s where k: "clock_of utc t = (h, mi, s)" by (metis prod_cases3)
  from civil_of_days_valid [OF c [unfolded civil_of_def]]
  have v: "valid_date y m d" and e: "days_of_civil y m d = wall utc t div 86400" by simp_all
  have m: "1 \<le> m" "m \<le> 12" using v by (simp_all add: valid_date_def)
  then have norm: "(m - 1) div 12 = 0" "(m - 1) mod 12 = m - 1" by simp_all
  have w: "wall utc t = unix_of t" by (simp add: utc_def wall_fixed)
  have r: "add_date utc t k 0 0 =
      (days_of_civil (y + k) m d * 86400 + unix_of t mod 86400) * nanos + t mod nanos"
    using clock_secs [OF k] nanos_pos
    by (simp add: add_date_def c k time_date_def norm w Let_def add.assoc div_pos_pos_trivial)
  have "days_before_month y m - 1 \<le> days_before_month (y + k) m"
    by (simp add: days_before_month_def)
  with days_before_year_mono [of y "y + k"] assms
  have "days_of_civil y m d + 365 * k - 1 \<le> days_of_civil (y + k) m d"
    unfolding days_of_civil_def by simp
  then have "(unix_of t div 86400 + 365 * k - 1) * 86400 + unix_of t mod 86400
      \<le> days_of_civil (y + k) m d * 86400 + unix_of t mod 86400"
    using e w by simp
  then have "unix_of t + 365 * k * 86400 - 86400
      \<le> days_of_civil (y + k) m d * 86400 + unix_of t mod 86400"
    using div_mult_mod_eq [of "unix_of t" 86400] by (simp add: algebra_simps)
  then have "(unix_of t + 365 * k * 86400 - 86400) * nanos
      \<le> (days_of_civil (y + k) m d * 86400 + unix_of t mod 86400) * nanos"
    using nanos_pos by (simp add: mult_right_mono)
  moreover have "t = unix_of t * nanos + t mod nanos" by (simp add: unix_of_def)
  ultimately show ?thesis unfolding r by (simp add: algebra_simps)
qed

lemma add_years_utc_later: "0 < k \<Longrightarrow> t < add_date utc t k 0 0"
  using add_years_utc [of k t] nanos_pos by (simp add: nanos_def)

end
