(* ===== verification/Recurrence.thy ===== *)
theory Recurrence
  imports Go_Strings Go_Time
begin

text \<open>
  \<open>internal/scheduling/recurrence.go\<close>: recurrence rules, their validation and the next occurrence
  after an instant. The time-zone database behind \<open>time.LoadLocation\<close> is the parameter \<open>load\<close>, the
  JSON decoder of \<open>ParseRecurrenceJSON\<close> the parameter \<open>decode\<close>. The \<open>for\<close> loops with a constant bound
  are \<open>search\<close> with that bound as its fuel.
\<close>

section \<open>Bounded search\<close>

fun search :: "nat \<Rightarrow> int \<Rightarrow> (int \<Rightarrow> 'a option) \<Rightarrow> 'a option" where
  "search 0 d f = None"
| "search (Suc k) d f = (case f d of Some x \<Rightarrow> Some x | None \<Rightarrow> search k (d + 1) f)"

lemma search_SomeD:
  "search k d f = Some x \<Longrightarrow> \<exists>i. d \<le> i \<and> i < d + int k \<and> f i = Some x \<and> (\<forall>j. d \<le> j \<and> j < i \<longrightarrow> f j = None)"
proof (induction k arbitrary: d)
  case (Suc k)
  show ?case
  proof (cases "f d")
    case None
    with Suc obtain i where i: "d + 1 \<le> i" "i < d + 1 + int k" "f i = Some x"
      "\<forall>j. d + 1 \<le> j \<and> j < i \<longrightarrow> f j = None" by auto
    have "f j = None" if "d \<le> j" "j < i" for j
      using that None i(4) by (cases "j = d") auto
    with i show ?thesis by (intro exI [of _ i]) auto
  next
    case (Some y)
    with Suc.prems show ?thesis by (intro exI [of _ d]) auto
  qed
qed simp

lemma search_NoneD: "search k d f = None \<Longrightarrow> d \<le> i \<Longrightarrow> i < d + int k \<Longrightarrow> f i = None"
proof (induction k arbitrary: d)
  case (Suc k)
  then show ?case by (cases "i = d") (auto split: option.splits)
qed simp

lemma search_hit:
  "(\<And>j. d \<le> j \<Longrightarrow> j < i \<Longrightarrow> f j = None) \<Longrightarrow> f i = Some x \<Longrightarrow> d \<le> i \<Longrightarrow> i < d + int k \<Longrightarrow>
     search k d f = Some x"
proof (induction k arbitrary: d)
  case (Suc k)
  show ?case
  proof (cases "d = i")
    case False
    with Suc.prems have "search k (d + 1) f = Some x" by (intro Suc.IH) simp_all
    with Suc.prems(1) [of d] Suc.prems(3) False show ?thesis by simp
  qed (simp add: Suc.prems(2))
qed simp

declare search.simps [simp del]

section \<open>Rules\<close>

record ordinal_occurrence =
  occ_ordinal :: int
  occ_weekday :: int

record recurrence_rule =
  rr_kind :: string
  rr_weekdays :: "int list"
  rr_hour :: int
  rr_minute :: int
  rr_timezone :: string
  rr_day_of_month :: int
  rr_anchor_day :: int
  rr_offset_days :: int
  rr_occurrences :: "ordinal_occurrence list"
  rr_ordinal :: int
  rr_ordinals :: "int list"
  rr_ordinal_weekday :: int

datatype rule_error =
    Rule_Nil
  | Kind_Unsupported string
  | Clock_Out_Of_Range
  | Timezone_Required
  | Timezone_Unknown string
  | Weekdays_Required
  | Weekday_Out_Of_Range
  | Day_Of_Month_Out_Of_Range
  | Anchor_Day_Out_Of_Range
  | Occurrences_Required
  | Ordinal_Out_Of_Range
  | Occurrence_Weekday_Out_Of_Range
  | Recurrence_Json_Required
  | Recurrence_Json_Malformed

definition ordinal_ok :: "int \<Rightarrow> bool" where
  "ordinal_ok ord \<longleftrightarrow> \<not> (ord < -1 \<or> ord = 0 \<or> ord > 5)"

definition weekday_ok :: "int \<Rightarrow> bool" where
  "weekday_ok wd \<longleftrightarrow> \<not> (wd < 0 \<or> wd > 6)"

definition effective_ordinals :: "recurrence_rule \<Rightarrow> int list" where
  "effective_ordinals r =
     (if rr_ordinals r \<noteq> [] then dedup (filter ordinal_ok (rr_ordinals r))
      else if rr_ordinal r \<noteq> 0 then [rr_ordinal r] else [])"

text \<open>The key \<open>fmt.Sprintf("%d:%d", ...)\<close> of the code tells two pairs apart exactly when they differ.\<close>

definition effective_ordinal_occurrences :: "recurrence_rule \<Rightarrow> ordinal_occurrence list" where
  "effective_ordinal_occurrences r =
     (if rr_occurrences r \<noteq> [] then
        dedup_by (\<lambda>o1. (occ_ordinal o1, occ_weekday o1)) []
          (filter (\<lambda>o1. ordinal_ok (occ_ordinal o1) \<and> weekday_ok (occ_weekday o1)) (rr_occurrences r))
      else map (\<lambda>ord. \<lparr>occ_ordinal = ord, occ_weekday = rr_ordinal_weekday r\<rparr>) (effective_ordinals r))"

definition validate_recurrence_rule ::
  "(string \<Rightarrow> location option) \<Rightarrow> recurrence_rule \<Rightarrow> rule_error + unit" where
  "validate_recurrence_rule load r =
     (let kind = trim_space (rr_kind r); tz = trim_space (rr_timezone r) in
      if kind \<notin> {''weekly'', ''monthly_dom'', ''monthly_anchor_offset'', ''monthly_ordinal_weekday''}
      then Inl (Kind_Unsupported kind)
      else if rr_hour r < 0 \<or> rr_hour r > 23 \<or> rr_minute r < 0 \<or> rr_minute r > 59
      then Inl Clock_Out_Of_Range
      else if tz = [] then Inl Timezone_Required
      else if load tz = None then Inl (Timezone_Unknown tz)
      else if kind = ''weekly'' then
        (if rr_weekdays r = [] then Inl Weekdays_Required
         else if list_ex (\<lambda>wd. \<not> weekday_ok wd) (rr_weekdays r) then Inl Weekday_Out_Of_Range
         else Inr ())
      else if kind = ''monthly_dom'' then
        (if rr_day_of_month r < 1 \<or> rr_day_of_month r > 31 then Inl Day_Of_Month_Out_Of_Range else Inr ())
      else if kind = ''monthly_anchor_offset'' then
        (if rr_anchor_day r < 1 \<or> rr_anchor_day r > 31 then Inl Anchor_Day_Out_Of_Range else Inr ())
      else
        (let occs = effective_ordinal_occurrences r in
         if occs = [] then Inl Occurrences_Required
         else (case find (\<lambda>o1. \<not> ordinal_ok (occ_ordinal o1) \<or> \<not> weekday_ok (occ_weekday o1)) occs of
                 Some o1 \<Rightarrow> if \<not> ordinal_ok (occ_ordinal o1) then Inl Ordinal_Out_Of_Range
                           else Inl Occurrence_Weekday_Out_Of_Range
               | None \<Rightarrow> Inr ())))"

definition parse_recurrence_json ::
  "(string \<Rightarrow> recurrence_rule option) \<Rightarrow> (string \<Rightarrow> location option) \<Rightarrow> string \<Rightarrow> rule_error + recurrence_rule" where
  "parse_recurrence_json decode load raw =
     (let raw' = trim_space raw in
      if raw' = [] then Inl Recurrence_Json_Required
      else (case decode raw' of
              None \<Rightarrow> Inl Recurrence_Json_Malformed
            | Some r \<Rightarrow> (case validate_recurrence_rule load r of
                           Inl e \<Rightarrow> Inl e | Inr _ \<Rightarrow> Inr r)))"

section \<open>The next occurrence\<close>

definition load_location :: "(string \<Rightarrow> location option) \<Rightarrow> string \<Rightarrow> location" where
  "load_location load tz = (case load (trim_space tz) of None \<Rightarrow> utc | Some loc \<Rightarrow> loc)"

text \<open>\<open>daysInMonth\<close>: noon of day 0 of the next month.\<close>

definition days_in_month_go :: "int \<Rightarrow> int \<Rightarrow> int" where
  "days_in_month_go year month =
     (case civil_of utc (time_date utc year (month + 1) 0 12 0 0 0) of (_, _, d) \<Rightarrow> d)"

definition weekly_try :: "recurrence_rule \<Rightarrow> instant \<Rightarrow> location \<Rightarrow> instant \<Rightarrow> int \<Rightarrow> instant option" where
  "weekly_try rule ref loc day_start d =
     (let cur = add_date loc day_start 0 0 d in
      if weekday_of loc cur \<notin> set (rr_weekdays rule) then None
      else (case civil_of loc cur of (y, m, dd) \<Rightarrow>
              let inst = time_date loc y m dd (rr_hour rule) (rr_minute rule) 0 0
              in if ref < inst then Some inst else None))"

definition next_weekly :: "recurrence_rule \<Rightarrow> instant \<Rightarrow> location \<Rightarrow> instant" where
  "next_weekly rule after loc =
     (case civil_of loc after of (y, m, d) \<Rightarrow>
        let day_start = time_date loc y m d 0 0 0 0 in
        case search 800 0 (weekly_try rule after loc day_start) of
          Some inst \<Rightarrow> inst
        | None \<Rightarrow> add_date utc after 2 0 0)"

definition monthly_dom_try :: "recurrence_rule \<Rightarrow> instant \<Rightarrow> location \<Rightarrow> int \<Rightarrow> int \<Rightarrow> int \<Rightarrow> instant option" where
  "monthly_dom_try rule ref loc y mo i =
     (case civil_of loc (add_date loc (time_date loc y mo 1 0 0 0 0) 0 i 0) of (yy, mm, _) \<Rightarrow>
        let maxd = days_in_month_go yy mm;
            dom = (if rr_day_of_month rule > maxd then maxd else rr_day_of_month rule);
            inst = time_date loc yy mm dom (rr_hour rule) (rr_minute rule) 0 0
        in if ref < inst then Some inst else None)"

definition next_monthly_dom :: "recurrence_rule \<Rightarrow> instant \<Rightarrow> location \<Rightarrow> instant" where
  "next_monthly_dom rule after loc =
     (case civil_of loc after of (y, mo, _) \<Rightarrow>
        case search 120 0 (monthly_dom_try rule after loc y mo) of
          Some inst \<Rightarrow> inst
        | None \<Rightarrow> add_date utc after 10 0 0)"

definition monthly_anchor_try :: "recurrence_rule \<Rightarrow> instant \<Rightarrow> location \<Rightarrow> int \<Rightarrow> int \<Rightarrow> int \<Rightarrow> instant option" where
  "monthly_anchor_try rule ref loc y mo i =
     (case civil_of loc (add_date loc (time_date loc y mo 1 0 0 0 0) 0 i 0) of (yy, mm, _) \<Rightarrow>
        let maxd = days_in_month_go yy mm;
            raw = wrap64 (rr_anchor_day rule + rr_offset_days rule);
            day1 = (if raw < 1 then 1 else raw);
            day = (if day1 > maxd then maxd else day1);
            inst = time_date loc yy mm day (rr_hour rule) (rr_minute rule) 0 0
        in if ref < inst then Some inst else None)"

definition next_monthly_anchor_offset :: "recurrence_rule \<Rightarrow> instant \<Rightarrow> location \<Rightarrow> instant" where
  "next_monthly_anchor_offset rule after loc =
     (case civil_of loc after of (y, mo, _) \<Rightarrow>
        case search 120 0 (monthly_anchor_try rule after loc y mo) of
          Some inst \<Rightarrow> inst
        | None \<Rightarrow> add_date utc after 10 0 0)"

text \<open>The loop of \<open>ordinalWeekdayDay\<close> for the last weekday, going down from the given day.\<close>

fun last_weekday_day :: "location \<Rightarrow> int \<Rightarrow> int \<Rightarrow> int \<Rightarrow> nat \<Rightarrow> int option" where
  "last_weekday_day loc year month weekday 0 = None"
| "last_weekday_day loc year month weekday (Suc k) =
     (if weekday_of loc (time_date loc year month (int (Suc k)) 0 0 0 0) = weekday
      then Some (int (Suc k)) else last_weekday_day loc year month weekday k)"

text \<open>Go's \<open>%\<close> is taken of a sum that is never negative for weekdays from 0 to 6.\<close>

definition ordinal_weekday_day :: "int \<Rightarrow> int \<Rightarrow> int \<Rightarrow> int \<Rightarrow> location \<Rightarrow> int option" where
  "ordinal_weekday_day year month ordinal weekday loc =
     (let maxd = days_in_month_go year month in
      if ordinal = -1 then last_weekday_day loc year month weekday (nat maxd)
      else (let first = weekday_of loc (time_date loc year month 1 0 0 0 0);
                offset = (weekday - first + 7) mod 7;
                day = 1 + offset + (ordinal - 1) * 7
            in if day < 1 \<or> day > maxd then None else Some day))"

fun earliest_occurrence ::
  "recurrence_rule \<Rightarrow> instant \<Rightarrow> location \<Rightarrow> int \<Rightarrow> int \<Rightarrow> instant option \<Rightarrow> ordinal_occurrence list \<Rightarrow> instant option" where
  "earliest_occurrence rule ref loc yy mm best [] = best"
| "earliest_occurrence rule ref loc yy mm best (o1 # os) =
     earliest_occurrence rule ref loc yy mm
       (case ordinal_weekday_day yy mm (occ_ordinal o1) (occ_weekday o1) loc of
          None \<Rightarrow> best
        | Some day \<Rightarrow>
            let inst = time_date loc yy mm day (rr_hour rule) (rr_minute rule) 0 0
            in if ref < inst \<and> (case best of None \<Rightarrow> True | Some e \<Rightarrow> inst < e) then Some inst else best)
       os"

definition monthly_ordinal_try :: "recurrence_rule \<Rightarrow> instant \<Rightarrow> location \<Rightarrow> int \<Rightarrow> int \<Rightarrow> int \<Rightarrow> instant option" where
  "monthly_ordinal_try rule ref loc y mo i =
     (case civil_of loc (add_date loc (time_date loc y mo 1 0 0 0 0) 0 i 0) of (yy, mm, _) \<Rightarrow>
        earliest_occurrence rule ref loc yy mm None (effective_ordinal_occurrences rule))"

definition next_monthly_ordinal_weekday :: "recurrence_rule \<Rightarrow> instant \<Rightarrow> location \<Rightarrow> instant" where
  "next_monthly_ordinal_weekday rule after loc =
     (case civil_of loc after of (y, mo, _) \<Rightarrow>
        case search 120 0 (monthly_ordinal_try rule after loc y mo) of
          Some inst \<Rightarrow> inst
        | None \<Rightarrow> add_date utc after 10 0 0)"

definition next_occurrence ::
  "(string \<Rightarrow> location option) \<Rightarrow> recurrence_rule option \<Rightarrow> instant \<Rightarrow> rule_error + instant" where
  "next_occurrence load rule after =
     (case rule of None \<Rightarrow> Inl Rule_Nil
      | Some r \<Rightarrow>
        (case validate_recurrence_rule load r of
           Inl e \<Rightarrow> Inl e
         | Inr _ \<Rightarrow>
             (let loc = load_location load (rr_timezone r); kind = trim_space (rr_kind r) in
              if kind = ''weekly'' then Inr (next_weekly r after loc)
              else if kind = ''monthly_dom'' then Inr (next_monthly_dom r after loc)
              else if kind = ''monthly_anchor_offset'' then Inr (next_monthly_anchor_offset r after loc)
              else if kind = ''monthly_ordinal_weekday'' then Inr (next_monthly_ordinal_weekday r after loc)
              else Inl (Kind_Unsupported (rr_kind r)))))"

section \<open>Progress in every location\<close>

lemma earliest_occurrence_after:
  "earliest_occurrence rule ref loc yy mm best os = Some t \<Longrightarrow> (\<And>b. best = Some b \<Longrightarrow> ref < b) \<Longrightarrow> ref < t"
proof (induction os arbitrary: best)
  case Nil
  then show ?case by simp
next
  case (Cons o1 os)
  show ?case
    by (rule Cons.IH [OF Cons.prems(1) [simplified]])
      (auto simp: Let_def Cons.prems(2) split: option.splits if_splits)
qed

lemma tries_after:
  "weekly_try rule ref loc day_start d = Some t \<Longrightarrow> ref < t"
  "monthly_dom_try rule ref loc y mo i = Some t \<Longrightarrow> ref < t"
  "monthly_anchor_try rule ref loc y mo i = Some t \<Longrightarrow> ref < t"
  "monthly_ordinal_try rule ref loc y mo i = Some t \<Longrightarrow> ref < t"
  by (auto simp: weekly_try_def monthly_dom_try_def monthly_anchor_try_def monthly_ordinal_try_def Let_def
      dest: earliest_occurrence_after split: prod.splits if_splits)

lemma next_after:
  "after < next_weekly rule after loc" "after < next_monthly_dom rule after loc"
  "after < next_monthly_anchor_offset rule after loc" "after < next_monthly_ordinal_weekday rule after loc"
  using add_years_utc_later [of 2 after] add_years_utc_later [of 10 after]
  by (auto simp: next_weekly_def next_monthly_dom_def next_monthly_anchor_offset_def Let_def
      next_monthly_ordinal_weekday_def dest!: search_SomeD tries_after split: prod.splits option.splits)

lemma next_occurrence_after_aux:
  "next_occurrence load rule after = Inr t \<Longrightarrow> after < t"
  by (auto simp: next_occurrence_def Let_def next_after split: option.splits sum.splits if_splits)

lemma validate_kind:
  "validate_recurrence_rule load r = Inr () \<Longrightarrow>
     trim_space (rr_kind r) \<in> {''weekly'', ''monthly_dom'', ''monthly_anchor_offset'', ''monthly_ordinal_weekday''}"
  by (auto simp: validate_recurrence_rule_def Let_def split: if_splits)

lemma next_occurrence_valid:
  "validate_recurrence_rule load r = Inr () \<Longrightarrow> \<exists>t. next_occurrence load (Some r) after = Inr t"
  using validate_kind [of load r] by (auto simp: next_occurrence_def Let_def)

section \<open>Locations with a fixed offset\<close>

text \<open>The wall-clock second of day \<open>n\<close> at a time of day, as an instant of the fixed-offset location.\<close>

definition slot_at :: "int \<Rightarrow> recurrence_rule \<Rightarrow> int \<Rightarrow> instant" where
  "slot_at off r n = (n * 86400 + rr_hour r * 3600 + rr_minute r * 60 - off) * nanos"

definition clock_ok :: "recurrence_rule \<Rightarrow> bool" where
  "clock_ok r \<longleftrightarrow> 0 \<le> rr_hour r \<and> rr_hour r \<le> 23 \<and> 0 \<le> rr_minute r \<and> rr_minute r \<le> 59"

definition on_clock :: "location \<Rightarrow> recurrence_rule \<Rightarrow> instant \<Rightarrow> bool" where
  "on_clock loc r t \<longleftrightarrow> clock_of loc t = (rr_hour r, rr_minute r, 0) \<and> t mod nanos = 0"

lemma validate_clock: "validate_recurrence_rule load r = Inr () \<Longrightarrow> clock_ok r"
  by (auto simp: validate_recurrence_rule_def clock_ok_def Let_def split: if_splits)

lemma validate_zone: "validate_recurrence_rule load r = Inr () \<Longrightarrow>
    load_location load (rr_timezone r) = the (load (trim_space (rr_timezone r)))"
  by (auto simp: validate_recurrence_rule_def load_location_def Let_def split: if_splits option.splits)

lemma norm_month: "1 \<le> mo \<Longrightarrow> mo \<le> 12 \<Longrightarrow> (mo - 1) div 12 = 0 \<and> (mo - 1) mod 12 + 1 = (mo :: int)"
  by simp

lemma time_date_fixed:
  assumes "1 \<le> mo" "mo \<le> 12"
  shows "time_date (fixed_zone off) y mo d h mi s 0 =
    (days_of_civil y mo d * 86400 + h * 3600 + mi * 60 + s - off) * nanos"
  using norm_month [OF assms] by (simp add: time_date_def Let_def zone_adjust_fixed)

lemma wall_slot: "wall (fixed_zone off) ((w - off) * nanos) = w"
  by (simp add: wall_fixed)

lemma day_split:
  fixes h mi :: int
  assumes "0 \<le> h" "h \<le> 23" "0 \<le> mi" "mi \<le> 59"
  shows "(n * 86400 + h * 3600 + mi * 60) div 86400 = n"
    "(n * 86400 + h * 3600 + mi * 60) mod 86400 = h * 3600 + mi * 60"
    "(h * 3600 + mi * 60) div 3600 = h" "(h * 3600 + mi * 60) mod 3600 = mi * 60"
  using assms by (auto intro!: int_div_pos_eq int_mod_pos_eq)

lemma slot_at_wall:
  assumes "clock_ok r"
  shows "wall (fixed_zone off) (slot_at off r n) div 86400 = n"
    and "on_clock (fixed_zone off) r (slot_at off r n)"
proof -
  have w: "wall (fixed_zone off) (slot_at off r n) = n * 86400 + rr_hour r * 3600 + rr_minute r * 60"
    unfolding slot_at_def by (rule wall_slot)
  note split = day_split [of "rr_hour r" "rr_minute r"]
  have c: "0 \<le> rr_hour r" "rr_hour r \<le> 23" "0 \<le> rr_minute r" "rr_minute r \<le> 59"
    using assms by (simp_all add: clock_ok_def)
  show "wall (fixed_zone off) (slot_at off r n) div 86400 = n"
    unfolding w by (rule split(1) [OF c])
  have "(rr_hour r * 3600 + rr_minute r * 60) mod 60 = 0"
  proof -
    have "rr_hour r * 3600 + rr_minute r * 60 = 60 * (rr_hour r * 60 + rr_minute r)" by simp
    then show ?thesis by (metis mod_mult_self1_is_0)
  qed
  then have "clock_of (fixed_zone off) (slot_at off r n) = (rr_hour r, rr_minute r, 0)"
    unfolding clock_of_def Let_def w split(2) [OF c] split(3,4) [OF c] by simp
  then show "on_clock (fixed_zone off) r (slot_at off r n)"
    by (simp add: on_clock_def slot_at_def)
qed

lemma on_clock_slot:
  assumes "on_clock (fixed_zone off) r t"
  shows "t = slot_at off r (wall (fixed_zone off) t div 86400)"
proof -
  let ?w = "wall (fixed_zone off) t"
  have "rr_hour r * 3600 + rr_minute r * 60 + 0 = ?w mod 86400"
    using assms by (intro clock_secs) (simp add: on_clock_def)
  then have "?w div 86400 * 86400 + rr_hour r * 3600 + rr_minute r * 60 = ?w"
    using div_mult_mod_eq [of ?w 86400] by linarith
  then have "(?w div 86400 * 86400 + rr_hour r * 3600 + rr_minute r * 60 - off) * nanos = unix_of t * nanos"
    by (simp add: wall_fixed)
  moreover have "unix_of t * nanos = t"
    using assms div_mult_mod_eq [of t nanos] by (simp add: on_clock_def unix_of_def)
  ultimately show ?thesis by (simp add: slot_at_def)
qed

lemma slot_at_less: "slot_at off r n < slot_at off r n' \<longleftrightarrow> n < n'"
  using nanos_pos by (simp add: slot_at_def)

lemma wall_day_mono:
  "t \<le> t' \<Longrightarrow> wall (fixed_zone off) t div 86400 \<le> wall (fixed_zone off) t' div 86400"
  using nanos_pos unfolding wall_fixed unix_of_def by (intro zdiv_mono1 add_right_mono) simp_all

lemma before_next_day:
  assumes "clock_ok r" "wall (fixed_zone off) t div 86400 < n"
  shows "t < slot_at off r n"
proof (rule ccontr)
  assume "\<not> t < slot_at off r n"
  then have "wall (fixed_zone off) (slot_at off r n) div 86400 \<le> wall (fixed_zone off) t div 86400"
    by (intro wall_day_mono) simp
  with assms slot_at_wall(1) show False by simp
qed

lemma civil_of_month: "civil_of loc t = (y, m, d) \<Longrightarrow> 1 \<le> m \<and> m \<le> 12"
  using civil_of_days_valid by (auto simp: civil_of_def valid_date_def)

section \<open>Weekly rules\<close>

lemma midnight_fixed:
  assumes "civil_of (fixed_zone off) t = (y, m, d)"
  shows "add_date (fixed_zone off) (time_date (fixed_zone off) y m d 0 0 0 0) 0 0 j =
    ((wall (fixed_zone off) t div 86400 + j) * 86400 - off) * nanos"
proof -
  let ?D = "wall (fixed_zone off) t div 86400"
  from assms have v: "valid_date y m d" and e: "days_of_civil y m d = ?D"
    using civil_of_days_valid by (auto simp: civil_of_def)
  from v have m: "1 \<le> m" "m \<le> 12" by (simp_all add: valid_date_def)
  have t0: "time_date (fixed_zone off) y m d 0 0 0 0 = (?D * 86400 - off) * nanos"
    using time_date_fixed [OF m, of off y d 0 0 0] e by simp
  have w: "wall (fixed_zone off) ((?D * 86400 - off) * nanos) = ?D * 86400" by (rule wall_slot)
  have c: "civil_of (fixed_zone off) ((?D * 86400 - off) * nanos) = (y, m, d)"
    using assms by (simp add: civil_of_def w)
  have k: "clock_of (fixed_zone off) ((?D * 86400 - off) * nanos) = (0, 0, 0)"
    by (simp add: clock_of_def w)
  have "days_of_civil y m (d + j) = ?D + j" using e by (simp add: days_of_civil_def)
  then show ?thesis
    using time_date_fixed [OF m, of off y "d + j" 0 0 0] by (simp add: t0 add_date_def c k)
qed

lemma weekly_try_fixed:
  assumes "civil_of (fixed_zone off) after = (y, m, d)"
  shows "weekly_try r after (fixed_zone off) (time_date (fixed_zone off) y m d 0 0 0 0) j =
    (let n = wall (fixed_zone off) after div 86400 + j in
     if weekday_of_days n \<in> set (rr_weekdays r) \<and> after < slot_at off r n then Some (slot_at off r n) else None)"
proof -
  define n where "n = wall (fixed_zone off) after div 86400 + j"
  have w: "wall (fixed_zone off) ((n * 86400 - off) * nanos) div 86400 = n"
    unfolding wall_slot by simp
  obtain y' m' d' where c: "civil_of_days n = (y', m', d')" by (metis prod_cases3)
  from civil_of_days_valid [OF c] have m': "1 \<le> m'" "m' \<le> 12" and e: "days_of_civil y' m' d' = n"
    by (simp_all add: valid_date_def)
  have t: "time_date (fixed_zone off) y' m' d' (rr_hour r) (rr_minute r) 0 0 = slot_at off r n"
    using time_date_fixed [OF m', of off y' d' "rr_hour r" "rr_minute r" 0]
    by (simp add: slot_at_def e)
  have "weekday_of (fixed_zone off) ((n * 86400 - off) * nanos) = weekday_of_days n"
    "civil_of (fixed_zone off) ((n * 86400 - off) * nanos) = (y', m', d')"
    unfolding weekday_of_def civil_of_def w c by simp_all
  then show ?thesis
    by (simp only: weekly_try_def midnight_fixed [OF assms] n_def [symmetric] t Let_def prod.case) simp
qed

definition weekly_slot :: "location \<Rightarrow> recurrence_rule \<Rightarrow> instant \<Rightarrow> bool" where
  "weekly_slot loc r t \<longleftrightarrow> weekday_of loc t \<in> set (rr_weekdays r) \<and> on_clock loc r t"

lemma weekly_slot_iff:
  assumes "clock_ok r"
  shows "weekly_slot (fixed_zone off) r t \<longleftrightarrow>
    (\<exists>n. t = slot_at off r n \<and> weekday_of_days n \<in> set (rr_weekdays r))"
proof
  assume "weekly_slot (fixed_zone off) r t"
  then show "\<exists>n. t = slot_at off r n \<and> weekday_of_days n \<in> set (rr_weekdays r)"
    using on_clock_slot [of off r t]
    by (intro exI [of _ "wall (fixed_zone off) t div 86400"]) (simp add: weekly_slot_def weekday_of_def)
next
  assume "\<exists>n. t = slot_at off r n \<and> weekday_of_days n \<in> set (rr_weekdays r)"
  then show "weekly_slot (fixed_zone off) r t"
    using slot_at_wall [OF assms] by (auto simp: weekly_slot_def weekday_of_def)
qed

lemma weekday_within_week:
  assumes "0 \<le> wd" "wd \<le> 6"
  shows "\<exists>j. 1 \<le> j \<and> j \<le> 7 \<and> weekday_of_days (n + j) = wd"
proof -
  define j where "j = (wd - (n + 1 + 4)) mod 7 + 1"
  have "(n + j + 4) mod 7 = (n + 1 + 4 + (wd - (n + 1 + 4)) mod 7) mod 7"
    by (simp add: j_def algebra_simps)
  also have "\<dots> = wd mod 7" by (simp add: mod_add_right_eq)
  finally have "weekday_of_days (n + j) = wd" using assms by (simp add: weekday_of_days_def)
  moreover have "1 \<le> j" "j \<le> 7"
    using pos_mod_sign [of 7 "wd - (n + 1 + 4)"] pos_mod_bound [of 7 "wd - (n + 1 + 4)"]
    by (simp_all add: j_def)
  ultimately show ?thesis by blast
qed

lemma next_weekly_fixed:
  assumes c: "clock_ok r" and wd: "rr_weekdays r \<noteq> []" "list_all weekday_ok (rr_weekdays r)"
  shows "weekly_slot (fixed_zone off) r (next_weekly r after (fixed_zone off)) \<and>
    after < next_weekly r after (fixed_zone off) \<and>
    (\<forall>t. weekly_slot (fixed_zone off) r t \<and> after < t \<longrightarrow> next_weekly r after (fixed_zone off) \<le> t)"
proof -
  obtain y m d where civ: "civil_of (fixed_zone off) after = (y, m, d)" by (metis prod_cases3)
  let ?N = "wall (fixed_zone off) after div 86400"
  let ?attempt = "weekly_try r after (fixed_zone off) (time_date (fixed_zone off) y m d 0 0 0 0)"
  note step = weekly_try_fixed [OF civ, of r, unfolded Let_def]
  from wd have "hd (rr_weekdays r) \<in> set (rr_weekdays r)" "weekday_ok (hd (rr_weekdays r))"
    by (auto simp: list_all_iff)
  then obtain j where j: "1 \<le> j" "j \<le> 7" "weekday_of_days (?N + j) \<in> set (rr_weekdays r)"
    using weekday_within_week [of "hd (rr_weekdays r)" ?N] by (auto simp: weekday_ok_def)
  have "?attempt j \<noteq> None" using before_next_day [OF c, of off after "?N + j"] j by (simp add: step)
  then have "search 800 0 ?attempt \<noteq> None" using search_NoneD [of 800 0 ?attempt j] j by linarith
  then obtain inst where s: "search 800 0 ?attempt = Some inst" by (meson option.exhaust)
  from search_SomeD [OF s] obtain i where i: "0 \<le> i" "?attempt i = Some inst"
    and least: "\<forall>j. 0 \<le> j \<and> j < i \<longrightarrow> ?attempt j = None" by auto
  have nx: "next_weekly r after (fixed_zone off) = inst"
    by (simp add: next_weekly_def civ s)
  from i(2) have inst: "inst = slot_at off r (?N + i)" "after < inst"
    "weekday_of_days (?N + i) \<in> set (rr_weekdays r)" by (auto simp: step split: if_splits)
  have "inst \<le> t" if "weekly_slot (fixed_zone off) r t" "after < t" for t
  proof (rule ccontr)
    assume "\<not> inst \<le> t"
    from that(1) [unfolded weekly_slot_iff [OF c]]
    obtain n where n: "t = slot_at off r n" "weekday_of_days n \<in> set (rr_weekdays r)"
      by (elim exE conjE)
    have "?N \<le> n" using wall_day_mono [of after t off] that(2) slot_at_wall(1) [OF c] by (simp add: n)
    moreover have "n < ?N + i" using \<open>\<not> inst \<le> t\<close> by (simp add: inst n not_le slot_at_less)
    ultimately have "?attempt (n - ?N) = None" using least by simp
    then show False using n that(2) by (simp add: step)
  qed
  moreover have "weekly_slot (fixed_zone off) r inst" using inst weekly_slot_iff [OF c] by blast
  ultimately show ?thesis using inst(2) by (simp add: nx)
qed

section \<open>Monthly rules\<close>

lemma days_in_month_go_eq:
  assumes "1 \<le> mm" "mm \<le> 12"
  shows "days_in_month_go yy mm = days_in_month yy mm"
proof -
  have v: "valid_date yy mm (days_in_month yy mm)"
    using assms days_in_month_range [of yy mm] by (simp add: valid_date_def)
  have "days_of_civil (yy + (mm + 1 - 1) div 12) ((mm + 1 - 1) mod 12 + 1) 0 =
      days_of_civil yy mm (days_in_month yy mm)"
  proof (cases "mm = 12")
    case True
    then show ?thesis
      using days_before_year_Suc [of yy] days_before_month_12 [of yy]
      by (simp add: days_of_civil_def days_before_month_def [of "yy + 1" 1])
  next
    case False
    then show ?thesis
      using assms days_before_month_Suc [of mm yy] by (simp add: days_of_civil_def)
  qed
  then have t: "time_date utc yy (mm + 1) 0 12 0 0 0 =
      (days_of_civil yy mm (days_in_month yy mm) * 86400 + 12 * 3600 - 0) * nanos"
    by (simp add: time_date_def Let_def)
  have "civil_of utc (time_date utc yy (mm + 1) 0 12 0 0 0) = (yy, mm, days_in_month yy mm)"
    unfolding t unfolding civil_of_def utc_def wall_slot using civil_of_days_of_civil [OF v]
    by (simp add: int_div_pos_eq [of _ 86400 _ 43200])
  then show ?thesis by (simp add: days_in_month_go_def)
qed

definition month_plus :: "int \<Rightarrow> int \<Rightarrow> int \<Rightarrow> int \<times> int" where
  "month_plus y mo i = (y + (mo - 1 + i) div 12, (mo - 1 + i) mod 12 + 1)"

lemma month_plus_range: "month_plus y mo i = (yy, mm) \<Longrightarrow> 1 \<le> mm \<and> mm \<le> 12"
  using pos_mod_sign [of 12 "mo - 1 + i"] pos_mod_bound [of 12 "mo - 1 + i"]
  by (auto simp: month_plus_def)

lemma month_plus_index: "month_plus y mo i = (yy, mm) \<Longrightarrow> 12 * yy + mm = 12 * y + mo + i"
  using mult_div_mod_eq [of 12 "mo - 1 + i"] by (auto simp: month_plus_def algebra_simps)

lemma month_plus_other:
  assumes "1 \<le> mm" "mm \<le> 12"
  shows "month_plus y mo (12 * yy + mm - (12 * y + mo)) = (yy, mm)"
proof -
  obtain y' m' where p: "month_plus y mo (12 * yy + mm - (12 * y + mo)) = (y', m')" by (metis surj_pair)
  note e = month_plus_index [OF p] and r = month_plus_range [OF p]
  have "\<not> y' < yy" "\<not> yy < y'" using e r assms by linarith+
  then have "y' = yy" by simp
  moreover from this e have "m' = mm" by simp
  ultimately show ?thesis using p by simp
qed

lemma civil_first_of_month:
  assumes "1 \<le> mo" "mo \<le> 12"
  shows "civil_of (fixed_zone off) (add_date (fixed_zone off) (time_date (fixed_zone off) y mo 1 0 0 0 0) 0 i 0) =
    (case month_plus y mo i of (yy, mm) \<Rightarrow> (yy, mm, 1))"
proof -
  define t0 where "t0 = time_date (fixed_zone off) y mo 1 0 0 0 0"
  have v: "valid_date y mo 1"
    using assms days_in_month_range [of y mo] by (simp add: valid_date_def)
  have t: "t0 = (days_of_civil y mo 1 * 86400 - off) * nanos"
    unfolding t0_def using time_date_fixed [OF assms, of off y 1 0 0 0] by simp
  have w: "wall (fixed_zone off) t0 = days_of_civil y mo 1 * 86400" unfolding t by (rule wall_slot)
  have c: "civil_of (fixed_zone off) t0 = (y, mo, 1)"
    unfolding civil_of_def w by (simp add: civil_of_days_of_civil [OF v])
  have k: "clock_of (fixed_zone off) t0 = (0, 0, 0)" unfolding clock_of_def w by simp
  obtain yy mm where p: "month_plus y mo i = (yy, mm)" by (metis surj_pair)
  then have e: "y + (mo + i - 1) div 12 = yy" "(mo + i - 1) mod 12 + 1 = mm"
    by (simp_all add: month_plus_def algebra_simps)
  have v': "valid_date yy mm 1"
    using month_plus_range [OF p] days_in_month_range [of yy mm] by (simp add: valid_date_def)
  have "t0 mod nanos = 0" by (simp add: t)
  then have "add_date (fixed_zone off) t0 0 i 0 = (days_of_civil yy mm 1 * 86400 - off) * nanos"
    by (simp add: add_date_def c k time_date_def Let_def e zone_adjust_fixed)
  then show ?thesis
    unfolding t0_def [symmetric] by (simp add: p civil_of_def wall_slot civil_of_days_of_civil [OF v'])
qed

definition monthly_slot :: "(int \<Rightarrow> int \<Rightarrow> int) \<Rightarrow> location \<Rightarrow> recurrence_rule \<Rightarrow> instant \<Rightarrow> bool" where
  "monthly_slot pick loc r t \<longleftrightarrow> (case civil_of loc t of (y, m, d) \<Rightarrow> d = pick y m) \<and> on_clock loc r t"

lemma civil_of_slot:
  "clock_ok r \<Longrightarrow> valid_date y m d \<Longrightarrow> civil_of (fixed_zone off) (slot_at off r (days_of_civil y m d)) = (y, m, d)"
  unfolding civil_of_def slot_at_wall(1) by (rule civil_of_days_of_civil)

lemma month_index_less:
  assumes "valid_date y m d" "valid_date y' m' d'" "12 * y + m < 12 * y' + m'"
  shows "days_of_civil y m d < days_of_civil y' m' d'"
  using assms by (intro days_of_civil_less) (auto simp: valid_date_def)

lemma next_monthly_fixed:
  assumes c: "clock_ok r" and civ: "civil_of (fixed_zone off) after = (y, mo, d)"
    and pick: "\<And>yy mm. 1 \<le> mm \<Longrightarrow> mm \<le> 12 \<Longrightarrow> 1 \<le> pick yy mm \<and> pick yy mm \<le> days_in_month yy mm"
    and f: "\<And>i. f i = (case month_plus y mo i of (yy, mm) \<Rightarrow>
      let t = slot_at off r (days_of_civil yy mm (pick yy mm)) in if after < t then Some t else None)"
  shows "\<exists>inst. search 120 0 f = Some inst \<and> monthly_slot pick (fixed_zone off) r inst \<and> after < inst \<and>
    (\<forall>t. monthly_slot pick (fixed_zone off) r t \<and> after < t \<longrightarrow> inst \<le> t)"
proof -
  have vd: "valid_date yy mm (pick yy mm)" if "month_plus y mo i = (yy, mm)" for i yy mm
    using month_plus_range [OF that] pick by (simp add: valid_date_def)
  have N: "days_of_civil y mo d = wall (fixed_zone off) after div 86400" and va: "valid_date y mo d"
    using civ civil_of_days_valid by (auto simp: civil_of_def)
  obtain y1 m1 where p1: "month_plus y mo 1 = (y1, m1)" by (metis surj_pair)
  have "days_of_civil y mo d < days_of_civil y1 m1 (pick y1 m1)"
    using month_index_less [OF va vd [OF p1]] month_plus_index [OF p1] by simp
  then have "f 1 \<noteq> None"
    using before_next_day [OF c, of off after "days_of_civil y1 m1 (pick y1 m1)"] N
    by (simp add: f p1 Let_def)
  then have "search 120 0 f \<noteq> None" using search_NoneD [of 120 0 f 1] by linarith
  then obtain inst where s: "search 120 0 f = Some inst" by (meson option.exhaust)
  from search_SomeD [OF s] obtain i where i: "0 \<le> i" "f i = Some inst"
    and least: "\<forall>j. 0 \<le> j \<and> j < i \<longrightarrow> f j = None" by auto
  obtain yi mi where pi: "month_plus y mo i = (yi, mi)" by (metis surj_pair)
  from i(2) have inst: "inst = slot_at off r (days_of_civil yi mi (pick yi mi))" "after < inst"
    by (auto simp: f pi Let_def split: if_splits)
  have slot: "monthly_slot pick (fixed_zone off) r inst"
    unfolding monthly_slot_def inst(1) civil_of_slot [OF c vd [OF pi]] using slot_at_wall(2) [OF c] by simp
  have "inst \<le> t" if t: "monthly_slot pick (fixed_zone off) r t" "after < t" for t
  proof (rule ccontr)
    assume neg: "\<not> inst \<le> t"
    obtain yt mt dt where ct: "civil_of (fixed_zone off) t = (yt, mt, dt)" by (metis prod_cases3)
    from civil_of_days_valid [OF ct [unfolded civil_of_def]]
    have vt: "valid_date yt mt dt" and Nt: "days_of_civil yt mt dt = wall (fixed_zone off) t div 86400" by simp_all
    have dt: "dt = pick yt mt" using t(1) by (simp add: monthly_slot_def ct)
    have ts: "t = slot_at off r (days_of_civil yt mt dt)"
      unfolding Nt by (rule on_clock_slot) (use t(1) in \<open>simp add: monthly_slot_def\<close>)
    have mt: "1 \<le> mt" "mt \<le> 12" using vt by (simp_all add: valid_date_def)
    let ?j = "12 * yt + mt - (12 * y + mo)"
    note pj = month_plus_other [OF mt, of y mo yt]
    have "days_of_civil y mo d \<le> days_of_civil yt mt dt"
      using wall_day_mono [of after t off] t(2) by (simp add: N Nt)
    then have "0 \<le> ?j" using month_index_less [OF vt va] by (meson diff_ge_0_iff_ge leD le_less_linear)
    moreover have "\<not> i \<le> ?j"
    proof
      assume "i \<le> ?j"
      then have "?j = i \<or> i < ?j" by linarith
      moreover have "?j \<noteq> i" using neg pj pi by (auto simp: inst(1) ts dt)
      moreover have "\<not> i < ?j"
      proof
        assume "i < ?j"
        then have "12 * yi + mi < 12 * yt + mt" using month_plus_index [OF pi] by linarith
        from month_index_less [OF vd [OF pi] vt this] neg show False
          by (simp add: inst(1) ts not_le slot_at_less)
      qed
      ultimately show False by blast
    qed
    ultimately have "f ?j = None" using least by simp
    then show False using t(2) ts dt by (simp add: f pj Let_def)
  qed
  with s slot inst(2) show ?thesis by blast
qed

definition clamped_day :: "int \<Rightarrow> int \<Rightarrow> int \<Rightarrow> int" where
  "clamped_day day y m = min (max 1 day) (days_in_month y m)"

lemma clamped_day_range: "1 \<le> clamped_day day y m \<and> clamped_day day y m \<le> days_in_month y m"
  using days_in_month_range [of y m] by (simp add: clamped_day_def)

lemma monthly_tries_fixed:
  assumes mo: "1 \<le> mo" "mo \<le> 12" and day: "1 \<le> rr_day_of_month r"
  shows "monthly_dom_try r after (fixed_zone off) y mo i = (case month_plus y mo i of (yy, mm) \<Rightarrow>
      let t = slot_at off r (days_of_civil yy mm (clamped_day (rr_day_of_month r) yy mm))
      in if after < t then Some t else None)"
    and "monthly_anchor_try r after (fixed_zone off) y mo i = (case month_plus y mo i of (yy, mm) \<Rightarrow>
      let t = slot_at off r (days_of_civil yy mm
                (clamped_day (wrap64 (rr_anchor_day r + rr_offset_days r)) yy mm))
      in if after < t then Some t else None)"
proof -
  obtain yy mm where p: "month_plus y mo i = (yy, mm)" by (metis surj_pair)
  note m = month_plus_range [OF p]
  have t: "time_date (fixed_zone off) yy mm day (rr_hour r) (rr_minute r) 0 0 =
      slot_at off r (days_of_civil yy mm day)" for day
    using time_date_fixed [of mm off yy day "rr_hour r" "rr_minute r" 0] m by (simp add: slot_at_def)
  note simps = Let_def civil_first_of_month [OF mo] p t days_in_month_go_eq m clamped_day_def
  show "monthly_dom_try r after (fixed_zone off) y mo i = (case month_plus y mo i of (yy, mm) \<Rightarrow>
      let t = slot_at off r (days_of_civil yy mm (clamped_day (rr_day_of_month r) yy mm))
      in if after < t then Some t else None)"
    using day by (auto simp: monthly_dom_try_def simps min_def max_def)
  show "monthly_anchor_try r after (fixed_zone off) y mo i = (case month_plus y mo i of (yy, mm) \<Rightarrow>
      let t = slot_at off r (days_of_civil yy mm
                (clamped_day (wrap64 (rr_anchor_day r + rr_offset_days r)) yy mm))
      in if after < t then Some t else None)"
    using days_in_month_range [of yy mm] by (auto simp: monthly_anchor_try_def simps min_def max_def)
qed

section \<open>Ordinal weekdays\<close>

text \<open>What \<open>ordinalWeekdayDay\<close> promises: a day of the month with the weekday, the \<open>ord\<close>-th such day
  or, for -1, the last one.\<close>

definition ordinal_day :: "int \<Rightarrow> int \<Rightarrow> int \<Rightarrow> int \<Rightarrow> int \<Rightarrow> bool" where
  "ordinal_day y m ord wd d \<longleftrightarrow>
     valid_date y m d \<and> weekday_of_days (days_of_civil y m d) = wd \<and>
     (if ord = -1 then days_in_month y m < d + 7 else (d - 1) div 7 = ord - 1)"

lemma weekday_of_date_fixed:
  assumes "1 \<le> m" "m \<le> 12"
  shows "weekday_of (fixed_zone off) (time_date (fixed_zone off) y m d 0 0 0 0) =
    weekday_of_days (days_of_civil y m d)"
  using wall_slot [of off "days_of_civil y m d * 86400"]
  by (simp add: weekday_of_def time_date_fixed [OF assms])

lemma last_weekday_day_SomeD:
  assumes "1 \<le> m" "m \<le> 12"
  shows "last_weekday_day (fixed_zone off) y m wd k = Some d \<longleftrightarrow>
    1 \<le> d \<and> d \<le> int k \<and> weekday_of_days (days_of_civil y m d) = wd \<and>
    (\<forall>e. d < e \<and> e \<le> int k \<longrightarrow> weekday_of_days (days_of_civil y m e) \<noteq> wd)"
proof (induction k)
  case 0
  show ?case by auto
next
  case (Suc k)
  let ?w = "weekday_of_days (days_of_civil y m (int (Suc k)))"
  show ?case
  proof (cases "?w = wd")
    case True
    then show ?thesis by (force simp: weekday_of_date_fixed [OF assms] simp del: of_nat_Suc)
  next
    case False
    have split: "e \<le> int (Suc k) \<longleftrightarrow> e = int (Suc k) \<or> e \<le> int k" for e by auto
    show ?thesis
      using False unfolding split
      by (auto simp: weekday_of_date_fixed [OF assms] Suc.IH simp del: of_nat_Suc)
  qed
qed

lemma weekday_shift: "weekday_of_days (days_of_civil y m (d + 7 * k)) = weekday_of_days (days_of_civil y m d)"
proof -
  have "days_of_civil y m (d + 7 * k) + 4 = days_of_civil y m d + 4 + 7 * k"
    by (simp add: days_of_civil_def)
  then show ?thesis unfolding weekday_of_days_def by (metis mod_mult_self2)
qed

lemma same_weekday_iff:
  "weekday_of_days (days_of_civil y m d) = weekday_of_days (days_of_civil y m e) \<longleftrightarrow> (d - e) mod 7 = 0"
proof -
  have "days_of_civil y m d + 4 - (days_of_civil y m e + 4) = d - e" by (simp add: days_of_civil_def)
  then show ?thesis unfolding weekday_of_days_def by (metis mod_eq_dvd_iff mod_eq_0_iff_dvd)
qed

lemma last_day_iff:
  assumes "weekday_of_days (days_of_civil y m d) = wd"
  shows "(\<forall>e. d < e \<and> e \<le> maxd \<longrightarrow> weekday_of_days (days_of_civil y m e) \<noteq> wd) \<longleftrightarrow> maxd < d + 7"
proof
  assume all: "\<forall>e. d < e \<and> e \<le> maxd \<longrightarrow> weekday_of_days (days_of_civil y m e) \<noteq> wd"
  show "maxd < d + 7"
    using all [rule_format, of "d + 7"] weekday_shift [of y m d 1] assms by (cases "maxd < d + 7") auto
next
  assume lt: "maxd < d + 7"
  show "\<forall>e. d < e \<and> e \<le> maxd \<longrightarrow> weekday_of_days (days_of_civil y m e) \<noteq> wd"
  proof (intro allI impI notI)
    fix e assume e: "d < e \<and> e \<le> maxd" "weekday_of_days (days_of_civil y m e) = wd"
    then have "(e - d) mod 7 = 0" using same_weekday_iff [of y m e d] assms by simp
    moreover have "(e - d) mod 7 = e - d" using e lt by (intro mod_pos_pos_trivial) auto
    ultimately show False using e by simp
  qed
qed

lemma ordinal_weekday_day_fixed:
  assumes m: "1 \<le> m" "m \<le> 12" and wd: "0 \<le> wd" "wd \<le> 6" and ord: "ordinal_ok ord"
  shows "ordinal_weekday_day y m ord wd (fixed_zone off) = Some d \<longleftrightarrow> ordinal_day y m ord wd d"
proof (cases "ord = -1")
  case True
  have "int (nat (days_in_month y m)) = days_in_month y m"
    using days_in_month_range [of y m] by simp
  then show ?thesis
    using True m last_day_iff [of y m d wd "days_in_month y m"]
    by (auto simp: ordinal_weekday_day_def days_in_month_go_eq last_weekday_day_SomeD ordinal_day_def
        valid_date_def)
next
  case False
  define first where "first = weekday_of_days (days_of_civil y m 1)"
  define offset where "offset = (wd - first + 7) mod 7"
  have o: "0 \<le> offset" "offset < 7" by (simp_all add: offset_def)
  have day: "weekday_of_days (days_of_civil y m e) = wd \<longleftrightarrow> (e - (1 + offset)) mod 7 = 0" for e
  proof -
    have "weekday_of_days (days_of_civil y m (1 + offset)) = (first + offset) mod 7"
      by (simp add: first_def weekday_of_days_def days_of_civil_def algebra_simps mod_add_right_eq)
    also have "\<dots> = wd"
      using wd by (simp add: offset_def mod_add_right_eq)
    finally show ?thesis using same_weekday_iff [of y m e "1 + offset"] by simp
  qed
  have ord1: "1 \<le> ord" using ord False by (auto simp: ordinal_ok_def)
  have "valid_date y m d \<and> weekday_of_days (days_of_civil y m d) = wd \<and> (d - 1) div 7 = ord - 1 \<longleftrightarrow>
      d = 1 + offset + (ord - 1) * 7 \<and> d \<le> days_in_month y m"
  proof
    assume a: "valid_date y m d \<and> weekday_of_days (days_of_civil y m d) = wd \<and> (d - 1) div 7 = ord - 1"
    then have "(d - 1 - offset) mod 7 = 0" by (simp add: day algebra_simps)
    then have "(d - 1) mod 7 = offset mod 7" by (simp add: mod_eq_dvd_iff mod_eq_0_iff_dvd)
    then have "(d - 1) mod 7 = offset" using o by simp
    with a div_mult_mod_eq [of "d - 1" 7] show "d = 1 + offset + (ord - 1) * 7 \<and> d \<le> days_in_month y m"
      by (auto simp: valid_date_def)
  next
    assume a: "d = 1 + offset + (ord - 1) * 7 \<and> d \<le> days_in_month y m"
    then have "(d - 1) div 7 = ord - 1" using o by (intro int_div_pos_eq [where r = offset]) simp_all
    moreover have "(d - (1 + offset)) mod 7 = 0" using a by simp
    moreover have "1 \<le> d" using a o ord1 by simp
    ultimately show "valid_date y m d \<and> weekday_of_days (days_of_civil y m d) = wd \<and> (d - 1) div 7 = ord - 1"
      using a m day by (simp add: valid_date_def)
  qed
  moreover define day where "day = 1 + offset + (ord - 1) * 7"
  moreover have "\<not> day < 1" using o ord1 by (simp add: day_def)
  moreover have "ordinal_weekday_day y m ord wd (fixed_zone off) =
      (if day < 1 \<or> day > days_in_month y m then None else Some day)"
    unfolding ordinal_weekday_day_def Let_def weekday_of_date_fixed [OF m] days_in_month_go_eq [OF m]
      first_def [symmetric] offset_def [symmetric] day_def [symmetric] using False by simp
  ultimately show ?thesis
    using False unfolding ordinal_day_def by auto
qed

section \<open>Properties\<close>

lemmas calendar_eval = civil_of_def wall_def unix_of_def nanos_def civil_of_days_def year_of_days_def
  days_before_year_def month_of_yday_def days_before_month_def is_leap_def days_of_civil_def
  weekday_of_def weekday_of_days_def clock_of_def time_date_def zone_adjust_def add_date_def
  days_in_month_def Let_def

text \<open>C33: \<open>NextOccurrence\<close> fails exactly on the rules validation refuses, and otherwise returns an
  instant strictly after \<open>after\<close>, in every location whatever its zone transitions are: a
  materialisation loop that feeds each occurrence back in always advances.\<close>
theorem next_occurrence_progress:
  "case next_occurrence load (Some r) after of
     Inl e \<Rightarrow> validate_recurrence_rule load r = Inl e
   | Inr t \<Rightarrow> validate_recurrence_rule load r = Inr () \<and> after < t"
proof (cases "validate_recurrence_rule load r")
  case (Inl e)
  then show ?thesis by (simp add: next_occurrence_def)
next
  case (Inr u)
  then have v: "validate_recurrence_rule load r = Inr ()" by simp
  obtain t where "next_occurrence load (Some r) after = Inr t" using next_occurrence_valid [OF v] by blast
  with next_occurrence_after_aux [OF this] v show ?thesis by simp
qed

lemma weekly_valid:
  assumes "validate_recurrence_rule load r = Inr ()" "trim_space (rr_kind r) = ''weekly''"
  shows "rr_weekdays r \<noteq> [] \<and> list_all weekday_ok (rr_weekdays r)"
  using assms by (auto simp: validate_recurrence_rule_def Let_def list_ex_iff list_all_iff split: if_splits)

text \<open>C19: a weekly rule in a location with a fixed offset gets the earliest instant after \<open>after\<close> that
  falls on one of its weekdays at its hour and minute.\<close>
theorem next_weekly_least:
  assumes "validate_recurrence_rule load r = Inr ()" "trim_space (rr_kind r) = ''weekly''"
    and "load (trim_space (rr_timezone r)) = Some (fixed_zone off)"
  shows "\<exists>t. next_occurrence load (Some r) after = Inr t \<and> after < t \<and> weekly_slot (fixed_zone off) r t \<and>
    (\<forall>t'. weekly_slot (fixed_zone off) r t' \<and> after < t' \<longrightarrow> t \<le> t')"
  using next_weekly_fixed [OF validate_clock [OF assms(1)], of off after] weekly_valid [OF assms(1,2)]
  by (simp add: next_occurrence_def assms load_location_def)

definition tuesdays_fridays :: recurrence_rule where
  "tuesdays_fridays = \<lparr>rr_kind = ''weekly'', rr_weekdays = [2, 5], rr_hour = 9, rr_minute = 30,
     rr_timezone = ''UTC'', rr_day_of_month = 0, rr_anchor_day = 0, rr_offset_days = 0,
     rr_occurrences = [], rr_ordinal = 0, rr_ordinals = [], rr_ordinal_weekday = 0\<rparr>"

lemma trims [simp]: "trim_space ''weekly'' = ''weekly''" "trim_space ''UTC'' = ''UTC''"
  "trim_space ''monthly_dom'' = ''monthly_dom''"
  "trim_space ''monthly_anchor_offset'' = ''monthly_anchor_offset''"
  by (simp_all add: trim_eval)

theorem next_weekly_least_witness:
  "\<exists>t. next_occurrence (\<lambda>_. Some (fixed_zone 3600)) (Some tuesdays_fridays) 0 = Inr t \<and> 0 < t \<and>
     weekly_slot (fixed_zone 3600) tuesdays_fridays t \<and>
     (\<forall>t'. weekly_slot (fixed_zone 3600) tuesdays_fridays t' \<and> 0 < t' \<longrightarrow> t \<le> t')"
  by (rule next_weekly_least)
    (simp_all add: validate_recurrence_rule_def tuesdays_fridays_def weekday_ok_def)

text \<open>The day of the month a monthly rule falls on: its day, or anchor day plus offset in 64-bit
  arithmetic, clamped into the month.\<close>

definition monthly_day :: "recurrence_rule \<Rightarrow> int \<Rightarrow> int \<Rightarrow> int" where
  "monthly_day r =
     (if trim_space (rr_kind r) = ''monthly_dom'' then clamped_day (rr_day_of_month r)
      else clamped_day (wrap64 (rr_anchor_day r + rr_offset_days r)))"

text \<open>C32: a monthly rule by day of month or by anchor and offset gets, in a location with a fixed
  offset, the earliest instant after \<open>after\<close> at its hour and minute on its day clamped into the
  month; no month is skipped.\<close>
theorem next_monthly_least:
  assumes "validate_recurrence_rule load r = Inr ()"
    and "trim_space (rr_kind r) \<in> {''monthly_dom'', ''monthly_anchor_offset''}"
    and "load (trim_space (rr_timezone r)) = Some (fixed_zone off)"
  shows "\<exists>t. next_occurrence load (Some r) after = Inr t \<and> after < t \<and>
    monthly_slot (monthly_day r) (fixed_zone off) r t \<and>
    (\<forall>t'. monthly_slot (monthly_day r) (fixed_zone off) r t' \<and> after < t' \<longrightarrow> t \<le> t')"
proof -
  note c = validate_clock [OF assms(1)]
  obtain y mo d where civ: "civil_of (fixed_zone off) after = (y, mo, d)" by (metis prod_cases3)
  note mo = civil_of_month [OF civ]
  note least = next_monthly_fixed [OF c civ clamped_day_range]
  from assms(2) consider (dom) "trim_space (rr_kind r) = ''monthly_dom''"
    | (anchor) "trim_space (rr_kind r) = ''monthly_anchor_offset''" by blast
  then show ?thesis
  proof cases
    case dom
    then have day: "1 \<le> rr_day_of_month r"
      using assms(1) by (auto simp: validate_recurrence_rule_def Let_def split: if_splits)
    have "next_occurrence load (Some r) after = Inr (next_monthly_dom r after (fixed_zone off))"
      using dom by (simp add: next_occurrence_def assms load_location_def)
    moreover note least [OF monthly_tries_fixed(1) [OF conjunct1 [OF mo] conjunct2 [OF mo] day]]
    ultimately show ?thesis
      using dom by (auto simp: next_monthly_dom_def civ monthly_day_def)
  next
    case anchor
    have "next_occurrence load (Some r) after = Inr (next_monthly_anchor_offset r after (fixed_zone off))"
      using anchor by (simp add: next_occurrence_def assms load_location_def)
    moreover
    let ?r = "r\<lparr>rr_day_of_month := 1\<rparr>"
    have "monthly_anchor_try r after (fixed_zone off) y mo i = (case month_plus y mo i of (yy, mm) \<Rightarrow>
        let t = slot_at off r (days_of_civil yy mm (clamped_day (wrap64 (rr_anchor_day r + rr_offset_days r)) yy mm))
        in if after < t then Some t else None)" for i
      using monthly_tries_fixed(2) [OF conjunct1 [OF mo] conjunct2 [OF mo], of ?r after off y i]
      by (simp add: monthly_anchor_try_def slot_at_def)
    note least [OF this]
    ultimately show ?thesis
      using anchor by (auto simp: next_monthly_anchor_offset_def civ monthly_day_def)
  qed
qed

definition day_31 :: recurrence_rule where
  "day_31 = tuesdays_fridays\<lparr>rr_kind := ''monthly_dom'', rr_day_of_month := 31\<rparr>"

theorem next_monthly_least_witness:
  "\<exists>t. next_occurrence (\<lambda>_. Some (fixed_zone (-18000))) (Some day_31) 0 = Inr t \<and> 0 < t \<and>
     monthly_slot (monthly_day day_31) (fixed_zone (-18000)) day_31 t \<and>
     (\<forall>t'. monthly_slot (monthly_day day_31) (fixed_zone (-18000)) day_31 t' \<and> 0 < t' \<longrightarrow> t \<le> t')"
  by (rule next_monthly_least)
    (simp_all add: validate_recurrence_rule_def day_31_def tuesdays_fridays_def)

text \<open>\<open>ordinalWeekdayDay\<close> returns, in a location with a fixed offset, exactly the day of the month
  that is the ordinal-th (or, for -1, the last) one with the weekday, and nothing when the month has
  no such day.\<close>
theorem ordinal_weekday_day_exact:
  assumes "1 \<le> m" "m \<le> 12" "weekday_ok wd" "ordinal_ok ord"
  shows "ordinal_weekday_day y m ord wd (fixed_zone off) = Some d \<longleftrightarrow> ordinal_day y m ord wd d"
  using ordinal_weekday_day_fixed [OF assms(1,2) _ _ assms(4), of wd y off d] assms(3)
  by (auto simp: weekday_ok_def)

theorem ordinal_weekday_day_exact_witness:
  "ordinal_weekday_day 2024 2 5 4 (fixed_zone 0) = Some 29"
proof -
  have "ordinal_day 2024 2 5 4 29"
    by (simp add: ordinal_day_def valid_date_def calendar_eval cong: let_weak_cong prod.case_cong_weak)
  then show ?thesis
    using ordinal_weekday_day_exact [of 2 4 5 2024 0 29] by (simp add: weekday_ok_def ordinal_ok_def)
qed

section \<open>A transition at midnight\<close>

text \<open>A zone that moves its clock from 00:00 to 01:00 on Sunday, September 8, 2024, as
  America/Santiago does: \<open>time.Date\<close> reads the missing midnight as 23:00 of the day before.\<close>

definition midnight_gap_zone :: location where
  "midnight_gap_zone = (\<lambda>u. if u < 1725768000
     then \<lparr>zoff = -14400, zstart = - (2 ^ 63), zend = 1725768000\<rparr>
     else \<lparr>zoff = -10800, zstart = 1725768000, zend = 2 ^ 63 - 1\<rparr>)"

definition sundays_at_nine :: recurrence_rule where
  "sundays_at_nine = tuesdays_fridays\<lparr>rr_weekdays := [0], rr_minute := 0\<rparr>"

lemma midnight_gap_steps:
  "civil_of midnight_gap_zone (1725537600 * nanos) = (2024, 9, 5)"
  "time_date midnight_gap_zone 2024 9 5 0 0 0 0 = 1725508800 * nanos"
  by (simp_all add: calendar_eval midnight_gap_zone_def
        cong: let_weak_cong prod.case_cong_weak)

lemma midnight_gap_search:
  "search 800 0 (weekly_try sundays_at_nine (1725537600 * nanos) midnight_gap_zone (1725508800 * nanos)) =
     Some (1726401600 * nanos)"
proof (rule search_hit [where i = 10])
  fix j :: int
  assume "0 \<le> j" "j < 10"
  then have "j \<in> {0, 1, 2, 3, 4, 5, 6, 7, 8, 9}" by (simp; presburger)
  then show "weekly_try sundays_at_nine (1725537600 * nanos) midnight_gap_zone (1725508800 * nanos) j = None"
    by (elim insertE emptyE)
      (simp_all add: weekly_try_def sundays_at_nine_def tuesdays_fridays_def calendar_eval midnight_gap_zone_def
        cong: let_weak_cong prod.case_cong_weak)
qed (simp_all add: weekly_try_def sundays_at_nine_def tuesdays_fridays_def calendar_eval midnight_gap_zone_def
        cong: let_weak_cong prod.case_cong_weak)

text \<open>With a clock change at midnight the weekly search steps over the day of the change: from
  Thursday, September 5, 2024 the rule \<open>Sundays at 09:00\<close> gets September 15, although September 8 at
  09:00 is an instant of the rule after \<open>after\<close> and before the result.\<close>
theorem weekly_skips_midnight_gap:
  "next_weekly sundays_at_nine (1725537600 * nanos) midnight_gap_zone = 1726401600 * nanos \<and>
   weekly_slot midnight_gap_zone sundays_at_nine (1725796800 * nanos) \<and>
   1725537600 * nanos < 1725796800 * nanos \<and> 1725796800 * nanos < 1726401600 * nanos"
  by (simp add: next_weekly_def midnight_gap_steps midnight_gap_search)
    (simp add: weekly_slot_def on_clock_def sundays_at_nine_def tuesdays_fridays_def calendar_eval
      midnight_gap_zone_def cong: let_weak_cong prod.case_cong_weak)

end
