(* ===== verification/Utf8.thy ===== *)
theory Utf8
  imports Go_Strings
begin

text \<open>
  Go's view of a string as a sequence of runes: the decoder behind \<open>[]rune(s)\<close> and \<open>range\<close>, which
  reads a malformed byte as U+FFFD of width 1, and the encoder behind \<open>string(runes)\<close>. The code counts
  and truncates titles and posts in runes.
\<close>

definition byte_of :: "char \<Rightarrow> nat" where "byte_of c = of_char c"

definition rune_error :: nat where "rune_error = 0xFFFD"

definition is_cont :: "nat \<Rightarrow> bool" where "is_cont b \<longleftrightarrow> 0x80 \<le> b \<and> b \<le> 0xBF"

text \<open>The ranges of the second byte exclude overlong encodings, surrogates and code points above
  U+10FFFF.\<close>

definition second3 :: "nat \<Rightarrow> nat \<Rightarrow> bool" where
  "second3 b0 b1 \<longleftrightarrow>
     (if b0 = 0xE0 then 0xA0 \<le> b1 \<and> b1 \<le> 0xBF
      else if b0 = 0xED then 0x80 \<le> b1 \<and> b1 \<le> 0x9F else is_cont b1)"

definition second4 :: "nat \<Rightarrow> nat \<Rightarrow> bool" where
  "second4 b0 b1 \<longleftrightarrow>
     (if b0 = 0xF0 then 0x90 \<le> b1 \<and> b1 \<le> 0xBF
      else if b0 = 0xF4 then 0x80 \<le> b1 \<and> b1 \<le> 0x8F else is_cont b1)"

text \<open>The rune at the front of a non-empty byte list and its width.\<close>

definition decode_bytes :: "nat list \<Rightarrow> nat \<times> nat" where
  "decode_bytes bs =
     (case bs of
        [] \<Rightarrow> (rune_error, 0)
      | b0 # t0 \<Rightarrow>
          if b0 < 0x80 then (b0, 1)
          else if 0xC2 \<le> b0 \<and> b0 \<le> 0xDF then
            (case t0 of b1 # _ \<Rightarrow> if is_cont b1 then ((b0 - 0xC0) * 64 + (b1 - 0x80), 2) else (rune_error, 1)
             | [] \<Rightarrow> (rune_error, 1))
          else if 0xE0 \<le> b0 \<and> b0 \<le> 0xEF then
            (case t0 of b1 # b2 # _ \<Rightarrow>
               if second3 b0 b1 \<and> is_cont b2
               then ((b0 - 0xE0) * 4096 + (b1 - 0x80) * 64 + (b2 - 0x80), 3) else (rune_error, 1)
             | _ \<Rightarrow> (rune_error, 1))
          else if 0xF0 \<le> b0 \<and> b0 \<le> 0xF4 then
            (case t0 of b1 # b2 # b3 # _ \<Rightarrow>
               if second4 b0 b1 \<and> is_cont b2 \<and> is_cont b3
               then ((b0 - 0xF0) * 262144 + (b1 - 0x80) * 4096 + (b2 - 0x80) * 64 + (b3 - 0x80), 4)
               else (rune_error, 1)
             | _ \<Rightarrow> (rune_error, 1))
          else (rune_error, 1))"

lemma decode_bytes_width: "bs \<noteq> [] \<Longrightarrow> 0 < snd (decode_bytes bs)"
  by (auto simp: decode_bytes_def split: list.splits)

function runes_of_bytes :: "nat list \<Rightarrow> nat list" where
  "runes_of_bytes bs =
     (if bs = [] then [] else fst (decode_bytes bs) # runes_of_bytes (drop (snd (decode_bytes bs)) bs))"
  by pat_completeness auto
termination
  by (relation "measure length") (auto simp: decode_bytes_width)

declare runes_of_bytes.simps [simp del]

definition runes :: "string \<Rightarrow> nat list" where
  "runes s = runes_of_bytes (map byte_of s)"

definition valid_rune :: "nat \<Rightarrow> bool" where
  "valid_rune r \<longleftrightarrow> r \<le> 0x10FFFF \<and> \<not> (0xD800 \<le> r \<and> r \<le> 0xDFFF)"

definition encode_bytes :: "nat \<Rightarrow> nat list" where
  "encode_bytes r =
     (let r' = (if valid_rune r then r else rune_error) in
      if r' < 0x80 then [r']
      else if r' < 0x800 then [0xC0 + r' div 64, 0x80 + r' mod 64]
      else if r' < 0x10000 then [0xE0 + r' div 4096, 0x80 + r' div 64 mod 64, 0x80 + r' mod 64]
      else [0xF0 + r' div 262144, 0x80 + r' div 4096 mod 64, 0x80 + r' div 64 mod 64, 0x80 + r' mod 64])"

definition encode_runes :: "nat list \<Rightarrow> string" where
  "encode_runes rs = map char_of (concat (map encode_bytes rs))"

definition rune_count :: "string \<Rightarrow> nat" where
  "rune_count s = length (runes s)"

lemma encode_bytes_range: "b \<in> set (encode_bytes r) \<Longrightarrow> b < 256"
proof -
  define r' where "r' = (if valid_rune r then r else rune_error)"
  have "r' < 1114112" by (simp add: r'_def valid_rune_def rune_error_def)
  then have d: "r' div 262144 < 5" "r' < 65536 \<Longrightarrow> r' div 4096 < 16" "r' < 2048 \<Longrightarrow> r' div 64 < 32" by linarith+
  have m: "r' mod 64 < 64" "r' div 64 mod 64 < 64" "r' div 4096 mod 64 < 64" by simp_all
  assume "b \<in> set (encode_bytes r)"
  then show ?thesis
    unfolding encode_bytes_def Let_def r'_def [symmetric] using d m by (auto split: if_splits)
qed

lemma runes_of_bytes_step:
  "decode_bytes (bs @ t) = (r, length bs) \<Longrightarrow> bs \<noteq> [] \<Longrightarrow> runes_of_bytes (bs @ t) = r # runes_of_bytes t"
  by (subst runes_of_bytes.simps) simp

lemma decode_encode_bytes:
  assumes "valid_rune r"
  shows "decode_bytes (encode_bytes r @ t) = (r, length (encode_bytes r))"
proof -
  have r: "r < 1114112" using assms by (simp add: valid_rune_def)
  have s: "r < 55296 \<or> 57344 \<le> r" using assms by (auto simp: valid_rune_def)
  have m: "r mod 64 < 64" "r div 64 mod 64 < 64" "r div 4096 mod 64 < 64" by simp_all
  have e1: "r = r div 64 * 64 + r mod 64" by simp
  have e2: "r div 64 = r div 4096 * 64 + r div 64 mod 64"
    using div_mult_mod_eq [of "r div 64" 64] by (simp add: div_mult2_eq [symmetric])
  have e3: "r div 4096 = r div 262144 * 64 + r div 4096 mod 64"
    using div_mult_mod_eq [of "r div 4096" 64] by (simp add: div_mult2_eq [symmetric])
  have join2: "x = y * 64 + a \<Longrightarrow> y = q * 64 + b \<Longrightarrow> x = q * 4096 + b * 64 + a" for x y q a b :: nat by simp
  have join3: "y = q * 64 + b \<Longrightarrow> x = y * 4096 + c * 64 + a \<Longrightarrow> x = q * 262144 + b * 4096 + c * 64 + a"
    for x y q a b c :: nat by simp
  define a b c d where "a = r mod 64" and "b = r div 64 mod 64" and "c = r div 4096 mod 64" and "d = r div 262144"
  note def = a_def [symmetric] b_def [symmetric] c_def [symmetric] d_def [symmetric]
  consider "r < 128" | "128 \<le> r" "r < 2048" | "2048 \<le> r" "r < 65536" | "65536 \<le> r" by linarith
  then show ?thesis
  proof cases
    case 1
    with assms show ?thesis by (simp add: encode_bytes_def decode_bytes_def)
  next
    case 2
    define q where "q = r div 64"
    have eq: "r = q * 64 + a" "a < 64" using e1 m(1) by (simp_all add: q_def a_def)
    from this 2 have q: "2 \<le> q" "q < 32" by linarith+
    have "encode_bytes r = [0xC0 + q, 0x80 + a]"
      using assms 2 by (simp add: encode_bytes_def Let_def q_def a_def)
    then show ?thesis using q eq(2) by (simp add: decode_bytes_def is_cont_def eq(1))
  next
    case 3
    define q where "q = r div 4096"
    have eq: "r = q * 4096 + b * 64 + a" "a < 64" "b < 64"
      using join2 [OF e1 e2] m by (simp_all add: q_def a_def b_def)
    from this 3 s have q: "q < 16" "q = 0 \<longrightarrow> 32 \<le> b" "q = 13 \<longrightarrow> b \<le> 31" by auto
    have "encode_bytes r = [0xE0 + q, 0x80 + b, 0x80 + a]"
      using assms 3 by (simp add: encode_bytes_def Let_def q_def a_def b_def)
    then show ?thesis using q eq(2,3) by (simp add: decode_bytes_def second3_def is_cont_def eq(1))
  next
    case 4
    have eq: "r = d * 262144 + c * 4096 + b * 64 + a" "a < 64" "b < 64" "c < 64"
      using join3 [OF e3 join2 [OF e1 e2]] m by (simp_all add: a_def b_def c_def d_def)
    from this 4 r have q: "d < 5" "d = 0 \<longrightarrow> 16 \<le> c" "d = 4 \<longrightarrow> c \<le> 15" by auto
    have "encode_bytes r = [0xF0 + d, 0x80 + c, 0x80 + b, 0x80 + a]"
      using assms 4 by (simp add: encode_bytes_def Let_def a_def b_def c_def d_def)
    then show ?thesis using q eq(2-4) by (simp add: decode_bytes_def second4_def is_cont_def eq(1))
  qed
qed

lemma encode_bytes_not_Nil [simp]: "encode_bytes r \<noteq> []"
  by (simp add: encode_bytes_def Let_def)

lemma runes_of_encoded:
  "list_all valid_rune rs \<Longrightarrow> runes_of_bytes (concat (map encode_bytes rs) @ t) = rs @ runes_of_bytes t"
proof (induction rs)
  case (Cons r rs)
  then show ?case
    using runes_of_bytes_step [OF decode_encode_bytes [of r "concat (map encode_bytes rs) @ t"]]
    by simp
qed simp

lemma bytes_of_encoded: "map byte_of (encode_runes rs) = concat (map encode_bytes rs)"
proof -
  have "byte_of (char_of b) = b" if "b < 256" for b :: nat
    using that by (simp add: byte_of_def)
  then show ?thesis
    unfolding encode_runes_def by (auto simp: encode_bytes_range intro!: map_idI)
qed

lemma runes_encode: "list_all valid_rune rs \<Longrightarrow> runes (encode_runes rs @ s) = rs @ runes s"
  by (simp add: runes_def bytes_of_encoded runes_of_encoded)

lemma decode_bytes_valid: "valid_rune (fst (decode_bytes bs))"
proof (cases bs)
  case Nil
  then show ?thesis by (simp add: decode_bytes_def valid_rune_def rune_error_def)
next
  case (Cons b0 t0)
  have err: "valid_rune rune_error" by (simp add: valid_rune_def rune_error_def)
  have v2: "valid_rune ((b0 - 0xC0) * 64 + (b1 - 0x80))" if "0xC2 \<le> b0" "b0 \<le> 0xDF" "is_cont b1" for b1
  proof -
    define x y where "x = b0 - 0xC0" and "y = b1 - 0x80"
    have "x < 32" "y < 64" using that by (auto simp: x_def y_def is_cont_def)
    then have "x * 64 + y < 2048" by linarith
    then show ?thesis unfolding x_def [symmetric] y_def [symmetric] by (simp add: valid_rune_def)
  qed
  have v3: "valid_rune ((b0 - 0xE0) * 4096 + (b1 - 0x80) * 64 + (b2 - 0x80))"
    if "b0 \<le> 0xEF" "0xE0 \<le> b0" "second3 b0 b1" "is_cont b2" for b1 b2
  proof -
    define x y z where "x = b0 - 0xE0" and "y = b1 - 0x80" and "z = b2 - 0x80"
    have "x < 16" "y < 64" "z < 64" "x = 13 \<longrightarrow> y < 32"
      using that by (auto simp: x_def y_def z_def is_cont_def second3_def split: if_splits)
    then have "x * 4096 + y * 64 + z < 55296 \<or> (57344 \<le> x * 4096 + y * 64 + z \<and> x * 4096 + y * 64 + z < 65536)"
      by (cases "x < 13"; cases "x = 13") auto
    then show ?thesis
      unfolding x_def [symmetric] y_def [symmetric] z_def [symmetric] by (auto simp: valid_rune_def)
  qed
  have v4: "valid_rune ((b0 - 0xF0) * 262144 + (b1 - 0x80) * 4096 + (b2 - 0x80) * 64 + (b3 - 0x80))"
    if "b0 \<le> 0xF4" "0xF0 \<le> b0" "second4 b0 b1" "is_cont b2" "is_cont b3" for b1 b2 b3
  proof -
    define x y z w where "x = b0 - 0xF0" and "y = b1 - 0x80" and "z = b2 - 0x80" and "w = b3 - 0x80"
    have "x < 5" "y < 64" "z < 64" "w < 64" "x = 4 \<longrightarrow> y < 16" "x = 0 \<longrightarrow> 16 \<le> y"
      using that by (auto simp: x_def y_def z_def w_def is_cont_def second4_def split: if_splits)
    then have "57344 \<le> x * 262144 + y * 4096 + z * 64 + w \<and> x * 262144 + y * 4096 + z * 64 + w \<le> 1114111"
      by (cases "x = 0"; cases "x = 4") auto
    then show ?thesis
      unfolding x_def [symmetric] y_def [symmetric] z_def [symmetric] w_def [symmetric]
      by (auto simp: valid_rune_def)
  qed
  consider "b0 < 0x80" | "0x80 \<le> b0" "b0 < 0xC2 \<or> 0xF4 < b0" | "0xC2 \<le> b0" "b0 \<le> 0xDF"
    | "0xE0 \<le> b0" "b0 \<le> 0xEF" | "0xF0 \<le> b0" "b0 \<le> 0xF4" by linarith
  then show ?thesis
  proof cases
    case 1 with Cons show ?thesis by (simp add: decode_bytes_def valid_rune_def)
  next
    case 2 with Cons err show ?thesis by (auto simp: decode_bytes_def)
  next
    case 3 with Cons err v2 show ?thesis by (simp add: decode_bytes_def split: list.split)
  next
    case 4 with Cons err v3 show ?thesis by (simp add: decode_bytes_def split: list.split)
  next
    case 5 with Cons err v4 show ?thesis by (simp add: decode_bytes_def split: list.split)
  qed
qed

lemma runes_valid: "list_all valid_rune (runes s)"
proof -
  have "list_all valid_rune (runes_of_bytes bs)" for bs
  proof (induction bs rule: runes_of_bytes.induct)
    case (1 bs)
    then show ?case by (subst runes_of_bytes.simps) (simp add: decode_bytes_valid)
  qed
  then show ?thesis by (simp add: runes_def)
qed

lemma runes_Nil [simp]: "runes [] = []"
  by (simp add: runes_def runes_of_bytes.simps)

lemma runes_encode_only: "list_all valid_rune rs \<Longrightarrow> runes (encode_runes rs) = rs"
  using runes_encode [of rs "[]"] by simp

end
