(* ===== verification/Domain.thy ===== *)
theory Domain
  imports Utf8 Go_Time "HOL-Library.AList"
begin

text \<open>
  \<open>internal/domain\<close>: the data model shared by every component, and the normalisation, validation and
  status rules every create and update path goes through. A Go map is the association list of its
  entries in the order one \<open>range\<close> loop visits them, with distinct keys; a nil map and an empty map
  are the empty list.
\<close>

section \<open>Posts\<close>

datatype post_status = Pending | Processing | Posted | Failed | Cancelled | Draft

abbreviation source_scheduled :: string where "source_scheduled \<equiv> ''scheduled''"
abbreviation source_imported :: string where "source_imported \<equiv> ''imported''"
abbreviation source_automation :: string where "source_automation \<equiv> ''automation''"

record create_post_input =
  in_title :: string
  in_content :: string
  in_scheduled_at :: instant
  in_target_accounts :: "string list"
  in_visibility :: string
  in_media_ids :: "string list"
  in_media_exclude :: "(string \<times> string list) list"
  in_draft :: bool
  in_publish_now :: bool
  in_override :: "(string \<times> string) list"
  in_use_versions :: bool
  in_author_user_id :: "string option"
  in_post_template_id :: "string option"
  in_template_counter :: "int option"
  in_template_occurrence_at :: "instant option"
  in_template_post_role :: string
  in_source :: string
  in_rss_feed_id :: "string option"
  in_rss_item_key :: string
  in_ai_job_id :: "string option"
  in_ai_fallback_reason :: "string option"

record scheduled_post =
  sp_id :: string
  sp_team_id :: string
  sp_author :: string
  sp_title :: string
  sp_content :: string
  sp_scheduled_at :: instant
  sp_status :: post_status
  sp_source :: string
  sp_attempt_count :: int
  sp_last_error :: string
  sp_visibility :: string
  sp_media_ids :: "string list"
  sp_media_exclude :: "(string \<times> string list) list"
  sp_targets :: "string list"
  sp_post_template_id :: "string option"
  sp_template_counter :: "int option"
  sp_template_occurrence_at :: "instant option"
  sp_template_post_role :: string
  sp_rss_feed_id :: "string option"
  sp_ai_job_id :: "string option"
  sp_ai_fallback_reason :: "string option"

record post_version =
  pv_post_id :: string
  pv_account_id :: string
  pv_content :: string

record social_account =
  sa_id :: string
  sa_team_id :: string
  sa_name :: string
  sa_provider :: string
  sa_auth_type :: string
  sa_instance_id :: string
  sa_instance_url :: string
  sa_username :: string
  sa_remote_id :: string
  sa_access_token :: string
  sa_refresh_token :: string
  sa_max_chars_override :: "int option"
  sa_token_expires_at :: "instant option"

record user =
  u_id :: string
  u_email :: string
  u_name :: string
  u_picture_url :: string
  u_subject :: string
  u_is_admin :: bool
  u_tour_done :: bool

record principal =
  p_user :: user
  p_kind :: string
  p_scopes :: "string list"
  p_team_id :: "string option"
  p_expires_at :: "instant option"
  p_token_id :: "string option"
  p_token_name :: "string option"

section \<open>Normalisation\<close>

definition normalize_post_visibility :: "string \<Rightarrow> string" where
  "normalize_post_visibility v =
     (let n = to_lower (trim_space v) in
      if n \<in> {''public'', ''unlisted'', ''private'', ''direct''} then n else ''public'')"

definition normalize_account_content_override ::
  "(string \<times> string) list \<Rightarrow> string list \<Rightarrow> (string \<times> string) list" where
  "normalize_account_content_override over targets =
     (if over = [] then []
      else filter (\<lambda>(acc, c). c \<noteq> [] \<and> acc \<in> set targets)
             (map (\<lambda>(acc, c). (acc, trim_space c)) over))"

definition normalize_media_ids :: "string list \<Rightarrow> string list" where
  "normalize_media_ids ids = filter (\<lambda>i. i \<noteq> []) (map trim_space ids)"

text \<open>The loop writes \<open>out[accountID]\<close>, so of two keys with the same trimmed form the one visited last
  wins.\<close>

fun normalize_media_exclude_loop ::
  "string list \<Rightarrow> (string \<times> string list) list \<Rightarrow> (string \<times> string list) list \<Rightarrow> (string \<times> string list) list" where
  "normalize_media_exclude_loop allowed out [] = out"
| "normalize_media_exclude_loop allowed out ((acc, xs) # ex) =
     (let acc' = trim_space acc;
          kept = filter (\<lambda>m. m \<noteq> [] \<and> (allowed = [] \<or> m \<in> set allowed)) (map trim_space xs);
          filtered = normalize_media_ids kept
      in normalize_media_exclude_loop allowed
           (if acc' \<noteq> [] \<and> filtered \<noteq> [] then AList.update acc' filtered out else out) ex)"

definition normalize_media_exclude_by_account ::
  "(string \<times> string list) list \<Rightarrow> string list \<Rightarrow> (string \<times> string list) list" where
  "normalize_media_exclude_by_account ex media_ids =
     (if ex = [] then [] else normalize_media_exclude_loop (normalize_media_ids media_ids) [] ex)"

definition filter_media_ids_for_account ::
  "string list \<Rightarrow> (string \<times> string list) list \<Rightarrow> string \<Rightarrow> string list" where
  "filter_media_ids_for_account all exclude acc =
     (let all' = normalize_media_ids all in
      if all' = [] \<or> exclude = [] then all'
      else (case map_of exclude (trim_space acc) of
              None \<Rightarrow> all'
            | Some xs \<Rightarrow>
                if xs = [] then all'
                else filter (\<lambda>m. m \<notin> set (filter (\<lambda>i. i \<noteq> []) (map trim_space xs))) all'))"

definition effective_content :: "create_post_input \<Rightarrow> string \<Rightarrow> string" where
  "effective_content inp acc =
     (case map_of (in_override inp) acc of
        Some over \<Rightarrow> if trim_space over \<noteq> [] then over else in_content inp
      | None \<Rightarrow> in_content inp)"

definition normalize_input :: "create_post_input \<Rightarrow> create_post_input" where
  "normalize_input inp =
     (let media = normalize_media_ids (in_media_ids inp);
          over = normalize_account_content_override (in_override inp) (in_target_accounts inp)
      in inp\<lparr>in_title := trim_space (in_title inp), in_content := trim_space (in_content inp),
             in_visibility := normalize_post_visibility (in_visibility inp), in_media_ids := media,
             in_media_exclude := normalize_media_exclude_by_account (in_media_exclude inp) media,
             in_override := over, in_use_versions := (over \<noteq> [])\<rparr>)"

definition validate_input :: "create_post_input \<Rightarrow> unit res" where
  "validate_input inp =
     (if trim_space (in_title inp) = [] then Err ''title is required''
      else if in_draft inp then Ok ()
      else if trim_space (in_content inp) = [] then Err ''content is required''
      else if in_target_accounts inp = [] then Err ''target_accounts is required''
      else Ok ())"

section \<open>Titles\<close>

definition generated_title_max_runes :: nat where "generated_title_max_runes = 80"

text \<open>\<open>strings.TrimRight(s, " ")\<close>.\<close>

definition trim_right_blanks :: "string \<Rightarrow> string" where
  "trim_right_blanks s = rev (dropWhile (\<lambda>c. c = CHR '' '') (rev s))"

definition ellipsis :: string where "ellipsis = [CHR 0xE2, CHR 0x80, CHR 0xA6]"

fun title_of_lines :: "string list \<Rightarrow> string" where
  "title_of_lines [] = []"
| "title_of_lines (line # ls) =
     (let l = trim_space line in
      if l = [] then title_of_lines ls
      else if length (runes l) > generated_title_max_runes
      then trim_right_blanks (encode_runes (take generated_title_max_runes (runes l))) @ ellipsis
      else l)"

definition generate_title_from_content :: "string \<Rightarrow> string" where
  "generate_title_from_content content = title_of_lines (split_on (CHR 0x0A) content)"

definition ensure_title :: "create_post_input \<Rightarrow> create_post_input" where
  "ensure_title inp =
     (if trim_space (in_title inp) = []
      then inp\<lparr>in_title := generate_title_from_content (in_content inp)\<rparr> else inp)"

definition resolve_automation_post_title :: "string \<Rightarrow> string \<Rightarrow> string" where
  "resolve_automation_post_title template_title ai_title =
     (let t = trim_space ai_title in if t \<noteq> [] then t else trim_space template_title)"

section \<open>Insert and update rules\<close>

record resolved_post_insert =
  ri_author :: string
  ri_status :: post_status
  ri_source :: string
  ri_template_id :: "string option"
  ri_template_counter :: "int option"
  ri_template_occurrence_at :: "instant option"
  ri_template_role :: string
  ri_rss_feed_id :: "string option"

definition trimmed_ref :: "string option \<Rightarrow> string option" where
  "trimmed_ref x = (case x of None \<Rightarrow> None | Some v \<Rightarrow> if trim_space v = [] then None else Some (trim_space v))"

definition resolve_post_insert :: "principal \<Rightarrow> create_post_input \<Rightarrow> resolved_post_insert" where
  "resolve_post_insert pr inp =
     \<lparr>ri_author = (case trimmed_ref (in_author_user_id inp) of None \<Rightarrow> u_id (p_user pr) | Some i \<Rightarrow> i),
      ri_status = (if in_draft inp then Draft else Pending),
      ri_source = (if trim_space (in_source inp) = [] then source_scheduled else in_source inp),
      ri_template_id = trimmed_ref (in_post_template_id inp),
      ri_template_counter = in_template_counter inp,
      ri_template_occurrence_at =
        (case in_template_occurrence_at inp of None \<Rightarrow> None | Some t \<Rightarrow> if t = zero_time then None else Some t),
      ri_template_role = trim_space (in_template_post_role inp),
      ri_rss_feed_id = trimmed_ref (in_rss_feed_id inp)\<rparr>"

definition resolve_post_status_on_update ::
  "instant \<Rightarrow> post_status \<Rightarrow> string \<Rightarrow> create_post_input \<Rightarrow> post_status" where
  "resolve_post_status_on_update now was source inp =
     (if source = source_imported then Posted
      else if was = Posted \<or> was = Processing \<or> was = Cancelled then was
      else if \<not> in_draft inp \<and> now < in_scheduled_at inp then Pending
      else if in_draft inp then Draft
      else if was = Draft then Pending
      else was)"

definition max_chars_for_provider :: "string \<Rightarrow> int option \<Rightarrow> int" where
  "max_chars_for_provider provider override =
     (if (case override of Some n \<Rightarrow> 0 < n | None \<Rightarrow> False) then the override
      else (let p = to_lower (trim_space provider) in
        if p = ''bluesky'' then 300 else if p = ''friendica'' then 5000 else 500))"

definition normalize_rss_initial_sync_mode :: "string \<Rightarrow> string" where
  "normalize_rss_initial_sync_mode raw =
     (if trim_space (to_lower raw) = ''publish_latest'' then ''publish_latest'' else ''baseline'')"

definition normalize_automation_output_mode :: "string \<Rightarrow> string" where
  "normalize_automation_output_mode raw =
     (let m = trim_space (to_lower raw) in
      if m = ''scheduled'' then ''scheduled'' else if m = ''publish_now'' then ''publish_now'' else ''draft'')"

definition normalize_rss_editorial_goal :: "string \<Rightarrow> string" where
  "normalize_rss_editorial_goal v =
     (let m = trim_space (to_lower v) in if m = ''teaser'' \<or> m = ''summary'' then m else ''auto'')"

definition normalize_rss_desired_length :: "string \<Rightarrow> string" where
  "normalize_rss_desired_length v =
     (let m = trim_space (to_lower v) in if m = ''short'' \<or> m = ''detailed'' then m else ''auto'')"

definition api_token_expired :: "instant option \<Rightarrow> instant \<Rightarrow> bool" where
  "api_token_expired expires now = (case expires of None \<Rightarrow> False | Some e \<Rightarrow> \<not> now < e)"

section \<open>Patches\<close>

text \<open>\<open>PatchField\<close>: \<open>None\<close> for an omitted key, \<open>Some\<close> of the value otherwise (the zero value for an
  explicit null).\<close>

record update_post_patch =
  pt_title :: "string option"
  pt_content :: "string option"
  pt_scheduled_at :: "instant option"
  pt_target_accounts :: "string list option"
  pt_visibility :: "string option"
  pt_media_ids :: "string list option"
  pt_media_exclude :: "(string \<times> string list) list option"
  pt_override :: "(string \<times> string) list option"
  pt_draft :: "bool option"
  pt_publish_now :: "bool option"
  pt_review_complete :: "bool option"

record patch_fields =
  pf_title :: bool
  pf_content :: bool
  pf_scheduled_at :: bool
  pf_target_accounts :: bool
  pf_visibility :: bool
  pf_media_ids :: bool
  pf_media_exclude :: bool
  pf_versions :: bool
  pf_draft :: bool

definition patch_any :: "patch_fields \<Rightarrow> bool" where
  "patch_any f \<longleftrightarrow> pf_title f \<or> pf_content f \<or> pf_scheduled_at f \<or> pf_target_accounts f \<or>
     pf_visibility f \<or> pf_media_ids f \<or> pf_media_exclude f \<or> pf_versions f \<or> pf_draft f"

definition versions_to_override_map :: "post_version list \<Rightarrow> (string \<times> string) list" where
  "versions_to_override_map vs =
     foldl (\<lambda>out v. if trim_space (pv_content v) \<noteq> [] then AList.update (pv_account_id v) (pv_content v) out
                    else out) [] vs"

definition set_or :: "'a option \<Rightarrow> ('a \<Rightarrow> 'b) \<Rightarrow> 'b \<Rightarrow> 'b" where
  "set_or f g d = (case f of None \<Rightarrow> d | Some v \<Rightarrow> g v)"

definition empty_input :: create_post_input where
  "empty_input = \<lparr>in_title = [], in_content = [], in_scheduled_at = zero_time, in_target_accounts = [],
     in_visibility = [], in_media_ids = [], in_media_exclude = [], in_draft = False,
     in_publish_now = False, in_override = [], in_use_versions = False, in_author_user_id = None,
     in_post_template_id = None, in_template_counter = None, in_template_occurrence_at = None,
     in_template_post_role = [], in_source = [], in_rss_feed_id = None, in_rss_item_key = [],
     in_ai_job_id = None, in_ai_fallback_reason = None\<rparr>"

definition apply_post_patch ::
  "scheduled_post \<Rightarrow> post_version list \<Rightarrow> update_post_patch \<Rightarrow> create_post_input \<times> patch_fields" where
  "apply_post_patch existing versions patch =
     (let targets = set_or (pt_target_accounts patch) id (sp_targets existing);
          media = set_or (pt_media_ids patch) normalize_media_ids (sp_media_ids existing);
          merged = empty_input\<lparr>
            in_title := set_or (pt_title patch) trim_space (sp_title existing),
            in_content := set_or (pt_content patch) trim_space (sp_content existing),
            in_scheduled_at := set_or (pt_scheduled_at patch) id (sp_scheduled_at existing),
            in_target_accounts := targets,
            in_visibility := set_or (pt_visibility patch) normalize_post_visibility (sp_visibility existing),
            in_media_ids := media,
            in_media_exclude := set_or (pt_media_exclude patch)
              (\<lambda>ex. normalize_media_exclude_by_account ex media) (sp_media_exclude existing),
            in_draft := set_or (pt_draft patch) id (sp_status existing = Draft),
            in_publish_now := set_or (pt_publish_now patch) id False,
            in_override := normalize_account_content_override
              (set_or (pt_override patch) id (versions_to_override_map versions)) targets\<rparr>
      in (merged,
          \<lparr>pf_title = (pt_title patch \<noteq> None), pf_content = (pt_content patch \<noteq> None),
           pf_scheduled_at = (pt_scheduled_at patch \<noteq> None),
           pf_target_accounts = (pt_target_accounts patch \<noteq> None),
           pf_visibility = (pt_visibility patch \<noteq> None), pf_media_ids = (pt_media_ids patch \<noteq> None),
           pf_media_exclude = (pt_media_exclude patch \<noteq> None), pf_versions = (pt_override patch \<noteq> None),
           pf_draft = (pt_draft patch \<noteq> None)\<rparr>))"

section \<open>Lemmas\<close>

lemma visibility_idem [simp]: "normalize_post_visibility (normalize_post_visibility v) = normalize_post_visibility v"
proof -
  have "normalize_post_visibility x = x" if "x \<in> {''public'', ''unlisted'', ''private'', ''direct''}" for x
    using that by (elim insertE emptyE)
      (simp_all add: normalize_post_visibility_def to_lower_def replace_all_def lower_char_def trim_eval
        bytes_u0130_def bytes_u212A_def Let_def)
  moreover have "normalize_post_visibility v \<in> {''public'', ''unlisted'', ''private'', ''direct''}"
    by (simp add: normalize_post_visibility_def Let_def)
  ultimately show ?thesis by blast
qed

lemma normalize_media_ids_id: "\<forall>i \<in> set ids. i \<noteq> [] \<and> trim_space i = i \<Longrightarrow> normalize_media_ids ids = ids"
  by (simp add: normalize_media_ids_def map_idI)

lemma normalize_media_ids_clean: "i \<in> set (normalize_media_ids ids) \<Longrightarrow> i \<noteq> [] \<and> trim_space i = i"
  by (auto simp: normalize_media_ids_def)

lemma normalize_media_ids_idem [simp]: "normalize_media_ids (normalize_media_ids ids) = normalize_media_ids ids"
  by (rule normalize_media_ids_id) (auto dest: normalize_media_ids_clean)

lemma normalize_override_idem [simp]:
  "normalize_account_content_override (normalize_account_content_override over ts) ts =
   normalize_account_content_override over ts"
proof -
  let ?P = "\<lambda>(acc, c). c \<noteq> [] \<and> acc \<in> set ts"
  let ?T = "\<lambda>(acc, c). (acc, trim_space c)"
  let ?N = "filter ?P (map ?T over)"
  have "map ?T ?N = ?N" by (rule map_idI) auto
  then have "filter ?P (map ?T ?N) = ?N" by simp
  moreover have "normalize_account_content_override xs ts = filter ?P (map ?T xs)" for xs
    by (simp add: normalize_account_content_override_def)
  ultimately show ?thesis by simp
qed

definition exclude_clean :: "string list \<Rightarrow> (string \<times> string list) list \<Rightarrow> bool" where
  "exclude_clean allowed ex \<longleftrightarrow> distinct (map fst ex) \<and>
     (\<forall>(acc, xs) \<in> set ex. acc \<noteq> [] \<and> trim_space acc = acc \<and> xs \<noteq> [] \<and>
        (\<forall>m \<in> set xs. m \<noteq> [] \<and> trim_space m = m \<and> (allowed = [] \<or> m \<in> set allowed)))"

lemma set_update_subset: "set (AList.update k v al) \<subseteq> insert (k, v) (set al)"
  by (induction al) auto

lemma exclude_loop_clean:
  "exclude_clean allowed out \<Longrightarrow> exclude_clean allowed (normalize_media_exclude_loop allowed out ex)"
proof (induction allowed out ex rule: normalize_media_exclude_loop.induct)
  case (2 allowed out acc xs ex)
  note clean = 2(2)
  define f where "f = normalize_media_ids (filter (\<lambda>m. m \<noteq> [] \<and> (allowed = [] \<or> m \<in> set allowed)) (map trim_space xs))"
  have "exclude_clean allowed (AList.update (trim_space acc) f out)" if "trim_space acc \<noteq> []" "f \<noteq> []"
  proof -
    have d: "distinct (map fst (AList.update (trim_space acc) f out))"
      using 2(2) by (simp add: exclude_clean_def distinct_update)
    have clean_f: "\<forall>m \<in> set f. m \<noteq> [] \<and> trim_space m = m \<and> (allowed = [] \<or> m \<in> set allowed)"
      by (auto simp: f_def normalize_media_ids_def)
    have "acc' \<noteq> [] \<and> trim_space acc' = acc' \<and> xs' \<noteq> [] \<and>
        (\<forall>m \<in> set xs'. m \<noteq> [] \<and> trim_space m = m \<and> (allowed = [] \<or> m \<in> set allowed))"
      if "(acc', xs') \<in> set (AList.update (trim_space acc) f out)" for acc' xs'
    proof -
      from subsetD [OF set_update_subset that]
      have "(acc', xs') = (trim_space acc, f) \<or> (acc', xs') \<in> set out" by (simp only: insert_iff)
      then show ?thesis
      proof
        assume "(acc', xs') = (trim_space acc, f)"
        then have "acc' = trim_space acc" "xs' = f" by (simp_all only: prod.inject)
        then show ?thesis using \<open>trim_space acc \<noteq> []\<close> \<open>f \<noteq> []\<close> clean_f by (simp only: trim_space_idem) blast
      next
        assume "(acc', xs') \<in> set out"
        with clean show ?thesis by (auto simp: exclude_clean_def)
      qed
    qed
    with d show ?thesis unfolding exclude_clean_def by blast
  qed
  with 2 show ?case by (simp add: Let_def f_def)
qed simp

lemma exclude_loop_id:
  "exclude_clean allowed ex \<Longrightarrow> fst ` set ex \<inter> fst ` set out = {} \<Longrightarrow>
     normalize_media_exclude_loop allowed out ex = out @ ex"
proof (induction ex arbitrary: out)
  case (Cons e ex)
  obtain acc xs where e: "e = (acc, xs)" by (cases e)
  from Cons.prems(1) have c: "acc \<noteq> []" "trim_space acc = acc" "xs \<noteq> []"
    "\<forall>m \<in> set xs. m \<noteq> [] \<and> trim_space m = m \<and> (allowed = [] \<or> m \<in> set allowed)"
    and rest: "exclude_clean allowed ex" and new: "acc \<notin> fst ` set ex"
    by (auto simp: exclude_clean_def e)
  have k: "filter (\<lambda>m. m \<noteq> [] \<and> (allowed = [] \<or> m \<in> set allowed)) (map trim_space xs) = xs"
    using c(4) by (simp add: map_idI)
  have n: "normalize_media_ids xs = xs" using c(4) by (intro normalize_media_ids_id) blast
  have "acc \<notin> fst ` set out" using Cons.prems(2) by (auto simp: e)
  then have u: "AList.update acc xs out = out @ [(acc, xs)]"
    by (induction out) auto
  have "normalize_media_exclude_loop allowed (out @ [(acc, xs)]) ex = (out @ [(acc, xs)]) @ ex"
    using Cons.IH [OF rest, of "out @ [(acc, xs)]"] Cons.prems(2) new by (auto simp: e)
  with c u k n show ?case by (simp add: e Let_def)
qed simp

lemma exclude_idem:
  "normalize_media_exclude_by_account (normalize_media_exclude_by_account ex ids) ids =
   normalize_media_exclude_by_account ex ids"
proof (cases "ex = []")
  case False
  have "exclude_clean (normalize_media_ids ids) (normalize_media_exclude_by_account ex ids)"
    using False exclude_loop_clean [of "normalize_media_ids ids" "[]" ex]
    by (simp add: normalize_media_exclude_by_account_def exclude_clean_def)
  from exclude_loop_id [OF this, of "[]"] show ?thesis
    by (subst normalize_media_exclude_by_account_def) simp
qed (simp add: normalize_media_exclude_by_account_def)

section \<open>Generated titles\<close>

lemma ellipsis_encoded: "ellipsis = encode_runes [0x2026]"
  by (simp add: ellipsis_def encode_runes_def encode_bytes_def valid_rune_def Let_def char_of_def bit_0)

lemma encode_runes_append: "encode_runes (rs @ rs') = encode_runes rs @ encode_runes rs'"
  by (simp add: encode_runes_def)

lemma encode_bytes_snoc:
  assumes "r \<noteq> 32"
  shows "\<exists>xs b. encode_bytes r = xs @ [b] \<and> b \<noteq> 32"
proof -
  define r' where "r' = (if valid_rune r then r else rune_error)"
  have r': "r' \<noteq> 32" using assms by (simp add: r'_def rune_error_def)
  have c: "0x80 + n \<noteq> (32 :: nat)" for n by simp
  show ?thesis
    unfolding encode_bytes_def Let_def r'_def [symmetric]
    using r' c by (auto simp: append_eq_Cons_conv Cons_eq_append_conv split: if_split)
qed

lemma trim_right_blanks_snoc:
  "trim_right_blanks (s @ [c]) = (if c = CHR '' '' then trim_right_blanks s else s @ [c])"
  by (simp add: trim_right_blanks_def)

lemma char_of_blank: "b < 256 \<Longrightarrow> (char_of b :: char) = CHR '' '' \<longleftrightarrow> b = (32 :: nat)"
proof -
  assume b: "b < 256"
  have "CHR '' '' = char_of (32 :: nat)" by (simp add: char_of_def bit_0)
  with b show ?thesis by (simp add: char_of_eq_iff take_bit_eq_mod)
qed

lemma trim_right_blanks_encode:
  "\<exists>k. trim_right_blanks (encode_runes rs) = encode_runes (take k rs)"
proof (induction rs rule: rev_induct)
  case Nil
  show ?case by (simp add: trim_right_blanks_def encode_runes_def)
next
  case (snoc r rs)
  show ?case
  proof (cases "r = 32")
    case True
    have "encode_runes [32] = '' ''"
      by (simp add: encode_runes_def encode_bytes_def valid_rune_def char_of_def bit_0)
    then have "trim_right_blanks (encode_runes (rs @ [r])) = trim_right_blanks (encode_runes rs)"
      using True trim_right_blanks_snoc [of "encode_runes rs" "CHR '' ''"] by (simp add: encode_runes_append)
    moreover obtain k where "trim_right_blanks (encode_runes rs) = encode_runes (take k rs)"
      using snoc by blast
    ultimately show ?thesis
      by (intro exI [of _ "min k (length rs)"]) (simp add: min_def)
  next
    case False
    obtain xs b where b: "encode_bytes r = xs @ [b]" "b \<noteq> 32" using encode_bytes_snoc [OF False] by blast
    then have "b < 256" using encode_bytes_range [of b r] by simp
    with b have "char_of b \<noteq> CHR '' ''" using char_of_blank by simp
    then have "trim_right_blanks (encode_runes (rs @ [r])) = encode_runes (rs @ [r])"
      using trim_right_blanks_snoc [of "encode_runes rs @ map char_of xs" "char_of b"]
      by (simp add: encode_runes_append encode_runes_def b(1))
    then show ?thesis by (intro exI [of _ "Suc (length rs)"]) simp
  qed
qed

lemma title_of_lines_runes: "rune_count (title_of_lines ls) \<le> 81"
proof (induction ls rule: title_of_lines.induct)
  case 1
  show ?case by (simp add: rune_count_def)
next
  case (2 line ls)
  let ?rs = "take 80 (runes (trim_space line))"
  have v: "list_all valid_rune (take k ?rs)" for k
    using runes_valid [of "trim_space line"] by (auto simp: list_all_iff dest!: in_set_takeD)
  obtain k where "trim_right_blanks (encode_runes ?rs) = encode_runes (take k ?rs)"
    using trim_right_blanks_encode by blast
  then have "trim_right_blanks (encode_runes ?rs) @ ellipsis = encode_runes (take k ?rs @ [0x2026])"
    by (simp add: ellipsis_encoded encode_runes_append)
  moreover have "list_all valid_rune (take k ?rs @ [0x2026])"
    using v by (simp add: valid_rune_def)
  ultimately have "rune_count (trim_right_blanks (encode_runes ?rs) @ ellipsis) = length (take k ?rs) + 1"
    by (simp add: rune_count_def runes_encode_only del: take_take)
  then have "rune_count (trim_right_blanks (encode_runes ?rs) @ ellipsis) \<le> 81" by simp
  with 2 show ?case
    by (auto simp: Let_def generated_title_max_runes_def rune_count_def)
qed

lemma title_of_lines_blank: "title_of_lines ls = [] \<longleftrightarrow> (\<forall>l \<in> set ls. trim_space l = [])"
  by (induction ls rule: title_of_lines.induct) (auto simp: Let_def ellipsis_def)

section \<open>Properties\<close>

text \<open>\<open>CreatePostInput.Normalize\<close> is idempotent: a second pass over a canonical input changes
  nothing, so REST, MCP and automation may normalise an input more than once.\<close>
theorem normalize_input_idempotent: "normalize_input (normalize_input inp) = normalize_input inp"
  by (simp add: normalize_input_def Let_def exclude_idem)

text \<open>A title generated from content has at most 81 runes, ellipsis included, and is empty only
  when every line of the content is blank.\<close>
theorem generate_title_bounds:
  "rune_count (generate_title_from_content content) \<le> 81 \<and>
   (generate_title_from_content content = [] \<longleftrightarrow> list_all (\<lambda>l. trim_space l = []) (split_on (CHR 0x0A) content))"
  unfolding generate_title_from_content_def list_all_iff using title_of_lines_runes title_of_lines_blank by blast

text \<open>\<open>NormalizeMediaIDs\<close> keeps duplicates, although the comment of \<open>Normalize\<close> promises
  deduplicated media.\<close>

lemma normalize_keeps_duplicate_media:
  "in_media_ids (normalize_input (empty_input\<lparr>in_media_ids := [''m1'', ''m1'']\<rparr>)) = [''m1'', ''m1'']"
  by (simp add: normalize_input_def normalize_media_ids_def trim_eval empty_input_def Let_def)

end
