(* ===== verification/Identity_Store.thy ===== *)
theory Identity_Store
  imports Domain
begin

text \<open>
  The tables of users, teams, memberships, invitations and API tokens, and the operations of
  \<open>internal/store/sqlite\<close> (\<open>store.go\<close>, \<open>tokens_metrics.go\<close>, \<open>personal.go\<close>, \<open>invitations.go\<close>) on them.
  A table is the list of its rows; primary keys, unique columns and foreign keys of \<open>schema.sql\<close> are
  checked by the inserts. Random ids and secrets, the clock and SHA-256 are arguments.
\<close>

section \<open>Rows\<close>

datatype store_error = No_Rows | Constraint | Backend string | Refused string

datatype team_role = Owner | Editor | Viewer

text \<open>Time columns are text compared as text. \<open>formatTime\<close> writes nine fractional digits; an API
  token's expiry is written with \<open>time.RFC3339\<close>, without a fraction, and the letter Z sorts after the
  full stop: such a stamp compares greater than every nine-digit stamp of its own second.\<close>

datatype stamp = Nano_Stamp instant | Second_Stamp int

fun stamp_less :: "stamp \<Rightarrow> stamp \<Rightarrow> bool" where
  "stamp_less (Nano_Stamp a) (Nano_Stamp b) = (a < b)"
| "stamp_less (Second_Stamp a) (Second_Stamp b) = (a < b)"
| "stamp_less (Nano_Stamp a) (Second_Stamp b) = (a div nanos \<le> b)"
| "stamp_less (Second_Stamp a) (Nano_Stamp b) = (a < b div nanos)"

fun stamp_time :: "stamp \<Rightarrow> instant" where
  "stamp_time (Nano_Stamp a) = a"
| "stamp_time (Second_Stamp a) = a * nanos"

lemma stamp_total: "stamp_less a b \<or> a = b \<or> stamp_less b a"
  by (cases a; cases b) auto

lemma stamp_time_le: "stamp_less a b \<Longrightarrow> stamp_time a < stamp_time b + nanos"
proof (cases a; cases b)
  fix x y assume "stamp_less a b" and ab: "a = Nano_Stamp x" "b = Second_Stamp y"
  then have "x div nanos \<le> y" by simp
  then have "x div nanos * nanos \<le> y * nanos" using nanos_pos by simp
  moreover have "x < x div nanos * nanos + nanos"
    using div_mult_mod_eq [of x nanos] pos_mod_bound [OF nanos_pos, of x] by linarith
  ultimately show ?thesis by (simp add: ab)
next
  fix x y assume "stamp_less a b" and ab: "a = Second_Stamp x" "b = Nano_Stamp y"
  then have "x < y div nanos" by simp
  then have "x * nanos < y div nanos * nanos" using nanos_pos by simp
  moreover have "y div nanos * nanos \<le> y"
    using div_mult_mod_eq [of y nanos] pos_mod_sign [OF nanos_pos, of y] by linarith
  ultimately show ?thesis unfolding ab stamp_time.simps using nanos_pos by linarith
qed (use nanos_pos in \<open>auto simp: nanos_def\<close>)

record team_row =
  tm_id :: string
  tm_name :: string
  tm_ai_enabled :: bool

record membership_row =
  mb_user :: string
  mb_team :: string
  mb_role :: team_role

record invitation_row =
  iv_id :: string
  iv_team :: string
  iv_email :: string
  iv_role :: team_role
  iv_hash :: string
  iv_expires :: instant

record token_row =
  tk_id :: string
  tk_user :: string
  tk_name :: string
  tk_hash :: string
  tk_last_used :: "instant option"
  tk_expires :: "stamp option"
  tk_scopes :: "string list"
  tk_description :: string
  tk_team :: "string option"
  tk_created :: instant

record identity_db =
  id_users :: "user list"
  id_teams :: "team_row list"
  id_members :: "membership_row list"
  id_invites :: "invitation_row list"
  id_tokens :: "token_row list"

record api_token =
  at_id :: string
  at_user :: string
  at_name :: string
  at_description :: string
  at_team :: "string option"
  at_scopes :: "string list"
  at_expires :: "instant option"
  at_created :: instant

definition web_session_name :: string where "web_session_name = ''__web_session''"
definition bootstrap_admin_subject :: string where "bootstrap_admin_subject = ''local-admin''"
definition bootstrap_token_name :: string where "bootstrap_token_name = ''Bootstrap admin token''"

section \<open>API tokens\<close>

definition token_insertable :: "token_row \<Rightarrow> identity_db \<Rightarrow> bool" where
  "token_insertable t db \<longleftrightarrow>
     tk_id t \<notin> tk_id ` set (id_tokens db) \<and> tk_hash t \<notin> tk_hash ` set (id_tokens db) \<and>
     tk_user t \<in> u_id ` set (id_users db) \<and>
     (case tk_team t of None \<Rightarrow> True | Some m \<Rightarrow> m \<in> tm_id ` set (id_teams db))"

definition api_token_of :: "token_row \<Rightarrow> api_token" where
  "api_token_of t = \<lparr>at_id = tk_id t, at_user = tk_user t, at_name = tk_name t,
     at_description = tk_description t,
     at_team = (case tk_team t of None \<Rightarrow> None | Some m \<Rightarrow> if m = [] then None else Some m),
     at_scopes = tk_scopes t, at_expires = map_option stamp_time (tk_expires t), at_created = tk_created t\<rparr>"

definition create_user_api_token ::
  "(string \<Rightarrow> string) \<Rightarrow> string \<Rightarrow> string \<Rightarrow> instant \<Rightarrow> string \<Rightarrow> string \<Rightarrow> instant option \<Rightarrow>
   string list \<Rightarrow> string option \<Rightarrow> string \<Rightarrow> identity_db \<Rightarrow> (store_error + string \<times> api_token) \<times> identity_db" where
  "create_user_api_token hash fresh_id secret now user_id name expires scopes team desc db =
     (let name' = trim_space name in
      if name' = [] then (Inl (Refused ''name is required''), db)
      else
        (let ex = (case expires of None \<Rightarrow> add_date utc now 0 0 90 | Some t \<Rightarrow> t);
             row = \<lparr>tk_id = fresh_id, tk_user = user_id, tk_name = name', tk_hash = hash secret,
                    tk_last_used = None, tk_expires = Some (Second_Stamp (unix_of ex)), tk_scopes = scopes,
                    tk_description = trim_space desc, tk_team = team, tk_created = now\<rparr>
         in if token_insertable row db
            then (Inr (secret, (api_token_of row)\<lparr>at_team := team\<rparr>), db\<lparr>id_tokens := id_tokens db @ [row]\<rparr>)
            else (Inl Constraint, db)))"

definition create_session_api_token ::
  "(string \<Rightarrow> string) \<Rightarrow> string \<Rightarrow> string \<Rightarrow> instant \<Rightarrow> int \<Rightarrow> string \<Rightarrow> int \<Rightarrow>
   identity_db \<Rightarrow> (store_error + string \<times> api_token) \<times> identity_db" where
  "create_session_api_token hash fresh_id secret now web_ttl user_id ttl db =
     create_user_api_token hash fresh_id secret now user_id web_session_name
       (Some (now + (if ttl \<le> 0 then web_ttl else ttl))) [] None [] db"

definition token_live :: "instant \<Rightarrow> token_row \<Rightarrow> bool" where
  "token_live now t = (case tk_expires t of None \<Rightarrow> True | Some e \<Rightarrow> stamp_less (Nano_Stamp now) e)"

definition find_user :: "string \<Rightarrow> identity_db \<Rightarrow> user option" where
  "find_user i db = find (\<lambda>u. u_id u = i) (id_users db)"

definition principal_of_token :: "user \<Rightarrow> token_row \<Rightarrow> principal" where
  "principal_of_token u t =
     (let kind = (if tk_name t = web_session_name then ''oidc'' else ''api_token'') in
      \<lparr>p_user = u, p_kind = kind, p_scopes = tk_scopes t,
       p_team_id = (case tk_team t of None \<Rightarrow> None | Some m \<Rightarrow> if trim_space m = [] then None else Some m),
       p_expires_at = map_option stamp_time (tk_expires t), p_token_id = Some (tk_id t),
       p_token_name = (if kind = ''api_token'' then Some (tk_name t) else None)\<rparr>)"

definition lookup_api_token ::
  "(string \<Rightarrow> string) \<Rightarrow> string option \<Rightarrow> instant \<Rightarrow> int \<Rightarrow> string \<Rightarrow> identity_db \<Rightarrow>
   (store_error + principal) \<times> identity_db" where
  "lookup_api_token hash fault now web_ttl bearer db =
     (case fault of Some e \<Rightarrow> (Inl (Backend e), db)
      | None \<Rightarrow>
        (case find (\<lambda>t. tk_hash t = hash bearer \<and> token_live now t \<and> find_user (tk_user t) db \<noteq> None)
                (id_tokens db) of
           None \<Rightarrow> (Inl No_Rows, db)
         | Some t \<Rightarrow>
             (Inr (principal_of_token (the (find_user (tk_user t) db)) t),
              db\<lparr>id_tokens := update_where (\<lambda>r. tk_hash r = hash bearer)
                   (\<lambda>r. r\<lparr>tk_last_used := Some now,
                          tk_expires := (if tk_name r = web_session_name
                             then Some (Nano_Stamp (now + web_ttl)) else tk_expires r)\<rparr>) (id_tokens db)\<rparr>)))"

definition session_dead :: "instant \<Rightarrow> string \<Rightarrow> token_row \<Rightarrow> bool" where
  "session_dead now user_id t \<longleftrightarrow> tk_user t = user_id \<and> tk_name t = web_session_name \<and>
     (case tk_expires t of None \<Rightarrow> False | Some e \<Rightarrow> \<not> stamp_less (Nano_Stamp now) e)"

definition list_user_api_tokens :: "instant \<Rightarrow> string \<Rightarrow> identity_db \<Rightarrow> api_token list \<times> identity_db" where
  "list_user_api_tokens now user_id db =
     (let kept = delete_where (session_dead now user_id) (id_tokens db) in
      (map api_token_of (sort_key (\<lambda>t. - tk_created t) (filter (\<lambda>t. tk_user t = user_id) kept)),
       db\<lparr>id_tokens := kept\<rparr>))"

definition revoke_user_api_token :: "string \<Rightarrow> string \<Rightarrow> identity_db \<Rightarrow> (store_error + unit) \<times> identity_db" where
  "revoke_user_api_token user_id token_id db =
     (let p = (\<lambda>t. tk_id t = token_id \<and> tk_user t = user_id) in
      if count_where p (id_tokens db) = 0 then (Inl No_Rows, db)
      else (Inr (), db\<lparr>id_tokens := delete_where p (id_tokens db)\<rparr>))"

section \<open>Users\<close>

definition ensure_bootstrap_admin ::
  "(string \<Rightarrow> string) \<Rightarrow> string \<Rightarrow> string \<Rightarrow> instant \<Rightarrow> string \<Rightarrow> string \<Rightarrow> string \<Rightarrow>
   identity_db \<Rightarrow> (store_error + unit) \<times> identity_db" where
  "ensure_bootstrap_admin hash fresh_user fresh_token now email name token db =
     (let existing = find (\<lambda>u. u_subject u = bootstrap_admin_subject) (id_users db);
          users = (case existing of
             None \<Rightarrow> id_users db @ [\<lparr>u_id = fresh_user, u_email = email, u_name = name, u_picture_url = [],
                       u_subject = bootstrap_admin_subject, u_is_admin = True, u_tour_done = False\<rparr>]
           | Some _ \<Rightarrow> update_where (\<lambda>u. u_subject u = bootstrap_admin_subject)
                         (\<lambda>u. u\<lparr>u_email := email, u_name := name, u_is_admin := True\<rparr>) (id_users db));
          uid = (case existing of None \<Rightarrow> fresh_user | Some u \<Rightarrow> u_id u);
          tokens = delete_where (\<lambda>t. tk_user t = uid \<and> tk_name t = bootstrap_token_name) (id_tokens db);
          row = \<lparr>tk_id = fresh_token, tk_user = uid, tk_name = bootstrap_token_name, tk_hash = hash token,
                 tk_last_used = None, tk_expires = None, tk_scopes = [], tk_description = [],
                 tk_team = None, tk_created = now\<rparr>;
          db' = db\<lparr>id_users := users, id_tokens := tokens\<rparr>
      in if (existing = None \<and> fresh_user \<in> u_id ` set (id_users db)) \<or> \<not> token_insertable row db'
         then (Inl Constraint, db)
         else (Inr (), db'\<lparr>id_tokens := tokens @ [row]\<rparr>))"

definition upsert_oidc_user ::
  "string \<Rightarrow> string \<Rightarrow> string \<Rightarrow> string \<Rightarrow> string \<Rightarrow> identity_db \<Rightarrow> (store_error + user) \<times> identity_db" where
  "upsert_oidc_user fresh_id subject email name picture db =
     (case find (\<lambda>u. u_subject u = subject) (id_users db) of
        Some u \<Rightarrow>
          (let users = update_where (\<lambda>r. u_id r = u_id u)
                 (\<lambda>r. r\<lparr>u_email := email, u_name := name, u_picture_url := picture\<rparr>) (id_users db)
           in (case find (\<lambda>r. u_id r = u_id u) users of
                 None \<Rightarrow> (Inl No_Rows, db)
               | Some r \<Rightarrow> (Inr r, db\<lparr>id_users := users\<rparr>)))
      | None \<Rightarrow>
          (let first = (count_where (\<lambda>u. u_subject u \<noteq> bootstrap_admin_subject) (id_users db) = 0);
               u = \<lparr>u_id = fresh_id, u_email = email, u_name = name, u_picture_url = picture,
                    u_subject = subject, u_is_admin = first, u_tour_done = False\<rparr>
           in if fresh_id \<in> u_id ` set (id_users db) then (Inl Constraint, db)
              else (Inr u, db\<lparr>id_users := id_users db @ [u]\<rparr>)))"

definition set_user_admin :: "string \<Rightarrow> bool \<Rightarrow> identity_db \<Rightarrow> (store_error + user) \<times> identity_db" where
  "set_user_admin user_id admin db =
     (let db' = db\<lparr>id_users := update_where (\<lambda>u. u_id u = user_id) (\<lambda>u. u\<lparr>u_is_admin := admin\<rparr>) (id_users db)\<rparr>
      in (case find_user user_id db' of None \<Rightarrow> (Inl No_Rows, db') | Some u \<Rightarrow> (Inr u, db')))"

definition set_user_tour_done :: "string \<Rightarrow> bool \<Rightarrow> identity_db \<Rightarrow> (store_error + user) \<times> identity_db" where
  "set_user_tour_done user_id done db =
     (let db' = db\<lparr>id_users := update_where (\<lambda>u. u_id u = user_id) (\<lambda>u. u\<lparr>u_tour_done := done\<rparr>) (id_users db)\<rparr>
      in (case find_user user_id db' of None \<Rightarrow> (Inl No_Rows, db') | Some u \<Rightarrow> (Inr u, db')))"

section \<open>Teams, memberships and invitations\<close>

definition create_team ::
  "string \<Rightarrow> string \<Rightarrow> string \<Rightarrow> identity_db \<Rightarrow> (store_error + team_row) \<times> identity_db" where
  "create_team fresh_id owner name db =
     (let row = \<lparr>tm_id = fresh_id, tm_name = name, tm_ai_enabled = False\<rparr>;
          mb = \<lparr>mb_user = owner, mb_team = fresh_id, mb_role = Owner\<rparr>
      in if fresh_id \<in> tm_id ` set (id_teams db) \<or> name \<in> tm_name ` set (id_teams db) \<or>
            owner \<notin> u_id ` set (id_users db)
         then (Inl Constraint, db)
         else (Inr row, db\<lparr>id_teams := id_teams db @ [row], id_members := id_members db @ [mb]\<rparr>))"

definition get_team_by_id :: "string \<Rightarrow> identity_db \<Rightarrow> store_error + team_row" where
  "get_team_by_id team db =
     (case find (\<lambda>t. tm_id t = team) (id_teams db) of None \<Rightarrow> Inl No_Rows | Some t \<Rightarrow> Inr t)"

text \<open>The upsert on the primary key \<open>(user_id, team_id)\<close>.\<close>

definition upsert_member :: "string \<Rightarrow> string \<Rightarrow> team_role \<Rightarrow> membership_row list \<Rightarrow> membership_row list" where
  "upsert_member user team role rows =
     (let p = (\<lambda>r. mb_user r = user \<and> mb_team r = team) in
      if count_where p rows = 0 then rows @ [\<lparr>mb_user = user, mb_team = team, mb_role = role\<rparr>]
      else update_where p (\<lambda>r. r\<lparr>mb_role := role\<rparr>) rows)"

definition member_insertable :: "string \<Rightarrow> string \<Rightarrow> identity_db \<Rightarrow> bool" where
  "member_insertable user team db \<longleftrightarrow> user \<in> u_id ` set (id_users db) \<and> team \<in> tm_id ` set (id_teams db)"

definition find_member :: "string \<Rightarrow> string \<Rightarrow> identity_db \<Rightarrow> membership_row option" where
  "find_member user team db = find (\<lambda>r. mb_user r = user \<and> mb_team r = team) (id_members db)"

definition add_team_member ::
  "string \<Rightarrow> string \<Rightarrow> team_role \<Rightarrow> identity_db \<Rightarrow> (store_error + membership_row) \<times> identity_db" where
  "add_team_member team user role db =
     (if \<not> member_insertable user team db then (Inl Constraint, db)
      else (let db' = db\<lparr>id_members := upsert_member user team role (id_members db)\<rparr> in
            (case find_member user team db' of None \<Rightarrow> (Inl No_Rows, db') | Some r \<Rightarrow> (Inr r, db'))))"

definition remove_team_member :: "string \<Rightarrow> string \<Rightarrow> identity_db \<Rightarrow> identity_db" where
  "remove_team_member team user db =
     db\<lparr>id_members := delete_where (\<lambda>r. mb_team r = team \<and> mb_user r = user) (id_members db)\<rparr>"

definition user_has_any_team_role :: "string \<Rightarrow> string \<Rightarrow> team_role list \<Rightarrow> identity_db \<Rightarrow> bool" where
  "user_has_any_team_role user team roles db =
     (case find_member user team db of None \<Rightarrow> False | Some r \<Rightarrow> mb_role r \<in> set roles)"

definition week :: int where "week = 7 * 24 * 3600 * nanos"

text \<open>\<open>lower\<close> is \<open>strings.ToLower\<close> on the whole address.\<close>

definition create_team_invitation ::
  "(string \<Rightarrow> string) \<Rightarrow> (string \<Rightarrow> string) \<Rightarrow> string \<Rightarrow> string \<Rightarrow> instant \<Rightarrow> string \<Rightarrow> string \<Rightarrow> string \<Rightarrow> team_role \<Rightarrow>
   identity_db \<Rightarrow> (store_error + invitation_row \<times> string) \<times> identity_db" where
  "create_team_invitation hash lower fresh_id secret now team creator email role db =
     (case get_team_by_id team db of Inl e \<Rightarrow> (Inl e, db)
      | Inr _ \<Rightarrow>
        (let email' = trim_space (lower email) in
         if email' = [] then (Inl (Refused ''email is required''), db)
         else if role \<noteq> Editor \<and> role \<noteq> Viewer then (Inl (Refused ''role must be editor or viewer''), db)
         else (let row = \<lparr>iv_id = fresh_id, iv_team = team, iv_email = email', iv_role = role,
                          iv_hash = hash secret, iv_expires = now + week\<rparr>
               in if fresh_id \<in> iv_id ` set (id_invites db) \<or> hash secret \<in> iv_hash ` set (id_invites db) \<or>
                     creator \<notin> u_id ` set (id_users db)
                  then (Inl Constraint, db)
                  else (Inr (row, secret), db\<lparr>id_invites := id_invites db @ [row]\<rparr>))))"

definition accept_team_invitation ::
  "(string \<Rightarrow> string) \<Rightarrow> (string \<Rightarrow> string) \<Rightarrow> instant \<Rightarrow> string \<Rightarrow> string \<Rightarrow> string \<Rightarrow>
   identity_db \<Rightarrow> (store_error + membership_row) \<times> identity_db" where
  "accept_team_invitation hash lower now user_id email raw db =
     (let email' = trim_space (lower email) in
      case find (\<lambda>i. iv_hash i = hash raw) (id_invites db) of
        None \<Rightarrow> (Inl (Refused ''invalid or expired invitation''), db)
      | Some iv \<Rightarrow>
          if iv_expires iv < now then (Inl (Refused ''invitation expired''), db)
          else if iv_email iv \<noteq> email'
          then (Inl (Refused ''invitation email does not match your account''), db)
          else if \<not> member_insertable user_id (iv_team iv) db then (Inl Constraint, db)
          else (let db' = db\<lparr>id_members := upsert_member user_id (iv_team iv) (iv_role iv) (id_members db),
                             id_invites := delete_where (\<lambda>i. iv_id i = iv_id iv) (id_invites db)\<rparr>
                in (case find_member user_id (iv_team iv) db' of
                      None \<Rightarrow> (Inl No_Rows, db') | Some r \<Rightarrow> (Inr r, db'))))"

definition delete_team_invitation :: "string \<Rightarrow> string \<Rightarrow> identity_db \<Rightarrow> (store_error + unit) \<times> identity_db" where
  "delete_team_invitation team iid db =
     (let p = (\<lambda>i. iv_id i = iid \<and> iv_team i = team) in
      if count_where p (id_invites db) = 0 then (Inl (Refused ''invitation not found''), db)
      else (Inr (), db\<lparr>id_invites := delete_where p (id_invites db)\<rparr>))"

section \<open>Consistency of the tables\<close>

text \<open>What the schema guarantees: keys and unique columns are distinct, and references point at rows.\<close>

definition identity_ok :: "identity_db \<Rightarrow> bool" where
  "identity_ok db \<longleftrightarrow>
     distinct (map u_id (id_users db)) \<and> distinct (map u_subject (id_users db)) \<and>
     distinct (map tm_id (id_teams db)) \<and> distinct (map tm_name (id_teams db)) \<and>
     distinct (map (\<lambda>r. (mb_user r, mb_team r)) (id_members db)) \<and>
     distinct (map iv_id (id_invites db)) \<and> distinct (map iv_hash (id_invites db)) \<and>
     distinct (map tk_id (id_tokens db)) \<and> distinct (map tk_hash (id_tokens db)) \<and>
     (\<forall>t \<in> set (id_tokens db). tk_user t \<in> u_id ` set (id_users db)) \<and>
     (\<forall>r \<in> set (id_members db). mb_user r \<in> u_id ` set (id_users db) \<and> mb_team r \<in> tm_id ` set (id_teams db))"

lemma find_user_iff:
  "identity_ok db \<Longrightarrow> find_user i db = Some u \<longleftrightarrow> u \<in> set (id_users db) \<and> u_id u = i"
proof
  assume "find_user i db = Some u"
  then show "u \<in> set (id_users db) \<and> u_id u = i" by (auto simp: find_user_def find_Some_iff)
next
  assume "identity_ok db" "u \<in> set (id_users db) \<and> u_id u = i"
  then show "find_user i db = Some u"
    unfolding find_user_def by (intro find_unique [where key = u_id]) (auto simp: identity_ok_def)
qed

lemma find_user_exists: "i \<in> u_id ` set (id_users db) \<Longrightarrow> find_user i db \<noteq> None"
  by (auto simp: find_user_def find_None_iff)

lemma update_users_ok:
  assumes "identity_ok db" "\<And>u. u_id (f u) = u_id u" "\<And>u. u_subject (f u) = u_subject u"
  shows "identity_ok (db\<lparr>id_users := update_where p f (id_users db)\<rparr>)"
proof -
  have "map u_id (update_where p f (id_users db)) = map u_id (id_users db)"
    "map u_subject (update_where p f (id_users db)) = map u_subject (id_users db)"
    by (rule map_update_where_key; simp add: assms)+
  moreover from this(1) have "u_id ` set (update_where p f (id_users db)) = u_id ` set (id_users db)"
    by (metis list.set_map)
  ultimately show ?thesis
    using assms(1) unfolding identity_ok_def by simp
qed

lemma distinct_append_new: "distinct (map key xs) \<Longrightarrow> key x \<notin> key ` set xs \<Longrightarrow> distinct (map key (xs @ [x]))"
  by auto

lemma member_keys_upsert:
  "distinct (map (\<lambda>r. (mb_user r, mb_team r)) rows) \<Longrightarrow>
     distinct (map (\<lambda>r. (mb_user r, mb_team r)) (upsert_member user team role rows))"
  by (auto simp: upsert_member_def Let_def count_where_0 map_update_where_key)

lemma member_set_upsert:
  "r \<in> set (upsert_member user team role rows) \<Longrightarrow>
     (mb_user r = user \<and> mb_team r = team \<and> mb_role r = role) \<or> r \<in> set rows"
  by (auto simp: upsert_member_def Let_def split: if_splits)

section \<open>Every operation keeps the tables consistent\<close>

definition empty_identity_db :: identity_db where
  "empty_identity_db = \<lparr>id_users = [], id_teams = [], id_members = [], id_invites = [], id_tokens = []\<rparr>"

inductive identity_step :: "identity_db \<Rightarrow> identity_db \<Rightarrow> bool" where
  step_create_token:
    "identity_step db (snd (create_user_api_token hash i secret now user name expires scopes team desc db))"
| step_create_session: "identity_step db (snd (create_session_api_token hash i secret now web user ttl db))"
| step_lookup: "identity_step db (snd (lookup_api_token hash fault now web bearer db))"
| step_list: "identity_step db (snd (list_user_api_tokens now user db))"
| step_revoke: "identity_step db (snd (revoke_user_api_token user tid db))"
| step_bootstrap: "identity_step db (snd (ensure_bootstrap_admin hash fu ft now email name token db))"
| step_upsert: "identity_step db (snd (upsert_oidc_user i subject email name pic db))"
| step_admin: "identity_step db (snd (set_user_admin user admin db))"
| step_tour: "identity_step db (snd (set_user_tour_done user fin db))"
| step_create_team: "identity_step db (snd (create_team i owner name db))"
| step_add_member: "identity_step db (snd (add_team_member team user role db))"
| step_remove_member: "identity_step db (remove_team_member team user db)"
| step_invite: "identity_step db (snd (create_team_invitation hash lower i secret now team user email role db))"
| step_accept: "identity_step db (snd (accept_team_invitation hash lower now user email raw db))"
| step_delete_invite: "identity_step db (snd (delete_team_invitation team iid db))"

lemma tokens_delete_ok:
  "identity_ok db \<Longrightarrow> identity_ok (db\<lparr>id_tokens := delete_where p (id_tokens db)\<rparr>)"
  by (simp add: identity_ok_def distinct_delete_where)

lemma tokens_append_ok:
  "identity_ok db \<Longrightarrow> token_insertable t db \<Longrightarrow> identity_ok (db\<lparr>id_tokens := id_tokens db @ [t]\<rparr>)"
  by (auto simp: identity_ok_def token_insertable_def)

lemma tokens_update_ok:
  assumes "identity_ok db" "\<And>t. tk_id (f t) = tk_id t" "\<And>t. tk_hash (f t) = tk_hash t"
    "\<And>t. tk_user (f t) = tk_user t"
  shows "identity_ok (db\<lparr>id_tokens := update_where p f (id_tokens db)\<rparr>)"
  using assms by (auto simp: identity_ok_def map_update_where_key)

lemma users_append_ok:
  "identity_ok db \<Longrightarrow> u_id u \<notin> u_id ` set (id_users db) \<Longrightarrow> u_subject u \<notin> u_subject ` set (id_users db) \<Longrightarrow>
     identity_ok (db\<lparr>id_users := id_users db @ [u]\<rparr>)"
  by (auto simp: identity_ok_def)

lemma members_upsert_ok:
  "identity_ok db \<Longrightarrow> member_insertable user team db \<Longrightarrow>
     identity_ok (db\<lparr>id_members := upsert_member user team role (id_members db)\<rparr>)"
  by (auto simp: identity_ok_def member_insertable_def member_keys_upsert dest!: member_set_upsert)

lemma invites_delete_ok:
  "identity_ok db \<Longrightarrow> identity_ok (db\<lparr>id_invites := delete_where p (id_invites db)\<rparr>)"
  by (simp add: identity_ok_def distinct_delete_where)

lemma bootstrap_ok:
  assumes "identity_ok db"
  shows "identity_ok (snd (ensure_bootstrap_admin hash fu ft now email name token db))"
proof -
  let ?p = "\<lambda>u. u_subject u = bootstrap_admin_subject"
  define users where "users = (case find ?p (id_users db) of
             None \<Rightarrow> id_users db @ [\<lparr>u_id = fu, u_email = email, u_name = name, u_picture_url = [],
                       u_subject = bootstrap_admin_subject, u_is_admin = True, u_tour_done = False\<rparr>]
           | Some _ \<Rightarrow> update_where ?p
                         (\<lambda>u. u\<lparr>u_email := email, u_name := name, u_is_admin := True\<rparr>) (id_users db))"
  have u: "identity_ok (db\<lparr>id_users := users\<rparr>)" if "find ?p (id_users db) \<noteq> None \<or> fu \<notin> u_id ` set (id_users db)"
  proof (cases "find ?p (id_users db)")
    case None
    with that assms show ?thesis
      unfolding users_def None option.case
      by (intro users_append_ok) (simp_all add: find_None_key [OF None])
  next
    case (Some u)
    show ?thesis unfolding users_def Some option.case by (rule update_users_ok [OF assms]) simp_all
  qed
  show ?thesis
    unfolding ensure_bootstrap_admin_def Let_def users_def [symmetric]
    using tokens_append_ok [OF tokens_delete_ok [OF u]] assms by auto
qed

lemma identity_step_ok: "identity_step db db' \<Longrightarrow> identity_ok db \<Longrightarrow> identity_ok db'"
proof (induction rule: identity_step.induct)
  case (step_create_token db)
  then show ?case by (simp add: create_user_api_token_def Let_def tokens_append_ok)
next
  case (step_create_session db)
  then show ?case
    by (simp add: create_session_api_token_def create_user_api_token_def Let_def tokens_append_ok)
next
  case (step_lookup db)
  then show ?case
    by (auto simp: lookup_api_token_def intro!: tokens_update_ok split: option.splits)
next
  case (step_list db)
  then show ?case by (simp add: list_user_api_tokens_def Let_def tokens_delete_ok)
next
  case (step_revoke db)
  then show ?case by (simp add: revoke_user_api_token_def Let_def tokens_delete_ok)
next
  case (step_bootstrap db)
  then show ?case by (rule bootstrap_ok)
next
  case (step_upsert db i subject email name pic)
  then show ?case
    by (auto simp: upsert_oidc_user_def Let_def find_None_iff intro!: update_users_ok users_append_ok
        split: option.splits)
next
  case (step_admin db)
  then show ?case by (auto simp: set_user_admin_def Let_def intro!: update_users_ok split: option.splits)
next
  case (step_tour db)
  then show ?case by (auto simp: set_user_tour_done_def Let_def intro!: update_users_ok split: option.splits)
next
  case (step_create_team db)
  then show ?case by (auto simp: create_team_def Let_def identity_ok_def)
next
  case (step_add_member db)
  then show ?case by (auto simp: add_team_member_def Let_def intro!: members_upsert_ok split: option.splits)
next
  case (step_remove_member db)
  then show ?case by (simp add: remove_team_member_def identity_ok_def distinct_delete_where)
next
  case (step_invite db)
  then show ?case by (auto simp: create_team_invitation_def Let_def identity_ok_def split: sum.splits)
next
  case (step_accept db hash lower now user email raw)
  then show ?case
    using invites_delete_ok [OF members_upsert_ok [OF step_accept]]
    by (auto simp: accept_team_invitation_def Let_def split: option.splits)
next
  case (step_delete_invite db)
  then show ?case by (simp add: delete_team_invitation_def Let_def invites_delete_ok)
qed

lemma empty_identity_ok: "identity_ok empty_identity_db"
  by (simp add: identity_ok_def empty_identity_db_def)

section \<open>Tokens created, found and revoked\<close>

lemma find_hash_unique:
  assumes "identity_ok db" "t \<in> set (id_tokens db)" "tk_hash t = h" "p t"
  shows "find (\<lambda>r. tk_hash r = h \<and> p r) (id_tokens db) = Some t"
  using assms by (intro find_unique [where key = tk_hash]) (auto simp: identity_ok_def)

lemma lookup_found:
  assumes "identity_ok db" "t \<in> set (id_tokens db)" "tk_hash t = hash bearer" "token_live now t"
    and "find_user (tk_user t) db = Some u"
  shows "fst (lookup_api_token hash None now web bearer db) = Inr (principal_of_token u t)"
proof -
  have "find (\<lambda>r. tk_hash r = hash bearer \<and> token_live now r \<and> find_user (tk_user r) db \<noteq> None)
      (id_tokens db) = Some t"
    using assms by (intro find_hash_unique) auto
  then show ?thesis using assms(5) by (simp add: lookup_api_token_def)
qed

lemma lookup_absent:
  "hash bearer \<notin> tk_hash ` set (id_tokens db) \<Longrightarrow>
     lookup_api_token hash None now web bearer db = (Inl No_Rows, db)"
proof -
  assume h: "hash bearer \<notin> tk_hash ` set (id_tokens db)"
  have "find (\<lambda>t. tk_hash t = hash bearer \<and> token_live now t \<and> find_user (tk_user t) db \<noteq> None)
      (id_tokens db) = None"
    using h by (force simp: find_None_iff)
  then show ?thesis by (simp add: lookup_api_token_def)
qed

lemma lookup_sound:
  assumes "lookup_api_token hash fault now web bearer db = (Inr pr, db')"
  shows "\<exists>t u. t \<in> set (id_tokens db) \<and> tk_hash t = hash bearer \<and> token_live now t \<and>
    find_user (tk_user t) db = Some u \<and> pr = principal_of_token u t"
  using assms by (auto simp: lookup_api_token_def find_Some_iff split: option.splits; metis nth_mem)

lemma revoke_removes:
  assumes ok: "identity_ok db" and r: "revoke_user_api_token user tid db = (Inr (), db')"
    and t: "t \<in> set (id_tokens db)" "tk_id t = tid"
  shows "tk_hash t \<notin> tk_hash ` set (id_tokens db')"
proof
  let ?p = "\<lambda>r. tk_id r = tid \<and> tk_user r = user"
  from r have db': "id_tokens db' = delete_where ?p (id_tokens db)" and n: "count_where ?p (id_tokens db) \<noteq> 0"
    by (auto simp: revoke_user_api_token_def Let_def split: if_splits)
  from n obtain t2 where t2: "t2 \<in> set (id_tokens db)" "tk_id t2 = tid" "tk_user t2 = user"
    by (auto simp: count_where_0)
  have "t2 = t"
    by (rule distinct_key_unique [of tk_id "id_tokens db"]) (use ok t t2 in \<open>auto simp: identity_ok_def\<close>)
  assume "tk_hash t \<in> tk_hash ` set (id_tokens db')"
  then obtain t3 where t3: "t3 \<in> set (id_tokens db)" "\<not> ?p t3" "tk_hash t3 = tk_hash t"
    by (auto simp: db')
  have "t3 = t"
    by (rule distinct_key_unique [of tk_hash "id_tokens db"]) (use ok t t3 in \<open>auto simp: identity_ok_def\<close>)
  with t3(2) t2 \<open>t2 = t\<close> show False by simp
qed

lemma create_inserts:
  assumes "create_user_api_token hash i secret now user name expires scopes team desc db = (Inr (plain, at), db')"
  shows "plain = secret \<and> (\<exists>row ex. id_tokens db' = id_tokens db @ [row] \<and> id_users db' = id_users db \<and>
    token_insertable row db \<and> row = \<lparr>tk_id = i, tk_user = user, tk_name = trim_space name, tk_hash = hash secret,
      tk_last_used = None, tk_expires = Some (Second_Stamp (unix_of ex)), tk_scopes = scopes,
      tk_description = trim_space desc, tk_team = team, tk_created = now\<rparr> \<and>
    ex = (case expires of None \<Rightarrow> add_date utc now 0 0 90 | Some t \<Rightarrow> t) \<and> at_expires at = Some (unix_of ex * nanos))"
  using assms by (auto simp: create_user_api_token_def Let_def api_token_of_def split: if_splits)

lemma create_keeps_ok:
  "identity_ok db \<Longrightarrow> create_user_api_token hash i secret now user name expires scopes team desc db = (r, db') \<Longrightarrow>
     identity_ok db'"
  using identity_step_ok [OF step_create_token] by (metis snd_conv)

section \<open>Properties\<close>




definition one_user_db :: identity_db where
  "one_user_db = empty_identity_db\<lparr>id_users := [\<lparr>u_id = ''u1'', u_email = ''a@b'', u_name = ''Ann'',
     u_picture_url = [], u_subject = ''sub'', u_is_admin = False, u_tour_done = False\<rparr>]\<rparr>"

lemma one_user_ok: "identity_ok one_user_db"
  by (simp add: identity_ok_def one_user_db_def empty_identity_db_def)

lemma trim_ci: "trim_space ''ci'' = ''ci''"
  by (simp add: trim_eval)

lemma create_ci:
  "create_user_api_token id ''t1'' ''s3cret'' 0 ''u1'' ''ci'' (Some nanos) [''read''] None [] one_user_db =
    (Inr (''s3cret'', \<lparr>at_id = ''t1'', at_user = ''u1'', at_name = ''ci'', at_description = [], at_team = None,
       at_scopes = [''read''], at_expires = Some nanos, at_created = 0\<rparr>),
     one_user_db\<lparr>id_tokens := [\<lparr>tk_id = ''t1'', tk_user = ''u1'', tk_name = ''ci'', tk_hash = ''s3cret'',
       tk_last_used = None, tk_expires = Some (Second_Stamp 1), tk_scopes = [''read''], tk_description = [],
       tk_team = None, tk_created = 0\<rparr>]\<rparr>)"
  by (simp add: create_user_api_token_def trim_ci token_insertable_def one_user_db_def empty_identity_db_def
      api_token_of_def unix_of_def nanos_def Let_def)


text \<open>C10: once \<open>RevokeUserAPIToken\<close> succeeded, no secret with the token's hash authenticates any
  more.\<close>
theorem revoked_token_rejected:
  assumes "identity_ok db" "revoke_user_api_token user tid db = (Inr (), db')"
    and "t \<in> set (id_tokens db)" "tk_id t = tid" "hash bearer = tk_hash t"
  shows "lookup_api_token hash None now web bearer db' = (Inl No_Rows, db')"
  using revoke_removes [OF assms(1-4)] assms(5) by (intro lookup_absent) simp

lemma one_token_ok:
  "identity_ok (snd (create_user_api_token id ''t1'' ''s3cret'' 0 ''u1'' ''ci'' (Some nanos) [''read''] None [] one_user_db))"
  using create_keeps_ok [OF one_user_ok] prod.collapse by metis

theorem revoked_token_rejected_witness:
  "let db = snd (create_user_api_token id ''t1'' ''s3cret'' 0 ''u1'' ''ci'' (Some nanos) [''read''] None [] one_user_db);
       db' = snd (revoke_user_api_token ''u1'' ''t1'' db)
   in lookup_api_token id None 0 0 ''s3cret'' db' = (Inl No_Rows, db')"
  unfolding Let_def
  by (rule revoked_token_rejected [OF one_token_ok, where user = "''u1''" and tid = "''t1''" and
        t = "\<lparr>tk_id = ''t1'', tk_user = ''u1'', tk_name = ''ci'', tk_hash = ''s3cret'',
       tk_last_used = None, tk_expires = Some (Second_Stamp 1), tk_scopes = [''read''], tk_description = [],
       tk_team = None, tk_created = 0\<rparr>"])
    (simp_all add: create_ci revoke_user_api_token_def count_where_def)

text \<open>The text comparison accepts an API token for up to one second past its expiry.\<close>

lemma token_accepted_after_expiry:
  "token_live (nanos + 500000000) \<lparr>tk_id = ''t1'', tk_user = ''u1'', tk_name = ''ci'', tk_hash = ''s3cret'',
       tk_last_used = None, tk_expires = Some (Second_Stamp 1), tk_scopes = [], tk_description = [],
       tk_team = None, tk_created = 0\<rparr>"
  by (simp add: token_live_def nanos_def)

text \<open>Accepting an invitation overwrites the role of a user who already is a member, so the only
  owner of a team loses the ownership by accepting a viewer invitation sent to the owner's address.\<close>

lemma accept_demotes_owner:
  assumes "identity_ok db" "find (\<lambda>i. iv_hash i = hash raw) (id_invites db) = Some iv"
    and "now \<le> iv_expires iv" "iv_email iv = trim_space (lower email)" "iv_role iv = Viewer"
    and "\<lparr>mb_user = user, mb_team = iv_team iv, mb_role = Owner\<rparr> \<in> set (id_members db)"
  shows "\<not> user_has_any_team_role user (iv_team iv) [Owner]
    (snd (accept_team_invitation hash lower now user email raw db))"
proof -
  from assms(1,6) have ins: "member_insertable user (iv_team iv) db"
    by (auto simp: member_insertable_def identity_ok_def)
  have role: "mb_role r = Viewer"
    if "r \<in> set (upsert_member user (iv_team iv) Viewer (id_members db))" "mb_user r = user" "mb_team r = iv_team iv" for r
  proof -
    let ?p = "\<lambda>r. mb_user r = user \<and> mb_team r = iv_team iv"
    have "0 < count_where ?p (id_members db)"
      unfolding count_where_pos using assms(6) by (rule rev_bexI) simp
    then have "r \<in> set (update_where ?p (\<lambda>r. r\<lparr>mb_role := Viewer\<rparr>) (id_members db))"
      using that(1) by (simp add: upsert_member_def)
    then obtain r0 where "r = (if ?p r0 then r0\<lparr>mb_role := Viewer\<rparr> else r0)"
      unfolding set_update_where by (rule imageE)
    then show ?thesis using that(2,3) by (cases "?p r0") auto
  qed
  define db' where "db' = db\<lparr>id_members := upsert_member user (iv_team iv) Viewer (id_members db),
      id_invites := delete_where (\<lambda>i. iv_id i = iv_id iv) (id_invites db)\<rparr>"
  have "\<not> iv_expires iv < now" using assms(3) by simp
  then have "snd (accept_team_invitation hash lower now user email raw db) = db'"
    by (simp add: accept_team_invitation_def assms(2,4,5) ins db'_def Let_def split: option.split)
  moreover have "\<not> user_has_any_team_role user (iv_team iv) [Owner] db'"
  proof (cases "find_member user (iv_team iv) db'")
    case (Some r)
    from find_SomeD [OF this [unfolded find_member_def]]
    have "r \<in> set (id_members db')" "mb_user r = user" "mb_team r = iv_team iv" by blast+
    then have "mb_role r = Viewer" using role by (simp add: db'_def)
    with Some show ?thesis by (simp add: user_has_any_team_role_def)
  qed (simp add: user_has_any_team_role_def)
  ultimately show ?thesis by simp
qed

end
