(* ===== verification/Auth.thy ===== *)
theory Auth
  imports Identity_Store
begin

text \<open>
  \<open>internal/auth\<close> (\<open>scopes.go\<close>, \<open>auth.go\<close>, \<open>session.go\<close>, \<open>feature_flags.go\<close>) and the token routes and
  policy of \<open>api\<close> (\<open>token_route_policy.go\<close>, \<open>user_api_tokens.go\<close>): scopes and their hierarchy, team
  access, authentication of a request, and what a caller may do with API tokens. The HTTP library is
  the record of what the code reads from a request; the OIDC verifier is a parameter.
\<close>

section \<open>Scopes\<close>

definition scope_read :: string where "scope_read = ''read''"
definition scope_write :: string where "scope_write = ''write''"
definition scope_write_draft :: string where "scope_write_draft = ''write:draft''"
definition scope_write_schedule :: string where "scope_write_schedule = ''write:schedule''"
definition scope_delete :: string where "scope_delete = ''delete''"
definition scope_delete_draft :: string where "scope_delete_draft = ''delete:draft''"
definition scope_delete_schedule :: string where "scope_delete_schedule = ''delete:schedule''"

lemmas scope_names = scope_read_def scope_write_def scope_write_draft_def scope_write_schedule_def
  scope_delete_def scope_delete_draft_def scope_delete_schedule_def

definition all_scopes :: "string list" where
  "all_scopes = [scope_read, scope_write, scope_write_draft, scope_write_schedule, scope_delete, scope_delete_draft, scope_delete_schedule]"

definition is_known_scope :: "string \<Rightarrow> bool" where
  "is_known_scope s \<longleftrightarrow> s \<in> set all_scopes"

fun scope_satisfied :: "string list \<Rightarrow> string \<Rightarrow> bool" where
  "scope_satisfied [] required = False"
| "scope_satisfied (granted # gs) required =
     (if granted = required then True
      else if granted = scope_write \<and> (required = scope_write_draft \<or> required = scope_write_schedule) then True
      else if granted = scope_delete \<and> (required = scope_delete_draft \<or> required = scope_delete_schedule) then True
      else scope_satisfied gs required)"

definition principal_allows :: "principal \<Rightarrow> string \<Rightarrow> bool" where
  "principal_allows pr required = (if p_scopes pr = [] then True else scope_satisfied (p_scopes pr) required)"

definition principal_can_manage_api_token :: "principal \<Rightarrow> string list \<Rightarrow> string option \<Rightarrow> bool" where
  "principal_can_manage_api_token pr scopes team =
     (if p_scopes pr = [] \<and> p_team_id pr = None then True
      else if (p_team_id pr = None) \<noteq> (team = None) then False
      else if team \<noteq> None \<and> p_team_id pr \<noteq> team then False
      else if p_scopes pr \<noteq> [] \<and> scopes = [] then False
      else list_all (\<lambda>s. \<not> (p_scopes pr \<noteq> [] \<and> \<not> scope_satisfied (p_scopes pr) s)) scopes)"

datatype http_outcome = Refused_Request nat string | Passed

definition require_token_scope :: "string \<Rightarrow> principal option \<Rightarrow> http_outcome" where
  "require_token_scope required pr =
     (case pr of None \<Rightarrow> Refused_Request 401 ''unauthorized''
      | Some p \<Rightarrow> if \<not> principal_allows p required then Refused_Request 403 ''scope_required'' else Passed)"

section \<open>Team access\<close>

definition principal_has_team_access :: "identity_db \<Rightarrow> principal \<Rightarrow> string \<Rightarrow> team_role list \<Rightarrow> bool" where
  "principal_has_team_access db pr team roles =
     (if (case p_team_id pr of None \<Rightarrow> False | Some b \<Rightarrow> trim_space b \<noteq> [] \<and> trim_space b \<noteq> team) then False
      else if u_is_admin (p_user pr) then True
      else user_has_any_team_role (u_id (p_user pr)) team roles db)"

definition require_team_role :: "identity_db \<Rightarrow> principal option \<Rightarrow> string \<Rightarrow> team_role list \<Rightarrow> http_outcome" where
  "require_team_role db pr team roles =
     (case pr of None \<Rightarrow> Refused_Request 401 ''missing principal''
      | Some p \<Rightarrow> if \<not> principal_has_team_access db p team roles then Refused_Request 403 ''forbidden'' else Passed)"

definition require_admin :: "principal option \<Rightarrow> http_outcome" where
  "require_admin pr =
     (case pr of None \<Rightarrow> Refused_Request 401 ''missing principal''
      | Some p \<Rightarrow> if \<not> u_is_admin (p_user p) \<or> \<not> principal_can_manage_api_token p [] None
                 then Refused_Request 403 ''forbidden'' else Passed)"

definition require_ai_enabled :: "identity_db \<Rightarrow> principal option \<Rightarrow> string \<Rightarrow> http_outcome" where
  "require_ai_enabled db pr team =
     (case pr of None \<Rightarrow> Refused_Request 401 ''missing principal''
      | Some _ \<Rightarrow> (case get_team_by_id team db of
          Inl _ \<Rightarrow> Refused_Request 403 ''forbidden''
        | Inr t \<Rightarrow> if \<not> tm_ai_enabled t then Refused_Request 403 ''ai_not_enabled'' else Passed))"

section \<open>Requests\<close>

record http_request =
  rq_method :: string
  rq_pattern :: string
  rq_team_id :: string
  rq_authorization :: string
  rq_session_cookie :: string
  rq_csrf_cookie :: string
  rq_csrf_header :: string
  rq_query_token :: string

definition bearer_token :: "string \<Rightarrow> string" where
  "bearer_token header =
     (if \<not> has_prefix header ''Bearer '' then [] else trim_space (trim_prefix header ''Bearer ''))"

definition is_unsafe_method :: "string \<Rightarrow> bool" where
  "is_unsafe_method m \<longleftrightarrow> m \<in> {''POST'', ''PUT'', ''PATCH'', ''DELETE''}"

definition csrf_valid :: "http_request \<Rightarrow> bool" where
  "csrf_valid rq \<longleftrightarrow> \<not> (rq_csrf_cookie rq = [] \<or> rq_csrf_header rq = []) \<and> rq_csrf_cookie rq = rq_csrf_header rq"

definition accept_query_token :: "http_request \<Rightarrow> http_request" where
  "accept_query_token rq =
     (if bearer_token (rq_authorization rq) = [] \<and> trim_space (rq_query_token rq) \<noteq> []
      then rq\<lparr>rq_authorization := ''Bearer '' @ trim_space (rq_query_token rq)\<rparr> else rq)"

text \<open>What the configured OIDC verifier says of a bearer token, before the user is upserted.\<close>

datatype oidc_verdict =
    Not_An_Id_Token
  | Bad_Claims string
  | Claims string string string string

definition authenticate ::
  "(string \<Rightarrow> oidc_verdict) option \<Rightarrow> (string \<Rightarrow> string) \<Rightarrow> string option \<Rightarrow> instant \<Rightarrow> int \<Rightarrow> string \<Rightarrow> string \<Rightarrow>
   identity_db \<Rightarrow> (store_error + principal) \<times> identity_db" where
  "authenticate verifier hash fault now web_ttl fresh_user token db =
     (let lookup = (case lookup_api_token hash fault now web_ttl token db of
            (Inl e, db') \<Rightarrow> (Inl e, db')
          | (Inr pr, db') \<Rightarrow>
              (Inr (pr\<lparr>p_team_id := trimmed_ref (p_team_id pr)\<rparr>), db'))
      in (case verifier of
            None \<Rightarrow> lookup
          | Some verify \<Rightarrow>
              if length (filter (\<lambda>c. c = CHR ''.'') token) = 2
              then (case verify token of
                      Not_An_Id_Token \<Rightarrow> lookup
                    | Bad_Claims e \<Rightarrow> (Inl (Backend e), db)
                    | Claims subject email name picture \<Rightarrow>
                        (case upsert_oidc_user fresh_user subject email name picture db of
                           (Inl e, db') \<Rightarrow> (Inl e, db')
                         | (Inr u, db') \<Rightarrow>
                             (Inr \<lparr>p_user = u, p_kind = ''oidc'', p_scopes = [], p_team_id = None,
                                   p_expires_at = None, p_token_id = None, p_token_name = None\<rparr>, db')))
              else lookup))"

datatype auth_outcome =
    Auth_Missing_Token
  | Auth_Unauthorized
  | Auth_Unavailable
  | Auth_Csrf_Required
  | Auth_Ok principal "(string \<times> string) option"

text \<open>\<open>RequireAuth\<close>: the second component of \<open>Auth_Ok\<close> is the pair of cookies rolled for a cookie
  session. \<open>fresh_csrf\<close> is the outcome of \<open>NewCSRFToken\<close>.\<close>

definition require_auth ::
  "(string \<Rightarrow> oidc_verdict) option \<Rightarrow> (string \<Rightarrow> string) \<Rightarrow> string option \<Rightarrow> instant \<Rightarrow> int \<Rightarrow> string \<Rightarrow> string option \<Rightarrow>
   http_request \<Rightarrow> identity_db \<Rightarrow> auth_outcome \<times> identity_db" where
  "require_auth verifier hash fault now web_ttl fresh_user fresh_csrf rq db =
     (let bearer = bearer_token (rq_authorization rq);
          from_cookie = (bearer = [] \<and> trim_space (rq_session_cookie rq) \<noteq> []);
          token = (if from_cookie then trim_space (rq_session_cookie rq) else bearer)
      in if token = [] then (Auth_Missing_Token, db)
         else (case authenticate verifier hash fault now web_ttl fresh_user token db of
                 (Inl No_Rows, db') \<Rightarrow> (Auth_Unauthorized, db')
               | (Inl _, db') \<Rightarrow> (Auth_Unavailable, db')
               | (Inr pr, db') \<Rightarrow>
                   if from_cookie then
                     (if is_unsafe_method (rq_method rq) \<and> \<not> csrf_valid rq then (Auth_Csrf_Required, db')
                      else (let csrf = (if rq_csrf_cookie rq = []
                                        then (case fresh_csrf of None \<Rightarrow> [] | Some c \<Rightarrow> c)
                                        else rq_csrf_cookie rq)
                            in (Auth_Ok pr (Some (token, csrf)), db')))
                   else (Auth_Ok pr None, db')))"

section \<open>The token policy of the routes\<close>

definition route_path :: "string \<Rightarrow> string" where
  "route_path pattern = (case cut_at (CHR '' '') pattern of (_, path, _) \<Rightarrow> path)"

text \<open>The routes whose handlers check the delegated authority themselves, and the state-changing
  methods that only need the read scope.\<close>

definition own_token_routes :: "string list" where
  "own_token_routes = [''POST /v1/me/api-tokens'', ''DELETE /v1/me/api-tokens/{tokenID}'']"

definition read_scope_routes :: "string list" where
  "read_scope_routes =
     [''POST /v1/auth/logout'', ''POST /v1/teams/{teamID}/posts/validate'',
      ''POST /v1/teams/{teamID}/ai/prompt-preview'', ''POST /v1/teams/{teamID}/ai/chat'',
      ''GET /v1/teams/{teamID}/rss-feeds/{feedID}/preview-items'']"

definition post_write_routes :: "string list" where
  "post_write_routes =
     [''POST /v1/teams/{teamID}/posts'', ''PATCH /v1/teams/{teamID}/posts/{postID}'',
      ''POST /v1/teams/{teamID}/posts/{postID}/cancel'']"

definition draft_write_routes :: "string list" where
  "draft_write_routes =
     [''POST /v1/teams/{teamID}/posts/draft'', ''POST /v1/teams/{teamID}/ai-trigger'',
      ''POST /v1/teams/{teamID}/rss-feeds/{feedID}/ai-preview'',
      ''POST /v1/teams/{teamID}/post-templates/{templateID}/ai-preview'',
      ''POST /v1/teams/{teamID}/ai-jobs/{jobID}/cancel'']"

definition token_route_allows :: "principal \<Rightarrow> http_request \<Rightarrow> bool" where
  "token_route_allows pr rq =
     (let pattern = rq_pattern rq; path = route_path pattern; m = rq_method rq in
      if has_prefix path ''/v1/admin/'' \<or> path = ''/v1/me/push-subscriptions'' \<or>
         has_prefix path ''/v1/me/push-subscriptions/''
      then principal_can_manage_api_token pr [] None
      else if m = ''GET'' \<or> m = ''HEAD'' then
        (if path \<in> {''/v1/users'', ''/v1/teams'', ''/v1/me/review-counts'',
                     ''/v1/me/team-notification-prefs'', ''/v1/me/push-subscriptions''} \<and> p_team_id pr \<noteq> None
         then False else principal_allows pr scope_read)
      else if m = ''OPTIONS'' then True
      else if pattern = ''PATCH /v1/teams/{teamID}'' \<or> pattern = ''POST /v1/teams'' \<or>
              contains pattern ''/members'' \<or> contains pattern ''/invitations'' \<or>
              contains pattern ''/ai-service-config'' \<or> contains pattern ''/accounts''
      then principal_can_manage_api_token pr []
             (if rq_team_id rq \<noteq> [] \<and> \<not> has_suffix pattern ''/migrate'' then Some (rq_team_id rq) else None)
      else if pattern \<in> set own_token_routes then True
      else if pattern \<in> set read_scope_routes then principal_allows pr scope_read
      else if pattern \<in> set post_write_routes
      then principal_allows pr scope_write_draft \<or> principal_allows pr scope_write_schedule
      else if pattern = ''DELETE /v1/teams/{teamID}/posts/{postID}''
      then principal_allows pr scope_delete_draft \<or> principal_allows pr scope_delete_schedule
      else if pattern \<in> set draft_write_routes
      then principal_allows pr scope_write_draft
      else if pattern = ''POST /v1/teams/{teamID}/ai/confirm-action''
      then principal_allows pr scope_write_draft \<or> principal_allows pr scope_write_schedule \<or>
           principal_allows pr scope_delete_draft \<or> principal_allows pr scope_delete_schedule
      else if m = ''DELETE'' then principal_allows pr scope_delete
      else principal_allows pr scope_write)"

text \<open>\<open>API.requireAuth\<close>: authentication, membership of the path's team, then the policy.\<close>

definition api_gate :: "identity_db \<Rightarrow> principal \<Rightarrow> http_request \<Rightarrow> http_outcome" where
  "api_gate db pr rq =
     (if rq_team_id rq \<noteq> [] \<and> \<not> principal_has_team_access db pr (rq_team_id rq) [Viewer, Editor, Owner]
      then Refused_Request 403 ''forbidden''
      else if \<not> token_route_allows pr rq then Refused_Request 403 ''scope_required''
      else Passed)"

definition api_require_auth ::
  "(string \<Rightarrow> oidc_verdict) option \<Rightarrow> (string \<Rightarrow> string) \<Rightarrow> string option \<Rightarrow> instant \<Rightarrow> int \<Rightarrow> string \<Rightarrow> string option \<Rightarrow>
   http_request \<Rightarrow> identity_db \<Rightarrow> (auth_outcome + http_outcome) \<times> identity_db" where
  "api_require_auth verifier hash fault now web_ttl fresh_user fresh_csrf rq db =
     (case require_auth verifier hash fault now web_ttl fresh_user fresh_csrf rq db of
        (Auth_Ok pr _, db') \<Rightarrow> (Inr (api_gate db' pr rq), db')
      | (out, db') \<Rightarrow> (Inl out, db'))"

section \<open>A user's own tokens\<close>

text \<open>The decoded body of a create request. \<open>expires_at\<close> is absent or empty, malformed, or an instant.\<close>

datatype expiry_input = No_Expiry | Bad_Expiry | Expires_At instant

record create_token_input =
  ct_name :: string
  ct_description :: string
  ct_expires :: expiry_input
  ct_scopes :: "string list"
  ct_team :: "string option"

definition normalize_token_scopes :: "string list \<Rightarrow> string list" where
  "normalize_token_scopes scopes = dedup (filter (\<lambda>s. s \<noteq> []) (map trim_space scopes))"

text \<open>An audit record: team, action, target.\<close>

type_synonym audit_note = "string \<times> string \<times> string"

datatype token_reply =
    Token_Refused nat string
  | Token_Created string api_token "audit_note option"
  | Token_Revoked "audit_note option"

text \<open>The three clock reads of the handler and of the store are \<open>now1\<close>, \<open>now2\<close> and \<open>now3\<close>.\<close>

definition handle_create_my_api_token ::
  "(string \<Rightarrow> string) \<Rightarrow> string \<Rightarrow> string \<Rightarrow> instant \<Rightarrow> instant \<Rightarrow> instant \<Rightarrow> principal \<Rightarrow> create_token_input option \<Rightarrow>
   identity_db \<Rightarrow> token_reply \<times> identity_db" where
  "handle_create_my_api_token hash fresh_id secret now1 now2 now3 pr body db =
     (case body of
        None \<Rightarrow> (Token_Refused 400 ''invalid_json_body'', db)
      | Some inp \<Rightarrow>
          if trim_space (ct_name inp) = web_session_name then (Token_Refused 400 ''token_name_reserved'', db)
          else if ct_expires inp = Bad_Expiry then (Token_Refused 400 ''expires_at_rfc3339'', db)
          else if (case ct_expires inp of Expires_At t \<Rightarrow> \<not> now1 < t | _ \<Rightarrow> False)
          then (Token_Refused 400 ''expires_at_future'', db)
          else
            (let scopes = normalize_token_scopes (ct_scopes inp);
                 team = trimmed_ref (ct_team inp);
                 expires = (case ct_expires inp of Expires_At t \<Rightarrow> Some t | _ \<Rightarrow> None)
             in if list_ex (\<lambda>s. \<not> is_known_scope s) scopes then (Token_Refused 400 ''unknown_scope'', db)
                else if \<not> principal_can_manage_api_token pr scopes team
                then (Token_Refused 403 ''api_token_exceeds_authority'', db)
                else
                  (let capped = ((p_scopes pr \<noteq> [] \<or> p_team_id pr \<noteq> None) \<and> p_expires_at pr \<noteq> None);
                       expires' = (if capped \<and> expires = None then Some (add_date utc now2 0 0 90) else expires)
                   in if capped \<and> the (p_expires_at pr) < the expires'
                      then (Token_Refused 403 ''api_token_exceeds_authority'', db)
                      else (case create_user_api_token hash fresh_id secret now3 (u_id (p_user pr)) (ct_name inp)
                                   expires' scopes team (trim_space (ct_description inp)) db of
                              (Inl _, db') \<Rightarrow> (Token_Refused 400 ''create failed'', db')
                            | (Inr (plain, meta), db') \<Rightarrow>
                                (Token_Created plain meta
                                   (case team of None \<Rightarrow> None | Some m \<Rightarrow> Some (m, ''api_token.create'', at_id meta)), db')))))"

definition handle_list_my_api_tokens :: "instant \<Rightarrow> principal \<Rightarrow> identity_db \<Rightarrow> api_token list \<times> identity_db" where
  "handle_list_my_api_tokens now pr db =
     (case list_user_api_tokens now (u_id (p_user pr)) db of
        (tokens, db') \<Rightarrow> (filter (\<lambda>t. principal_can_manage_api_token pr (at_scopes t) (at_team t)) tokens, db'))"

definition handle_revoke_my_api_token ::
  "instant \<Rightarrow> principal \<Rightarrow> string \<Rightarrow> identity_db \<Rightarrow> token_reply \<times> identity_db" where
  "handle_revoke_my_api_token now pr token_id db =
     (case list_user_api_tokens now (u_id (p_user pr)) db of
        (tokens, db1) \<Rightarrow>
          (case find (\<lambda>t. at_id t = token_id) tokens of
             None \<Rightarrow> (Token_Refused 404 ''token_not_found'', db1)
           | Some t \<Rightarrow>
               if \<not> principal_can_manage_api_token pr (at_scopes t) (at_team t)
               then (Token_Refused 403 ''api_token_exceeds_authority'', db1)
               else (case revoke_user_api_token (u_id (p_user pr)) token_id db1 of
                       (Inl No_Rows, db2) \<Rightarrow> (Token_Refused 404 ''token_not_found'', db2)
                     | (Inl _, db2) \<Rightarrow> (Token_Refused 500 ''internal_error'', db2)
                     | (Inr _, db2) \<Rightarrow>
                         (Token_Revoked (case at_team t of None \<Rightarrow> None
                            | Some m \<Rightarrow> Some (m, ''api_token.revoke'', at_id t)), db2))))"

section \<open>Authority\<close>

lemma scope_satisfied_iff:
  "scope_satisfied gs required \<longleftrightarrow> required \<in> set gs \<or>
     (scope_write \<in> set gs \<and> (required = scope_write_draft \<or> required = scope_write_schedule)) \<or>
     (scope_delete \<in> set gs \<and> (required = scope_delete_draft \<or> required = scope_delete_schedule))"
  by (induction gs required rule: scope_satisfied.induct) auto

lemma scope_satisfied_trans:
  assumes a: "scope_satisfied gs s" and b: "scope_satisfied [s] r"
  shows "scope_satisfied gs r"
proof -
  from b consider "r = s" | "s = scope_write" "r = scope_write_draft \<or> r = scope_write_schedule"
    | "s = scope_delete" "r = scope_delete_draft \<or> r = scope_delete_schedule"
    unfolding scope_satisfied_iff by auto
  then show ?thesis
  proof cases
    case 2
    with a have "scope_write \<in> set gs" by (simp add: scope_satisfied_iff scope_names)
    with 2(2) show ?thesis unfolding scope_satisfied_iff by blast
  next
    case 3
    with a have "scope_delete \<in> set gs" by (simp add: scope_satisfied_iff scope_names)
    with 3(2) show ?thesis unfolding scope_satisfied_iff by blast
  qed (use a in simp)
qed

lemma scope_satisfied_single: "scope_satisfied ss r \<Longrightarrow> \<exists>s \<in> set ss. scope_satisfied [s] r"
  by (auto simp: scope_satisfied_iff)

lemma scope_satisfied_all:
  "list_all (scope_satisfied gs) ss \<Longrightarrow> scope_satisfied ss r \<Longrightarrow> scope_satisfied gs r"
  using scope_satisfied_single [of ss r] scope_satisfied_trans unfolding list_all_iff by blast

text \<open>\<open>within q p\<close>: whatever \<open>q\<close> may do \<open>p\<close> may do too, for at least as long.\<close>

definition restricted :: "principal \<Rightarrow> bool" where
  "restricted p \<longleftrightarrow> p_scopes p \<noteq> [] \<or> p_team_id p \<noteq> None"

definition within :: "principal \<Rightarrow> principal \<Rightarrow> bool" where
  "within q p \<longleftrightarrow>
     u_id (p_user q) = u_id (p_user p) \<and>
     (p_scopes p \<noteq> [] \<longrightarrow> p_scopes q \<noteq> [] \<and> list_all (scope_satisfied (p_scopes p)) (p_scopes q)) \<and>
     (p_team_id p \<noteq> None \<longrightarrow> p_team_id q = p_team_id p) \<and>
     (restricted p \<and> p_expires_at p \<noteq> None \<longrightarrow>
        p_expires_at q \<noteq> None \<and> the (p_expires_at q) \<le> the (p_expires_at p))"

lemma within_refl: "within p p"
proof -
  have "scope_satisfied gs s" if "s \<in> set gs" for gs s using that by (simp add: scope_satisfied_iff)
  then show ?thesis by (auto simp: within_def list_all_iff)
qed

lemma within_trans: "within r q \<Longrightarrow> within q p \<Longrightarrow> within r p"
proof -
  assume rq: "within r q" and qp: "within q p"
  have scopes: "p_scopes r \<noteq> [] \<and> list_all (scope_satisfied (p_scopes p)) (p_scopes r)" if "p_scopes p \<noteq> []"
  proof -
    from qp that have q: "p_scopes q \<noteq> []" "list_all (scope_satisfied (p_scopes p)) (p_scopes q)"
      by (simp_all add: within_def)
    with rq have "p_scopes r \<noteq> []" "list_all (scope_satisfied (p_scopes q)) (p_scopes r)"
      by (simp_all add: within_def)
    with scope_satisfied_all [OF q(2)] show ?thesis by (simp add: list_all_iff)
  qed
  have team: "p_team_id r = p_team_id p" if "p_team_id p \<noteq> None" using rq qp that by (simp add: within_def)
  have expiry: "p_expires_at r \<noteq> None \<and> the (p_expires_at r) \<le> the (p_expires_at p)"
    if "restricted p" "p_expires_at p \<noteq> None"
  proof -
    have "restricted q" using qp that by (auto simp: within_def restricted_def)
    moreover have "p_expires_at q \<noteq> None" "the (p_expires_at q) \<le> the (p_expires_at p)"
      using qp that by (simp_all add: within_def)
    moreover from calculation have "p_expires_at r \<noteq> None" "the (p_expires_at r) \<le> the (p_expires_at q)"
      using rq by (simp_all add: within_def)
    ultimately show ?thesis by (metis order_trans)
  qed
  have "u_id (p_user r) = u_id (p_user p)" using rq qp by (simp add: within_def)
  with scopes team expiry show ?thesis by (simp add: within_def)
qed

lemma within_allows: "within q p \<Longrightarrow> principal_allows q s \<Longrightarrow> principal_allows p s"
  by (auto simp: within_def principal_allows_def intro: scope_satisfied_all split: if_splits)

lemma manage_iff:
  "principal_can_manage_api_token p scopes team \<longleftrightarrow>
     \<not> restricted p \<or>
     (p_team_id p = team \<and> (p_scopes p \<noteq> [] \<longrightarrow> scopes \<noteq> [] \<and> list_all (scope_satisfied (p_scopes p)) scopes))"
  by (auto simp: principal_can_manage_api_token_def restricted_def list_all_iff)

section \<open>Delegation\<close>

lemma handle_create_D:
  assumes "handle_create_my_api_token hash i secret now1 now2 now3 pr body db = (Token_Created plain meta anote, db')"
  obtains inp :: create_token_input and expires where
    "principal_can_manage_api_token pr (normalize_token_scopes (ct_scopes inp)) (trimmed_ref (ct_team inp))"
    "restricted pr \<and> p_expires_at pr \<noteq> None \<longrightarrow> (\<exists>t. expires = Some t \<and> t \<le> the (p_expires_at pr))"
    "create_user_api_token hash i secret now3 (u_id (p_user pr)) (ct_name inp) expires
       (normalize_token_scopes (ct_scopes inp)) (trimmed_ref (ct_team inp)) (trim_space (ct_description inp)) db =
     (Inr (plain, meta), db')"
    "trim_space (ct_name inp) \<noteq> web_session_name"
proof -
  obtain inp where b: "body = Some inp" using assms by (cases body) (auto simp: handle_create_my_api_token_def)
  define expires where "expires = (case ct_expires inp of Expires_At t \<Rightarrow> Some t | _ \<Rightarrow> None)"
  define capped where "capped \<longleftrightarrow> (p_scopes pr \<noteq> [] \<or> p_team_id pr \<noteq> None) \<and> p_expires_at pr \<noteq> None"
  define expires' where "expires' = (if capped \<and> expires = None then Some (add_date utc now2 0 0 90) else expires)"
  note conds = assms [unfolded handle_create_my_api_token_def b option.case Let_def
      expires_def [symmetric] capped_def [symmetric] expires'_def [symmetric]]
  show thesis
  proof (rule that [of inp expires'])
    show "principal_can_manage_api_token pr (normalize_token_scopes (ct_scopes inp)) (trimmed_ref (ct_team inp))"
      using conds by (auto split: if_splits)
    show "trim_space (ct_name inp) \<noteq> web_session_name" using conds by (auto split: if_splits)
    show "restricted pr \<and> p_expires_at pr \<noteq> None \<longrightarrow> (\<exists>t. expires' = Some t \<and> t \<le> the (p_expires_at pr))"
    proof
      assume "restricted pr \<and> p_expires_at pr \<noteq> None"
      then have c: "capped" by (simp add: capped_def restricted_def)
      then obtain t where t: "expires' = Some t" by (cases expires) (auto simp: expires'_def)
      have "\<not> (capped \<and> the (p_expires_at pr) < the expires')" using conds by (auto split: if_splits)
      with c t show "\<exists>t. expires' = Some t \<and> t \<le> the (p_expires_at pr)" by simp
    qed
    show "create_user_api_token hash i secret now3 (u_id (p_user pr)) (ct_name inp) expires'
       (normalize_token_scopes (ct_scopes inp)) (trimmed_ref (ct_team inp)) (trim_space (ct_description inp)) db =
     (Inr (plain, meta), db')"
      using conds by (auto split: if_splits sum.splits prod.splits)
  qed
qed

text \<open>The caller of the second request is authenticated with the token the first one created.\<close>

definition mint ::
  "(string \<Rightarrow> string) \<Rightarrow> string \<Rightarrow> string \<Rightarrow> instant \<Rightarrow> instant \<Rightarrow> instant \<Rightarrow> instant \<Rightarrow> int \<Rightarrow> identity_db \<Rightarrow>
   create_token_input option \<Rightarrow> principal \<Rightarrow> principal option" where
  "mint hash i secret now1 now2 now3 now4 web db body pr =
     (case handle_create_my_api_token hash i secret now1 now2 now3 pr body db of
        (Token_Created plain _ _, db') \<Rightarrow>
          (case authenticate None hash None now4 web [] plain db' of (Inr q, _) \<Rightarrow> Some q | _ \<Rightarrow> None)
      | _ \<Rightarrow> None)"

lemma trimmed_ref_idem [simp]: "trimmed_ref (trimmed_ref x) = trimmed_ref x"
  by (auto simp: trimmed_ref_def split: option.splits)

lemma trimmed_ref_shape:
  "(case trimmed_ref x of None \<Rightarrow> None | Some m \<Rightarrow> if trim_space m = [] then None else Some m) = trimmed_ref x"
  by (auto simp: trimmed_ref_def split: option.splits)

lemma mint_within:
  assumes ok: "identity_ok db" and m: "mint hash i secret now1 now2 now3 now4 web db body pr = Some q"
  shows "within q pr"
proof -
  obtain plain meta anote db' where
    h: "handle_create_my_api_token hash i secret now1 now2 now3 pr body db = (Token_Created plain meta anote, db')"
    using m by (auto simp: mint_def split: prod.splits token_reply.splits)
  obtain inp :: create_token_input and expires where
    man: "principal_can_manage_api_token pr (normalize_token_scopes (ct_scopes inp)) (trimmed_ref (ct_team inp))"
    and cap: "restricted pr \<and> p_expires_at pr \<noteq> None \<longrightarrow> (\<exists>t. expires = Some t \<and> t \<le> the (p_expires_at pr))"
    and cr: "create_user_api_token hash i secret now3 (u_id (p_user pr)) (ct_name inp) expires
       (normalize_token_scopes (ct_scopes inp)) (trimmed_ref (ct_team inp)) (trim_space (ct_description inp)) db =
     (Inr (plain, meta), db')"
    and "trim_space (ct_name inp) \<noteq> web_session_name"
    by (rule handle_create_D [OF h]) (rule that)
  from create_inserts [OF cr] obtain row ex where
    plain: "plain = secret" and db': "id_tokens db' = id_tokens db @ [row]" "id_users db' = id_users db"
    and ins: "token_insertable row db" and row: "row = \<lparr>tk_id = i, tk_user = u_id (p_user pr),
      tk_name = trim_space (ct_name inp), tk_hash = hash secret,
      tk_last_used = None, tk_expires = Some (Second_Stamp (unix_of ex)),
      tk_scopes = normalize_token_scopes (ct_scopes inp), tk_description = trim_space (trim_space (ct_description inp)),
      tk_team = trimmed_ref (ct_team inp), tk_created = now3\<rparr>"
    and ex: "ex = (case expires of None \<Rightarrow> add_date utc now3 0 0 90 | Some t \<Rightarrow> t)" by blast
  obtain q0 db'' where lk: "lookup_api_token hash None now4 web secret db' = (Inr q0, db'')"
    and q: "q = q0\<lparr>p_team_id := trimmed_ref (p_team_id q0)\<rparr>"
    using m by (auto simp: mint_def h plain authenticate_def Let_def split: prod.splits sum.splits)
  from lookup_sound [OF lk] obtain t u where t: "t \<in> set (id_tokens db')" "tk_hash t = hash secret"
    and u: "find_user (tk_user t) db' = Some u" and q0: "q0 = principal_of_token u t" by blast
  have ok': "identity_ok db'" using create_keeps_ok [OF ok cr] .
  have "t = row"
    by (rule distinct_key_unique [of tk_hash "id_tokens db'"])
      (use ok' t in \<open>auto simp: identity_ok_def db' row\<close>)
  moreover have "u_id u = tk_user t" using u find_user_iff [OF ok'] by blast
  ultimately have q': "u_id (p_user q) = u_id (p_user pr)" "p_scopes q = normalize_token_scopes (ct_scopes inp)"
    "p_team_id q = trimmed_ref (ct_team inp)" "p_expires_at q = Some (unix_of ex * nanos)"
    by (simp_all add: q q0 principal_of_token_def row Let_def trimmed_ref_shape)
  have "unix_of ex * nanos \<le> ex"
    unfolding unix_of_def using div_mult_mod_eq [of ex nanos] pos_mod_sign [OF nanos_pos, of ex] by linarith
  moreover have "ex \<le> the (p_expires_at pr)" if "restricted pr" "p_expires_at pr \<noteq> None"
    using cap that by (auto simp: ex)
  ultimately have cap': "restricted pr \<and> p_expires_at pr \<noteq> None \<longrightarrow> unix_of ex * nanos \<le> the (p_expires_at pr)"
    by force
  show ?thesis
  proof (cases "restricted pr")
    case True
    with man cap' show ?thesis unfolding manage_iff within_def q' by simp
  next
    case False
    then show ?thesis by (simp add: within_def q' restricted_def)
  qed
qed

text \<open>What a chain of token creations keeps, for any mint that bounds what it hands out.\<close>

locale delegation =
  fixes good :: "'s \<Rightarrow> bool"
    and mints :: "'s \<Rightarrow> principal \<Rightarrow> principal \<Rightarrow> bool"
  assumes bounded: "good s \<Longrightarrow> mints s p q \<Longrightarrow> within q p"
begin

lemma chain_within: "(\<lambda>p q. \<exists>s. good s \<and> mints s p q)\<^sup>*\<^sup>* p q \<Longrightarrow> within q p"
  by (induction rule: rtranclp_induct) (auto intro: within_refl within_trans bounded)

lemma chain_allows:
  "(\<lambda>p q. \<exists>s. good s \<and> mints s p q)\<^sup>*\<^sup>* p q \<Longrightarrow> principal_allows q sc \<Longrightarrow> principal_allows p sc"
  by (rule within_allows [OF chain_within])

end

definition mints_token :: "identity_db \<Rightarrow> principal \<Rightarrow> principal \<Rightarrow> bool" where
  "mints_token db p q \<longleftrightarrow>
     (\<exists>hash i secret now1 now2 now3 now4 web body. mint hash i secret now1 now2 now3 now4 web db body p = Some q)"

interpretation api_tokens: delegation identity_ok mints_token
  by unfold_locales (auto simp: mints_token_def intro: mint_within)

definition delegates :: "principal \<Rightarrow> principal \<Rightarrow> bool" where
  "delegates p q \<longleftrightarrow> (\<exists>db. identity_ok db \<and> mints_token db p q)"

section \<open>Properties\<close>

text \<open>C7: no chain of API-token creations escalates privileges. A caller who creates a token, calls
  with it, creates another one and so on never gets a scope the first principal lacks, never leaves
  the team it was bound to, and, when restricted, never outlives it.\<close>
theorem delegated_authority_shrinks:
  assumes "delegates\<^sup>*\<^sup>* p q"
  shows "within q p \<and> (principal_allows q sc \<longrightarrow> principal_allows p sc)"
proof -
  have "(\<lambda>p q. \<exists>db. identity_ok db \<and> mints_token db p q) = delegates"
    by (intro ext) (simp add: delegates_def)
  with assms have "(\<lambda>p q. \<exists>db. identity_ok db \<and> mints_token db p q)\<^sup>*\<^sup>* p q" by simp
  from api_tokens.chain_within [OF this] api_tokens.chain_allows [OF this] show ?thesis by blast
qed

definition ann :: principal where
  "ann = \<lparr>p_user = \<lparr>u_id = ''u1'', u_email = ''a@b'', u_name = ''Ann'', u_picture_url = [],
     u_subject = ''sub'', u_is_admin = False, u_tour_done = False\<rparr>, p_kind = ''api_token'',
     p_scopes = [scope_read, scope_write], p_team_id = None, p_expires_at = Some (2 * nanos),
     p_token_id = None, p_token_name = None\<rparr>"

definition ann_draft_token :: principal where
  "ann_draft_token = ann\<lparr>p_scopes := [scope_write_draft], p_expires_at := Some nanos, p_token_id := Some ''t1'',
     p_token_name := Some ''ci''\<rparr>"

lemma ann_delegates: "delegates ann ann_draft_token"
proof -
  have "mint id ''t1'' ''s3cret'' 0 0 0 0 0 one_user_db
      (Some \<lparr>ct_name = ''ci'', ct_description = [], ct_expires = Expires_At nanos,
         ct_scopes = ['' write:draft''], ct_team = None\<rparr>) ann = Some ann_draft_token"
    by (simp add: mint_def handle_create_my_api_token_def ann_def ann_draft_token_def trim_ci
        web_session_name_def normalize_token_scopes_def trim_eval scope_names is_known_scope_def all_scopes_def
        principal_can_manage_api_token_def create_user_api_token_def one_user_db_def empty_identity_db_def
        token_insertable_def api_token_of_def authenticate_def lookup_api_token_def token_live_def
        find_user_def principal_of_token_def trimmed_ref_def unix_of_def nanos_def Let_def)
  then have "mints_token one_user_db ann ann_draft_token" unfolding mints_token_def by blast
  with one_user_ok show ?thesis unfolding delegates_def by blast
qed

theorem delegated_authority_shrinks_witness:
  "within ann_draft_token ann \<and> principal_allows ann scope_write_draft"
proof -
  have "delegates\<^sup>*\<^sup>* ann ann_draft_token" by (rule r_into_rtranclp, rule ann_delegates)
  moreover have "principal_allows ann_draft_token scope_write_draft"
    by (simp add: principal_allows_def ann_draft_token_def)
  ultimately show ?thesis using delegated_authority_shrinks by blast
qed



text \<open>a token whose only scope is \<open>read\<close> passes no state-changing route except the management of
  the caller's own tokens (checked again in the handlers), logging out, and the four previews that
  persist nothing.\<close>
theorem read_only_token_routes:
  assumes "p_scopes pr = [scope_read]" "is_unsafe_method (rq_method rq)" "token_route_allows pr rq"
  shows "rq_pattern rq \<in> set (own_token_routes @ read_scope_routes)"
proof -
  have deny: "\<not> principal_can_manage_api_token pr [] t" "\<not> principal_allows pr scope_write"
    "\<not> principal_allows pr scope_write_draft" "\<not> principal_allows pr scope_write_schedule"
    "\<not> principal_allows pr scope_delete" "\<not> principal_allows pr scope_delete_draft"
    "\<not> principal_allows pr scope_delete_schedule" for t
    using assms(1) by (auto simp: manage_iff restricted_def principal_allows_def scope_names)
  have m: "rq_method rq \<noteq> ''GET''" "rq_method rq \<noteq> ''HEAD''" "rq_method rq \<noteq> ''OPTIONS''"
    using assms(2) by (auto simp: is_unsafe_method_def)
  show ?thesis
    using assms(3) by (auto simp: token_route_allows_def Let_def deny m split: if_split_asm)
qed

theorem read_only_token_routes_witness:
  "rq_pattern \<lparr>rq_method = ''POST'', rq_pattern = ''POST /v1/auth/logout'', rq_team_id = [],
      rq_authorization = [], rq_session_cookie = [], rq_csrf_cookie = [], rq_csrf_header = [], rq_query_token = []\<rparr> \<in>
   set (own_token_routes @ read_scope_routes)"
  by (rule read_only_token_routes [of "ann\<lparr>p_scopes := [scope_read]\<rparr>"])
    (simp_all add: is_unsafe_method_def token_route_allows_def route_path_def principal_allows_def
      own_token_routes_def read_scope_routes_def contains.simps Let_def)

text \<open>\<open>RequireAuth\<close> lets a cookie session through on a state-changing method only with a matching
  non-empty double-submit token, and answers 401 for a presented token only when the token is
  unknown, never because the backend failed.\<close>
theorem require_auth_guards:
  "case require_auth verifier hash fault now web fresh csrf rq db of
     (Auth_Ok pr (Some _), _) \<Rightarrow> (if is_unsafe_method (rq_method rq)
        then rq_csrf_cookie rq \<noteq> [] \<and> rq_csrf_cookie rq = rq_csrf_header rq else True)
   | (Auth_Unauthorized, db') \<Rightarrow> fst (authenticate verifier hash fault now web fresh
        (if bearer_token (rq_authorization rq) = [] then trim_space (rq_session_cookie rq)
         else bearer_token (rq_authorization rq)) db) = Inl No_Rows
   | _ \<Rightarrow> True"
  by (auto simp: require_auth_def Let_def csrf_valid_def
      split: prod.splits sum.splits store_error.splits option.splits auth_outcome.splits if_splits)

end
