(* ===== verification/Net_Guard.thy ===== *)
theory Net_Guard
  imports Go_Strings "HOL-Library.Word"
begin

text \<open>
  \<open>internal/netguard/netguard.go\<close>: the guard that keeps calls to user-supplied URLs away from internal
  networks. Addresses are machine words as in \<open>net/netip\<close>, with the zone an IPv6 address may carry.
  The parsers \<open>netip.ParseAddr\<close> and \<open>url.Parse\<close>, the printer \<open>Addr.String\<close> and the DNS resolver are
  parameters; every property holds for all of them.
\<close>

unbundle bit_operations_syntax

section \<open>Addresses\<close>

datatype ip_addr = Invalid_Addr | V4 "32 word" | V6 "128 word" string

datatype ip_prefix = V4_Prefix "32 word" nat | V6_Prefix "128 word" nat

definition ipv4 :: "nat \<Rightarrow> nat \<Rightarrow> nat \<Rightarrow> nat \<Rightarrow> 32 word" where
  "ipv4 a b c d = word_of_nat (((a * 256 + b) * 256 + c) * 256 + d)"

text \<open>\<open>Prefix.Contains\<close>: the families must agree and an address with a zone is in no prefix.\<close>

fun prefix_contains :: "ip_prefix \<Rightarrow> ip_addr \<Rightarrow> bool" where
  "prefix_contains (V4_Prefix p n) (V4 a) = (drop_bit (32 - n) a = drop_bit (32 - n) p)"
| "prefix_contains (V6_Prefix p n) (V6 a z) = (z = [] \<and> drop_bit (128 - n) a = drop_bit (128 - n) p)"
| "prefix_contains _ _ = False"

text \<open>\<open>::ffff:0:0/96\<close> holds the IPv4-mapped addresses, which \<open>Unmap\<close> turns into their IPv4 value.\<close>

fun unmap :: "ip_addr \<Rightarrow> ip_addr" where
  "unmap (V6 a z) = (if drop_bit 32 a = 0xFFFF then V4 (ucast a) else V6 a z)"
| "unmap x = x"

definition v4_byte :: "nat \<Rightarrow> 32 word \<Rightarrow> 32 word" where
  "v4_byte i a = drop_bit (24 - 8 * i) a AND 0xFF"

definition v6_u16 :: "128 word \<Rightarrow> 128 word" where
  "v6_u16 a = drop_bit 112 a"

fun is_unspecified :: "ip_addr \<Rightarrow> bool" where
  "is_unspecified (V4 a) = (a = 0)"
| "is_unspecified (V6 a z) = (a = 0 \<and> z = [])"
| "is_unspecified Invalid_Addr = False"

fun is_loopback :: "ip_addr \<Rightarrow> bool" where
  "is_loopback (V4 a) = (v4_byte 0 a = 127)"
| "is_loopback (V6 a z) = (a = 1)"
| "is_loopback Invalid_Addr = False"

fun is_private :: "ip_addr \<Rightarrow> bool" where
  "is_private (V4 a) = (v4_byte 0 a = 10 \<or> (v4_byte 0 a = 172 \<and> v4_byte 1 a AND 0xF0 = 16) \<or>
     (v4_byte 0 a = 192 \<and> v4_byte 1 a = 168))"
| "is_private (V6 a z) = (v6_u16 a AND 0xFE00 = 0xFC00)"
| "is_private Invalid_Addr = False"

fun is_link_local_unicast :: "ip_addr \<Rightarrow> bool" where
  "is_link_local_unicast (V4 a) = (v4_byte 0 a = 169 \<and> v4_byte 1 a = 254)"
| "is_link_local_unicast (V6 a z) = (v6_u16 a AND 0xFFC0 = 0xFE80)"
| "is_link_local_unicast Invalid_Addr = False"

fun is_link_local_multicast :: "ip_addr \<Rightarrow> bool" where
  "is_link_local_multicast (V4 a) = (v4_byte 0 a = 224 \<and> v4_byte 1 a = 0 \<and> v4_byte 2 a = 0)"
| "is_link_local_multicast (V6 a z) = (v6_u16 a AND 0xFF0F = 0xFF02)"
| "is_link_local_multicast Invalid_Addr = False"

fun is_multicast :: "ip_addr \<Rightarrow> bool" where
  "is_multicast (V4 a) = (v4_byte 0 a AND 0xF0 = 0xE0)"
| "is_multicast (V6 a z) = (v6_u16 a AND 0xFF00 = 0xFF00)"
| "is_multicast Invalid_Addr = False"

fun is_global_unicast :: "ip_addr \<Rightarrow> bool" where
  "is_global_unicast Invalid_Addr = False"
| "is_global_unicast (V4 a) = (a \<noteq> 0 \<and> a \<noteq> 0xFFFFFFFF \<and> \<not> is_loopback (V4 a) \<and> \<not> is_multicast (V4 a) \<and>
     \<not> is_link_local_unicast (V4 a))"
| "is_global_unicast (V6 a z) = (\<not> is_unspecified (V6 a z) \<and> \<not> is_loopback (V6 a z) \<and>
     \<not> is_multicast (V6 a z) \<and> \<not> is_link_local_unicast (V6 a z))"

definition non_public_prefixes :: "ip_prefix list" where
  "non_public_prefixes =
     [V4_Prefix (ipv4 0 0 0 0) 8, V4_Prefix (ipv4 100 64 0 0) 10, V4_Prefix (ipv4 192 0 0 0) 24,
      V4_Prefix (ipv4 192 0 2 0) 24, V4_Prefix (ipv4 198 51 100 0) 24, V4_Prefix (ipv4 203 0 113 0) 24,
      V4_Prefix (ipv4 198 18 0 0) 15, V4_Prefix (ipv4 192 88 99 0) 24, V4_Prefix (ipv4 240 0 0 0) 4,
      V6_Prefix 0x0064FF9B000100000000000000000000 48,
      V6_Prefix 0x20010DB8000000000000000000000000 32,
      V6_Prefix 0x20010000000000000000000000000000 23,
      V6_Prefix 0x2001FFFF000000000000000000000000 32,
      V6_Prefix 0x20020000000000000000000000000000 16,
      V6_Prefix 0x01000000000000000000000000000000 64,
      V6_Prefix 0x3FFF0000000000000000000000000000 20,
      V6_Prefix 0xFEC00000000000000000000000000000 10]"

definition embedded_ipv4_prefixes :: "ip_prefix list" where
  "embedded_ipv4_prefixes =
     [V6_Prefix 0x0064FF9B000000000000000000000000 96,
      V6_Prefix 0x0000000000000000FFFF000000000000 96,
      V6_Prefix 0 96]"

text \<open>The checks of \<open>IsPublicAddr\<close> on an address that is not judged by an embedded IPv4 value.\<close>

definition public_as_is :: "ip_addr \<Rightarrow> bool" where
  "public_as_is a =
     (if a = Invalid_Addr \<or> is_unspecified a \<or> is_loopback a \<or> is_private a \<or> is_link_local_unicast a \<or>
         is_link_local_multicast a \<or> is_multicast a then False
      else if list_ex (\<lambda>p. prefix_contains p a) non_public_prefixes then False
      else is_global_unicast a)"

text \<open>The recursion of the code goes one level down: the IPv4 value is not an IPv6 address.\<close>

definition is_public_addr :: "ip_addr \<Rightarrow> bool" where
  "is_public_addr addr =
     (case unmap addr of
        V6 a z \<Rightarrow>
          if list_ex (\<lambda>p. prefix_contains p (V6 a z)) embedded_ipv4_prefixes
          then public_as_is (V4 (ucast a)) else public_as_is (V6 a z)
      | x \<Rightarrow> public_as_is x)"

section \<open>Hosts and ports\<close>

definition last_index :: "char \<Rightarrow> string \<Rightarrow> nat option" where
  "last_index c s = (if c \<in> set s then Some (length s - 1 - length (takeWhile (\<lambda>x. x \<noteq> c) (rev s))) else None)"

definition first_index :: "char \<Rightarrow> string \<Rightarrow> nat option" where
  "first_index c s = (if c \<in> set s then Some (length (takeWhile (\<lambda>x. x \<noteq> c) s)) else None)"

definition split_host_port :: "string \<Rightarrow> (string \<times> string) option" where
  "split_host_port hp =
     (case last_index (CHR '':'') hp of None \<Rightarrow> None
      | Some i \<Rightarrow>
          if hd hp = CHR ''['' then
            (case first_index (CHR '']'') hp of None \<Rightarrow> None
             | Some e \<Rightarrow>
                 if e + 1 \<noteq> i then None
                 else if CHR ''['' \<in> set (drop 1 hp) \<or> CHR '']'' \<in> set (drop (e + 1) hp) then None
                 else Some (take (e - 1) (drop 1 hp), drop (i + 1) hp))
          else if CHR '':'' \<in> set (take i hp) \<or> CHR ''['' \<in> set hp \<or> CHR '']'' \<in> set hp then None
          else Some (take i hp, drop (i + 1) hp))"

definition join_host_port :: "string \<Rightarrow> string \<Rightarrow> string" where
  "join_host_port host port =
     (if CHR '':'' \<in> set host then ''['' @ host @ '']:'' @ port else host @ '':'' @ port)"

definition trim_brackets :: "string \<Rightarrow> string" where
  "trim_brackets s =
     (let f = dropWhile (\<lambda>c. c = CHR ''['' \<or> c = CHR '']'') in rev (f (rev (f s))))"

text \<open>\<open>lower\<close> stands for \<open>strings.ToLower\<close> on a whole host name.\<close>

definition normalize_host :: "(string \<Rightarrow> string) \<Rightarrow> string \<Rightarrow> string" where
  "normalize_host lower h = lower (trim_brackets (trim_space h))"

section \<open>Policies\<close>

fun new_policy_loop :: "(string \<Rightarrow> string) \<Rightarrow> string list \<Rightarrow> string list" where
  "new_policy_loop lower [] = []"
| "new_policy_loop lower (entry # es) =
     (let e = trim_space entry in
      (case split_host_port e of
         Some (host, port) \<Rightarrow>
           (let h = normalize_host lower host in
            if h \<noteq> [] \<and> port \<noteq> [] then [join_host_port h port] else [])
       | None \<Rightarrow> (let h = normalize_host lower e in if h \<noteq> [] then [h] else []))
      @ new_policy_loop lower es)"

text \<open>A policy is the set of its allowlist keys.\<close>

definition new_policy :: "(string \<Rightarrow> string) \<Rightarrow> string list \<Rightarrow> string list" where
  "new_policy lower allowed_hosts = new_policy_loop lower allowed_hosts"

definition policy_allows :: "(string \<Rightarrow> string) \<Rightarrow> string list \<Rightarrow> string \<Rightarrow> string \<Rightarrow> bool" where
  "policy_allows lower allowed host port =
     (let h = normalize_host lower host in
      if h = [] then False else h \<in> set allowed \<or> join_host_port h port \<in> set allowed)"

text \<open>\<open>strings.EqualFold\<close> against an ASCII constant: besides the ASCII letters, U+017F folds to s and
  U+212A to k.\<close>

definition fold_ascii :: "string \<Rightarrow> string" where
  "fold_ascii s =
     map lower_char (replace_all (replace_all s [CHR 0xC5, CHR 0xBF] ''s'') [CHR 0xE2, CHR 0x84, CHR 0xAA] ''k'')"

datatype guard_error =
    Invalid_Address string
  | Host_Not_Allowed string
  | Resolve_Failed string
  | No_Addresses string
  | Non_Public string ip_addr
  | Invalid_Url
  | Bad_Scheme
  | Has_Credentials
  | Missing_Host
  | Too_Many_Redirects

definition public_addrs ::
  "(string \<Rightarrow> ip_addr option) \<Rightarrow> (string \<Rightarrow> ip_addr list option) \<Rightarrow> string \<Rightarrow> guard_error + ip_addr list" where
  "public_addrs parse resolve host =
     (let addrs =
        (case parse (trim_brackets host) of
           Some a \<Rightarrow> Inr [a]
         | None \<Rightarrow>
             if fold_ascii host = ''localhost'' \<or> has_suffix (to_lower host) ''.localhost''
             then Inl (Host_Not_Allowed host)
             else (case resolve host of
                     None \<Rightarrow> Inl (Resolve_Failed host)
                   | Some as \<Rightarrow> if as = [] then Inl (No_Addresses host) else Inr as))
      in (case addrs of
            Inl e \<Rightarrow> Inl e
          | Inr as \<Rightarrow> (case find (\<lambda>a. \<not> is_public_addr a) as of
                        Some a \<Rightarrow> Inl (Non_Public host a)
                      | None \<Rightarrow> Inr as)))"

record parsed_url =
  url_scheme :: string
  url_has_user :: bool
  url_hostname :: string
  url_port :: string

definition check_url ::
  "(string \<Rightarrow> string) \<Rightarrow> (string \<Rightarrow> parsed_url option) \<Rightarrow> (string \<Rightarrow> ip_addr option) \<Rightarrow>
   (string \<Rightarrow> ip_addr list option) \<Rightarrow> string list \<Rightarrow> string \<Rightarrow> guard_error + unit" where
  "check_url lower parse_url parse resolve allowed raw =
     (case parse_url (trim_space raw) of None \<Rightarrow> Inl Invalid_Url
      | Some u \<Rightarrow>
          if url_scheme u \<noteq> ''http'' \<and> url_scheme u \<noteq> ''https'' then Inl Bad_Scheme
          else if url_has_user u then Inl Has_Credentials
          else if url_hostname u = [] then Inl Missing_Host
          else (let port = (if url_port u = [] then (if url_scheme u = ''http'' then ''80'' else ''443'')
                            else url_port u)
                in if policy_allows lower allowed (url_hostname u) port then Inr ()
                   else (case public_addrs parse resolve (url_hostname u) of Inl e \<Rightarrow> Inl e | Inr _ \<Rightarrow> Inr ())))"

text \<open>What the wrapped dialer does: the address it hands to the base dialer, or a refusal.\<close>

definition dial_context ::
  "(string \<Rightarrow> string) \<Rightarrow> (string \<Rightarrow> ip_addr option) \<Rightarrow> (string \<Rightarrow> ip_addr list option) \<Rightarrow> (ip_addr \<Rightarrow> string) \<Rightarrow>
   string list \<Rightarrow> string \<Rightarrow> guard_error + string" where
  "dial_context lower parse resolve print allowed addr =
     (case split_host_port addr of None \<Rightarrow> Inl (Invalid_Address addr)
      | Some (host, port) \<Rightarrow>
          if policy_allows lower allowed host port then Inr addr
          else (case public_addrs parse resolve host of
                  Inl e \<Rightarrow> Inl e
                | Inr as \<Rightarrow> Inr (join_host_port (print (hd as)) port)))"

definition check_redirect ::
  "(string \<Rightarrow> string) \<Rightarrow> (string \<Rightarrow> parsed_url option) \<Rightarrow> (string \<Rightarrow> ip_addr option) \<Rightarrow>
   (string \<Rightarrow> ip_addr list option) \<Rightarrow> string list \<Rightarrow> nat \<Rightarrow> string \<Rightarrow> guard_error + unit" where
  "check_redirect lower parse_url parse resolve allowed via url =
     (if via \<ge> 10 then Inl Too_Many_Redirects else check_url lower parse_url parse resolve allowed url)"

section \<open>IPv4 ranges as numbers\<close>

lemma and_F0: "n < 256 \<Longrightarrow> (n :: nat) AND 0xF0 = 16 * (n div 16)"
proof -
  assume n: "n < 256"
  let ?x = "n AND 0xF0"
  have t: "take_bit 4 ?x = 0" by (simp add: take_bit_and take_bit_numeral_numeral)
  have "drop_bit 4 ?x = drop_bit 4 n AND 15" by (simp add: drop_bit_and)
  also have "\<dots> = drop_bit 4 n AND mask 4" by (simp add: mask_eq_exp_minus_1)
  also have "\<dots> = take_bit 4 (drop_bit 4 n)" by (simp add: take_bit_eq_mask)
  also have "\<dots> = drop_bit 4 n" using n by (simp add: take_bit_eq_mod drop_bit_eq_div)
  finally have "drop_bit 4 ?x = n div 16" by (simp add: drop_bit_eq_div)
  moreover have "?x = push_bit 4 (drop_bit 4 ?x) + take_bit 4 ?x" by (rule bits_ident [symmetric])
  ultimately show ?thesis using t by (simp add: push_bit_eq_mult)
qed
lemma unat_byte: "i \<le> 3 \<Longrightarrow> unat (v4_byte i a) = unat a div 2 ^ (24 - 8 * i) mod 256"
proof -
  have v: "v4_byte i a = take_bit 8 (drop_bit (24 - 8 * i) a)"
    by (simp add: v4_byte_def take_bit_eq_mask mask_eq_exp_minus_1)
  show ?thesis
    unfolding v unsigned_take_bit_eq unat_drop_bit_eq
    by (simp only: take_bit_eq_mod drop_bit_eq_div) simp
qed
lemma unat_ipv4: "a < 256 \<Longrightarrow> b < 256 \<Longrightarrow> c < 256 \<Longrightarrow> d < 256 \<Longrightarrow>
   unat (ipv4 a b c d) = ((a * 256 + b) * 256 + c) * 256 + d"
  unfolding ipv4_def unfolding unsigned_of_nat of_nat_id by (intro take_bit_nat_eq_self) simp
lemma prefix_range: "n \<le> 32 \<Longrightarrow> prefix_contains (V4_Prefix p n) (V4 a) \<longleftrightarrow> unat a div 2 ^ (32 - n) = unat p div 2 ^ (32 - n)"
  by (simp only: prefix_contains.simps word_unat_eq_iff unat_drop_bit_eq) (simp only: drop_bit_eq_div)
lemma div_range: "0 < k \<Longrightarrow> (u :: nat) div k = c \<longleftrightarrow> c * k \<le> u \<and> u < (c + 1) * k"
  by (metis Suc_eq_plus1 div_nat_eqI div_times_less_eq_dividend dividend_less_div_times mult.commute mult_Suc add.commute less_mult_imp_div_less)

lemma unat_u32: "unat (a :: 32 word) < 4294967296"
proof -
  have "unat a < 2 ^ LENGTH(32)" by (rule unsigned_less)
  then show ?thesis by simp
qed

lemma byte0_iff: "c < 256 \<Longrightarrow> v4_byte 0 a = word_of_nat c \<longleftrightarrow> unat a div 16777216 = c"
proof -
  assume c: "c < 256"
  have "unat a div 16777216 < 256" using unat_u32 [of a] by (simp add: less_mult_imp_div_less)
  with c unat_byte [of 0 a] show ?thesis
    by (simp add: word_unat_eq_iff unsigned_of_nat take_bit_nat_eq_self)
qed

lemma byte1_unat: "unat (v4_byte 1 a) = unat a div 65536 mod 256"
  using unat_byte [of 1 a] by simp

lemma byte0_unat: "unat (v4_byte 0 a) = unat a div 65536 div 256"
proof -
  have "unat a div 16777216 < 256" using unat_u32 [of a] by (simp add: less_mult_imp_div_less)
  then show ?thesis using unat_byte [of 0 a] by (simp add: div_mult2_eq [symmetric])
qed

lemma byte_eq: "c < 256 \<Longrightarrow> (w :: 32 word) = word_of_nat c \<longleftrightarrow> unat w = c"
  by (simp add: word_unat_eq_iff unsigned_of_nat take_bit_nat_eq_self)

lemma two_bytes: "d < 256 \<Longrightarrow> (v :: nat) div 256 = c \<and> v mod 256 = d \<longleftrightarrow> v = c * 256 + d"
  by auto

lemma loopback_iff: "is_loopback (V4 a) \<longleftrightarrow> unat a div 16777216 = 127"
  using byte0_iff [of 127 a] by simp

lemma link_local_iff: "is_link_local_unicast (V4 a) \<longleftrightarrow> unat a div 65536 = 43518"
  using byte_eq [of 169 "v4_byte 0 a"] byte_eq [of 254 "v4_byte 1 a"]
    two_bytes [of 254 "unat a div 65536" 169] by (simp add: byte0_unat byte1_unat del: One_nat_def)

lemma byte1_F0: "v4_byte 1 a AND 0xF0 = 16 \<longleftrightarrow> unat a div 65536 mod 256 div 16 = 1"
proof -
  have "unat (v4_byte 1 a AND 0xF0) = 16 * (unat a div 65536 mod 256 div 16)"
    using and_F0 [of "unat a div 65536 mod 256"] by (simp add: unsigned_and_eq byte1_unat del: One_nat_def)
  then have "unat (v4_byte 1 a AND 0xF0) = 16 \<longleftrightarrow> unat a div 65536 mod 256 div 16 = 1" by linarith
  then show ?thesis unfolding word_unat_eq_iff by simp
qed

lemma nibbles: "(v :: nat) div 256 = 172 \<and> v mod 256 div 16 = 1 \<longleftrightarrow> v div 16 = 2753"
proof -
  define q where "q = v div 16"
  have "v div 256 = q div 16" by (simp add: q_def div_mult2_eq [symmetric])
  moreover have "v mod 256 div 16 = q mod 16"
    using mod_mult2_eq [of v 16 16] by (simp add: q_def)
  moreover have "q div 16 = 172 \<and> q mod 16 = 1 \<longleftrightarrow> q = 2753"
  proof
    assume a: "q div 16 = 172 \<and> q mod 16 = 1"
    have "q = q div 16 * 16 + q mod 16" by simp
    also have "\<dots> = 172 * 16 + 1" using a by (simp only:)
    finally show "q = 2753" by simp
  qed simp
  ultimately show ?thesis by (simp add: q_def)
qed

lemma private_iff: "is_private (V4 a) \<longleftrightarrow>
    unat a div 16777216 = 10 \<or> unat a div 1048576 = 2753 \<or> unat a div 65536 = 49320"
proof -
  let ?v = "unat a div 65536"
  have "v4_byte 0 a = 172 \<and> v4_byte 1 a AND 0xF0 = 16 \<longleftrightarrow> ?v div 256 = 172 \<and> ?v mod 256 div 16 = 1"
    using byte_eq [of 172 "v4_byte 0 a"] by (simp add: byte0_unat byte1_F0 del: One_nat_def)
  also have "\<dots> \<longleftrightarrow> ?v div 16 = 2753"
    by (rule nibbles)
  also have "\<dots> \<longleftrightarrow> unat a div 1048576 = 2753" by (simp add: div_mult2_eq [symmetric])
  finally have m: "v4_byte 0 a = 172 \<and> v4_byte 1 a AND 0xF0 = 16 \<longleftrightarrow> unat a div 1048576 = 2753" .
  have p: "v4_byte 0 a = 192 \<and> v4_byte 1 a = 168 \<longleftrightarrow> unat a div 65536 = 49320"
    using byte_eq [of 192 "v4_byte 0 a"] byte_eq [of 168 "v4_byte 1 a"] two_bytes [of 168 ?v 192]
    by (simp add: byte0_unat byte1_unat del: One_nat_def)
  have t: "v4_byte 0 a = 10 \<longleftrightarrow> unat a div 16777216 = 10" using byte0_iff [of 10 a] by simp
  show ?thesis by (simp only: is_private.simps m p t)
qed

lemma multicast_iff: "is_multicast (V4 a) \<longleftrightarrow> unat a div 268435456 = 14"
proof -
  have b: "unat (v4_byte 0 a) < 256" using unat_byte [of 0 a] by simp
  have "unat (v4_byte 0 a AND 0xF0) = 16 * (unat (v4_byte 0 a) div 16)"
    using and_F0 [OF b] by (simp add: unsigned_and_eq)
  also have "\<dots> = 16 * (unat a div 268435456)" by (simp add: byte0_unat div_mult2_eq [symmetric])
  finally show ?thesis by (simp add: word_unat_eq_iff)
qed

lemma link_local_multicast_imp: "is_link_local_multicast (V4 a) \<Longrightarrow> unat a div 268435456 = 14"
proof -
  assume "is_link_local_multicast (V4 a)"
  then have "unat a div 16777216 = 224" using byte0_iff [of 224 a] by simp
  then have "unat a div 16777216 div 16 = 14" by simp
  then show ?thesis by (simp add: div_mult2_eq [symmetric])
qed

lemma special_prefixes_iff: "list_ex (\<lambda>p. prefix_contains p (V4 a)) non_public_prefixes \<longleftrightarrow>
    unat a div 16777216 = 0 \<or> unat a div 4194304 = 401 \<or> unat a div 256 = 12582912 \<or> unat a div 256 = 12582914 \<or>
    unat a div 256 = 12989284 \<or> unat a div 256 = 13303921 \<or> unat a div 131072 = 25353 \<or>
    unat a div 256 = 12605539 \<or> unat a div 268435456 = 15"
  by (simp add: non_public_prefixes_def prefix_range unat_ipv4 del: prefix_contains.simps(1))

section \<open>What counts as public\<close>

text \<open>The first and last address of every IPv4 range that is not public.\<close>

definition internal_v4_ranges :: "(32 word \<times> 32 word) list" where
  "internal_v4_ranges =
     [(ipv4 0 0 0 0, ipv4 0 255 255 255), (ipv4 10 0 0 0, ipv4 10 255 255 255),
      (ipv4 100 64 0 0, ipv4 100 127 255 255), (ipv4 127 0 0 0, ipv4 127 255 255 255),
      (ipv4 169 254 0 0, ipv4 169 254 255 255), (ipv4 172 16 0 0, ipv4 172 31 255 255),
      (ipv4 192 0 0 0, ipv4 192 0 0 255), (ipv4 192 0 2 0, ipv4 192 0 2 255),
      (ipv4 192 88 99 0, ipv4 192 88 99 255), (ipv4 192 168 0 0, ipv4 192 168 255 255),
      (ipv4 198 18 0 0, ipv4 198 19 255 255), (ipv4 198 51 100 0, ipv4 198 51 100 255),
      (ipv4 203 0 113 0, ipv4 203 0 113 255), (ipv4 224 0 0 0, ipv4 239 255 255 255),
      (ipv4 240 0 0 0, ipv4 255 255 255 255)]"

lemma public_v4_blocks:
  "is_public_addr (V4 a) \<longleftrightarrow> \<not> (unat a div 16777216 = 0 \<or> unat a div 16777216 = 10 \<or>
     unat a div 4194304 = 401 \<or> unat a div 16777216 = 127 \<or> unat a div 65536 = 43518 \<or>
     unat a div 1048576 = 2753 \<or> unat a div 256 = 12582912 \<or> unat a div 256 = 12582914 \<or>
     unat a div 256 = 12605539 \<or> unat a div 65536 = 49320 \<or> unat a div 131072 = 25353 \<or>
     unat a div 256 = 12989284 \<or> unat a div 256 = 13303921 \<or> unat a div 268435456 = 14 \<or>
     unat a div 268435456 = 15)"
proof -
  have zero: "unat a div 16777216 = 0" if "a = 0" using that by simp
  have top: "unat a div 268435456 = 15" if "a = 0xFFFFFFFF" using that by simp
  have g: "is_global_unicast (V4 a) \<longleftrightarrow> a \<noteq> 0 \<and> a \<noteq> 0xFFFFFFFF \<and> \<not> unat a div 16777216 = 127 \<and>
      \<not> unat a div 268435456 = 14 \<and> \<not> unat a div 65536 = 43518"
    by (simp only: is_global_unicast.simps loopback_iff multicast_iff link_local_iff)
  have u: "is_unspecified (V4 a) \<longleftrightarrow> a = 0" by simp
  show ?thesis
    unfolding is_public_addr_def unmap.simps ip_addr.case public_as_is_def special_prefixes_iff
      loopback_iff private_iff link_local_iff multicast_iff g u
    using zero top link_local_multicast_imp [of a] by auto
qed

lemma word_range: "lo \<le> a \<and> a \<le> hi \<longleftrightarrow> unat lo \<le> unat a \<and> unat a \<le> unat hi" for a :: "32 word"
  by (simp add: word_le_nat_alt)

lemma public_v4_exact_aux:
  "is_public_addr (V4 a) \<longleftrightarrow> list_all (\<lambda>(lo, hi). \<not> (lo \<le> a \<and> a \<le> hi)) internal_v4_ranges"
  unfolding public_v4_blocks internal_v4_ranges_def list.pred_inject prod.case word_range
  using unat_u32 [of a] by (simp add: unat_ipv4 div_range less_Suc_eq_le [symmetric])

lemma public_addrs_D:
  "public_addrs parse resolve host = Inr as \<Longrightarrow>
     as \<noteq> [] \<and> list_all is_public_addr as \<and> (parse (trim_brackets host) = Some (hd as) \<or> resolve host = Some as)"
  by (auto simp: public_addrs_def Let_def list_all_iff find_None_iff split: option.splits if_splits)

section \<open>Properties\<close>

text \<open>on IPv4, \<open>IsPublicAddr\<close> accepts exactly the addresses outside the fifteen special-use blocks:
  no loopback, private, link-local (cloud metadata), shared, documentation, benchmarking, multicast
  or reserved address is public, and nothing else is refused.\<close>
theorem is_public_v4_exact:
  "is_public_addr (V4 a) \<longleftrightarrow> list_all (\<lambda>(lo, hi). \<not> (lo \<le> a \<and> a \<le> hi)) internal_v4_ranges"
  by (rule public_v4_exact_aux)

text \<open>An IPv6 address that carries an IPv4 one (mapped, translated, NAT64 or IPv4-compatible) is
  judged by that IPv4 address.\<close>
theorem is_public_v6_embedded:
  assumes "list_ex (\<lambda>p. prefix_contains p (V6 a [])) (V6_Prefix 0xFFFF00000000 96 # embedded_ipv4_prefixes)"
  shows "is_public_addr (V6 a []) = is_public_addr (V4 (ucast a))"
  using assms
  by (auto simp: is_public_addr_def embedded_ipv4_prefixes_def split: ip_addr.split)

theorem is_public_v6_embedded_witness:
  "is_public_addr (V6 0x0064FF9B00000000000000007F000001 []) = is_public_addr (V4 (ucast (0x0064FF9B00000000000000007F000001 :: 128 word)))"
  by (rule is_public_v6_embedded) (simp add: embedded_ipv4_prefixes_def drop_bit_eq_div)

text \<open>The guard contradicts itself on scoped addresses: the NAT64 form of 127.0.0.1 is refused, the
  same address with a zone is accepted, because \<open>Prefix.Contains\<close> is false for every address with a
  zone and the embedded-IPv4 and special-use checks are made of nothing else.\<close>
theorem zone_evades_guard:
  "\<not> is_public_addr (V6 0x0064FF9B00000000000000007F000001 []) \<and>
   is_public_addr (V6 0x0064FF9B00000000000000007F000001 ''eth0'')"
proof -
  have "\<not> is_public_addr (V4 (ucast (0x0064FF9B00000000000000007F000001 :: 128 word)))"
    unfolding public_v4_blocks by simp
  moreover have "is_public_addr (V6 0x0064FF9B00000000000000007F000001 [])
      = is_public_addr (V4 (ucast (0x0064FF9B00000000000000007F000001 :: 128 word)))"
    by (simp add: is_public_addr_def embedded_ipv4_prefixes_def drop_bit_eq_div)
  moreover have "is_public_addr (V6 0x0064FF9B00000000000000007F000001 ''eth0'')"
    by (simp add: is_public_addr_def embedded_ipv4_prefixes_def drop_bit_eq_div public_as_is_def
        non_public_prefixes_def v6_u16_def)
  ultimately show ?thesis by simp
qed

text \<open>C21: whatever the parser and the resolver answer, the guarded dialer only dials an allowlisted host
  as it was given, or the first of a non-empty list of addresses that are all public and that the
  host itself denotes or resolves to, on the requested port.\<close>
theorem dial_only_public:
  "case dial_context lower parse resolve print allowed addr of
     Inl _ \<Rightarrow> True
   | Inr target \<Rightarrow> \<exists>host port. split_host_port addr = Some (host, port) \<and>
       ((policy_allows lower allowed host port \<and> target = addr) \<or>
        (\<exists>as. as \<noteq> [] \<and> list_all is_public_addr as \<and> target = join_host_port (print (hd as)) port \<and>
           (parse (trim_brackets host) = Some (hd as) \<or> resolve host = Some as)))"
  by (auto simp: dial_context_def dest: public_addrs_D split: option.splits sum.splits)

text \<open>a URL passes \<open>CheckURL\<close> only with an http or https scheme, without credentials, with a host,
  and when that host is allowlisted on the effective port or has only public addresses.\<close>
theorem check_url_sound:
  "case check_url lower parse_url parse resolve allowed raw of
     Inl _ \<Rightarrow> True
   | Inr _ \<Rightarrow> \<exists>u. parse_url (trim_space raw) = Some u \<and> (url_scheme u = ''http'' \<or> url_scheme u = ''https'') \<and>
       \<not> url_has_user u \<and> url_hostname u \<noteq> [] \<and>
       (policy_allows lower allowed (url_hostname u)
          (if url_port u \<noteq> [] then url_port u else if url_scheme u = ''http'' then ''80'' else ''443'') \<or>
        (\<exists>as. public_addrs parse resolve (url_hostname u) = Inr as \<and> list_all is_public_addr as))"
  by (auto simp: check_url_def Let_def dest: public_addrs_D split: option.splits sum.splits if_splits)

end
