(* ===== verification/Post_Service.thy ===== *)
theory Post_Service
  imports Domain "HOL-Library.List_Lexorder" "HOL-Library.Char_ord"
begin

text \<open>
  \<open>internal/textcount\<close>, \<open>internal/postvalidate\<close> and \<open>internal/postservice\<close>: how long a post is for a
  provider, whether it fits every destination, and the pipeline every interactive create and update
  runs through. The grapheme segmentation (\<open>uniseg\<close>) is the parameter \<open>clusters\<close>, the provider registry
  the parameter \<open>registry\<close>, the account loader the parameter \<open>load\<close>.
\<close>

section \<open>Counting\<close>

definition graphemes :: "(string \<Rightarrow> string list) \<Rightarrow> string \<Rightarrow> int" where
  "graphemes clusters s = int (length (clusters s))"

definition regex_space :: "char \<Rightarrow> bool" where
  "regex_space c \<longleftrightarrow> c \<in> {CHR 0x09, CHR 0x0A, CHR 0x0C, CHR 0x0D, CHR 0x20}"

definition word_char :: "char \<Rightarrow> bool" where
  "word_char c \<longleftrightarrow> (let n = byte_of c in (48 \<le> n \<and> n \<le> 57) \<or> (65 \<le> n \<and> n \<le> 90) \<or> n = 95 \<or> (97 \<le> n \<and> n \<le> 122))"

definition url_head :: "string \<Rightarrow> nat" where
  "url_head s = (if has_prefix s ''http://'' then 7 else if has_prefix s ''https://'' then 8 else 0)"

text \<open>\<open>urlPattern.ReplaceAllString\<close> with 23 letters x: an http(s) scheme and a non-empty run of
  non-blanks.\<close>

definition url_length :: "string \<Rightarrow> nat" where
  "url_length s =
     (let k = url_head s; run = takeWhile (\<lambda>c. \<not> regex_space c) (drop k s) in
      if k = 0 \<or> run = [] then 0 else k + length run)"

function replace_urls :: "string \<Rightarrow> string" where
  "replace_urls s =
     (case s of [] \<Rightarrow> []
      | c # t \<Rightarrow> if url_length s = 0 then c # replace_urls t
                else replicate 23 (CHR ''x'') @ replace_urls (drop (url_length s) s))"
  by pat_completeness auto
termination
  by (relation "measure length") auto

declare replace_urls.simps [simp del]

definition domain_char :: "char \<Rightarrow> bool" where
  "domain_char c \<longleftrightarrow> word_char c \<or> c = CHR ''.'' \<or> c = CHR ''-''"

definition strip_to_word :: "string \<Rightarrow> string" where
  "strip_to_word s = rev (dropWhile (\<lambda>c. \<not> word_char c) (rev s))"

text \<open>The match of \<open>@user@domain\<close> at the front: the local part and the length of the whole match.\<close>

definition mention_at :: "string \<Rightarrow> (string \<times> nat) option" where
  "mention_at s =
     (case s of [] \<Rightarrow> None
      | c # t \<Rightarrow>
          (let local = takeWhile domain_char t; r = drop (length local) t in
           if c \<noteq> CHR ''@'' \<or> local = [] \<or> \<not> word_char (hd local) \<or> \<not> word_char (last local) then None
           else (case r of [] \<Rightarrow> None
                 | d # u \<Rightarrow>
                     (let dom = strip_to_word (takeWhile domain_char u) in
                      if d \<noteq> CHR ''@'' \<or> dom = [] then None
                      else Some (local, length local + length dom + 2)))))"

function replace_mentions :: "bool \<Rightarrow> string \<Rightarrow> string" where
  "replace_mentions at_start s =
     (case s of [] \<Rightarrow> []
      | c # t \<Rightarrow>
          (case (if at_start then mention_at s else None) of
             Some (local, n) \<Rightarrow> CHR ''@'' # local @ replace_mentions False (drop (max 1 n) s)
           | None \<Rightarrow>
               (case (if c \<noteq> CHR ''/'' \<and> \<not> word_char c then mention_at t else None) of
                  Some (local, n) \<Rightarrow> c # CHR ''@'' # local @ replace_mentions False (drop n t)
                | None \<Rightarrow> c # replace_mentions False t)))"
  by pat_completeness auto
termination
  by (relation "measure (\<lambda>(_, s). length s)") auto

declare replace_mentions.simps [simp del]

definition mastodon_length :: "(string \<Rightarrow> string list) \<Rightarrow> string \<Rightarrow> int" where
  "mastodon_length clusters content = graphemes clusters (replace_mentions True (replace_urls content))"

definition provider_length :: "(string \<Rightarrow> string list) \<Rightarrow> string \<Rightarrow> string \<Rightarrow> int" where
  "provider_length clusters provider content =
     (if to_lower (trim_space provider) = ''mastodon'' then mastodon_length clusters content
      else graphemes clusters content)"

definition text_truncate :: "(string \<Rightarrow> string list) \<Rightarrow> string \<Rightarrow> int \<Rightarrow> string" where
  "text_truncate clusters s limit =
     (if limit \<le> 0 then []
      else if graphemes clusters s \<le> limit then s
      else concat (take (nat limit) (clusters s)) @ ellipsis)"

section \<open>Validation against the destinations\<close>

record capabilities =
  cap_max_chars :: int
  cap_requires_media :: bool

record destination =
  ds_account_id :: string
  ds_provider :: string
  ds_username :: string
  ds_max_chars :: int
  ds_length :: int
  ds_valid :: bool
  ds_requires_media :: bool
  ds_missing_media :: bool

record validation_result =
  vr_valid :: bool
  vr_max_chars :: int
  vr_content_length :: int
  vr_destinations :: "destination list"

type_synonym registry = "string \<Rightarrow> (social_account \<Rightarrow> capabilities res) option"

datatype prepare_error =
    Unsupported_Provider string string
  | Capabilities_Failed string string
  | Team_Required
  | Invalid_Shape string
  | Past_Scheduled_At
  | Override_Not_Target string
  | Load_Failed string
  | Wrong_Team string string
  | Several_Teams
  | Unknown_Targets "string list"

definition problem_of :: "destination \<Rightarrow> string" where
  "problem_of d =
     (let who = (if ds_username d \<noteq> [] then ds_username d @ '' (id='' @ ds_account_id d @ '')'' else ds_account_id d)
      in if ds_missing_media d then who @ '' on '' @ ds_provider d @ '' requires a media attachment''
         else if ds_max_chars d > 0 \<and> ds_length d > ds_max_chars d
         then who @ '' on '' @ ds_provider d @ '' allows '' @ itoa (ds_max_chars d) @
              '' characters but the text has '' @ itoa (ds_length d)
         else who @ '' on '' @ ds_provider d @ '' is invalid'')"

definition problems :: "validation_result \<Rightarrow> string" where
  "problems r = join_with ''; '' (map problem_of (filter (\<lambda>d. \<not> ds_valid d) (vr_destinations r)))"

definition smaller_limit :: "int \<Rightarrow> int \<Rightarrow> int" where
  "smaller_limit cur limit = (if limit > 0 \<and> (cur = 0 \<or> limit < cur) then limit else cur)"

definition destination_of ::
  "(string \<Rightarrow> string list) \<Rightarrow> create_post_input \<Rightarrow> social_account \<Rightarrow> capabilities \<Rightarrow> destination" where
  "destination_of clusters inp acc cap =
     (let len = provider_length clusters (sa_provider acc) (effective_content inp (sa_id acc));
          missing = (cap_requires_media cap \<and>
             filter_media_ids_for_account (in_media_ids inp) (in_media_exclude inp) (sa_id acc) = [])
      in \<lparr>ds_account_id = sa_id acc, ds_provider = sa_provider acc, ds_username = sa_username acc,
          ds_max_chars = cap_max_chars cap, ds_length = len,
          ds_valid = ((cap_max_chars cap = 0 \<or> len \<le> cap_max_chars cap) \<and> \<not> missing),
          ds_requires_media = cap_requires_media cap, ds_missing_media = missing\<rparr>)"

fun check_loop ::
  "(string \<Rightarrow> string list) \<Rightarrow> registry \<Rightarrow> create_post_input \<Rightarrow> social_account list \<Rightarrow>
   destination list \<Rightarrow> int \<Rightarrow> bool \<Rightarrow> prepare_error + destination list \<times> int \<times> bool" where
  "check_loop clusters registry inp [] ds mx ok = Inr (ds, mx, ok)"
| "check_loop clusters registry inp (acc # as) ds mx ok =
     (case registry (sa_provider acc) of
        None \<Rightarrow> Inl (Unsupported_Provider (sa_id acc) (sa_provider acc))
      | Some caps \<Rightarrow>
          (case caps acc of
             Inl e \<Rightarrow> Inl (Capabilities_Failed (sa_id acc) e)
           | Inr cap \<Rightarrow>
               (let d = destination_of clusters inp acc cap
                in check_loop clusters registry inp as (ds @ [d]) (smaller_limit mx (cap_max_chars cap))
                     (if \<not> ds_valid d then False else ok))))"

definition check_post ::
  "(string \<Rightarrow> string list) \<Rightarrow> registry \<Rightarrow> social_account list \<Rightarrow> create_post_input \<Rightarrow> prepare_error + validation_result" where
  "check_post clusters registry accounts inp =
     (case check_loop clusters registry inp accounts [] 0 True of
        Inl e \<Rightarrow> Inl e
      | Inr (ds, mx, ok) \<Rightarrow>
          Inr \<lparr>vr_valid = ok, vr_max_chars = mx, vr_content_length = graphemes clusters (in_content inp),
               vr_destinations = sort_key ds_account_id ds\<rparr>)"

record account_limit =
  al_account_id :: string
  al_username :: string
  al_provider :: string
  al_max_chars :: int

definition check_limits ::
  "(string \<Rightarrow> string list) \<Rightarrow> string \<Rightarrow> (string \<times> string) list \<Rightarrow> account_limit list \<Rightarrow> validation_result" where
  "check_limits clusters content overrides limits =
     (let ds = map (\<lambda>l.
            let effective = (case map_of overrides (al_account_id l) of
                  Some over \<Rightarrow> if trim_space over \<noteq> [] then over else content | None \<Rightarrow> content);
                len = provider_length clusters (al_provider l) effective
            in \<lparr>ds_account_id = al_account_id l, ds_provider = al_provider l, ds_username = al_username l,
                ds_max_chars = al_max_chars l, ds_length = len,
                ds_valid = (al_max_chars l = 0 \<or> len \<le> al_max_chars l),
                ds_requires_media = False, ds_missing_media = False\<rparr>) limits
      in \<lparr>vr_valid = list_all ds_valid ds,
          vr_max_chars = foldl smaller_limit 0 (map al_max_chars limits),
          vr_content_length = graphemes clusters content,
          vr_destinations = sort_key ds_account_id ds\<rparr>)"

section \<open>The pipeline\<close>

record prepare_options =
  po_check_limits :: bool
  po_require_team :: bool
  po_reject_past :: bool

record prepare_result =
  pr_input :: create_post_input
  pr_team :: string
  pr_validation :: validation_result

type_synonym loader = "string list \<Rightarrow> social_account list res"

text \<open>The loop over the targets: the team found so far, and the targets not loaded.\<close>

fun resolve_loop ::
  "(string \<Rightarrow> social_account option) \<Rightarrow> string \<Rightarrow> string list \<Rightarrow> string \<Rightarrow> string list \<Rightarrow>
   prepare_error + string \<times> string list" where
  "resolve_loop by_id team [] eff missing = Inr (eff, missing)"
| "resolve_loop by_id team (i # ids) eff missing =
     (case by_id i of
        None \<Rightarrow> resolve_loop by_id team ids eff (missing @ [i])
      | Some acc \<Rightarrow>
          if eff = [] then resolve_loop by_id team ids (sa_team_id acc) missing
          else if sa_team_id acc \<noteq> eff
          then Inl (if team \<noteq> [] then Wrong_Team i team else Several_Teams)
          else resolve_loop by_id team ids eff missing)"

text \<open>\<open>byID\<close> of the code: of two loaded accounts with one id the later one wins.\<close>

definition by_id_of :: "social_account list \<Rightarrow> string \<Rightarrow> social_account option" where
  "by_id_of as i = find (\<lambda>a. sa_id a = i) (rev as)"

definition resolve_targets ::
  "loader \<Rightarrow> string \<Rightarrow> string list \<Rightarrow> string list \<Rightarrow> prepare_error + social_account list \<times> string" where
  "resolve_targets load team targets override_keys =
     (if targets = [] then
        (if override_keys \<noteq> [] then Inl (Override_Not_Target (hd override_keys)) else Inr ([], team))
      else (case load targets of
              Inl e \<Rightarrow> Inl (Load_Failed e)
            | Inr loaded \<Rightarrow>
                (case resolve_loop (by_id_of loaded) team targets team [] of
                   Inl e \<Rightarrow> Inl e
                 | Inr (eff, missing) \<Rightarrow>
                     if missing \<noteq> [] then Inl (Unknown_Targets missing)
                     else (case find (\<lambda>k. by_id_of loaded k = None) override_keys of
                             Some k \<Rightarrow> Inl (Override_Not_Target k)
                           | None \<Rightarrow> Inr (map (the \<circ> by_id_of loaded) targets, eff)))))"

definition raw_override_keys :: "create_post_input \<Rightarrow> string list" where
  "raw_override_keys inp = map fst (filter (\<lambda>(_, c). trim_space c \<noteq> []) (in_override inp))"

definition prepare ::
  "(string \<Rightarrow> string list) \<Rightarrow> registry \<Rightarrow> loader \<Rightarrow> instant \<Rightarrow> string \<Rightarrow> create_post_input \<Rightarrow> prepare_options \<Rightarrow>
   prepare_error + prepare_result" where
  "prepare clusters registry load now team inp opts =
     (let keys = raw_override_keys inp; inp' = normalize_input inp in
      if po_require_team opts \<and> trim_space team = [] then Inl Team_Required
      else (case validate_input inp' of
              Inl e \<Rightarrow> Inl (Invalid_Shape e)
            | Inr _ \<Rightarrow>
                if po_reject_past opts \<and> \<not> in_draft inp' \<and> \<not> in_publish_now inp' \<and> \<not> now < in_scheduled_at inp'
                then Inl Past_Scheduled_At
                else (case resolve_targets load team (in_target_accounts inp') keys of
                        Inl e \<Rightarrow> Inl e
                      | Inr (accounts, eff) \<Rightarrow>
                          (let res = \<lparr>pr_input = inp', pr_team = eff, pr_validation =
                                 \<lparr>vr_valid = True, vr_max_chars = 0, vr_content_length = 0, vr_destinations = []\<rparr>\<rparr>
                           in if po_check_limits opts \<and> accounts \<noteq> []
                              then (case check_post clusters registry accounts inp' of
                                      Inl e \<Rightarrow> Inl e
                                    | Inr v \<Rightarrow> Inr (res\<lparr>pr_validation := v\<rparr>))
                              else Inr res))))"

text \<open>\<open>ValidationError\<close>: the reason to reject, \<open>None\<close> when the result is valid.\<close>

definition validation_error :: "validation_result \<Rightarrow> string option" where
  "validation_error r =
     (if vr_valid r then None
      else Some (''content does not fit every destination: '' @ problems r @
        ''. Shorten the content or add account_content_override entries that fit each account's limit, then try again''))"

section \<open>Lemmas\<close>

lemma join_with_Nil_iff: "(\<forall>w \<in> set ws. w \<noteq> []) \<Longrightarrow> join_with sep ws = [] \<longleftrightarrow> ws = []"
  by (induction sep ws rule: join_with.induct) auto

lemma problem_of_nonempty: "problem_of d \<noteq> []"
  by (simp add: problem_of_def Let_def)

lemma problems_Nil_iff: "problems r = [] \<longleftrightarrow> (\<forall>d \<in> set (vr_destinations r). ds_valid d)"
  unfolding problems_def
  by (subst join_with_Nil_iff) (auto simp: problem_of_nonempty filter_empty_conv)

definition smallest_limit :: "int \<Rightarrow> int list \<Rightarrow> bool" where
  "smallest_limit m ls \<longleftrightarrow>
     (if list_ex (\<lambda>l. 0 < l) ls then m \<in> set ls \<and> 0 < m \<and> list_all (\<lambda>l. 0 < l \<longrightarrow> m \<le> l) ls else m = 0)"

lemma foldl_smaller: "0 \<le> m \<Longrightarrow> smallest_limit m ls0 \<Longrightarrow> smallest_limit (foldl smaller_limit m ls) (ls0 @ ls)"
proof (induction ls arbitrary: m ls0)
  case (Cons l ls)
  have "smallest_limit (smaller_limit m l) (ls0 @ [l])"
    using Cons.prems unfolding smallest_limit_def smaller_limit_def
    by (auto simp: list_ex_iff list_all_iff split: if_splits)
  moreover have "0 \<le> smaller_limit m l" using Cons.prems by (auto simp: smaller_limit_def)
  ultimately show ?case using Cons.IH [of "smaller_limit m l" "ls0 @ [l]"] by simp
qed simp

lemma check_loop_D:
  "check_loop clusters registry inp as ds mx ok = Inr (ds', mx', ok') \<Longrightarrow>
     \<exists>new. ds' = ds @ new \<and> mx' = foldl smaller_limit mx (map ds_max_chars new) \<and>
       (ok' \<longleftrightarrow> ok \<and> list_all ds_valid new) \<and>
       list_all2 (\<lambda>a d. \<exists>caps cap. registry (sa_provider a) = Some caps \<and> caps a = Inr cap \<and>
         d = destination_of clusters inp a cap) as new"
proof (induction as arbitrary: ds mx ok)
  case (Cons a as)
  from Cons.prems obtain caps cap where c: "registry (sa_provider a) = Some caps" "caps a = Inr cap"
    by (auto split: option.splits sum.splits)
  define d where "d = destination_of clusters inp a cap"
  have m: "ds_max_chars d = cap_max_chars cap" by (simp add: d_def destination_of_def Let_def)
  from Cons.prems c have "check_loop clusters registry inp as (ds @ [d]) (smaller_limit mx (cap_max_chars cap))
      (if \<not> ds_valid d then False else ok) = Inr (ds', mx', ok')"
    by (simp add: Let_def d_def)
  from Cons.IH [OF this] obtain new where n: "ds' = (ds @ [d]) @ new"
    "mx' = foldl smaller_limit (smaller_limit mx (cap_max_chars cap)) (map ds_max_chars new)"
    "ok' \<longleftrightarrow> (if \<not> ds_valid d then False else ok) \<and> list_all ds_valid new"
    "list_all2 (\<lambda>a d. \<exists>caps cap. registry (sa_provider a) = Some caps \<and> caps a = Inr cap \<and>
         d = destination_of clusters inp a cap) as new" by blast
  show ?case
    using n c m by (intro exI [of _ "d # new"]) (auto simp: d_def)
qed auto

lemma check_post_D:
  assumes "check_post clusters registry accounts inp = Inr r"
  shows "\<exists>ds. vr_destinations r = sort_key ds_account_id ds \<and>
    (vr_valid r \<longleftrightarrow> list_all ds_valid ds) \<and> smallest_limit (vr_max_chars r) (map ds_max_chars ds) \<and>
    list_all2 (\<lambda>a d. \<exists>caps cap. registry (sa_provider a) = Some caps \<and> caps a = Inr cap \<and>
         d = destination_of clusters inp a cap) accounts ds"
proof -
  from assms obtain ds mx ok where l: "check_loop clusters registry inp accounts [] 0 True = Inr (ds, mx, ok)"
    and r: "r = \<lparr>vr_valid = ok, vr_max_chars = mx, vr_content_length = graphemes clusters (in_content inp),
               vr_destinations = sort_key ds_account_id ds\<rparr>"
    by (auto simp: check_post_def split: sum.splits prod.splits)
  have "smallest_limit 0 []" by (simp add: smallest_limit_def)
  from foldl_smaller [OF order_refl this] check_loop_D [OF l]
  show ?thesis unfolding r by (intro exI [of _ ds]) auto
qed

lemma resolve_loop_D:
  assumes "resolve_loop by_id team ids eff missing = Inr (eff', missing')"
    and "\<And>i a. by_id i = Some a \<Longrightarrow> sa_team_id a \<noteq> []"
  shows "(eff \<noteq> [] \<longrightarrow> eff' = eff) \<and> set missing \<subseteq> set missing' \<and>
    (\<forall>i \<in> set ids. case by_id i of None \<Rightarrow> i \<in> set missing' | Some a \<Rightarrow> sa_team_id a = eff')"
  using assms(1)
proof (induction ids arbitrary: eff missing)
  case Nil
  then show ?case by simp
next
  case (Cons i ids)
  show ?case
  proof (cases "by_id i")
    case None
    with Cons.prems have "resolve_loop by_id team ids eff (missing @ [i]) = Inr (eff', missing')" by simp
    from Cons.IH [OF this] None show ?thesis by auto
  next
    case (Some a)
    have ne: "sa_team_id a \<noteq> []" using assms(2) [OF Some] .
    from Some Cons.prems have e: "eff = [] \<or> sa_team_id a = eff"
      and l: "resolve_loop by_id team ids (sa_team_id a) missing = Inr (eff', missing')"
      by (auto split: if_splits)
    from Cons.IH [OF l] ne have "eff' = sa_team_id a" by blast
    with Cons.IH [OF l] e Some show ?thesis by auto
  qed
qed

lemma by_id_of_SomeD: "by_id_of as i = Some a \<Longrightarrow> a \<in> set as \<and> sa_id a = i"
  unfolding by_id_of_def by (auto dest: find_SomeD)

text \<open>What the pipeline needs of the store: \<open>GetAccountsByIDsGlobal\<close> returns one account for every
  requested id and nothing else, and every account has a team.\<close>

locale account_loader =
  fixes load :: "'db \<Rightarrow> string list \<Rightarrow> social_account list res"
    and ok :: "'db \<Rightarrow> bool"
  assumes loaded_ids: "ok db \<Longrightarrow> load db ids = Inr as \<Longrightarrow> sa_id ` set as = set ids"
    and loaded_team: "ok db \<Longrightarrow> load db ids = Inr as \<Longrightarrow> a \<in> set as \<Longrightarrow> sa_team_id a \<noteq> []"
begin

lemma resolve_targets_ok:
  assumes db: "ok db" and r: "resolve_targets (load db) team targets keys = Inr (accounts, eff)"
  shows "map sa_id accounts = targets \<and> (\<forall>a \<in> set accounts. sa_team_id a = eff) \<and>
    (team \<noteq> [] \<longrightarrow> eff = team) \<and> set keys \<subseteq> set targets"
proof (cases "targets = []")
  case True
  with r show ?thesis by (auto simp: resolve_targets_def split: if_splits)
next
  case False
  with r obtain loaded missing where ld: "load db targets = Inr loaded"
    and lp: "resolve_loop (by_id_of loaded) team targets team [] = Inr (eff, missing)"
    and ms: "missing = []" and ov: "find (\<lambda>k. by_id_of loaded k = None) keys = None"
    and ac: "accounts = map (the \<circ> by_id_of loaded) targets"
    by (auto simp: resolve_targets_def split: sum.splits prod.splits option.splits if_splits)
  have ne: "\<And>i a. by_id_of loaded i = Some a \<Longrightarrow> sa_team_id a \<noteq> []"
    using loaded_team [OF db ld] by_id_of_SomeD by blast
  have "(team \<noteq> [] \<longrightarrow> eff = team) \<and> set [] \<subseteq> set missing \<and>
    (\<forall>i \<in> set targets. case by_id_of loaded i of None \<Rightarrow> i \<in> set missing | Some a \<Rightarrow> sa_team_id a = eff)"
    by (rule resolve_loop_D [OF lp]) (rule ne)
  with ms
  have team: "team \<noteq> [] \<longrightarrow> eff = team"
    and all: "\<forall>i \<in> set targets. \<exists>a. by_id_of loaded i = Some a \<and> sa_team_id a = eff"
    by (auto split: option.splits)
  have ids: "sa_id (the (by_id_of loaded i)) = i" if "i \<in> set targets" for i
    using all that by_id_of_SomeD [of loaded i] by fastforce
  have "map sa_id accounts = targets" unfolding ac by (simp add: map_idI ids)
  moreover have "\<forall>a \<in> set accounts. sa_team_id a = eff" unfolding ac using all by fastforce
  moreover have "set keys \<subseteq> set targets"
  proof
    fix k assume "k \<in> set keys"
    with ov obtain a where "by_id_of loaded k = Some a" by (auto simp: find_None_iff)
    then have "k \<in> sa_id ` set loaded" using by_id_of_SomeD by blast
    then show "k \<in> set targets" using loaded_ids [OF db ld] by simp
  qed
  ultimately show ?thesis using team by blast
qed

lemma prepare_ok:
  assumes db: "ok db" and p: "prepare clusters registry (load db) now team inp opts = Inr res"
  shows "pr_input res = normalize_input inp \<and> validate_input (pr_input res) = Inr () \<and>
    (po_reject_past opts \<longrightarrow> in_draft inp \<or> in_publish_now inp \<or> now < in_scheduled_at inp) \<and>
    (team \<noteq> [] \<longrightarrow> pr_team res = team) \<and>
    (\<exists>accounts. resolve_targets (load db) team (in_target_accounts inp) (raw_override_keys inp) = Inr (accounts, pr_team res) \<and>
       map sa_id accounts = in_target_accounts inp \<and> (\<forall>a \<in> set accounts. sa_team_id a = pr_team res)) \<and>
    set (raw_override_keys inp) \<subseteq> set (in_target_accounts inp)"
proof -
  have n: "in_draft (normalize_input inp) = in_draft inp" "in_publish_now (normalize_input inp) = in_publish_now inp"
    "in_scheduled_at (normalize_input inp) = in_scheduled_at inp"
    "in_target_accounts (normalize_input inp) = in_target_accounts inp"
    by (simp_all add: normalize_input_def Let_def)
  from p obtain accounts eff where
    r: "resolve_targets (load db) team (in_target_accounts inp) (raw_override_keys inp) = Inr (accounts, eff)"
    and v: "validate_input (normalize_input inp) = Inr ()"
    and past: "\<not> (po_reject_past opts \<and> \<not> in_draft inp \<and> \<not> in_publish_now inp \<and> \<not> now < in_scheduled_at inp)"
    and res: "pr_input res = normalize_input inp" "pr_team res = eff"
    by (auto simp: prepare_def Let_def n split: if_splits sum.splits prod.splits)
  from resolve_targets_ok [OF db r] r v past res show ?thesis by auto
qed

end

lemma override_kept:
  assumes "set (raw_override_keys inp) \<subseteq> set (in_target_accounts inp)" "(k, c) \<in> set (in_override inp)" "trim_space c \<noteq> []"
  shows "(k, trim_space c) \<in> set (in_override (normalize_input inp))"
proof -
  have "k \<in> set (in_target_accounts inp)"
    using assms by (force simp: raw_override_keys_def)
  with assms(2,3) show ?thesis
    by (force simp: normalize_input_def normalize_account_content_override_def Let_def)
qed

section \<open>Properties\<close>

text \<open>C34: \<open>postvalidate.Check\<close> reports a post as valid exactly when the text it would publish to each
  account, per-account overrides included, fits that account's limit and an account that requires
  media keeps some; the reported limit is the smallest one; and the problem summary is empty exactly
  for a valid post.\<close>
theorem check_post_exact:
  assumes "check_post clusters registry accounts inp = Inr r"
  shows "(vr_valid r \<longleftrightarrow> (\<forall>a \<in> set accounts. \<exists>caps cap. registry (sa_provider a) = Some caps \<and> caps a = Inr cap \<and>
      (cap_max_chars cap = 0 \<or> provider_length clusters (sa_provider a) (effective_content inp (sa_id a)) \<le> cap_max_chars cap) \<and>
      (cap_requires_media cap \<longrightarrow>
        filter_media_ids_for_account (in_media_ids inp) (in_media_exclude inp) (sa_id a) \<noteq> []))) \<and>
    smallest_limit (vr_max_chars r) (map ds_max_chars (vr_destinations r)) \<and>
    (problems r = [] \<longleftrightarrow> vr_valid r)"
proof -
  from check_post_D [OF assms] obtain ds where ds: "vr_destinations r = sort_key ds_account_id ds"
    "vr_valid r \<longleftrightarrow> list_all ds_valid ds" "smallest_limit (vr_max_chars r) (map ds_max_chars ds)"
    and rel: "list_all2 (\<lambda>a d. \<exists>caps cap. registry (sa_provider a) = Some caps \<and> caps a = Inr cap \<and>
         d = destination_of clusters inp a cap) accounts ds" by blast
  have sets: "set (vr_destinations r) = set ds" using ds(1) by simp
  have one: "ds_valid (destination_of clusters inp a cap) \<longleftrightarrow>
      (cap_max_chars cap = 0 \<or> provider_length clusters (sa_provider a) (effective_content inp (sa_id a)) \<le> cap_max_chars cap) \<and>
      (cap_requires_media cap \<longrightarrow> filter_media_ids_for_account (in_media_ids inp) (in_media_exclude inp) (sa_id a) \<noteq> [])"
    for a cap by (auto simp: destination_of_def Let_def)
  from rel have "list_all ds_valid ds \<longleftrightarrow> (\<forall>a \<in> set accounts. \<exists>caps cap. registry (sa_provider a) = Some caps \<and>
      caps a = Inr cap \<and> ds_valid (destination_of clusters inp a cap))"
    by (induction rule: list_all2_induct) auto
  moreover have "smallest_limit (vr_max_chars r) (map ds_max_chars (vr_destinations r))"
    using ds(3) unfolding smallest_limit_def list_ex_iff list_all_iff set_map sets .
  moreover have "problems r = [] \<longleftrightarrow> vr_valid r"
    unfolding problems_Nil_iff sets ds(2) by (simp add: list_all_iff)
  ultimately show ?thesis unfolding ds(2) one by blast
qed

definition demo_account :: social_account where
  "demo_account = \<lparr>sa_id = ''a1'', sa_team_id = ''t1'', sa_name = ''A'', sa_provider = ''x'', sa_auth_type = [],
     sa_instance_id = [], sa_instance_url = [], sa_username = ''ann'', sa_remote_id = [], sa_access_token = [],
     sa_refresh_token = [], sa_max_chars_override = None, sa_token_expires_at = None\<rparr>"

definition demo_registry :: "int \<Rightarrow> registry" where
  "demo_registry n p = (if p = ''x'' then Some (\<lambda>_. Inr \<lparr>cap_max_chars = n, cap_requires_media = False\<rparr>) else None)"

lemma demo_check:
  "check_post (map (\<lambda>c. [c])) (demo_registry 3) [demo_account] (empty_input\<lparr>in_content := ''hello''\<rparr>) =
    Inr \<lparr>vr_valid = False, vr_max_chars = 3, vr_content_length = 5, vr_destinations =
      [\<lparr>ds_account_id = ''a1'', ds_provider = ''x'', ds_username = ''ann'', ds_max_chars = 3, ds_length = 5,
        ds_valid = False, ds_requires_media = False, ds_missing_media = False\<rparr>]\<rparr>"
  by (simp add: check_post_def demo_registry_def demo_account_def empty_input_def destination_of_def Let_def
      graphemes_def provider_length_def effective_content_def smaller_limit_def trim_eval to_lower_def
      replace_all_def lower_char_def bytes_u0130_def bytes_u212A_def)

theorem check_post_exact_witness:
  "\<not> provider_length (map (\<lambda>c. [c])) ''x'' (effective_content (empty_input\<lparr>in_content := ''hello''\<rparr>) ''a1'') \<le> 3"
proof -
  have "\<not> (\<exists>caps cap. demo_registry 3 (sa_provider demo_account) = Some caps \<and> caps demo_account = Inr cap \<and>
      (cap_max_chars cap = 0 \<or> provider_length (map (\<lambda>c. [c])) (sa_provider demo_account)
         (effective_content (empty_input\<lparr>in_content := ''hello''\<rparr>) (sa_id demo_account)) \<le> cap_max_chars cap) \<and>
      (cap_requires_media cap \<longrightarrow> filter_media_ids_for_account (in_media_ids (empty_input\<lparr>in_content := ''hello''\<rparr>))
         (in_media_exclude (empty_input\<lparr>in_content := ''hello''\<rparr>)) (sa_id demo_account) \<noteq> []))"
    using check_post_exact [OF demo_check] by simp
  then show ?thesis by (simp add: demo_registry_def demo_account_def)
qed

end
