(* ===== verification/Post_Tables.thy ===== *)
theory Post_Tables
  imports Identity_Store "HOL-Library.List_Lexorder" "HOL-Library.Char_ord"
begin

text \<open>
  The tables behind posts: accounts, posts, per-account targets and versions, RSS feeds and items, AI
  jobs, templates and skips, hashtags and metrics, the audit log with its outbox, and the locks, as
  \<open>internal/store/sqlite/schema.sql\<close> and the migrations of \<open>personal.go\<close> declare them; the reads that
  join them; the deletes with their cascades; and the invariant every operation keeps. A text column
  that a read turns into an empty string when it is null holds the empty list for null. Time columns
  are written by \<open>formatTime\<close> with nine digits, so comparing them as text compares the instants.
\<close>

section \<open>Rows\<close>

record post_row =
  rw_post :: scheduled_post
  rw_ack :: "instant option"
  rw_created :: instant
  rw_updated :: instant

record target_row =
  tg_post :: string
  tg_account :: string
  tg_status :: post_status
  tg_url :: string
  tg_error :: string
  tg_metadata :: "(string \<times> string) list"
  tg_remote :: string
  tg_synced_day :: string
  tg_synced_at :: "instant option"

record feed_row =
  fd_knowledge :: "string list option"
  fd_id :: string
  fd_team :: string
  fd_url :: string
  fd_name :: string
  fd_active :: bool
  fd_ai_enhance :: bool
  fd_enrichment :: bool
  fd_content_template :: string
  fd_title_template :: string
  fd_title_hint :: string
  fd_output_mode :: string
  fd_max_per_day :: int
  fd_counter :: int
  fd_prompt_hint :: string
  fd_goal :: string
  fd_length :: string
  fd_targets :: "string list"
  fd_tonality :: string
  fd_sync_mode :: string
  fd_last_fetched :: "instant option"
  fd_created :: instant

record item_row =
  it_feed :: string
  it_key :: string
  it_post :: "string option"
  it_attempts :: int
  it_retry :: bool
  it_consumed :: "instant option"
  it_budget_day :: "int option"
  it_created :: instant

datatype job_status = Job_Pending | Job_Processing | Job_Completed | Job_Failed

text \<open>A job's payload is a JSON document; it is kept decoded, as the fields the code and the store's queries
  read. Times in it are text in \<open>time.RFC3339\<close>, which has whole seconds: they are numbers of seconds.\<close>

record recurring_params =
  rc_template :: string
  rc_kind :: string
  rc_output_mode :: string
  rc_scheduled :: "int option"
  rc_occurrence :: "int option"
  rc_draft :: bool
  rc_title :: string
  rc_fallback :: string
  rc_counter :: int
  rc_visibility :: "string option"
  rc_media_ids :: "string list"
  rc_media_exclude :: "(string \<times> string list) list"

record rss_params =
  rs_feed :: string
  rs_key :: string
  rs_output_mode :: string
  rs_scheduled :: "int option"
  rs_draft :: bool
  rs_title :: string
  rs_fallback :: string
  rs_fetch_failed :: bool

record job_payload =
  pl_recurring :: "recurring_params option"
  pl_rss :: "rss_params option"
  pl_targets :: "string list"
  pl_no_publish :: bool
  pl_can_schedule :: bool
  pl_source :: string

record job_row =
  jb_id :: string
  jb_team :: string
  jb_author :: string
  jb_type :: string
  jb_status :: job_status
  jb_origin :: string
  jb_payload :: job_payload
  jb_result :: string
  jb_error :: string
  jb_created :: instant
  jb_updated :: instant
  jb_completed :: "instant option"

abbreviation jb_rss_feed :: "job_row \<Rightarrow> string option" where
  "jb_rss_feed j \<equiv> map_option rs_feed (pl_rss (jb_payload j))"
abbreviation jb_rss_key :: "job_row \<Rightarrow> string option" where
  "jb_rss_key j \<equiv> map_option rs_key (pl_rss (jb_payload j))"

record template_row =
  tp_id :: string
  tp_team :: string
  tp_author :: string
  tp_title :: string
  tp_content :: string
  tp_recurrence :: string
  tp_visibility :: string
  tp_media_ids :: "string list"
  tp_media_exclude :: "(string \<times> string list) list"
  tp_targets :: "string list"
  tp_enabled :: bool
  tp_ai_enhance :: bool
  tp_ai_enhance_ann :: bool
  tp_output_mode :: string
  tp_prompt_hint :: string
  tp_title_hint :: string
  tp_tonality :: string
  tp_horizon_days :: int
  tp_next :: "instant option"
  tp_counter :: int
  tp_ann_enabled :: bool
  tp_ann_title :: string
  tp_ann_content :: string
  tp_ann_days_before :: int
  tp_ann_counter :: int
  tp_ann_targets :: "string list"
  tp_created :: instant
  tp_updated :: instant

datatype skip_scope = Skip_Occurrence | Skip_Announcement

record skip_row =
  sk_template :: string
  sk_at :: instant
  sk_shift :: "instant option"
  sk_scope :: skip_scope

record audit_event =
  ae_id :: string
  ae_team :: string
  ae_actor_user :: string
  ae_actor_name :: string
  ae_actor_email :: string
  ae_actor_kind :: string
  ae_token :: "string option"
  ae_token_name :: "string option"
  ae_action :: string
  ae_target_type :: string
  ae_target :: "string option"
  ae_summary :: string
  ae_metadata :: "(string \<times> string) list"
  ae_created :: "instant option"

record lock_row =
  lk_id :: string
  lk_at :: instant
  lk_expires :: instant

record hashtag_row =
  ht_post :: string
  ht_account :: string
  ht_norm :: string
  ht_display :: string

record metric_row =
  mt_post :: string
  mt_account :: string
  mt_metric :: string
  mt_value :: int
  mt_day :: string

record media_row =
  md_id :: string
  md_team :: string
  md_sha :: string
  md_filename :: string
  md_mime :: string
  md_size :: int
  md_width :: "int option"
  md_height :: "int option"
  md_created :: instant

record mapping_row =
  mm_media :: string
  mm_account :: string
  mm_remote :: string
  mm_expires :: "instant option"
  mm_created :: instant

record instance_row =
  pi_id :: string
  pi_provider :: string
  pi_name :: string
  pi_url :: string
  pi_client_id :: string
  pi_secret :: string

record store_db =
  sd_identity :: identity_db
  sd_accounts :: "social_account list"
  sd_posts :: "post_row list"
  sd_targets :: "target_row list"
  sd_versions :: "post_version list"
  sd_feeds :: "feed_row list"
  sd_items :: "item_row list"
  sd_jobs :: "job_row list"
  sd_templates :: "template_row list"
  sd_skips :: "skip_row list"
  sd_pending :: "audit_event list"
  sd_audit :: "audit_event list"
  sd_locks :: "lock_row list"
  sd_hashtags :: "hashtag_row list"
  sd_metrics :: "metric_row list"
  sd_metric_history :: "metric_row list"
  sd_media :: "media_row list"
  sd_mappings :: "mapping_row list"
  sd_instances :: "instance_row list"

abbreviation rw_id :: "post_row \<Rightarrow> string" where "rw_id r \<equiv> sp_id (rw_post r)"
abbreviation rw_team :: "post_row \<Rightarrow> string" where "rw_team r \<equiv> sp_team_id (rw_post r)"
abbreviation rw_status :: "post_row \<Rightarrow> post_status" where "rw_status r \<equiv> sp_status (rw_post r)"

definition on_post :: "(scheduled_post \<Rightarrow> scheduled_post) \<Rightarrow> instant \<Rightarrow> post_row \<Rightarrow> post_row" where
  "on_post f now r = r\<lparr>rw_post := f (rw_post r), rw_updated := now\<rparr>"

lemma on_post_simps [simp]:
  "rw_post (on_post f now r) = f (rw_post r)" "rw_ack (on_post f now r) = rw_ack r"
  "rw_created (on_post f now r) = rw_created r" "rw_updated (on_post f now r) = now"
  by (simp_all add: on_post_def)

definition team_exists :: "string \<Rightarrow> store_db \<Rightarrow> bool" where
  "team_exists t db \<longleftrightarrow> t \<in> tm_id ` set (id_teams (sd_identity db))"

definition user_exists :: "string \<Rightarrow> store_db \<Rightarrow> bool" where
  "user_exists u db \<longleftrightarrow> u \<in> u_id ` set (id_users (sd_identity db))"

definition account_exists :: "string \<Rightarrow> store_db \<Rightarrow> bool" where
  "account_exists a db \<longleftrightarrow> a \<in> sa_id ` set (sd_accounts db)"

definition find_post :: "string \<Rightarrow> store_db \<Rightarrow> post_row option" where
  "find_post i db = find (\<lambda>r. rw_id r = i) (sd_posts db)"

definition find_account :: "string \<Rightarrow> store_db \<Rightarrow> social_account option" where
  "find_account i db = find (\<lambda>a. sa_id a = i) (sd_accounts db)"

definition find_target :: "string \<Rightarrow> string \<Rightarrow> store_db \<Rightarrow> target_row option" where
  "find_target p a db = find (\<lambda>t. tg_post t = p \<and> tg_account t = a) (sd_targets db)"

text \<open>\<open>nullableString\<close>.\<close>

definition nullable_string :: "string \<Rightarrow> string" where
  "nullable_string s = trim_space s"

definition utc_day :: "instant \<Rightarrow> int" where
  "utc_day t = t div (86400 * nanos)"

definition new_target :: "string \<Rightarrow> string \<Rightarrow> target_row" where
  "new_target p a = \<lparr>tg_post = p, tg_account = a, tg_status = Pending, tg_url = [], tg_error = [],
     tg_metadata = [], tg_remote = [], tg_synced_day = [], tg_synced_at = None\<rparr>"

section \<open>Reads\<close>

text \<open>\<open>scanPost\<close> with the columns every list query selects, and the targets of
  \<open>loadTargetAccountIDs\<close>: the template occurrence, role and feed are not among them.\<close>

definition scan_post :: "store_db \<Rightarrow> post_row \<Rightarrow> scheduled_post" where
  "scan_post db r =
     (let p = rw_post r in
      p\<lparr>sp_visibility := (if trim_space (sp_visibility p) = [] then ''public'' else sp_visibility p),
        sp_source := (if trim_space (sp_source p) = [] then source_scheduled else sp_source p),
        sp_targets := map tg_account (filter (\<lambda>t. tg_post t = sp_id p) (sd_targets db)),
        sp_template_occurrence_at := None, sp_template_post_role := [], sp_rss_feed_id := None\<rparr>)"

definition get_scheduled_post :: "string \<Rightarrow> string \<Rightarrow> store_db \<Rightarrow> store_error + scheduled_post" where
  "get_scheduled_post team post db =
     (case find (\<lambda>r. rw_team r = team \<and> rw_id r = post) (sd_posts db) of
        None \<Rightarrow> Inl No_Rows | Some r \<Rightarrow> Inr (scan_post db r))"

definition get_scheduled_post_by_id :: "string \<Rightarrow> store_db \<Rightarrow> store_error + scheduled_post" where
  "get_scheduled_post_by_id post db =
     (case find_post post db of None \<Rightarrow> Inl No_Rows | Some r \<Rightarrow> Inr (scan_post db r))"

definition list_team_posts :: "string \<Rightarrow> store_db \<Rightarrow> scheduled_post list" where
  "list_team_posts team db =
     map (scan_post db) (sort_key (\<lambda>r. sp_scheduled_at (rw_post r)) (filter (\<lambda>r. rw_team r = team) (sd_posts db)))"

definition list_team_posts_page :: "string \<Rightarrow> nat \<Rightarrow> nat \<Rightarrow> store_db \<Rightarrow> scheduled_post list \<times> nat" where
  "list_team_posts_page team limit offset db =
     (take limit (drop offset (list_team_posts team db)), count_where (\<lambda>r. rw_team r = team) (sd_posts db))"

definition list_post_versions_for_team_post :: "string \<Rightarrow> string \<Rightarrow> store_db \<Rightarrow> post_version list" where
  "list_post_versions_for_team_post team post db =
     (if list_ex (\<lambda>r. rw_id r = post \<and> rw_team r = team) (sd_posts db)
      then sort_key pv_account_id (filter (\<lambda>v. pv_post_id v = post) (sd_versions db)) else [])"

definition get_scheduled_post_template_link ::
  "string \<Rightarrow> string \<Rightarrow> store_db \<Rightarrow> store_error + string \<times> instant option \<times> string" where
  "get_scheduled_post_template_link team post db =
     (case find (\<lambda>r. rw_id r = post \<and> rw_team r = team) (sd_posts db) of
        None \<Rightarrow> Inl (Refused ''post not found'')
      | Some r \<Rightarrow>
          (case sp_post_template_id (rw_post r) of
             None \<Rightarrow> Inr ([], None, [])
           | Some t \<Rightarrow>
               if trim_space t = [] then Inr ([], None, [])
               else Inr (t, sp_template_occurrence_at (rw_post r), trim_space (sp_template_post_role (rw_post r)))))"

definition list_due_posts :: "instant \<Rightarrow> nat \<Rightarrow> store_db \<Rightarrow> scheduled_post list" where
  "list_due_posts now limit db =
     map (scan_post db) (take limit (sort_key (\<lambda>r. sp_scheduled_at (rw_post r))
       (filter (\<lambda>r. sp_scheduled_at (rw_post r) \<le> now \<and> (rw_status r = Pending \<or> rw_status r = Failed) \<and>
                    sp_attempt_count (rw_post r) < 5) (sd_posts db))))"

text \<open>\<open>LoadPostTargets\<close>: the join drops accounts of another team than the post's.\<close>

definition load_post_targets :: "string \<Rightarrow> store_db \<Rightarrow> social_account list" where
  "load_post_targets post db =
     (case find_post post db of
        None \<Rightarrow> []
      | Some p \<Rightarrow>
          List.map_filter (\<lambda>t. if tg_post t = post \<and> tg_status t \<noteq> Posted
                               then find (\<lambda>a. sa_id a = tg_account t \<and> sa_team_id a = rw_team p) (sd_accounts db)
                               else None) (sd_targets db))"

definition get_account_by_id :: "string \<Rightarrow> store_db \<Rightarrow> store_error + social_account" where
  "get_account_by_id i db = (case find_account i db of None \<Rightarrow> Inl No_Rows | Some a \<Rightarrow> Inr a)"

definition get_accounts_by_ids_global :: "store_db \<Rightarrow> string list \<Rightarrow> social_account list res" where
  "get_accounts_by_ids_global db ids =
     (if ids = [] then Err ''no target accounts''
      else (let as = filter (\<lambda>a. sa_id a \<in> set ids) (sd_accounts db) in
            if length as \<noteq> length ids then Err ''one or more target accounts are missing''
            else if list_ex (\<lambda>a. sa_team_id a \<noteq> sa_team_id (hd as)) as
            then Err ''target accounts must belong to the same team''
            else Ok as))"

definition get_accounts_by_ids :: "string \<Rightarrow> string list \<Rightarrow> store_db \<Rightarrow> social_account list" where
  "get_accounts_by_ids team ids db =
     (if ids = [] then [] else filter (\<lambda>a. sa_team_id a = team \<and> sa_id a \<in> set ids) (sd_accounts db))"

definition get_published_target ::
  "string \<Rightarrow> string \<Rightarrow> store_db \<Rightarrow> store_error + string \<times> string \<times> (string \<times> string) list" where
  "get_published_target post account db =
     (case find_target post account db of
        None \<Rightarrow> Inl No_Rows | Some t \<Rightarrow> Inr (tg_url t, tg_remote t, tg_metadata t))"

definition get_provider_instance_by_id :: "string \<Rightarrow> store_db \<Rightarrow> store_error + instance_row" where
  "get_provider_instance_by_id i db =
     (case find (\<lambda>r. pi_id r = i) (sd_instances db) of None \<Rightarrow> Inl No_Rows | Some r \<Rightarrow> Inr r)"

definition get_media_item_by_id :: "string \<Rightarrow> string \<Rightarrow> store_db \<Rightarrow> store_error + media_row" where
  "get_media_item_by_id team media db =
     (case find (\<lambda>m. md_id m = media \<and> md_team m = team) (sd_media db) of None \<Rightarrow> Inl No_Rows | Some m \<Rightarrow> Inr m)"

definition get_media_provider_mapping :: "string \<Rightarrow> string \<Rightarrow> store_db \<Rightarrow> store_error + mapping_row" where
  "get_media_provider_mapping media account db =
     (case find (\<lambda>m. mm_media m = media \<and> mm_account m = account) (sd_mappings db) of
        None \<Rightarrow> Inl No_Rows | Some m \<Rightarrow> Inr m)"

section \<open>Deletes and their cascades\<close>

definition delete_post_rows :: "(post_row \<Rightarrow> bool) \<Rightarrow> store_db \<Rightarrow> store_db" where
  "delete_post_rows p db =
     (let gone = rw_id ` {r \<in> set (sd_posts db). p r} in
      db\<lparr>sd_posts := delete_where p (sd_posts db),
         sd_targets := delete_where (\<lambda>t. tg_post t \<in> gone) (sd_targets db),
         sd_versions := delete_where (\<lambda>v. pv_post_id v \<in> gone) (sd_versions db),
         sd_hashtags := delete_where (\<lambda>h. ht_post h \<in> gone) (sd_hashtags db),
         sd_metrics := delete_where (\<lambda>m. mt_post m \<in> gone) (sd_metrics db),
         sd_metric_history := delete_where (\<lambda>m. mt_post m \<in> gone) (sd_metric_history db),
         sd_items := update_where (\<lambda>i. case it_post i of None \<Rightarrow> False | Some q \<Rightarrow> q \<in> gone)
                       (\<lambda>i. i\<lparr>it_post := None\<rparr>) (sd_items db)\<rparr>)"

definition delete_account_rows :: "string \<Rightarrow> store_db \<Rightarrow> store_db" where
  "delete_account_rows a db =
     db\<lparr>sd_accounts := delete_where (\<lambda>r. sa_id r = a) (sd_accounts db),
        sd_targets := delete_where (\<lambda>t. tg_account t = a) (sd_targets db),
        sd_versions := delete_where (\<lambda>v. pv_account_id v = a) (sd_versions db),
        sd_hashtags := delete_where (\<lambda>h. ht_account h = a) (sd_hashtags db),
        sd_metrics := delete_where (\<lambda>m. mt_account m = a) (sd_metrics db),
        sd_metric_history := delete_where (\<lambda>m. mt_account m = a) (sd_metric_history db),
        sd_mappings := delete_where (\<lambda>m. mm_account m = a) (sd_mappings db)\<rparr>"

section \<open>The invariant\<close>

text \<open>Primary keys are distinct, the references of targets and versions point at rows, and every account
  has a team. (The identity tables keep their own invariant.) It only speaks of the keys, so an update
  of other columns keeps it by rewriting.\<close>

definition post_ids :: "store_db \<Rightarrow> string list" where
  "post_ids db = map rw_id (sd_posts db)"

definition account_ids :: "store_db \<Rightarrow> string list" where
  "account_ids db = map sa_id (sd_accounts db)"

definition target_keys :: "store_db \<Rightarrow> (string \<times> string) list" where
  "target_keys db = map (\<lambda>t. (tg_post t, tg_account t)) (sd_targets db)"

definition version_keys :: "store_db \<Rightarrow> (string \<times> string) list" where
  "version_keys db = map (\<lambda>v. (pv_post_id v, pv_account_id v)) (sd_versions db)"

definition links_ok :: "store_db \<Rightarrow> (string \<times> string) list \<Rightarrow> bool" where
  "links_ok db ks \<longleftrightarrow> distinct ks \<and> set ks \<subseteq> set (post_ids db) \<times> set (account_ids db)"

definition teams_named :: "store_db \<Rightarrow> bool" where
  "teams_named db \<longleftrightarrow> [] \<notin> tm_id ` set (id_teams (sd_identity db))"

definition accounts_ok :: "store_db \<Rightarrow> bool" where
  "accounts_ok db \<longleftrightarrow> distinct (account_ids db) \<and> [] \<notin> sa_team_id ` set (sd_accounts db)"

definition logs_ok :: "store_db \<Rightarrow> bool" where
  "logs_ok db \<longleftrightarrow> distinct (map ae_id (sd_pending db)) \<and> distinct (map ae_id (sd_audit db)) \<and>
     distinct (map lk_id (sd_locks db))"

definition store_ok :: "store_db \<Rightarrow> bool" where
  "store_ok db \<longleftrightarrow> teams_named db \<and> accounts_ok db \<and> distinct (post_ids db) \<and>
     links_ok db (target_keys db) \<and> links_ok db (version_keys db) \<and> logs_ok db"

lemmas store_ok_defs = store_ok_def teams_named_def accounts_ok_def links_ok_def logs_ok_def
  post_ids_def account_ids_def target_keys_def version_keys_def

text \<open>An operation that leaves the keys alone.\<close>

definition same_keys :: "store_db \<Rightarrow> store_db \<Rightarrow> bool" where
  "same_keys db db' \<longleftrightarrow> sd_identity db' = sd_identity db \<and> account_ids db' = account_ids db \<and>
     map sa_team_id (sd_accounts db') = map sa_team_id (sd_accounts db) \<and> post_ids db' = post_ids db \<and>
     target_keys db' = target_keys db \<and> version_keys db' = version_keys db \<and>
     map ae_id (sd_pending db') = map ae_id (sd_pending db) \<and> map ae_id (sd_audit db') = map ae_id (sd_audit db) \<and>
     map lk_id (sd_locks db') = map lk_id (sd_locks db)"

lemma same_keys_ok: "same_keys db db' \<Longrightarrow> store_ok db \<Longrightarrow> store_ok db'"
  unfolding same_keys_def store_ok_def teams_named_def accounts_ok_def links_ok_def logs_ok_def
  by (metis list.set_map)

lemma same_keys_refl [simp]: "same_keys db db"
  by (simp add: same_keys_def)

lemmas keys_update = same_keys_def account_ids_def post_ids_def target_keys_def version_keys_def update_where_def

lemma links_delete:
  assumes "links_ok db (map key rows)"
    "\<And>p a. p \<in> set (post_ids db) \<Longrightarrow> a \<in> set (account_ids db) \<Longrightarrow> p \<in> set (post_ids db') \<and> a \<in> set (account_ids db') \<or> gone (p, a)"
    "\<And>r. gone (key r) \<Longrightarrow> q r"
  shows "links_ok db' (map key (delete_where q rows))"
  unfolding links_ok_def
proof
  show "distinct (map key (delete_where q rows))"
    using assms(1) by (intro distinct_delete_where) (simp add: links_ok_def)
  show "set (map key (delete_where q rows)) \<subseteq> set (post_ids db') \<times> set (account_ids db')"
  proof
    fix k assume "k \<in> set (map key (delete_where q rows))"
    then obtain r where r: "r \<in> set rows" "\<not> q r" "k = key r" by auto
    obtain p a where k: "k = (p, a)" by (cases k)
    with r assms(1) have "p \<in> set (post_ids db)" "a \<in> set (account_ids db)" by (auto simp: links_ok_def)
    moreover have "key r = (p, a)" using r(3) k by simp
    ultimately show "k \<in> set (post_ids db') \<times> set (account_ids db')"
      using assms(2) [of p a] assms(3) [of r] r k by auto
  qed
qed

lemma delete_post_rows_ok:
  assumes "store_ok db"
  shows "store_ok (delete_post_rows p db)"
proof -
  let ?db' = "delete_post_rows p db"
  let ?gone = "\<lambda>k. fst k \<in> rw_id ` {r \<in> set (sd_posts db). p r}"
  have ids: "i \<in> set (post_ids ?db') \<or> i \<in> rw_id ` {r \<in> set (sd_posts db). p r}" if "i \<in> set (post_ids db)" for i
    using that by (auto simp: post_ids_def delete_post_rows_def Let_def)
  have acc: "account_ids ?db' = account_ids db" "sd_accounts ?db' = sd_accounts db"
    by (simp_all add: account_ids_def delete_post_rows_def Let_def)
  have keys: "target_keys ?db' = map (\<lambda>t. (tg_post t, tg_account t)) (delete_where (\<lambda>t. tg_post t \<in> rw_id ` {r \<in> set (sd_posts db). p r}) (sd_targets db))"
    "version_keys ?db' = map (\<lambda>v. (pv_post_id v, pv_account_id v)) (delete_where (\<lambda>v. pv_post_id v \<in> rw_id ` {r \<in> set (sd_posts db). p r}) (sd_versions db))"
    by (simp_all add: target_keys_def version_keys_def delete_post_rows_def Let_def)
  have old: "links_ok db (map (\<lambda>t. (tg_post t, tg_account t)) (sd_targets db))"
    "links_ok db (map (\<lambda>v. (pv_post_id v, pv_account_id v)) (sd_versions db))"
    using assms by (simp_all add: store_ok_def target_keys_def version_keys_def)
  have l: "links_ok ?db' (target_keys ?db')" "links_ok ?db' (version_keys ?db')"
    unfolding keys
    by (rule links_delete [OF old(1), where gone = ?gone], use ids acc in force, simp,
        rule links_delete [OF old(2), where gone = ?gone], use ids acc in force, simp)
  show ?thesis using assms l acc
    by (simp add: store_ok_def teams_named_def accounts_ok_def logs_ok_def post_ids_def delete_post_rows_def Let_def
        distinct_delete_where)
qed

lemma delete_account_rows_ok:
  assumes "store_ok db"
  shows "store_ok (delete_account_rows a db)"
proof -
  let ?db' = "delete_account_rows a db"
  have ids: "b \<in> set (account_ids ?db') \<or> b = a" if "b \<in> set (account_ids db)" for b
    using that by (auto simp: account_ids_def delete_account_rows_def)
  have p: "post_ids ?db' = post_ids db" by (simp add: post_ids_def delete_account_rows_def)
  have keys: "target_keys ?db' = map (\<lambda>t. (tg_post t, tg_account t)) (delete_where (\<lambda>t. tg_account t = a) (sd_targets db))"
    "version_keys ?db' = map (\<lambda>v. (pv_post_id v, pv_account_id v)) (delete_where (\<lambda>v. pv_account_id v = a) (sd_versions db))"
    by (simp_all add: target_keys_def version_keys_def delete_account_rows_def)
  have old: "links_ok db (map (\<lambda>t. (tg_post t, tg_account t)) (sd_targets db))"
    "links_ok db (map (\<lambda>v. (pv_post_id v, pv_account_id v)) (sd_versions db))"
    using assms by (simp_all add: store_ok_def target_keys_def version_keys_def)
  have l: "links_ok ?db' (target_keys ?db')" "links_ok ?db' (version_keys ?db')"
    unfolding keys
    by (rule links_delete [OF old(1), where gone = "\<lambda>k. snd k = a"], use ids p in force, simp,
        rule links_delete [OF old(2), where gone = "\<lambda>k. snd k = a"], use ids p in force, simp)
  show ?thesis using assms l p
    by (auto simp: store_ok_def teams_named_def accounts_ok_def logs_ok_def account_ids_def delete_account_rows_def
        distinct_delete_where)
qed

end
