(* ===== verification/Rss_Store.thy ===== *)
theory Rss_Store
  imports Post_Tables
begin

text \<open>
  \<open>internal/store/sqlite/rss_import.go\<close>: the deduplication markers of RSS items, their attempts, the
  daily budget of a feed, and the link from an item to the post made of it. \<open>datetime\<close> and \<open>date\<close> of
  SQLite are the truncations to seconds and days.
\<close>

section \<open>Operations\<close>

definition max_rss_item_attempts :: int where "max_rss_item_attempts = 3"

definition err_daily_limit :: store_error where "err_daily_limit = Refused ''rss daily limit''"

definition find_feed :: "string \<Rightarrow> store_db \<Rightarrow> feed_row option" where
  "find_feed i db = find (\<lambda>f. fd_id f = i) (sd_feeds db)"

definition feed_owned :: "string \<Rightarrow> string \<Rightarrow> store_db \<Rightarrow> bool" where
  "feed_owned team feed db \<longleftrightarrow> list_ex (\<lambda>f. fd_id f = feed \<and> fd_team f = team) (sd_feeds db)"

definition list_active_rss_feed_configs :: "int \<Rightarrow> store_db \<Rightarrow> feed_row list" where
  "list_active_rss_feed_configs limit db =
     take (nat (if limit \<le> 0 then 200 else limit)) (sort_key fd_created (filter fd_active (sd_feeds db)))"

text \<open>A job that still works on the item.\<close>

definition active_job_for :: "item_row \<Rightarrow> store_db \<Rightarrow> bool" where
  "active_job_for i db \<longleftrightarrow>
     list_ex (\<lambda>f. fd_id f = it_feed i \<and>
       list_ex (\<lambda>j. jb_team j = fd_team f \<and> jb_origin j = ''automation'' \<and>
           (jb_status j = Job_Pending \<or> jb_status j = Job_Processing) \<and>
           jb_rss_feed j = Some (it_feed i) \<and> jb_rss_key j = Some (it_key i)) (sd_jobs db)) (sd_feeds db)"

definition rss_item_retry_eligible :: "instant \<Rightarrow> store_db \<Rightarrow> item_row \<Rightarrow> bool" where
  "rss_item_retry_eligible now db i \<longleftrightarrow>
     it_consumed i = None \<and>
     (it_retry i \<or>
      (it_attempts i > 0 \<and> it_created i div nanos \<le> now div nanos - 15 * 60 \<and> \<not> active_job_for i db))"

definition count_rss_feed_budget :: "instant \<Rightarrow> string \<Rightarrow> int \<Rightarrow> store_db \<Rightarrow> nat" where
  "count_rss_feed_budget now feed day db =
     count_where (\<lambda>i. it_feed i = feed \<and> it_budget_day i = Some day \<and> \<not> rss_item_retry_eligible now db i)
       (sd_items db) +
     count_where (\<lambda>p. sp_rss_feed_id (rw_post p) = Some feed \<and> utc_day (rw_created p) = day \<and>
         \<not> list_ex (\<lambda>i. it_feed i = feed \<and> it_post i = Some (rw_id p)) (sd_items db)) (sd_posts db)"

definition count_rss_feed_posts_today :: "instant \<Rightarrow> string \<Rightarrow> store_db \<Rightarrow> nat" where
  "count_rss_feed_posts_today now feed db = count_rss_feed_budget now feed (utc_day now) db"

definition rss_item_already_imported :: "instant \<Rightarrow> string \<Rightarrow> string \<Rightarrow> store_db \<Rightarrow> bool" where
  "rss_item_already_imported now feed key db \<longleftrightarrow>
     list_ex (\<lambda>i. it_feed i = feed \<and> it_key i = key \<and>
       (it_post i \<noteq> None \<or> \<not> rss_item_retry_eligible now db i \<or> it_attempts i \<ge> max_rss_item_attempts)) (sd_items db)"

definition item_at :: "string \<Rightarrow> string \<Rightarrow> item_row \<Rightarrow> bool" where
  "item_at feed key i \<longleftrightarrow> it_feed i = feed \<and> it_key i = key"

definition record_rss_imported_item ::
  "instant \<Rightarrow> string \<Rightarrow> string \<Rightarrow> string \<Rightarrow> store_db \<Rightarrow> (store_error + unit) \<times> store_db" where
  "record_rss_imported_item now feed key post db =
     (let post_arg = (if trim_space post \<noteq> [] then Some post else None);
          consumed = (if trim_space post \<noteq> [] then Some now else None);
          day = (if post_arg \<noteq> None then Some (utc_day now) else None);
          post_known = (case post_arg of None \<Rightarrow> True | Some q \<Rightarrow> q \<in> rw_id ` set (sd_posts db))
      in if list_ex (item_at feed key) (sd_items db)
         then (let upd = (\<lambda>i. item_at feed key i \<and> it_post i = None \<and> it_consumed i = None \<and> post_arg \<noteq> None)
               in if list_ex upd (sd_items db) \<and> \<not> post_known then (Inl Constraint, db)
                  else (Inr (), db\<lparr>sd_items := update_where upd
                    (\<lambda>i. i\<lparr>it_post := post_arg, it_consumed := consumed, it_retry := False,
                           it_budget_day := (case it_budget_day i of None \<Rightarrow> day | Some d \<Rightarrow> Some d)\<rparr>) (sd_items db)\<rparr>))
         else if find_feed feed db = None \<or> \<not> post_known then (Inl Constraint, db)
         else (Inr (), db\<lparr>sd_items := sd_items db @
           [\<lparr>it_feed = feed, it_key = key, it_post = post_arg, it_attempts = 0, it_retry = False,
             it_consumed = consumed, it_budget_day = day, it_created = now\<rparr>]\<rparr>))"

definition update_rss_imported_item_post_id ::
  "instant \<Rightarrow> string \<Rightarrow> string \<Rightarrow> string \<Rightarrow> string \<Rightarrow> store_db \<Rightarrow> (store_error + unit) \<times> store_db" where
  "update_rss_imported_item_post_id now team feed key post db =
     (let upd = (\<lambda>i. item_at feed key i \<and> (it_consumed i = None \<or> it_post i = Some post) \<and>
            feed_owned team feed db \<and> list_ex (\<lambda>p. rw_id p = post \<and> rw_team p = team) (sd_posts db))
      in if count_where upd (sd_items db) = 0 then (Inl No_Rows, db)
         else (Inr (), db\<lparr>sd_items := update_where upd
           (\<lambda>i. i\<lparr>it_post := Some post,
                  it_consumed := (case it_consumed i of None \<Rightarrow> Some now | Some c \<Rightarrow> Some c),
                  it_retry := False,
                  it_budget_day := (case it_budget_day i of None \<Rightarrow> Some (utc_day now) | Some d \<Rightarrow> Some d)\<rparr>)
           (sd_items db)\<rparr>))"

definition bump_counter :: "string \<Rightarrow> string \<Rightarrow> store_db \<Rightarrow> store_db" where
  "bump_counter team feed db =
     db\<lparr>sd_feeds := update_where (\<lambda>f. fd_id f = feed \<and> fd_team f = team)
          (\<lambda>f. f\<lparr>fd_counter := fd_counter f + 1\<rparr>) (sd_feeds db)\<rparr>"

definition increment_rss_feed_counter ::
  "string \<Rightarrow> string \<Rightarrow> store_db \<Rightarrow> (store_error + unit) \<times> store_db" where
  "increment_rss_feed_counter team feed db =
     (if \<not> feed_owned team feed db then (Inl No_Rows, db) else (Inr (), bump_counter team feed db))"

definition update_rss_feed_last_fetched ::
  "string \<Rightarrow> instant \<Rightarrow> store_db \<Rightarrow> (store_error + unit) \<times> store_db" where
  "update_rss_feed_last_fetched feed at db =
     (if find_feed feed db = None then (Inl No_Rows, db)
      else (Inr (), db\<lparr>sd_feeds := update_where (\<lambda>f. fd_id f = feed) (\<lambda>f. f\<lparr>fd_last_fetched := Some at\<rparr>) (sd_feeds db)\<rparr>))"

text \<open>The single write statement of \<open>ClaimRSSItemAttempt\<close>: the rows it affects and the state after.\<close>

definition claim_statement :: "instant \<Rightarrow> string \<Rightarrow> string \<Rightarrow> string \<Rightarrow> store_db \<Rightarrow> bool \<times> store_db" where
  "claim_statement now team feed key db =
     (if \<not> list_ex (\<lambda>f. fd_id f = feed \<and> fd_team f = team \<and>
            fd_max_per_day f > int (count_rss_feed_budget now feed (utc_day now) db)) (sd_feeds db)
      then (False, db)
      else if list_ex (item_at feed key) (sd_items db)
      then (let upd = (\<lambda>i. item_at feed key i \<and> it_post i = None \<and> rss_item_retry_eligible now db i \<and>
                           it_attempts i < max_rss_item_attempts)
            in (list_ex upd (sd_items db),
                db\<lparr>sd_items := update_where upd
                  (\<lambda>i. i\<lparr>it_attempts := it_attempts i + 1, it_retry := False, it_created := now,
                         it_budget_day := Some (utc_day now)\<rparr>) (sd_items db)\<rparr>))
      else (True, db\<lparr>sd_items := sd_items db @
           [\<lparr>it_feed = feed, it_key = key, it_post = None, it_attempts = 1, it_retry = False,
             it_consumed = None, it_budget_day = Some (utc_day now), it_created = now\<rparr>]\<rparr>))"

definition claim_rss_item_attempt ::
  "instant \<Rightarrow> string \<Rightarrow> string \<Rightarrow> string \<Rightarrow> store_db \<Rightarrow> (store_error + bool) \<times> store_db" where
  "claim_rss_item_attempt now team feed key db =
     (case claim_statement now team feed key db of
        (True, db') \<Rightarrow> (Inr True, db')
      | (False, db') \<Rightarrow>
          if \<not> feed_owned team feed db' then (Inr False, db')
          else if rss_item_already_imported now feed key db' then (Inr False, db')
          else (Inl err_daily_limit, db'))"

definition release_rss_item_attempt ::
  "string \<Rightarrow> string \<Rightarrow> string \<Rightarrow> store_db \<Rightarrow> (store_error + int) \<times> store_db" where
  "release_rss_item_attempt team feed key db =
     (let upd = (\<lambda>i. item_at feed key i \<and> it_post i = None \<and> it_consumed i = None \<and> feed_owned team feed db)
      in (case find upd (sd_items db) of
            None \<Rightarrow> (Inl No_Rows, db)
          | Some i \<Rightarrow>
              (Inr (if it_attempts i = 0 then 1 else it_attempts i),
               db\<lparr>sd_items := update_where upd
                 (\<lambda>i. i\<lparr>it_retry := True, it_attempts := (if it_attempts i = 0 then 1 else it_attempts i)\<rparr>)
                 (sd_items db)\<rparr>)))"

definition link_rss_item_for_post ::
  "instant \<Rightarrow> string \<Rightarrow> string \<Rightarrow> string \<Rightarrow> string \<Rightarrow> store_db \<Rightarrow> (store_error + unit) \<times> store_db" where
  "link_rss_item_for_post now team feed key post db =
     (let upd = (\<lambda>i. item_at feed key i \<and> it_post i = None \<and> it_consumed i = None) in
      if \<not> feed_owned team feed db then (Inl No_Rows, db)
      else if list_ex (item_at feed key) (sd_items db)
      then (if \<not> list_ex upd (sd_items db) then (Inl No_Rows, db)
            else (Inr (), bump_counter team feed (db\<lparr>sd_items := update_where upd
              (\<lambda>i. i\<lparr>it_post := Some post, it_consumed := Some now, it_retry := False,
                     it_budget_day := (case it_budget_day i of None \<Rightarrow> Some (utc_day now) | Some d \<Rightarrow> Some d)\<rparr>)
              (sd_items db)\<rparr>)))
      else (Inr (), bump_counter team feed (db\<lparr>sd_items := sd_items db @
           [\<lparr>it_feed = feed, it_key = key, it_post = Some post, it_attempts = 0, it_retry = False,
             it_consumed = Some now, it_budget_day = Some (utc_day now), it_created = now\<rparr>]\<rparr>)))"

section \<open>Steps\<close>

text \<open>What the importer and the AI completion do to items, and the deletion of posts.\<close>

inductive rss_step :: "store_db \<Rightarrow> store_db \<Rightarrow> bool" where
  rss_record: "rss_step db (snd (record_rss_imported_item now feed key post db))"
| rss_update: "rss_step db (snd (update_rss_imported_item_post_id now team feed key post db))"
| rss_claim: "rss_step db (snd (claim_rss_item_attempt now team feed key db))"
| rss_release: "rss_step db (snd (release_rss_item_attempt team feed key db))"
| rss_link: "rss_step db (snd (link_rss_item_for_post now team feed key post db))"
| rss_delete_posts: "rss_step db (delete_post_rows p db)"
| rss_fetched: "rss_step db (snd (update_rss_feed_last_fetched feed at db))"
| rss_counter: "rss_step db (snd (increment_rss_feed_counter team feed db))"

section \<open>Lemmas\<close>

text \<open>How a marker may change in one step: its key is fixed, its attempts stay bounded, and once it is
  consumed it stays so and keeps its post or loses it with the post's deletion.\<close>

definition item_evolves :: "item_row \<Rightarrow> item_row \<Rightarrow> bool" where
  "item_evolves i j \<longleftrightarrow> it_feed j = it_feed i \<and> it_key j = it_key i \<and>
     (it_attempts i \<le> max_rss_item_attempts \<longrightarrow> it_attempts j \<le> max_rss_item_attempts) \<and>
     (it_consumed i \<noteq> None \<longrightarrow> it_consumed j = it_consumed i \<and> (it_post j = it_post i \<or> it_post j = None)) \<and>
     (it_post j \<noteq> None \<longrightarrow> it_post i \<noteq> None \<or> it_consumed j \<noteq> None)"

definition items_change :: "item_row list \<Rightarrow> item_row list \<Rightarrow> bool" where
  "items_change xs ys \<longleftrightarrow>
     (\<exists>f. ys = map f xs \<and> (\<forall>i. item_evolves i (f i))) \<or>
     (\<exists>i. ys = xs @ [i] \<and> \<not> list_ex (item_at (it_feed i) (it_key i)) xs \<and>
        it_attempts i \<le> max_rss_item_attempts \<and> (it_post i \<noteq> None \<longrightarrow> it_consumed i \<noteq> None))"

lemma item_evolves_refl: "item_evolves i i"
  by (simp add: item_evolves_def)

lemma items_change_refl: "items_change xs xs"
  unfolding items_change_def by (intro disjI1 exI [of _ id]) (simp add: item_evolves_refl)

lemma items_change_update:
  "(\<And>i. upd i \<Longrightarrow> item_evolves i (g i)) \<Longrightarrow> items_change xs (update_where upd g xs)"
  unfolding items_change_def update_where_def
  by (intro disjI1 exI [of _ "\<lambda>r. if upd r then g r else r"]) (simp add: item_evolves_refl)

lemma items_change_insert:
  "\<not> list_ex (item_at (it_feed i) (it_key i)) xs \<Longrightarrow> it_attempts i \<le> max_rss_item_attempts \<Longrightarrow>
     (it_post i \<noteq> None \<Longrightarrow> it_consumed i \<noteq> None) \<Longrightarrow> items_change xs (xs @ [i])"
  unfolding items_change_def by blast

lemmas items_change_intros = items_change_refl items_change_update items_change_insert

lemma bump_counter_items [simp]: "sd_items (bump_counter team feed db) = sd_items db"
  by (simp add: bump_counter_def)

lemma record_change: "items_change (sd_items db) (sd_items (snd (record_rss_imported_item now feed key post db)))"
  unfolding record_rss_imported_item_def Let_def
  by (simp split: if_split option.split add: item_evolves_def max_rss_item_attempts_def)
    (intro conjI impI items_change_intros; simp add: item_evolves_def max_rss_item_attempts_def)+

lemma update_change: "items_change (sd_items db) (sd_items (snd (update_rss_imported_item_post_id now team feed key post db)))"
  unfolding update_rss_imported_item_post_id_def Let_def
  by (simp split: if_split)
    (auto intro!: items_change_intros simp: item_evolves_def split: option.splits)

lemma claim_change: "items_change (sd_items db) (sd_items (snd (claim_statement now team feed key db)))"
  unfolding claim_statement_def Let_def
  by (simp split: if_split)
    (auto intro!: items_change_intros simp: item_evolves_def rss_item_retry_eligible_def max_rss_item_attempts_def)

lemma release_change: "items_change (sd_items db) (sd_items (snd (release_rss_item_attempt team feed key db)))"
  unfolding release_rss_item_attempt_def Let_def
  by (simp split: option.split)
    (auto intro!: items_change_intros simp: item_evolves_def max_rss_item_attempts_def)

lemma link_change: "items_change (sd_items db) (sd_items (snd (link_rss_item_for_post now team feed key post db)))"
  unfolding link_rss_item_for_post_def Let_def
  by (simp split: if_split)
    (auto intro!: items_change_intros simp: item_evolves_def max_rss_item_attempts_def)

lemma delete_change: "items_change (sd_items db) (sd_items (delete_post_rows p db))"
  by (auto simp: delete_post_rows_def Let_def item_evolves_def intro!: items_change_intros)

lemma claim_statement_state: "snd (claim_rss_item_attempt now team feed key db) = snd (claim_statement now team feed key db)"
  by (auto simp: claim_rss_item_attempt_def split: prod.split bool.split)

lemma rss_step_change: "rss_step db db' \<Longrightarrow> items_change (sd_items db) (sd_items db')"
  by (induction rule: rss_step.induct)
    (auto simp: record_change update_change claim_change release_change link_change delete_change
      claim_statement_state update_rss_feed_last_fetched_def increment_rss_feed_counter_def
      intro: items_change_refl)

text \<open>The keys stay distinct, and a consumed marker stays.\<close>

definition item_key :: "item_row \<Rightarrow> string \<times> string" where
  "item_key i = (it_feed i, it_key i)"

definition items_ok :: "item_row list \<Rightarrow> bool" where
  "items_ok xs \<longleftrightarrow> distinct (map item_key xs) \<and> list_all (\<lambda>i. it_attempts i \<le> max_rss_item_attempts) xs"

lemma item_evolves_key: "item_evolves i j \<Longrightarrow> item_key j = item_key i"
  by (simp add: item_evolves_def item_key_def)

lemma items_change_ok: "items_change xs ys \<Longrightarrow> items_ok xs \<Longrightarrow> items_ok ys"
  unfolding items_change_def
proof (elim disjE exE conjE)
  fix f assume ys: "ys = map f xs" and f: "\<forall>i. item_evolves i (f i)" and ok: "items_ok xs"
  have "map item_key ys = map item_key xs" using f by (simp add: ys item_evolves_key)
  moreover have "list_all (\<lambda>i. it_attempts i \<le> max_rss_item_attempts) ys"
    using f ok by (simp add: ys items_ok_def list_all_iff item_evolves_def)
  ultimately show "items_ok ys" using ok unfolding items_ok_def by simp
next
  fix i assume "ys = xs @ [i]" "\<not> list_ex (item_at (it_feed i) (it_key i)) xs"
    "it_attempts i \<le> max_rss_item_attempts" "items_ok xs"
  then show "items_ok ys" by (auto simp: items_ok_def item_key_def item_at_def list_ex_iff)
qed

lemma rss_steps_ok: "rss_step\<^sup>*\<^sup>* db db' \<Longrightarrow> items_ok (sd_items db) \<Longrightarrow> items_ok (sd_items db')"
  by (induction rule: rtranclp_induct) (auto dest: rss_step_change intro: items_change_ok)

lemma items_change_keeps:
  "items_change xs ys \<Longrightarrow> i \<in> set xs \<Longrightarrow> it_consumed i \<noteq> None \<Longrightarrow>
     \<exists>j \<in> set ys. item_key j = item_key i \<and> it_consumed j = it_consumed i \<and> (it_post j = it_post i \<or> it_post j = None)"
  unfolding items_change_def
proof (elim disjE exE conjE)
  fix f assume "ys = map f xs" "\<forall>i. item_evolves i (f i)" "i \<in> set xs" "it_consumed i \<noteq> None"
  then show ?thesis by (intro bexI [of _ "f i"]) (auto simp: item_evolves_def item_key_def)
qed auto

lemma rss_steps_keep:
  "rss_step\<^sup>*\<^sup>* db db' \<Longrightarrow> i \<in> set (sd_items db) \<Longrightarrow> it_consumed i \<noteq> None \<Longrightarrow>
     \<exists>j \<in> set (sd_items db'). item_key j = item_key i \<and> it_consumed j = it_consumed i \<and>
       (it_post j = it_post i \<or> it_post j = None)"
proof (induction rule: rtranclp_induct)
  case base
  then show ?case by blast
next
  case (step db1 db2)
  from step.IH [OF step.prems] obtain j where j: "j \<in> set (sd_items db1)" "item_key j = item_key i"
    "it_consumed j = it_consumed i" "it_post j = it_post i \<or> it_post j = None" by blast
  from items_change_keeps [OF rss_step_change [OF step.hyps(2)] j(1)] j step.prems(2) show ?case by auto
qed

lemma item_at_unique:
  assumes "items_ok xs" "i \<in> set xs" "j \<in> set xs" "item_at (it_feed i) (it_key i) j"
  shows "j = i"
  by (rule distinct_key_unique [of item_key xs]) (use assms in \<open>auto simp: items_ok_def item_at_def item_key_def\<close>)

lemma consumed_blocks:
  assumes ok: "items_ok (sd_items db)" and j: "j \<in> set (sd_items db)" "it_consumed j \<noteq> None"
  shows "rss_item_already_imported now (it_feed j) (it_key j) db \<and>
    fst (claim_rss_item_attempt now team (it_feed j) (it_key j) db) \<noteq> Inr True \<and>
    fst (link_rss_item_for_post now team (it_feed j) (it_key j) post db) = Inl No_Rows"
proof -
  have here: "list_ex (item_at (it_feed j) (it_key j)) (sd_items db)"
    using j by (auto simp: list_ex_iff item_at_def)
  have only: "x = j" if "x \<in> set (sd_items db)" "item_at (it_feed j) (it_key j) x" for x
    using item_at_unique [OF ok j(1) that] .
  have imp: "rss_item_already_imported now (it_feed j) (it_key j) db"
    using j by (auto simp: rss_item_already_imported_def list_ex_iff rss_item_retry_eligible_def)
  have "\<not> list_ex (\<lambda>i. item_at (it_feed j) (it_key j) i \<and> it_post i = None \<and> rss_item_retry_eligible now db i \<and>
      it_attempts i < max_rss_item_attempts) (sd_items db)"
    using only j(2) by (auto simp: list_ex_iff rss_item_retry_eligible_def)
  with here have "\<not> fst (claim_statement now team (it_feed j) (it_key j) db)"
    by (simp add: claim_statement_def Let_def)
  then have "fst (claim_rss_item_attempt now team (it_feed j) (it_key j) db) \<noteq> Inr True"
    by (auto simp: claim_rss_item_attempt_def split: prod.split bool.split)
  moreover have "\<not> list_ex (\<lambda>i. item_at (it_feed j) (it_key j) i \<and> it_post i = None \<and> it_consumed i = None) (sd_items db)"
    using only j(2) by (auto simp: list_ex_iff)
  with here have "fst (link_rss_item_for_post now team (it_feed j) (it_key j) post db) = Inl No_Rows"
    by (simp add: link_rss_item_for_post_def Let_def)
  ultimately show ?thesis using imp by blast
qed

text \<open>Exactly one row starts to count.\<close>

lemma count_where_one_more:
  assumes "distinct (map key xs)" "x \<in> set xs" "\<not> p x" "q (f x)"
    "\<And>y. y \<in> set xs \<Longrightarrow> key y \<noteq> key x \<Longrightarrow> q (f y) = p y"
  shows "count_where q (map f xs) = count_where p xs + 1"
  using assms
proof (induction xs)
  case (Cons y ys)
  show ?case
  proof (cases "y = x")
    case True
    have "q (f z) = p z" if "z \<in> set ys" for z
      using Cons.prems(1,5) that True by (metis image_eqI list.set_map distinct.simps(2) list.simps(9) list.set_intros(2))
    then have "filter p ys = filter (\<lambda>z. q (f z)) ys" by (intro filter_cong) simp_all
    then have "count_where q (map f ys) = count_where p ys"
      by (simp add: count_where_def filter_map comp_def)
    with True Cons.prems(3,4) show ?thesis by (simp add: count_where_def)
  next
    case False
    with Cons.prems(1,2) have "key y \<noteq> key x" by (auto intro: rev_image_eqI)
    with Cons.prems(5) have "q (f y) = p y" by simp
    moreover have "count_where q (map f ys) = count_where p ys + 1"
      using Cons.prems False by (intro Cons.IH) auto
    ultimately show ?thesis by (simp add: count_where_def)
  qed
qed simp

lemma eligible_cong:
  "sd_jobs db' = sd_jobs db \<Longrightarrow> sd_feeds db' = sd_feeds db \<Longrightarrow>
     rss_item_retry_eligible now db' i = rss_item_retry_eligible now db i"
  by (simp add: rss_item_retry_eligible_def active_job_for_def)

definition counted :: "instant \<Rightarrow> string \<Rightarrow> int \<Rightarrow> store_db \<Rightarrow> item_row \<Rightarrow> bool" where
  "counted now feed day db i \<longleftrightarrow> it_feed i = feed \<and> it_budget_day i = Some day \<and> \<not> rss_item_retry_eligible now db i"

lemma claim_counts_one:
  assumes "items_ok (sd_items db)" "claim_statement now team feed key db = (True, db')"
  shows "count_rss_feed_posts_today now feed db' = count_rss_feed_posts_today now feed db + 1"
proof -
  let ?c = "counted now feed (utc_day now) db"
  let ?link = "\<lambda>xs p. list_ex (\<lambda>i. it_feed i = feed \<and> it_post i = Some (rw_id p)) xs"
  have fresh: "\<not> rss_item_retry_eligible now db i" if "\<not> it_retry i" "it_created i = now" for i
    using that by (simp add: rss_item_retry_eligible_def)
  have "count_where ?c (sd_items db') = count_where ?c (sd_items db) + 1 \<and> (\<forall>p. ?link (sd_items db') p = ?link (sd_items db) p)
    \<and> sd_posts db' = sd_posts db \<and> sd_jobs db' = sd_jobs db \<and> sd_feeds db' = sd_feeds db"
  proof (cases "list_ex (item_at feed key) (sd_items db)")
    case True
    define upd where "upd i \<longleftrightarrow> item_at feed key i \<and> it_post i = None \<and> rss_item_retry_eligible now db i \<and>
      it_attempts i < max_rss_item_attempts" for i
    define g where "g i = (if upd i then i\<lparr>it_attempts := it_attempts i + 1, it_retry := False, it_created := now,
      it_budget_day := Some (utc_day now)\<rparr> else i)" for i
    from assms(2) True have ex: "list_ex upd (sd_items db)" and db': "db' = db\<lparr>sd_items := map g (sd_items db)\<rparr>"
      by (auto simp: claim_statement_def Let_def upd_def [abs_def] g_def [abs_def] update_where_def split: if_splits)
    from ex obtain x where x: "x \<in> set (sd_items db)" "upd x" by (auto simp: list_ex_iff)
    have "count_where ?c (map g (sd_items db)) = count_where ?c (sd_items db) + 1"
    proof (rule count_where_one_more [of item_key _ x])
      show "distinct (map item_key (sd_items db))" using assms(1) by (simp add: items_ok_def)
      show "\<not> ?c x" using x(2) by (simp add: counted_def upd_def)
      show "?c (g x)" using x(2) fresh [of "g x"] by (simp add: counted_def g_def) (simp add: upd_def item_at_def)
      fix y assume "item_key y \<noteq> item_key x"
      then have "\<not> upd y" using x(2) by (auto simp: upd_def item_at_def item_key_def)
      then show "?c (g y) = ?c y" by (simp add: g_def)
    qed (rule x(1))
    moreover have "?link (map g (sd_items db)) p = ?link (sd_items db) p" for p
    proof -
      have "(it_feed (g i) = feed \<and> it_post (g i) = Some (rw_id p)) = (it_feed i = feed \<and> it_post i = Some (rw_id p))" for i
        by (simp add: g_def)
      then show ?thesis by (simp add: list_ex_iff)
    qed
    ultimately show ?thesis by (simp add: db')
  next
    case False
    with assms(2) show ?thesis
      by (auto simp: claim_statement_def Let_def count_where_def counted_def fresh split: if_splits)
  qed
  moreover have "counted now feed (utc_day now) db' = counted now feed (utc_day now) db"
    if "sd_jobs db' = sd_jobs db" "sd_feeds db' = sd_feeds db"
    using eligible_cong [OF that] by (simp add: counted_def [abs_def])
  ultimately show ?thesis
    unfolding count_rss_feed_posts_today_def count_rss_feed_budget_def counted_def [symmetric] by simp
qed

section \<open>Properties\<close>

text \<open>The daily budget of a feed holds. \<open>ClaimRSSItemAttempt\<close> succeeds only for a feed of the team
  whose count of the day is below its limit, and then raises the count by exactly one, so no sequence
  of claims takes a day's count above the limit; it never takes an item past three attempts.\<close>
theorem rss_claim_within_budget:
  assumes "items_ok (sd_items db)" "claim_rss_item_attempt now team feed key db = (Inr True, db')"
  shows "count_rss_feed_posts_today now feed db' = count_rss_feed_posts_today now feed db + 1 \<and>
    list_ex (\<lambda>f. fd_id f = feed \<and> fd_team f = team \<and> int (count_rss_feed_posts_today now feed db') \<le> fd_max_per_day f) (sd_feeds db) \<and>
    items_ok (sd_items db')"
proof -
  from assms(2) have c: "claim_statement now team feed key db = (True, db')"
    by (auto simp: claim_rss_item_attempt_def split: prod.splits bool.splits if_splits)
  have one: "count_rss_feed_posts_today now feed db' = count_rss_feed_posts_today now feed db + 1"
    by (rule claim_counts_one [OF assms(1) c])
  have "list_ex (\<lambda>f. fd_id f = feed \<and> fd_team f = team \<and>
      int (count_rss_feed_budget now feed (utc_day now) db) < fd_max_per_day f) (sd_feeds db)"
    using c by (auto simp: claim_statement_def split: if_splits)
  then have "list_ex (\<lambda>f. fd_id f = feed \<and> fd_team f = team \<and>
      int (count_rss_feed_posts_today now feed db') \<le> fd_max_per_day f) (sd_feeds db)"
    unfolding one by (auto simp: list_ex_iff count_rss_feed_posts_today_def)
  moreover have "items_ok (sd_items db')"
    using items_change_ok [OF claim_change assms(1)] c by (metis snd_conv)
  ultimately show ?thesis using one by blast
qed

definition empty_store :: store_db where
  "empty_store = \<lparr>sd_identity = empty_identity_db, sd_accounts = [], sd_posts = [], sd_targets = [], sd_versions = [],
     sd_feeds = [], sd_items = [], sd_jobs = [], sd_templates = [], sd_skips = [], sd_pending = [], sd_audit = [],
     sd_locks = [], sd_hashtags = [], sd_metrics = [], sd_metric_history = [], sd_media = [], sd_mappings = [], sd_instances = []\<rparr>"

definition demo_feed :: feed_row where
  "demo_feed = \<lparr>fd_knowledge = None, fd_id = ''f1'', fd_team = ''t1'', fd_url = [], fd_name = [], fd_active = True, fd_ai_enhance = False,
     fd_enrichment = False, fd_content_template = [], fd_title_template = [], fd_title_hint = [], fd_output_mode = [],
     fd_max_per_day = 1, fd_counter = 1, fd_prompt_hint = [], fd_goal = [], fd_length = [], fd_targets = [],
     fd_tonality = [], fd_sync_mode = [], fd_last_fetched = None, fd_created = 0\<rparr>"

definition feed_store :: store_db where
  "feed_store = empty_store\<lparr>sd_feeds := [demo_feed]\<rparr>"

lemma feed_store_claim:
  "claim_rss_item_attempt 0 ''t1'' ''f1'' ''k'' feed_store = (Inr True, feed_store\<lparr>sd_items :=
     [\<lparr>it_feed = ''f1'', it_key = ''k'', it_post = None, it_attempts = 1, it_retry = False, it_consumed = None,
       it_budget_day = Some 0, it_created = 0\<rparr>]\<rparr>)"
  by (simp add: claim_rss_item_attempt_def claim_statement_def feed_store_def empty_store_def demo_feed_def
      count_rss_feed_budget_def count_where_def utc_day_def)

theorem rss_claim_within_budget_witness:
  "int (count_rss_feed_posts_today 0 ''f1'' (snd (claim_rss_item_attempt 0 ''t1'' ''f1'' ''k'' feed_store))) = 1"
proof -
  have "items_ok (sd_items feed_store)" by (simp add: items_ok_def feed_store_def empty_store_def)
  from rss_claim_within_budget [OF this feed_store_claim] show ?thesis
    by (simp add: feed_store_claim) (simp add: feed_store_def empty_store_def count_rss_feed_posts_today_def
        count_rss_feed_budget_def count_where_def)
qed

text \<open>C26: an RSS item is published once. After its marker is consumed, no sequence of the store's
  operations makes the item importable again: it counts as imported, it cannot be claimed, and no post
  can be linked to it, also when its post was deleted.\<close>
theorem rss_item_published_once:
  assumes "items_ok (sd_items db)" "i \<in> set (sd_items db)" "it_consumed i \<noteq> None" "rss_step\<^sup>*\<^sup>* db db'"
  shows "rss_item_already_imported now (it_feed i) (it_key i) db' \<and>
    fst (claim_rss_item_attempt now team (it_feed i) (it_key i) db') \<noteq> Inr True \<and>
    fst (link_rss_item_for_post now team (it_feed i) (it_key i) post db') = Inl No_Rows"
proof -
  from rss_steps_keep [OF assms(4,2,3)] obtain j where j: "j \<in> set (sd_items db')" "item_key j = item_key i"
    "it_consumed j = it_consumed i" by blast
  with assms(3) have "it_consumed j \<noteq> None" by simp
  from consumed_blocks [OF rss_steps_ok [OF assms(4,1)] j(1) this] j(2) show ?thesis by (simp add: item_key_def)
qed

definition linked_store :: store_db where
  "linked_store = feed_store\<lparr>sd_items := [\<lparr>it_feed = ''f1'', it_key = ''k'', it_post = Some ''p1'', it_attempts = 0,
     it_retry = False, it_consumed = Some 0, it_budget_day = Some 0, it_created = 0\<rparr>]\<rparr>"

theorem rss_item_published_once_witness:
  "fst (link_rss_item_for_post 7 ''t1'' ''f1'' ''k'' ''p2'' (delete_post_rows (\<lambda>_. True) linked_store)) = Inl No_Rows"
proof -
  have ok: "items_ok (sd_items linked_store)"
    by (simp add: items_ok_def linked_store_def max_rss_item_attempts_def)
  have "\<exists>i. i \<in> set (sd_items linked_store) \<and> it_consumed i \<noteq> None \<and> it_feed i = ''f1'' \<and> it_key i = ''k''"
    by (simp add: linked_store_def)
  then obtain i where i: "i \<in> set (sd_items linked_store)" "it_consumed i \<noteq> None" "it_feed i = ''f1''" "it_key i = ''k''"
    by blast
  have "rss_step\<^sup>*\<^sup>* linked_store (delete_post_rows (\<lambda>_. True) linked_store)"
    by (rule r_into_rtranclp, rule rss_delete_posts)
  from rss_item_published_once [OF ok i(1,2) this] show ?thesis unfolding i(3,4) by blast
qed

end
