(* ===== verification/Post_Store.thy ===== *)
theory Post_Store
  imports Post_Service Rss_Store
begin

text \<open>
  The writes on posts, targets, accounts, hashtags, metrics, audit events and locks of
  \<open>internal/store/sqlite\<close> (\<open>store.go\<close>, \<open>personal.go\<close>, \<open>publish_failures.go\<close>, \<open>audit.go\<close>,
  \<open>audit_outbox.go\<close>, \<open>transaction.go\<close>, \<open>hashtags.go\<close>, \<open>metrics_sync.go\<close>, \<open>tokens_metrics.go\<close>). Each takes the
  clock and its random ids as arguments and returns its error or result with the tables after it; an
  operation that fails inside its transaction returns the tables it started from.
\<close>

section \<open>Transactions\<close>

type_synonym 'a store_op = "store_db \<Rightarrow> (store_error + 'a) \<times> store_db"

text \<open>\<open>WithAuditTransaction\<close>: the body's writes are kept only when it returns no error; a nested call is a
  savepoint of the outer one.\<close>

definition with_audit_transaction :: "'a store_op \<Rightarrow> 'a store_op" where
  "with_audit_transaction body db =
     (case body db of (Inl e, _) \<Rightarrow> (Inl e, db) | (Inr x, db') \<Rightarrow> (Inr x, db'))"

definition and_then :: "'a store_op \<Rightarrow> ('a \<Rightarrow> 'b store_op) \<Rightarrow> 'b store_op" where
  "and_then m f db = (case m db of (Inl e, db') \<Rightarrow> (Inl e, db') | (Inr x, db') \<Rightarrow> f x db')"

definition lock_automation_source :: "string \<Rightarrow> string \<Rightarrow> store_db \<Rightarrow> store_error + unit" where
  "lock_automation_source kind i db =
     (if kind = ''rss_feed'' then (if list_ex (\<lambda>f. fd_id f = i) (sd_feeds db) then Inr () else Inl No_Rows)
      else if kind = ''post_template'' then (if list_ex (\<lambda>t. tp_id t = i) (sd_templates db) then Inr () else Inl No_Rows)
      else Inl (Refused ''invalid automation source kind''))"

section \<open>Posts\<close>

text \<open>The inserts of a loop over accounts: each fails on a duplicate key or an unknown account.\<close>

definition insert_targets :: "string \<Rightarrow> string list \<Rightarrow> unit store_op" where
  "insert_targets post accounts db =
     (if distinct accounts \<and> list_all (\<lambda>a. account_exists a db) accounts \<and>
         \<not> list_ex (\<lambda>t. tg_post t = post \<and> tg_account t \<in> set accounts) (sd_targets db)
      then (Inr (), db\<lparr>sd_targets := sd_targets db @ map (new_target post) accounts\<rparr>)
      else (Inl Constraint, db))"

definition insert_versions :: "string \<Rightarrow> (string \<times> string) list \<Rightarrow> unit store_op" where
  "insert_versions post over db =
     (if distinct (map fst over) \<and> list_all (\<lambda>(a, _). account_exists a db) over \<and>
         \<not> list_ex (\<lambda>v. pv_post_id v = post \<and> pv_account_id v \<in> fst ` set over) (sd_versions db)
      then (Inr (), db\<lparr>sd_versions := sd_versions db @
             map (\<lambda>(a, c). \<lparr>pv_post_id = post, pv_account_id = a, pv_content = c\<rparr>) over\<rparr>)
      else (Inl Constraint, db))"

definition insert_post :: "post_row \<Rightarrow> unit store_op" where
  "insert_post r db =
     (let p = rw_post r in
      if sp_id p \<notin> rw_id ` set (sd_posts db) \<and> team_exists (sp_team_id p) db \<and> user_exists (sp_author p) db \<and>
         sp_source p \<in> {source_scheduled, source_imported, source_automation} \<and>
         (case sp_rss_feed_id p of None \<Rightarrow> True | Some f \<Rightarrow> f \<in> fd_id ` set (sd_feeds db))
      then (Inr (), db\<lparr>sd_posts := sd_posts db @ [r]\<rparr>)
      else (Inl Constraint, db))"

definition new_post_row :: "instant \<Rightarrow> string \<Rightarrow> string \<Rightarrow> principal \<Rightarrow> create_post_input \<Rightarrow> post_row" where
  "new_post_row now fresh team pr inp =
     (let ins = resolve_post_insert pr inp in
      \<lparr>rw_post = \<lparr>sp_id = fresh, sp_team_id = team, sp_author = ri_author ins, sp_title = in_title inp,
         sp_content = in_content inp, sp_scheduled_at = in_scheduled_at inp, sp_status = ri_status ins,
         sp_source = ri_source ins, sp_attempt_count = 0, sp_last_error = [],
         sp_visibility = normalize_post_visibility (in_visibility inp),
         sp_media_ids = normalize_media_ids (in_media_ids inp), sp_media_exclude = in_media_exclude inp,
         sp_targets = [], sp_post_template_id = ri_template_id ins, sp_template_counter = ri_template_counter ins,
         sp_template_occurrence_at = ri_template_occurrence_at ins, sp_template_post_role = ri_template_role ins,
         sp_rss_feed_id = ri_rss_feed_id ins, sp_ai_job_id = in_ai_job_id inp,
         sp_ai_fallback_reason = in_ai_fallback_reason inp\<rparr>,
       rw_ack = None, rw_created = now, rw_updated = now\<rparr>)"

definition create_scheduled_post ::
  "instant \<Rightarrow> string \<Rightarrow> string \<Rightarrow> principal \<Rightarrow> create_post_input \<Rightarrow> scheduled_post store_op" where
  "create_scheduled_post now fresh team pr inp db =
     (case with_audit_transaction
        (and_then (insert_post (new_post_row now fresh team pr inp)) (\<lambda>_.
         and_then (insert_versions fresh (in_override inp)) (\<lambda>_.
         and_then (insert_targets fresh (in_target_accounts inp)) (\<lambda>_.
           (case in_rss_feed_id inp of
              None \<Rightarrow> (\<lambda>db. (Inr (), db))
            | Some feed \<Rightarrow> if in_rss_item_key inp \<noteq> []
                           then link_rss_item_for_post now team feed (in_rss_item_key inp) fresh
                           else (\<lambda>db. (Inr (), db))))))) db of
        (Inl e, db') \<Rightarrow> (Inl e, db')
      | (Inr _, db') \<Rightarrow> (get_scheduled_post team fresh db', db'))"

definition review_conflict :: store_error where "review_conflict = Refused ''review complete conflict''"

definition complete_review :: "instant \<Rightarrow> string \<Rightarrow> string \<Rightarrow> instant \<Rightarrow> scheduled_post store_op" where
  "complete_review now team post at db =
     (let p = (\<lambda>r. rw_id r = post \<and> rw_team r = team \<and> rw_status r = Draft) in
      if count_where p (sd_posts db) = 0 then (Inl review_conflict, db)
      else (let db' = db\<lparr>sd_posts := update_where p
                  (on_post (\<lambda>s. s\<lparr>sp_scheduled_at := at, sp_status := Pending\<rparr>) now) (sd_posts db)\<rparr>
            in (get_scheduled_post team post db', db')))"

text \<open>The two updates of the post's own columns: the schedule alone never writes the content back.\<close>

definition patch_post_columns ::
  "instant \<Rightarrow> string \<Rightarrow> string \<Rightarrow> scheduled_post \<Rightarrow> create_post_input \<Rightarrow> patch_fields \<Rightarrow> store_db \<Rightarrow> store_db" where
  "patch_post_columns now team post existing merged flags db =
     (if \<not> (pf_title flags \<or> pf_content flags \<or> pf_scheduled_at flags \<or> pf_visibility flags \<or>
           pf_media_ids flags \<or> pf_media_exclude flags \<or> pf_draft flags) then db
      else (let status = resolve_post_status_on_update now (sp_status existing) (sp_source existing) merged;
                p = (\<lambda>r. rw_id r = post \<and> rw_team r = team)
            in if pf_scheduled_at flags \<and> \<not> pf_title flags \<and> \<not> pf_content flags \<and> \<not> pf_visibility flags \<and>
                  \<not> pf_media_ids flags \<and> \<not> pf_media_exclude flags
               then db\<lparr>sd_posts := update_where p
                      (on_post (\<lambda>s. s\<lparr>sp_scheduled_at := in_scheduled_at merged, sp_status := status\<rparr>) now) (sd_posts db)\<rparr>
               else db\<lparr>sd_posts := update_where p
                      (on_post (\<lambda>s. s\<lparr>sp_title := in_title merged, sp_content := in_content merged,
                          sp_scheduled_at := in_scheduled_at merged,
                          sp_visibility := normalize_post_visibility (in_visibility merged),
                          sp_media_ids := normalize_media_ids (in_media_ids merged),
                          sp_media_exclude := in_media_exclude merged, sp_status := status\<rparr>) now) (sd_posts db)\<rparr>))"

definition patch_scheduled_post ::
  "instant \<Rightarrow> string \<Rightarrow> string \<Rightarrow> update_post_patch \<Rightarrow> scheduled_post store_op" where
  "patch_scheduled_post now team post patch db =
     (case get_scheduled_post team post db of
        Inl e \<Rightarrow> (Inl e, db)
      | Inr existing \<Rightarrow>
          (case apply_post_patch existing (list_post_versions_for_team_post team post db) patch of
             (merged, flags) \<Rightarrow>
               if pt_review_complete patch = Some True then complete_review now team post (in_scheduled_at merged) db
               else if \<not> patch_any flags then (Inr existing, db)
               else (case with_audit_transaction
                        (and_then (\<lambda>db. (Inr (), patch_post_columns now team post existing merged flags db)) (\<lambda>_.
                         and_then (\<lambda>db. if pf_versions flags
                             then insert_versions post (in_override merged)
                                    (db\<lparr>sd_versions := delete_where (\<lambda>v. pv_post_id v = post) (sd_versions db)\<rparr>)
                             else (Inr (), db)) (\<lambda>_ db.
                           if pf_target_accounts flags
                           then insert_targets post (in_target_accounts merged)
                                  (db\<lparr>sd_targets := delete_where (\<lambda>t. tg_post t = post) (sd_targets db)\<rparr>)
                           else (Inr (), db)))) db of
                       (Inl e, db') \<Rightarrow> (Inl e, db')
                     | (Inr _, db') \<Rightarrow> (get_scheduled_post team post db', db'))))"

definition cancel_scheduled_post :: "instant \<Rightarrow> string \<Rightarrow> string \<Rightarrow> store_db \<Rightarrow> store_db" where
  "cancel_scheduled_post now team post db =
     db\<lparr>sd_posts := update_where (\<lambda>r. rw_id r = post \<and> rw_team r = team)
          (on_post (\<lambda>s. s\<lparr>sp_status := Cancelled\<rparr>) now) (sd_posts db)\<rparr>"

definition delete_scheduled_post :: "string \<Rightarrow> string \<Rightarrow> store_db \<Rightarrow> store_db" where
  "delete_scheduled_post team post db = delete_post_rows (\<lambda>r. rw_id r = post \<and> rw_team r = team) db"

section \<open>Publication\<close>

definition mark_post_processing :: "instant \<Rightarrow> string \<Rightarrow> unit store_op" where
  "mark_post_processing now post db =
     (let p = (\<lambda>r. rw_id r = post \<and> (rw_status r = Pending \<or> rw_status r = Failed)) in
      (if count_where p (sd_posts db) \<noteq> 1 then Inl (Refused ''post processing claim rejected'') else Inr (),
       db\<lparr>sd_posts := update_where p (on_post (\<lambda>s. s\<lparr>sp_status := Processing\<rparr>) now) (sd_posts db)\<rparr>))"

definition mark_post_result ::
  "instant \<Rightarrow> string \<Rightarrow> int \<Rightarrow> post_status \<Rightarrow> string \<Rightarrow> instant option \<Rightarrow> store_db \<Rightarrow> store_db" where
  "mark_post_result now post attempts status err next_attempt db =
     db\<lparr>sd_posts := update_where (\<lambda>r. rw_id r = post)
          (on_post (\<lambda>s. s\<lparr>sp_attempt_count := attempts, sp_status := status, sp_last_error := nullable_string err,
             sp_scheduled_at := (case next_attempt of None \<Rightarrow> sp_scheduled_at s | Some t \<Rightarrow> t)\<rparr>) now) (sd_posts db)\<rparr>"

text \<open>The unique index on an account's remote post ids.\<close>

definition remote_taken :: "string \<Rightarrow> string \<Rightarrow> string \<Rightarrow> store_db \<Rightarrow> bool" where
  "remote_taken post account remote db \<longleftrightarrow> remote \<noteq> [] \<and>
     list_ex (\<lambda>t. tg_account t = account \<and> tg_remote t = remote \<and> tg_post t \<noteq> post) (sd_targets db)"

definition mark_post_target_result ::
  "string \<Rightarrow> string \<Rightarrow> post_status \<Rightarrow> string \<Rightarrow> string \<Rightarrow> (string \<times> string) list \<Rightarrow> string \<Rightarrow> unit store_op" where
  "mark_post_target_result post account status url err meta remote db =
     (if status = Draft \<or> (find_target post account db \<noteq> None \<and> remote_taken post account (nullable_string remote) db)
      then (Inl Constraint, db)
      else (Inr (), db\<lparr>sd_targets := update_where (\<lambda>t. tg_post t = post \<and> tg_account t = account)
             (\<lambda>t. t\<lparr>tg_status := status, tg_url := nullable_string url, tg_error := nullable_string err,
                    tg_metadata := meta, tg_remote := nullable_string remote\<rparr>) (sd_targets db)\<rparr>))"

definition outcome_unknown :: string where "outcome_unknown = ''publication_outcome_unknown''"

definition claimable :: "string \<Rightarrow> string \<Rightarrow> target_row \<Rightarrow> bool" where
  "claimable post account t \<longleftrightarrow> tg_post t = post \<and> tg_account t = account \<and> (tg_status t = Pending \<or> tg_status t = Failed)"

definition claim_post_target_publication :: "string \<Rightarrow> string \<Rightarrow> store_db \<Rightarrow> bool \<times> store_db" where
  "claim_post_target_publication post account db =
     (count_where (claimable post account) (sd_targets db) = 1,
      db\<lparr>sd_targets := update_where (claimable post account)
           (\<lambda>t. t\<lparr>tg_status := Processing, tg_error := outcome_unknown\<rparr>) (sd_targets db)\<rparr>)"

section \<open>The audit log and its outbox\<close>

definition fill_event :: "instant \<Rightarrow> string \<Rightarrow> audit_event \<Rightarrow> audit_event" where
  "fill_event now fresh e =
     e\<lparr>ae_id := (if ae_id e = [] then fresh else ae_id e),
       ae_created := (case ae_created e of None \<Rightarrow> Some now | Some t \<Rightarrow> if t = zero_time then Some now else Some t)\<rparr>"

definition insert_audit_event :: "instant \<Rightarrow> string \<Rightarrow> audit_event \<Rightarrow> unit store_op" where
  "insert_audit_event now fresh event db =
     (let e = fill_event now fresh event in
      if ae_id e \<in> ae_id ` set (sd_audit db) then (Inr (), db)
      else if \<not> team_exists (ae_team e) db then (Inl Constraint, db)
      else (Inr (), db\<lparr>sd_audit := sd_audit db @ [e]\<rparr>))"

definition enqueue_audit_event :: "instant \<Rightarrow> string \<Rightarrow> audit_event \<Rightarrow> unit store_op" where
  "enqueue_audit_event now fresh event db =
     (let e = fill_event now fresh event in
      if ae_id e \<in> ae_id ` set (sd_pending db) then (Inr (), db)
      else if \<not> team_exists (ae_team e) db then (Inl Constraint, db)
      else (Inr (), db\<lparr>sd_pending := sd_pending db @ [e]\<rparr>))"

text \<open>A pending row's event carries the row's id, which is never empty.\<close>

fun deliver_events :: "instant \<Rightarrow> audit_event list \<Rightarrow> unit store_op" where
  "deliver_events now [] db = (Inr (), db)"
| "deliver_events now (e # es) db =
     (case insert_audit_event now (ae_id e) e db of
        (Inl err, db') \<Rightarrow> (Inl err, db')
      | (Inr _, db') \<Rightarrow> deliver_events now es (db'\<lparr>sd_pending := delete_where (\<lambda>x. ae_id x = ae_id e) (sd_pending db')\<rparr>))"

definition drain_batch :: nat where "drain_batch = 100"

definition drain_audit_events :: "instant \<Rightarrow> unit store_op" where
  "drain_audit_events now = with_audit_transaction (\<lambda>db. deliver_events now (take drain_batch (sort_key ae_id (sd_pending db))) db)"

section \<open>Administration\<close>

definition admin_acknowledge_failed_post :: "instant \<Rightarrow> string \<Rightarrow> store_db \<Rightarrow> bool \<times> store_db" where
  "admin_acknowledge_failed_post now post db =
     (let p = (\<lambda>r. rw_id r = post \<and> rw_status r = Failed \<and> rw_ack r = None) in
      (0 < count_where p (sd_posts db),
       db\<lparr>sd_posts := update_where p (\<lambda>r. r\<lparr>rw_ack := Some now, rw_updated := now\<rparr>) (sd_posts db)\<rparr>))"

definition admin_retry_failed_post :: "instant \<Rightarrow> string \<Rightarrow> store_db \<Rightarrow> bool \<times> store_db" where
  "admin_retry_failed_post now post db =
     (let p = (\<lambda>r. rw_id r = post \<and> rw_status r = Failed) in
      if count_where p (sd_posts db) = 0 then (False, db)
      else (True, db\<lparr>sd_posts := update_where p
              (\<lambda>r. (on_post (\<lambda>s. s\<lparr>sp_status := Pending, sp_attempt_count := 0, sp_last_error := [],
                 sp_scheduled_at := now\<rparr>) now r)\<lparr>rw_ack := None\<rparr>) (sd_posts db),
            sd_targets := update_where (\<lambda>t. tg_post t = post \<and> tg_status t \<noteq> Posted)
              (\<lambda>t. t\<lparr>tg_status := Pending, tg_error := []\<rparr>) (sd_targets db)\<rparr>))"

record publish_failure_target =
  ft_account :: string
  ft_name :: string
  ft_provider :: string
  ft_status :: post_status
  ft_error :: string
  ft_url :: string

record publish_failure =
  pf_post :: string
  pf_team :: string
  pf_team_name :: string
  pf_fail_title :: string
  pf_at :: instant
  pf_attempts :: int
  pf_error :: string
  pf_updated :: instant
  pf_targets :: "publish_failure_target list"

definition failure_target :: "store_db \<Rightarrow> target_row \<Rightarrow> publish_failure_target" where
  "failure_target db t =
     (let acc = find_account (tg_account t) db;
          name = (case acc of None \<Rightarrow> [] | Some a \<Rightarrow> sa_name a);
          username = (case acc of None \<Rightarrow> [] | Some a \<Rightarrow> sa_username a)
      in \<lparr>ft_account = tg_account t, ft_name = (if name = [] then username else name),
          ft_provider = (case acc of None \<Rightarrow> [] | Some a \<Rightarrow> sa_provider a), ft_status = tg_status t,
          ft_error = tg_error t, ft_url = tg_url t\<rparr>)"

definition admin_list_publish_failures :: "store_db \<Rightarrow> publish_failure list" where
  "admin_list_publish_failures db =
     map (\<lambda>r. \<lparr>pf_post = rw_id r, pf_team = rw_team r,
            pf_team_name = (case find (\<lambda>t. tm_id t = rw_team r) (id_teams (sd_identity db)) of None \<Rightarrow> [] | Some t \<Rightarrow> tm_name t),
            pf_fail_title = sp_title (rw_post r), pf_at = sp_scheduled_at (rw_post r),
            pf_attempts = sp_attempt_count (rw_post r), pf_error = sp_last_error (rw_post r), pf_updated = rw_updated r,
            pf_targets = map (failure_target db) (filter (\<lambda>t. tg_post t = rw_id r) (sd_targets db))\<rparr>)
       (sort_key (\<lambda>r. - rw_updated r) (filter (\<lambda>r. rw_status r = Failed \<and> rw_ack r = None) (sd_posts db)))"

definition repair_event :: "principal option \<Rightarrow> string \<Rightarrow> post_row \<Rightarrow> audit_event" where
  "repair_event caller fresh r =
     \<lparr>ae_id = fresh, ae_team = rw_team r, ae_actor_user = [], ae_actor_name = ''Automation'', ae_actor_email = [],
      ae_actor_kind = ''system'', ae_token = None, ae_token_name = None,
      ae_action = ''post.repair'', ae_target_type = ''post'', ae_target = Some (rw_id r),
      ae_summary = ''Repaired future post status'',
      ae_metadata = (''channel'', (if caller = None then ''system'' else ''rest'')) #
        [(''outcome'', ''success''), (''status_before'', ''posted''), (''status_after'', ''pending''), (''post_id'', rw_id r)] @
        (case caller of None \<Rightarrow> []
         | Some pr \<Rightarrow> (''initiator_user_id'', u_id (p_user pr)) #
             (case p_token_id pr of Some t \<Rightarrow> if p_kind pr = ''api_token'' then [(''initiator_token_id'', t)] else []
              | None \<Rightarrow> [])), ae_created = None\<rparr>"

fun insert_repair_events :: "instant \<Rightarrow> principal option \<Rightarrow> (string \<Rightarrow> string) \<Rightarrow> post_row list \<Rightarrow> unit store_op" where
  "insert_repair_events now caller fresh [] db = (Inr (), db)"
| "insert_repair_events now caller fresh (r # rs) db =
     (case insert_audit_event now (fresh (rw_id r)) (repair_event caller (fresh (rw_id r)) r) db of
        (Inl e, db') \<Rightarrow> (Inl e, db') | (Inr _, db') \<Rightarrow> insert_repair_events now caller fresh rs db')"

definition repair_future_posted_posts :: "principal option \<Rightarrow> (string \<Rightarrow> string) \<Rightarrow> instant \<Rightarrow> nat store_op" where
  "repair_future_posted_posts caller fresh now =
     with_audit_transaction (\<lambda>db.
       (let p = (\<lambda>r. rw_status r = Posted \<and> now < sp_scheduled_at (rw_post r)); hit = filter p (sd_posts db) in
        (case insert_repair_events now caller fresh hit (db\<lparr>sd_posts := update_where p
                (\<lambda>r. r\<lparr>rw_post := (rw_post r)\<lparr>sp_status := Pending\<rparr>\<rparr>) (sd_posts db)\<rparr>) of
           (Inl e, db') \<Rightarrow> (Inl e, db') | (Inr _, db') \<Rightarrow> (Inr (length hit), db'))))"

definition try_acquire_lock :: "instant \<Rightarrow> string \<Rightarrow> int \<Rightarrow> store_db \<Rightarrow> bool \<times> store_db" where
  "try_acquire_lock now lock duration db =
     (let row = \<lparr>lk_id = lock, lk_at = now, lk_expires = now + duration\<rparr> in
      (case find (\<lambda>l. lk_id l = lock) (sd_locks db) of
         None \<Rightarrow> (True, db\<lparr>sd_locks := sd_locks db @ [row]\<rparr>)
       | Some l \<Rightarrow>
           if lk_expires l < now
           then (True, db\<lparr>sd_locks := update_where (\<lambda>l. lk_id l = lock)
                  (\<lambda>l. l\<lparr>lk_at := now, lk_expires := now + duration\<rparr>) (sd_locks db)\<rparr>)
           else (False, db)))"

section \<open>Accounts\<close>

record connected_account =
  ca_provider :: string
  ca_auth_type :: string
  ca_instance_id :: string
  ca_instance_url :: string
  ca_username :: string
  ca_remote_id :: string
  ca_access_token :: string
  ca_refresh_token :: string
  ca_expires_at :: "instant option"

definition create_account ::
  "(string \<Rightarrow> string res) \<Rightarrow> string \<Rightarrow> string \<Rightarrow> connected_account \<Rightarrow> social_account store_op" where
  "create_account encrypt fresh team inp db =
     (case encrypt (ca_access_token inp) of
        Inl e \<Rightarrow> (Inl (Backend e), db)
      | Inr access \<Rightarrow>
          (case (if ca_refresh_token inp = [] then Inr [] else encrypt (ca_refresh_token inp)) of
             Inl e \<Rightarrow> (Inl (Backend e), db)
           | Inr refresh \<Rightarrow>
               (let row = \<lparr>sa_id = fresh, sa_team_id = team, sa_name = [], sa_provider = ca_provider inp,
                      sa_auth_type = ca_auth_type inp, sa_instance_id = ca_instance_id inp,
                      sa_instance_url = ca_instance_url inp, sa_username = ca_username inp,
                      sa_remote_id = ca_remote_id inp, sa_access_token = access, sa_refresh_token = refresh,
                      sa_max_chars_override = None,
                      sa_token_expires_at = (case ca_expires_at inp of None \<Rightarrow> None
                         | Some t \<Rightarrow> if t = zero_time then None else Some t)\<rparr>
                in if account_exists fresh db \<or> \<not> team_exists team db \<or> ca_provider inp = [] \<or>
                      ca_auth_type inp \<notin> {''oauth_token'', ''app_password''}
                   then (Inl Constraint, db)
                   else (Inr row, db\<lparr>sd_accounts := sd_accounts db @ [row]\<rparr>))))"

record update_account_input =
  ua_name :: "string option"
  ua_max_chars :: "int option"
  ua_access_token :: "string option"
  ua_refresh_token :: "string option"

definition update_account ::
  "(string \<Rightarrow> string res) \<Rightarrow> string \<Rightarrow> string \<Rightarrow> update_account_input \<Rightarrow> social_account store_op" where
  "update_account encrypt team account inp db =
     (case get_account_by_id account db of
        Inl e \<Rightarrow> (Inl e, db)
      | Inr acc \<Rightarrow>
          if sa_team_id acc \<noteq> team then (Inl No_Rows, db)
          else (case (case ua_access_token inp of None \<Rightarrow> Inr (sa_access_token acc) | Some t \<Rightarrow> encrypt t) of
                  Inl e \<Rightarrow> (Inl (Backend e), db)
                | Inr access \<Rightarrow>
                    (case (case ua_refresh_token inp of None \<Rightarrow> Inr (sa_refresh_token acc)
                             | Some t \<Rightarrow> if t \<noteq> [] then encrypt t else Inr []) of
                       Inl e \<Rightarrow> (Inl (Backend e), db)
                     | Inr refresh \<Rightarrow>
                         (let db' = db\<lparr>sd_accounts := update_where (\<lambda>a. sa_id a = account)
                                (\<lambda>a. a\<lparr>sa_name := (case ua_name inp of None \<Rightarrow> sa_name acc | Some n \<Rightarrow> n),
                                       sa_max_chars_override := (case ua_max_chars inp of
                                          None \<Rightarrow> sa_max_chars_override acc | Some n \<Rightarrow> Some n),
                                       sa_access_token := access, sa_refresh_token := refresh\<rparr>) (sd_accounts db)\<rparr>
                          in (get_account_by_id account db', db')))))"

definition update_social_account_tokens ::
  "(string \<Rightarrow> string res) \<Rightarrow> string \<Rightarrow> string \<Rightarrow> string \<Rightarrow> instant option \<Rightarrow> unit store_op" where
  "update_social_account_tokens encrypt account access refresh expires db =
     (let ex = (case expires of None \<Rightarrow> None | Some t \<Rightarrow> if t = zero_time then None else Some t) in
      (case encrypt access of
         Inl e \<Rightarrow> (Inl (Backend e), db)
       | Inr ac \<Rightarrow>
           if trim_space refresh \<noteq> []
           then (case encrypt refresh of
                   Inl e \<Rightarrow> (Inl (Backend e), db)
                 | Inr rc \<Rightarrow> (Inr (), db\<lparr>sd_accounts := update_where (\<lambda>a. sa_id a = account)
                     (\<lambda>a. a\<lparr>sa_access_token := ac, sa_refresh_token := rc, sa_token_expires_at := ex\<rparr>) (sd_accounts db)\<rparr>))
           else (Inr (), db\<lparr>sd_accounts := update_where (\<lambda>a. sa_id a = account)
                  (\<lambda>a. a\<lparr>sa_access_token := ac, sa_token_expires_at := ex\<rparr>) (sd_accounts db)\<rparr>)))"

definition delete_account :: "string \<Rightarrow> string \<Rightarrow> unit store_op" where
  "delete_account team account db =
     (case get_account_by_id account db of
        Inl e \<Rightarrow> (Inl e, db)
      | Inr acc \<Rightarrow> if sa_team_id acc \<noteq> team then (Inl No_Rows, db) else (Inr (), delete_account_rows account db))"

definition migrate_account_to_team :: "instant \<Rightarrow> string \<Rightarrow> string \<Rightarrow> string \<Rightarrow> bool \<Rightarrow> unit store_op" where
  "migrate_account_to_team now user account target_team is_admin db =
     (case get_account_by_id account db of
        Inl e \<Rightarrow> (Inl e, db)
      | Inr src \<Rightarrow>
          (case get_team_by_id target_team (sd_identity db) of
             Inl e \<Rightarrow> (Inl e, db)
           | Inr _ \<Rightarrow>
               if \<not> is_admin \<and> \<not> user_has_any_team_role user (sa_team_id src) [Owner] (sd_identity db)
               then (Inl (Refused ''only team owners can move accounts out of a team (or admin)''), db)
               else if \<not> user_has_any_team_role user target_team [Editor, Owner] (sd_identity db)
               then (Inl (Refused ''forbidden''), db)
               else
                 (let posts = filter (\<lambda>r. rw_team r = sa_team_id src \<and>
                         list_ex (\<lambda>t. tg_post t = rw_id r \<and> tg_account t = account) (sd_targets db)) (sd_posts db);
                      ids = map rw_id posts
                  in if list_ex (\<lambda>i. count_where (\<lambda>t. tg_post t = i) (sd_targets db) > 1) ids
                     then (Inl (Refused ''cannot migrate: scheduled posts reference multiple accounts''), db)
                     else (Inr (), db\<lparr>sd_posts := update_where (\<lambda>r. rw_id r \<in> set ids)
                             (on_post (\<lambda>s. s\<lparr>sp_team_id := target_team\<rparr>) now) (sd_posts db),
                           sd_accounts := update_where (\<lambda>a. sa_id a = account)
                             (\<lambda>a. a\<lparr>sa_team_id := target_team\<rparr>) (sd_accounts db)\<rparr>))))"

section \<open>Hashtags and metrics\<close>

definition replace_post_hashtags :: "string \<Rightarrow> string \<Rightarrow> (string \<times> string) list \<Rightarrow> unit store_op" where
  "replace_post_hashtags post account tags db =
     (if tags \<noteq> [] \<and> (find_post post db = None \<or> \<not> account_exists account db) then (Inl Constraint, db)
      else (Inr (), db\<lparr>sd_hashtags := delete_where (\<lambda>h. ht_post h = post \<and> ht_account h = account) (sd_hashtags db) @
             map (\<lambda>(n, d). \<lparr>ht_post = post, ht_account = account, ht_norm = n, ht_display = d\<rparr>)
               (dedup_by fst [] tags)\<rparr>))"

definition upsert_metric :: "(metric_row \<Rightarrow> bool) \<Rightarrow> metric_row \<Rightarrow> metric_row list \<Rightarrow> metric_row list" where
  "upsert_metric same m rows =
     (if list_ex same rows then update_where same (\<lambda>r. r\<lparr>mt_value := mt_value m, mt_day := mt_day m\<rparr>) rows else rows @ [m])"

fun upsert_metrics_loop ::
  "string \<Rightarrow> string \<Rightarrow> string \<Rightarrow> (string \<times> int) list \<Rightarrow> store_db \<Rightarrow> store_db" where
  "upsert_metrics_loop post account day [] db = db"
| "upsert_metrics_loop post account day ((raw, val) # ms) db =
     (let name = trim_space raw;
          row = \<lparr>mt_post = post, mt_account = account, mt_metric = name, mt_value = val, mt_day = day\<rparr>;
          same = (\<lambda>r. mt_post r = post \<and> mt_account r = account \<and> mt_metric r = name)
      in if name = [] then upsert_metrics_loop post account day ms db
         else upsert_metrics_loop post account day ms
           (db\<lparr>sd_metrics := upsert_metric same row (sd_metrics db),
               sd_metric_history := upsert_metric (\<lambda>r. same r \<and> mt_day r = day) row (sd_metric_history db)\<rparr>))"

definition upsert_post_metrics ::
  "string \<Rightarrow> string \<Rightarrow> string \<Rightarrow> (string \<times> int) list \<Rightarrow> string \<Rightarrow> unit store_op" where
  "upsert_post_metrics today post account metrics recorded_at db =
     (if metrics = [] then (Inr (), db)
      else if list_ex (\<lambda>(n, _). trim_space n \<noteq> []) metrics \<and> (find_post post db = None \<or> \<not> account_exists account db)
      then (Inl Constraint, db)
      else (Inr (), upsert_metrics_loop post account
              (if trim_space recorded_at = [] then today else trim_space recorded_at) metrics db))"

definition mark_target_metrics_synced :: "instant \<Rightarrow> string \<Rightarrow> string \<Rightarrow> string \<Rightarrow> store_db \<Rightarrow> store_db" where
  "mark_target_metrics_synced now post account day db =
     (if trim_space day = [] then db
      else db\<lparr>sd_targets := update_where (\<lambda>t. tg_post t = post \<and> tg_account t = account)
             (\<lambda>t. t\<lparr>tg_synced_day := trim_space day, tg_synced_at := Some now\<rparr>) (sd_targets db)\<rparr>)"

definition upsert_media_provider_mapping :: "instant \<Rightarrow> mapping_row \<Rightarrow> unit store_op" where
  "upsert_media_provider_mapping now m db =
     (let same = (\<lambda>r. mm_media r = mm_media m \<and> mm_account r = mm_account m) in
      if list_ex same (sd_mappings db)
      then (Inr (), db\<lparr>sd_mappings := update_where same (\<lambda>r. r\<lparr>mm_remote := mm_remote m, mm_expires := mm_expires m, mm_created := now\<rparr>)
              (sd_mappings db)\<rparr>)
      else if \<not> list_ex (\<lambda>r. md_id r = mm_media m) (sd_media db) \<or> \<not> account_exists (mm_account m) db
      then (Inl Constraint, db)
      else (Inr (), db\<lparr>sd_mappings := sd_mappings db @ [m\<lparr>mm_created := now\<rparr>]\<rparr>))"

section \<open>Steps\<close>

inductive post_step :: "store_db \<Rightarrow> store_db \<Rightarrow> bool" where
  ps_create: "post_step db (snd (create_scheduled_post now fresh team pr inp db))"
| ps_patch: "post_step db (snd (patch_scheduled_post now team post patch db))"
| ps_cancel: "post_step db (cancel_scheduled_post now team post db)"
| ps_delete: "post_step db (delete_scheduled_post team post db)"
| ps_processing: "post_step db (snd (mark_post_processing now post db))"
| ps_result: "post_step db (mark_post_result now post n st err at db)"
| ps_target: "post_step db (snd (mark_post_target_result post account st url err meta remote db))"
| ps_claim: "post_step db (snd (claim_post_target_publication post account db))"
| ps_event: "post_step db (snd (insert_audit_event now fresh e db))"
| ps_enqueue: "post_step db (snd (enqueue_audit_event now fresh e db))"
| ps_drain: "post_step db (snd (drain_audit_events now db))"
| ps_ack: "post_step db (snd (admin_acknowledge_failed_post now post db))"
| ps_retry: "post_step db (snd (admin_retry_failed_post now post db))"
| ps_repair: "post_step db (snd (repair_future_posted_posts caller fresh_id now db))"
| ps_lock: "post_step db (snd (try_acquire_lock now lock duration db))"
| ps_account: "post_step db (snd (create_account encrypt fresh team ca db))"
| ps_update_account: "post_step db (snd (update_account encrypt team account ua db))"
| ps_tokens: "post_step db (snd (update_social_account_tokens encrypt account access refresh ex db))"
| ps_delete_account: "post_step db (snd (delete_account team account db))"
| ps_migrate: "post_step db (snd (migrate_account_to_team now user account team is_admin db))"
| ps_hashtags: "post_step db (snd (replace_post_hashtags post account tags db))"
| ps_metrics: "post_step db (snd (upsert_post_metrics today post account ms day db))"
| ps_mapping: "post_step db (snd (upsert_media_provider_mapping now m db))"
| ps_synced: "post_step db (mark_target_metrics_synced now post account day db)"

section \<open>The invariant is kept\<close>

lemma transaction_cases:
  obtains "snd (with_audit_transaction body db) = db"
  | x db' where "body db = (Inr x, db')" "snd (with_audit_transaction body db) = db'"
  by (cases "body db"; cases "fst (body db)") (auto simp: with_audit_transaction_def)

lemma and_then_Inr:
  "and_then m f db = (Inr y, db') \<longleftrightarrow> (\<exists>x db1. m db = (Inr x, db1) \<and> f x db1 = (Inr y, db'))"
  by (auto simp: and_then_def split: prod.splits sum.splits)

lemma links_ok_append:
  "links_ok db ks \<Longrightarrow> distinct ks' \<Longrightarrow> set ks \<inter> set ks' = {} \<Longrightarrow> set ks' \<subseteq> set (post_ids db) \<times> set (account_ids db) \<Longrightarrow>
     links_ok db (ks @ ks')"
  by (auto simp: links_ok_def)

lemma insert_post_ok: "store_ok db \<Longrightarrow> store_ok (snd (insert_post r db))"
  by (auto simp: insert_post_def Let_def store_ok_defs)

text \<open>The loops over accounts only run for a post that exists.\<close>

lemma insert_targets_ok:
  assumes "store_ok db" "post \<in> set (post_ids db)"
  shows "store_ok (snd (insert_targets post accounts db)) \<and> post_ids (snd (insert_targets post accounts db)) = post_ids db"
proof (cases "fst (insert_targets post accounts db) = Inr ()")
  case True
  then have g: "distinct accounts" "\<forall>a \<in> set accounts. a \<in> set (account_ids db)"
    "\<not> list_ex (\<lambda>t. tg_post t = post \<and> tg_account t \<in> set accounts) (sd_targets db)"
    and db': "snd (insert_targets post accounts db) = db\<lparr>sd_targets := sd_targets db @ map (new_target post) accounts\<rparr>"
    by (auto simp: insert_targets_def account_exists_def account_ids_def list_all_iff split: if_splits)
  have "links_ok db (target_keys db @ map (Pair post) accounts)"
    using assms g by (intro links_ok_append) (auto simp: store_ok_def distinct_map inj_on_def target_keys_def list_ex_iff)
  then have "links_ok (snd (insert_targets post accounts db)) (target_keys (snd (insert_targets post accounts db)))"
    by (simp add: db' links_ok_def target_keys_def new_target_def comp_def post_ids_def account_ids_def)
  with assms(1) show ?thesis
    by (simp add: db' store_ok_def teams_named_def accounts_ok_def logs_ok_def post_ids_def account_ids_def version_keys_def links_ok_def)
next
  case False
  with assms show ?thesis by (auto simp: insert_targets_def split: if_splits)
qed

lemma insert_versions_ok:
  assumes "store_ok db" "post \<in> set (post_ids db)"
  shows "store_ok (snd (insert_versions post over db)) \<and> post_ids (snd (insert_versions post over db)) = post_ids db"
proof (cases "fst (insert_versions post over db) = Inr ()")
  case True
  then have g: "distinct (map fst over)" "\<forall>a \<in> fst ` set over. a \<in> set (account_ids db)"
    "\<not> list_ex (\<lambda>v. pv_post_id v = post \<and> pv_account_id v \<in> fst ` set over) (sd_versions db)"
    and db': "snd (insert_versions post over db) = db\<lparr>sd_versions := sd_versions db @
             map (\<lambda>(a, c). \<lparr>pv_post_id = post, pv_account_id = a, pv_content = c\<rparr>) over\<rparr>"
    by (auto simp: insert_versions_def account_exists_def account_ids_def list_all_iff split: if_splits)
  have "distinct (map (Pair post) (map fst over))"
    using g(1) by (subst distinct_map) (simp add: inj_on_def)
  then have "links_ok db (version_keys db @ map (Pair post) (map fst over))"
    using assms g(2,3) by (intro links_ok_append) (auto simp: store_ok_def version_keys_def list_ex_iff)
  then have "links_ok (snd (insert_versions post over db)) (version_keys (snd (insert_versions post over db)))"
    by (simp add: db' links_ok_def version_keys_def comp_def case_prod_beta post_ids_def account_ids_def)
  with assms(1) show ?thesis
    by (simp add: db' store_ok_def teams_named_def accounts_ok_def logs_ok_def post_ids_def account_ids_def target_keys_def links_ok_def)
next
  case False
  with assms show ?thesis by (auto simp: insert_versions_def split: if_splits)
qed

text \<open>Most operations leave the keys alone.\<close>

lemma link_same_keys: "same_keys db (snd (link_rss_item_for_post now team feed key post db))"
  by (auto simp: link_rss_item_for_post_def Let_def bump_counter_def keys_update)

lemma patch_columns_same_keys: "same_keys db (patch_post_columns now team post existing merged flags db)"
  by (simp add: patch_post_columns_def Let_def keys_update)

lemma review_same_keys: "same_keys db (snd (complete_review now team post at db))"
  by (simp add: complete_review_def Let_def keys_update)

lemma post_update_same_keys:
  "same_keys db (cancel_scheduled_post now team post db)"
  "same_keys db (snd (mark_post_processing now post db))"
  "same_keys db (mark_post_result now post n st err at db)"
  "same_keys db (snd (mark_post_target_result post account st url err meta remote db))"
  "same_keys db (snd (claim_post_target_publication post account db))"
  "same_keys db (snd (admin_acknowledge_failed_post now post db))"
  "same_keys db (snd (admin_retry_failed_post now post db))"
  "same_keys db (mark_target_metrics_synced now post account day db)"
  "same_keys db (snd (replace_post_hashtags post account tags db))"
  "same_keys db (snd (upsert_media_provider_mapping now m db))"
  by (simp_all add: upsert_media_provider_mapping_def cancel_scheduled_post_def mark_post_processing_def mark_post_result_def
      mark_post_target_result_def claim_post_target_publication_def claimable_def admin_acknowledge_failed_post_def
      admin_retry_failed_post_def mark_target_metrics_synced_def replace_post_hashtags_def Let_def keys_update)

lemma metrics_loop_same_keys: "same_keys db (upsert_metrics_loop post account day ms db)"
proof (induction post account day ms db rule: upsert_metrics_loop.induct)
  case (2 post account day raw val ms db)
  then show ?case by (simp add: Let_def same_keys_def account_ids_def post_ids_def target_keys_def version_keys_def)
qed simp

lemma metrics_same_keys: "same_keys db (snd (upsert_post_metrics today post account ms day db))"
  by (simp add: upsert_post_metrics_def metrics_loop_same_keys)

lemma account_update_same_keys:
  "same_keys db (snd (update_account encrypt team account ua db))"
  "same_keys db (snd (update_social_account_tokens encrypt account access refresh ex db))"
  by (auto simp: update_account_def update_social_account_tokens_def Let_def keys_update split: sum.split)

lemmas same_keys_ops = link_same_keys patch_columns_same_keys review_same_keys post_update_same_keys
  metrics_same_keys account_update_same_keys

lemma transaction_pred:
  "P db \<Longrightarrow> (\<And>x db'. body db = (Inr x, db') \<Longrightarrow> P db') \<Longrightarrow> P (snd (with_audit_transaction body db))"
  by (rule transaction_cases [of body db]) auto

lemma create_ok:
  assumes "store_ok db"
  shows "store_ok (snd (create_scheduled_post now fresh team pr inp db))"
proof -
  define link :: "unit store_op" where "link = (case in_rss_feed_id inp of None \<Rightarrow> (\<lambda>db. (Inr (), db))
    | Some feed \<Rightarrow> if in_rss_item_key inp \<noteq> [] then link_rss_item_for_post now team feed (in_rss_item_key inp) fresh
                   else (\<lambda>db. (Inr (), db)))"
  have link: "same_keys d (snd (link d))" for d
    by (simp add: link_def link_same_keys split: option.split)
  define body where "body = and_then (insert_post (new_post_row now fresh team pr inp)) (\<lambda>_.
     and_then (insert_versions fresh (in_override inp)) (\<lambda>_. and_then (insert_targets fresh (in_target_accounts inp)) (\<lambda>_. link)))"
  have "store_ok (snd (with_audit_transaction body db))"
  proof (rule transaction_pred [where P = store_ok, OF assms])
    fix x db' assume "body db = (Inr x, db')"
    then obtain d1 d2 d3 where 1: "insert_post (new_post_row now fresh team pr inp) db = (Inr (), d1)"
      and 2: "insert_versions fresh (in_override inp) d1 = (Inr (), d2)"
      and 3: "insert_targets fresh (in_target_accounts inp) d2 = (Inr (), d3)" and 4: "link d3 = (Inr x, db')"
      by (auto simp: body_def and_then_Inr)
    have o1: "store_ok d1" using insert_post_ok [OF assms] 1 by (metis snd_conv)
    have m1: "fresh \<in> set (post_ids d1)"
      using 1 by (auto simp: insert_post_def Let_def new_post_row_def post_ids_def split: if_splits)
    have o2: "store_ok d2" "post_ids d2 = post_ids d1" using insert_versions_ok [OF o1 m1] 2 by (metis snd_conv)+
    have "store_ok d3" using insert_targets_ok [OF o2(1), of fresh] o2(2) m1 3 by (metis snd_conv)
    then show "store_ok db'" using same_keys_ok [OF link] 4 by (metis snd_conv)
  qed
  moreover have "snd (create_scheduled_post now fresh team pr inp db) = snd (with_audit_transaction body db)"
    by (simp add: create_scheduled_post_def body_def link_def split: prod.split sum.split)
  ultimately show ?thesis by simp
qed

lemma get_post_exists: "get_scheduled_post team post db = Inr p \<Longrightarrow> post \<in> set (post_ids db)"
  by (auto simp: get_scheduled_post_def post_ids_def dest: find_SomeD split: option.splits)

lemma store_ok_drop:
  assumes "store_ok db"
  shows "store_ok (db\<lparr>sd_versions := delete_where p (sd_versions db)\<rparr>)"
    "store_ok (db\<lparr>sd_targets := delete_where q (sd_targets db)\<rparr>)"
  using assms unfolding store_ok_defs by (auto intro: distinct_delete_where)

lemma patch_ok:
  assumes "store_ok db"
  shows "store_ok (snd (patch_scheduled_post now team post patch db))"
proof (cases "get_scheduled_post team post db")
  case (Inr existing)
  obtain merged flags where m: "apply_post_patch existing (list_post_versions_for_team_post team post db) patch = (merged, flags)"
    by (cases "apply_post_patch existing (list_post_versions_for_team_post team post db) patch")
  define body :: "unit store_op" where "body = and_then (\<lambda>db. (Inr (), patch_post_columns now team post existing merged flags db)) (\<lambda>_.
     and_then (\<lambda>db. if pf_versions flags then insert_versions post (in_override merged)
                  (db\<lparr>sd_versions := delete_where (\<lambda>v. pv_post_id v = post) (sd_versions db)\<rparr>) else (Inr (), db)) (\<lambda>_ db.
       if pf_target_accounts flags then insert_targets post (in_target_accounts merged)
                  (db\<lparr>sd_targets := delete_where (\<lambda>t. tg_post t = post) (sd_targets db)\<rparr>) else (Inr (), db)))"
  have "store_ok (snd (with_audit_transaction body db))"
  proof (rule transaction_pred [where P = store_ok, OF assms])
    fix x db' assume b: "body db = (Inr x, db')"
    define d1 where "d1 = patch_post_columns now team post existing merged flags db"
    have k: "same_keys db d1" by (simp add: d1_def patch_columns_same_keys)
    have o1: "store_ok d1" using same_keys_ok [OF k assms] .
    have m1: "post \<in> set (post_ids d1)" using get_post_exists [OF Inr] k by (simp add: same_keys_def)
    from b obtain d2 where 2: "(if pf_versions flags then insert_versions post (in_override merged)
          (d1\<lparr>sd_versions := delete_where (\<lambda>v. pv_post_id v = post) (sd_versions d1)\<rparr>) else (Inr (), d1)) = (Inr (), d2)"
      and 3: "(if pf_target_accounts flags then insert_targets post (in_target_accounts merged)
          (d2\<lparr>sd_targets := delete_where (\<lambda>t. tg_post t = post) (sd_targets d2)\<rparr>) else (Inr (), d2)) = (Inr x, db')"
      unfolding body_def d1_def and_then_Inr by auto
    have o2: "store_ok d2 \<and> post \<in> set (post_ids d2)"
    proof (cases "pf_versions flags")
      case True
      with 2 insert_versions_ok [OF store_ok_drop(1) [OF o1, of "\<lambda>v. pv_post_id v = post"], of post "in_override merged"] m1
      show ?thesis by (auto simp: post_ids_def)
    qed (use 2 o1 m1 in auto)
    show "store_ok db'"
    proof (cases "pf_target_accounts flags")
      case True
      with 3 insert_targets_ok [OF store_ok_drop(2) [OF conjunct1 [OF o2], of "\<lambda>t. tg_post t = post"], of post "in_target_accounts merged"] o2
      show ?thesis by (auto simp: post_ids_def)
    qed (use 3 o2 in auto)
  qed
  moreover have "store_ok (snd (complete_review now team post (in_scheduled_at merged) db))"
    using same_keys_ok [OF review_same_keys assms] .
  moreover have "snd (patch_scheduled_post now team post patch db) =
      (if pt_review_complete patch = Some True then snd (complete_review now team post (in_scheduled_at merged) db)
       else if \<not> patch_any flags then db else snd (with_audit_transaction body db))"
    by (simp add: patch_scheduled_post_def Inr m body_def split: prod.split sum.split)
  ultimately show ?thesis using assms by simp
qed (use assms in \<open>simp add: patch_scheduled_post_def\<close>)

lemma event_ok:
  "store_ok db \<Longrightarrow> store_ok (snd (insert_audit_event now fresh e db))" "store_ok db \<Longrightarrow> store_ok (snd (enqueue_audit_event now fresh e db))"
  by (auto simp: insert_audit_event_def enqueue_audit_event_def Let_def store_ok_defs)

lemma pending_drop_ok: "store_ok db \<Longrightarrow> store_ok (db\<lparr>sd_pending := delete_where p (sd_pending db)\<rparr>)"
  unfolding store_ok_defs by (auto intro: distinct_delete_where)

lemma deliver_ok: "store_ok db \<Longrightarrow> store_ok (snd (deliver_events now es db))"
proof (induction es arbitrary: db)
  case (Cons e es)
  from event_ok(1) [OF Cons.prems, of now "ae_id e" e] show ?case
    by (cases "insert_audit_event now (ae_id e) e db"; cases "fst (insert_audit_event now (ae_id e) e db)") (auto intro!: Cons.IH pending_drop_ok)
qed simp

lemma drain_ok: "store_ok db \<Longrightarrow> store_ok (snd (drain_audit_events now db))"
  unfolding drain_audit_events_def by (rule transaction_pred) (metis deliver_ok snd_conv)+

lemma repair_events_ok: "store_ok db \<Longrightarrow> store_ok (snd (insert_repair_events now caller fresh rs db))"
proof (induction rs arbitrary: db)
  case (Cons r rs)
  from event_ok(1) [OF Cons.prems, of now "fresh (rw_id r)" "repair_event caller (fresh (rw_id r)) r"] show ?case
    by (cases "insert_audit_event now (fresh (rw_id r)) (repair_event caller (fresh (rw_id r)) r) db";
        cases "fst (insert_audit_event now (fresh (rw_id r)) (repair_event caller (fresh (rw_id r)) r) db)") (auto intro!: Cons.IH)
qed simp

lemma repair_ok:
  assumes "store_ok db"
  shows "store_ok (snd (repair_future_posted_posts caller fresh now db))"
  unfolding repair_future_posted_posts_def Let_def
proof (rule transaction_pred [where P = store_ok, OF assms])
  define p where "p r \<longleftrightarrow> rw_status r = Posted \<and> now < sp_scheduled_at (rw_post r)" for r
  define d where "d = db\<lparr>sd_posts := update_where p (\<lambda>r. r\<lparr>rw_post := (rw_post r)\<lparr>sp_status := Pending\<rparr>\<rparr>) (sd_posts db)\<rparr>"
  fix x db' assume "(case insert_repair_events now caller fresh (filter (\<lambda>r. rw_status r = Posted \<and> now < sp_scheduled_at (rw_post r)) (sd_posts db))
      (db\<lparr>sd_posts := update_where (\<lambda>r. rw_status r = Posted \<and> now < sp_scheduled_at (rw_post r))
                (\<lambda>r. r\<lparr>rw_post := (rw_post r)\<lparr>sp_status := Pending\<rparr>\<rparr>) (sd_posts db)\<rparr>) of
      (Inl e, db') \<Rightarrow> (Inl e, db') | (Inr _, db') \<Rightarrow> (Inr (length (filter (\<lambda>r. rw_status r = Posted \<and> now < sp_scheduled_at (rw_post r)) (sd_posts db))), db')) = (Inr x, db')"
  then have "(case insert_repair_events now caller fresh (filter p (sd_posts db)) d of
      (Inl e, db') \<Rightarrow> (Inl e, db') | (Inr _, db') \<Rightarrow> (Inr (length (filter p (sd_posts db))), db')) = (Inr x, db')"
    unfolding d_def p_def .
  then have "snd (insert_repair_events now caller fresh (filter p (sd_posts db)) d) = db'"
    by (cases "insert_repair_events now caller fresh (filter p (sd_posts db)) d";
        cases "fst (insert_repair_events now caller fresh (filter p (sd_posts db)) d)") auto
  moreover have "same_keys db d" by (simp add: d_def keys_update)
  ultimately show "store_ok db'" using repair_events_ok [OF same_keys_ok [OF _ assms]] by blast
qed

lemma store_ok_locks: "store_ok db \<Longrightarrow> distinct (map lk_id ls) \<Longrightarrow> store_ok (db\<lparr>sd_locks := ls\<rparr>)"
  by (simp add: store_ok_defs)

lemma lock_ok:
  assumes "store_ok db"
  shows "store_ok (snd (try_acquire_lock now lock duration db))"
proof (cases "find (\<lambda>l. lk_id l = lock) (sd_locks db)")
  case None
  have "distinct (map lk_id (sd_locks db @ [\<lparr>lk_id = lock, lk_at = now, lk_expires = now + duration\<rparr>]))"
    using assms find_None_key [OF None] by (simp add: store_ok_def logs_ok_def)
  then show ?thesis by (simp add: try_acquire_lock_def None store_ok_locks [OF assms] Let_def)
next
  case (Some l)
  have "distinct (map lk_id (update_where (\<lambda>l. lk_id l = lock) (\<lambda>l. l\<lparr>lk_at := now, lk_expires := now + duration\<rparr>) (sd_locks db)))"
    using assms by (subst map_update_where_key) (simp_all add: store_ok_def logs_ok_def)
  then show ?thesis using assms by (simp add: try_acquire_lock_def Some store_ok_locks Let_def)
qed

lemma account_ok: "store_ok db \<Longrightarrow> store_ok (snd (create_account encrypt fresh team ca db))"
  by (auto simp: create_account_def Let_def store_ok_defs account_exists_def team_exists_def split: sum.split if_split)

lemma migrate_ok:
  assumes ok: "store_ok db"
  shows "store_ok (snd (migrate_account_to_team now user account team is_admin db))"
proof (cases "team_exists team db")
  case True
  have "store_ok (db\<lparr>sd_posts := update_where p (on_post (\<lambda>s. s\<lparr>sp_team_id := team\<rparr>) now) (sd_posts db),
      sd_accounts := update_where (\<lambda>a. sa_id a = account) (\<lambda>a. a\<lparr>sa_team_id := team\<rparr>) (sd_accounts db)\<rparr>)" (is "store_ok ?d") for p
  proof -
    have k: "post_ids ?d = post_ids db" "account_ids ?d = account_ids db" "target_keys ?d = target_keys db"
      "version_keys ?d = version_keys db" by (simp_all add: keys_update)
    have "team \<noteq> []" using True ok unfolding team_exists_def store_ok_def teams_named_def by blast
    then have "[] \<notin> sa_team_id ` set (sd_accounts ?d)"
      using ok by (auto simp: store_ok_def accounts_ok_def)
    with ok k show ?thesis
      by (simp add: store_ok_def accounts_ok_def links_ok_def teams_named_def logs_ok_def)
  qed
  then show ?thesis using ok
    by (simp add: migrate_account_to_team_def Let_def split: sum.split)
next
  case False
  then have "find (\<lambda>t. tm_id t = team) (id_teams (sd_identity db)) = None"
    by (auto simp: team_exists_def find_None_iff)
  with ok show ?thesis by (simp add: migrate_account_to_team_def get_team_by_id_def split: sum.split)
qed

lemma delete_account_ok: "store_ok db \<Longrightarrow> store_ok (snd (delete_account team account db))"
  by (simp add: delete_account_def delete_account_rows_ok split: sum.split)

lemma post_step_ok: "post_step db db' \<Longrightarrow> store_ok db \<Longrightarrow> store_ok db'"
  by (induction rule: post_step.induct)
    (simp_all add: create_ok patch_ok event_ok drain_ok repair_ok lock_ok account_ok migrate_ok delete_account_ok
      delete_scheduled_post_def delete_post_rows_ok same_keys_ops [THEN same_keys_ok])

section \<open>The pipeline on this store\<close>

lemma loaded_exact:
  assumes "store_ok db" "get_accounts_by_ids_global db ids = Inr as"
  shows "sa_id ` set as = set ids \<and> (\<forall>a \<in> set as. sa_team_id a \<noteq> [])"
proof -
  have as: "as = filter (\<lambda>a. sa_id a \<in> set ids) (sd_accounts db)" and len: "length as = length ids"
    using assms(2) by (auto simp: get_accounts_by_ids_global_def Let_def split: if_splits)
  have "distinct (map sa_id as)"
    using assms(1) unfolding as by (intro distinct_map_filter) (simp add: store_ok_def accounts_ok_def account_ids_def)
  then have "card (sa_id ` set as) = length ids" using len by (metis distinct_card length_map list.set_map)
  moreover have "sa_id ` set as \<subseteq> set ids" by (auto simp: as)
  ultimately have "sa_id ` set as = set ids"
    by (metis List.finite_set card_length card_subset_eq le_antisym card_mono)
  moreover have "\<forall>a \<in> set as. sa_team_id a \<noteq> []"
    using assms(1) unfolding as store_ok_def accounts_ok_def by (metis filter_is_subset image_eqI subsetD)
  ultimately show ?thesis by blast
qed

interpretation post_loader: account_loader get_accounts_by_ids_global store_ok
  by unfold_locales (auto dest: loaded_exact)

section \<open>Properties of the outbox and the locks\<close>

lemma insert_event_cases:
  "insert_audit_event now (ae_id e) e db = (Inr x, db') \<Longrightarrow>
     sd_pending db' = sd_pending db \<and> ae_id ` set (sd_audit db') = insert (ae_id e) (ae_id ` set (sd_audit db))"
  by (auto simp: insert_audit_event_def fill_event_def Let_def split: if_splits)

lemma deliver_events_ids:
  "deliver_events now es db = (Inr x, db') \<Longrightarrow>
     sd_pending db' = delete_where (\<lambda>e. ae_id e \<in> ae_id ` set es) (sd_pending db) \<and>
     ae_id ` set (sd_audit db') = ae_id ` set es \<union> ae_id ` set (sd_audit db)"
proof (induction es arbitrary: db)
  case Nil
  then show ?case by (simp add: delete_where_def)
next
  case (Cons e es)
  from Cons.prems obtain d where d: "insert_audit_event now (ae_id e) e db = (Inr (), d)"
    and rest: "deliver_events now es (d\<lparr>sd_pending := delete_where (\<lambda>x. ae_id x = ae_id e) (sd_pending d)\<rparr>) = (Inr x, db')"
    by (auto split: prod.splits sum.splits)
  have "delete_where (\<lambda>e. ae_id e \<in> ae_id ` set es) (delete_where (\<lambda>x. ae_id x = ae_id e) xs) =
      delete_where (\<lambda>x. ae_id x \<in> ae_id ` set (e # es)) xs" for xs
    by (auto simp: delete_where_def intro: filter_cong)
  with Cons.IH [OF rest] insert_event_cases [OF d] show ?case by auto
qed

fun run_attempts :: "(instant \<times> string \<times> int) list \<Rightarrow> store_db \<Rightarrow> store_db" where
  "run_attempts [] db = db"
| "run_attempts ((t, lock, d) # as) db = run_attempts as (snd (try_acquire_lock t lock d db))"

definition holds_until :: "string \<Rightarrow> instant \<Rightarrow> store_db \<Rightarrow> bool" where
  "holds_until lock e db \<longleftrightarrow> (case find (\<lambda>l. lk_id l = lock) (sd_locks db) of None \<Rightarrow> False | Some l \<Rightarrow> lk_expires l = e)"

lemma find_append_some: "find p xs = Some x \<Longrightarrow> find p (xs @ ys) = Some x"
  by (induction xs) (auto split: if_splits)

lemma find_update_lock:
  "find (\<lambda>l. lk_id l = lock) (update_where (\<lambda>l. lk_id l = lock') f ls) =
     (if lock = lock' then map_option f (find (\<lambda>l. lk_id l = lock) ls) else find (\<lambda>l. lk_id l = lock) ls)"
  if "\<And>l. lk_id (f l) = lk_id l"
  using that by (induction ls) (auto simp: update_where_def)

lemma acquire_holds: "fst (try_acquire_lock t lock d db) \<Longrightarrow> holds_until lock (t + d) (snd (try_acquire_lock t lock d db))"
  by (auto simp: try_acquire_lock_def holds_until_def Let_def find_append_new find_update_lock split: option.splits if_splits)

lemma held_refuses:
  assumes "holds_until lock e db" "t \<le> e"
  shows "\<not> fst (try_acquire_lock t lock d db) \<and> holds_until lock e (snd (try_acquire_lock t lock' d db))"
proof (cases "find (\<lambda>l. lk_id l = lock) (sd_locks db)")
  case (Some l)
  with assms have l: "\<not> lk_expires l < t" "lk_expires l = e" by (simp_all add: holds_until_def)
  have app: "find (\<lambda>l. lk_id l = lock) (sd_locks db @ [x]) = Some l" for x
    using Some by (metis find_append_some)
  show ?thesis
  proof (cases "lock' = lock")
    case True
    with Some l show ?thesis by (simp add: try_acquire_lock_def holds_until_def)
  next
    case False
    with Some l app show ?thesis
      by (auto simp: try_acquire_lock_def holds_until_def Let_def find_update_lock split: option.split)
  qed
qed (use assms in \<open>simp add: holds_until_def\<close>)

lemma held_through: "holds_until lock e db \<Longrightarrow> list_all (\<lambda>(t, _, _). t \<le> e) as \<Longrightarrow> holds_until lock e (run_attempts as db)"
  by (induction as db rule: run_attempts.induct) (auto dest: held_refuses)

section \<open>Properties\<close>


lemma empty_store_ok: "store_ok empty_store"
  by (simp add: store_ok_defs empty_store_def empty_identity_db_def)



definition ann_store :: store_db where
  "ann_store = empty_store\<lparr>sd_identity := one_user_db\<lparr>id_teams := [\<lparr>tm_id = ''t1'', tm_name = ''T'', tm_ai_enabled = False\<rparr>]\<rparr>,
     sd_accounts := [demo_account]\<rparr>"

lemma ann_store_ok: "store_ok ann_store"
  by (simp add: store_ok_defs ann_store_def empty_store_def one_user_db_def empty_identity_db_def demo_account_def)

definition draft_input :: create_post_input where
  "draft_input = empty_input\<lparr>in_title := ''T'', in_target_accounts := [''a1''], in_draft := True\<rparr>"

lemma draft_prepared:
  "prepare (map (\<lambda>c. [c])) (demo_registry 3) (get_accounts_by_ids_global ann_store) 0 ''t1'' draft_input
     \<lparr>po_check_limits = False, po_require_team = True, po_reject_past = True\<rparr> =
   Inr \<lparr>pr_input = normalize_input draft_input, pr_team = ''t1'', pr_validation =
      \<lparr>vr_valid = True, vr_max_chars = 0, vr_content_length = 0, vr_destinations = []\<rparr>\<rparr>"
  by (simp add: prepare_def raw_override_keys_def draft_input_def empty_input_def normalize_input_def trim_eval
      validate_input_def resolve_targets_def get_accounts_by_ids_global_def ann_store_def empty_store_def
      demo_account_def by_id_of_def Let_def)


text \<open>publishing now or moving a post in the queue never replays stale content. A patch that only
  carries the schedule and the draft and publish-now flags leaves the title, content, visibility and
  media of every post, all targets and all versions as they are in the store, whatever was read before.\<close>
theorem schedule_patch_keeps_content:
  "let db' = snd (patch_scheduled_post now team post
       \<lparr>pt_title = None, pt_content = None, pt_scheduled_at = Some at, pt_target_accounts = None,
        pt_visibility = None, pt_media_ids = None, pt_media_exclude = None, pt_override = None,
        pt_draft = draft, pt_publish_now = publish, pt_review_complete = review\<rparr> db)
   in map (\<lambda>r. (rw_id r, sp_title (rw_post r), sp_content (rw_post r), sp_visibility (rw_post r),
          sp_media_ids (rw_post r), sp_media_exclude (rw_post r))) (sd_posts db') =
      map (\<lambda>r. (rw_id r, sp_title (rw_post r), sp_content (rw_post r), sp_visibility (rw_post r),
          sp_media_ids (rw_post r), sp_media_exclude (rw_post r))) (sd_posts db) \<and>
      sd_targets db' = sd_targets db \<and> sd_versions db' = sd_versions db"
  by (auto simp: patch_scheduled_post_def apply_post_patch_def patch_any_def complete_review_def with_audit_transaction_def
      and_then_def patch_post_columns_def update_where_def set_or_def Let_def split: sum.split prod.split)



text \<open>C13: a job lock is exclusive. After an acquisition at \<open>t\<close> for \<open>d\<close>, whatever attempts on whatever
  locks follow until \<open>t + d\<close>, no attempt on this lock up to then succeeds; an attempt later than that
  does when nobody came in between.\<close>
theorem lock_exclusive:
  assumes "fst (try_acquire_lock t lock d db)" "list_all (\<lambda>(t', _, _). t' \<le> t + d) as"
  shows "(if t' \<le> t + d then \<not> fst (try_acquire_lock t' lock d' (run_attempts as (snd (try_acquire_lock t lock d db)))) else True) \<and>
    (if t + d < t' then fst (try_acquire_lock t' lock d' (snd (try_acquire_lock t lock d db))) else True)"
proof -
  from acquire_holds [OF assms(1)] have h: "holds_until lock (t + d) (snd (try_acquire_lock t lock d db))" .
  from held_refuses [OF held_through [OF this assms(2)], of t' d'] h show ?thesis
    by (auto simp: holds_until_def try_acquire_lock_def [of t'] Let_def split: option.splits)
qed

theorem lock_exclusive_witness:
  "\<not> fst (try_acquire_lock 5 ''l'' 1 (run_attempts [(2, ''m'', 9), (4, ''l'', 9)] (snd (try_acquire_lock 0 ''l'' 5 empty_store))))"
proof -
  have a: "fst (try_acquire_lock 0 ''l'' 5 empty_store)" by (simp add: try_acquire_lock_def empty_store_def)
  show ?thesis using lock_exclusive [OF a, of "[(2, ''m'', 9), (4, ''l'', 9)]" 5 1] by simp
qed

text \<open>An administrator's retry requeues a target whose publication outcome is unknown, and a patch of the
  target list requeues one that was already published.\<close>

lemma retry_requeues_unknown:
  assumes "t \<in> set (sd_targets db)" "tg_post t = rw_id r" "tg_status t = Processing" "tg_error t = outcome_unknown"
    and "r \<in> set (sd_posts db)" "rw_status r = Failed"
  shows "t\<lparr>tg_status := Pending, tg_error := []\<rparr> \<in> set (sd_targets (snd (admin_retry_failed_post now (rw_id r) db)))"
  using assms by (force simp: admin_retry_failed_post_def Let_def count_where_0 image_iff)

lemma insert_targets_pending:
  assumes "insert_targets post accounts (db\<lparr>sd_targets := delete_where (\<lambda>t. tg_post t = post) (sd_targets db)\<rparr>) = (Inr (), db')"
    and "t \<in> set (sd_targets db')" "tg_post t = post"
  shows "tg_status t = Pending"
proof -
  from assms(1) have "sd_targets db' = delete_where (\<lambda>t. tg_post t = post) (sd_targets db) @ map (new_target post) accounts"
    by (auto simp: insert_targets_def split: if_splits)
  with assms(2,3) have "t \<in> new_target post ` set accounts" by auto
  then show ?thesis by (auto simp: new_target_def)
qed

end
