(* ===== verification/Media_Store.thy ===== *)
theory Media_Store
  imports Post_Store
begin

text \<open>
  The media library: the content-addressed files of \<open>internal/store/media_storage.go\<close> and the rows of
  \<open>internal/store/sqlite/media.go\<close>. A file system maps paths to contents; \<open>sha\<close> is the hexadecimal digest
  of a content; the operating system's refusals are the argument \<open>refuse\<close>, by the name of the call.
\<close>

section \<open>Paths\<close>

definition media_dir :: string where "media_dir = ''data/media''"

definition valid_media_segment :: "string \<Rightarrow> unit res" where
  "valid_media_segment seg =
     (if seg = [] \<or> seg = ''.'' \<or> seg = ''..'' \<or> list_ex (\<lambda>c. c = CHR ''/'' \<or> c = CHR 0x5C) seg
      then Err ''store: invalid media path segment'' else Ok ())"

text \<open>\<open>filepath.Clean\<close> on a relative path, by its components, and \<open>filepath.Join\<close>.\<close>

fun clean_components :: "string list \<Rightarrow> string list \<Rightarrow> string list" where
  "clean_components acc [] = rev acc"
| "clean_components acc (c # cs) =
     (if c = [] \<or> c = ''.'' then clean_components acc cs
      else if c = ''..'' \<and> acc \<noteq> [] \<and> hd acc \<noteq> ''..'' then clean_components (tl acc) cs
      else clean_components (c # acc) cs)"

definition path_join :: "string list \<Rightarrow> string" where
  "path_join parts =
     (let cs = clean_components [] (concat (map (split_on (CHR ''/'')) (filter (\<lambda>p. p \<noteq> []) parts)))
      in if cs = [] then ''.'' else join_with ''/'' cs)"

definition media_path :: "string \<Rightarrow> string \<Rightarrow> string res" where
  "media_path team hash =
     (case valid_media_segment team of
        Inl e \<Rightarrow> Err e
      | Inr _ \<Rightarrow>
          (case valid_media_segment hash of
             Inl e \<Rightarrow> Err e
           | Inr _ \<Rightarrow>
               (let root = path_join [media_dir]; p = path_join [root, team, hash] in
                if \<not> has_prefix p (root @ ''/'') then Err ''store: media path escapes root'' else Ok p)))"

definition get_media_file_path :: "string \<Rightarrow> string \<Rightarrow> string res" where
  "get_media_file_path team hash = media_path team hash"

section \<open>Files\<close>

type_synonym files = "string \<Rightarrow> string option"

text \<open>\<open>SaveMediaFile\<close>: the temporary file is named by \<open>tmp\<close> and gone at every return; a partial write
  only ever reaches the temporary file.\<close>

definition save_media_file ::
  "(string \<Rightarrow> string) \<Rightarrow> (string \<Rightarrow> string option) \<Rightarrow> string \<Rightarrow> string \<Rightarrow> files \<Rightarrow> (string \<times> int) res \<times> files" where
  "save_media_file sha refuse team content fs =
     (case valid_media_segment team of
        Inl e \<Rightarrow> (Err e, fs)
      | Inr _ \<Rightarrow>
          (case refuse ''mkdir'' of Some e \<Rightarrow> (Err e, fs)
           | None \<Rightarrow>
               (case refuse ''create'' of Some e \<Rightarrow> (Err e, fs)
                | None \<Rightarrow>
                    (case refuse ''copy'' of Some e \<Rightarrow> (Err e, fs)
                     | None \<Rightarrow>
                         (let hash = sha content; final = path_join [media_dir, team, hash] in
                          if fs final \<noteq> None then (Ok (hash, int (length content)), fs)
                          else (case refuse ''rename'' of Some e \<Rightarrow> (Err e, fs)
                                | None \<Rightarrow> (Ok (hash, int (length content)), fs(final \<mapsto> content))))))))"

definition delete_media_file :: "string \<Rightarrow> string \<Rightarrow> files \<Rightarrow> unit res \<times> files" where
  "delete_media_file team hash fs =
     (case media_path team hash of
        Inl e \<Rightarrow> (Err e, fs)
      | Inr p \<Rightarrow> if fs p = None then (Err ''no such file'', fs) else (Ok (), fs(p := None)))"

section \<open>Rows\<close>

definition find_media_item_by_team_sha :: "string \<Rightarrow> string \<Rightarrow> store_db \<Rightarrow> media_row option" where
  "find_media_item_by_team_sha team sha db =
     (case sort_key md_created (filter (\<lambda>m. md_team m = team \<and> md_sha m = sha) (sd_media db)) of
        [] \<Rightarrow> None | m # _ \<Rightarrow> Some m)"

definition create_media_item :: "instant \<Rightarrow> string \<Rightarrow> media_row \<Rightarrow> media_row store_op" where
  "create_media_item now fresh item db =
     (let i = (if md_id item = [] then fresh else md_id item); row = item\<lparr>md_id := i, md_created := now\<rparr> in
      if i \<in> md_id ` set (sd_media db) \<or> \<not> team_exists (md_team item) db \<or>
         list_ex (\<lambda>m. md_team m = md_team item \<and> md_sha m = md_sha item) (sd_media db)
      then (Inl Constraint, db)
      else (let db' = db\<lparr>sd_media := sd_media db @ [row]\<rparr> in (get_media_item_by_id (md_team item) i db', db')))"

definition list_team_media :: "string \<Rightarrow> store_db \<Rightarrow> media_row list" where
  "list_team_media team db = sort_key (\<lambda>m. - md_created m) (filter (\<lambda>m. md_team m = team) (sd_media db))"

definition update_media_item_filename :: "string \<Rightarrow> string \<Rightarrow> string \<Rightarrow> media_row store_op" where
  "update_media_item_filename team media filename db =
     (let p = (\<lambda>m. md_id m = media \<and> md_team m = team) in
      if count_where p (sd_media db) = 0 then (Inl No_Rows, db)
      else (let db' = db\<lparr>sd_media := update_where p (\<lambda>m. m\<lparr>md_filename := filename\<rparr>) (sd_media db)\<rparr>
            in (get_media_item_by_id team media db', db')))"

definition delete_media_item :: "string \<Rightarrow> string \<Rightarrow> store_db \<Rightarrow> store_db" where
  "delete_media_item team media db =
     (let gone = md_id ` {m \<in> set (sd_media db). md_id m = media \<and> md_team m = team} in
      db\<lparr>sd_media := delete_where (\<lambda>m. md_id m = media \<and> md_team m = team) (sd_media db),
         sd_mappings := delete_where (\<lambda>r. mm_media r \<in> gone) (sd_mappings db)\<rparr>)"

section \<open>Lemmas\<close>

definition plain_segment :: "string \<Rightarrow> bool" where
  "plain_segment s \<longleftrightarrow> s \<noteq> [] \<and> s \<noteq> ''.'' \<and> s \<noteq> ''..'' \<and> CHR ''/'' \<notin> set s"

lemma valid_segment_plain: "valid_media_segment s = Ok u \<Longrightarrow> plain_segment s \<and> CHR 0x5C \<notin> set s"
  by (auto simp: valid_media_segment_def plain_segment_def list_ex_iff split: if_splits)

lemma split_plain: "CHR ''/'' \<notin> set s \<Longrightarrow> split_on (CHR ''/'') s = [s]"
  by (induction s) auto

lemma clean_plain: "list_all plain_segment cs \<Longrightarrow> clean_components acc cs = rev acc @ cs"
  by (induction cs arbitrary: acc) (auto simp: plain_segment_def)

lemma media_dir_split: "split_on (CHR ''/'') media_dir = [''data'', ''media'']" "media_dir \<noteq> []"
  by (simp_all add: media_dir_def)

lemma path_join_media: "plain_segment t \<Longrightarrow> plain_segment h \<Longrightarrow> path_join [media_dir, t, h] = media_dir @ ''/'' @ t @ ''/'' @ h"
proof -
  assume p: "plain_segment t" "plain_segment h"
  then have "clean_components [] [''data'', ''media'', t, h] = [''data'', ''media'', t, h]"
    by (subst clean_plain) (simp_all add: plain_segment_def)
  with p show ?thesis
    unfolding path_join_def by (simp add: plain_segment_def split_plain media_dir_split) (simp add: media_dir_def)
qed

lemma path_join_root: "path_join [media_dir] = media_dir"
  unfolding path_join_def by (simp add: media_dir_split) (simp add: media_dir_def)

lemma media_path_eq:
  "media_path team hash =
     (case valid_media_segment team of Inl e \<Rightarrow> Err e
      | Inr _ \<Rightarrow> case valid_media_segment hash of Inl e \<Rightarrow> Err e | Inr _ \<Rightarrow> Ok (media_dir @ ''/'' @ team @ ''/'' @ hash))"
  by (auto simp: media_path_def path_join_root path_join_media has_prefix_iff Let_def
      dest!: valid_segment_plain split: sum.split)

lemma plain_media_inject:
  assumes "plain_segment t" "plain_segment t'" "t @ ''/'' @ h = t' @ ''/'' @ h'"
  shows "t = t' \<and> h = h'"
proof -
  have "takeWhile (\<lambda>c. c \<noteq> CHR ''/'') (s @ ''/'' @ r) = s" if "plain_segment s" for s r
    using that by (auto simp: plain_segment_def takeWhile_tail)
  with assms show ?thesis by (metis append_same_eq same_append_eq)
qed

section \<open>Properties\<close>

text \<open>C20: no team id and no hash can reach outside the media directory. Whatever \<open>GetMediaFilePath\<close>
  accepts is the file named by the hash in the team's directory, neither name contains a separator or is
  a dot segment, and different pairs get different files.\<close>
theorem media_path_confined:
  "case get_media_file_path team hash of
     Inl _ \<Rightarrow> True
   | Inr p \<Rightarrow> p = media_dir @ ''/'' @ team @ ''/'' @ hash \<and> list_all (\<lambda>c. c \<noteq> CHR ''/'' \<and> c \<noteq> CHR 0x5C) (team @ hash) \<and>
       {team, hash} \<inter> {[], ''.'', ''..''} = {} \<and>
       (if get_media_file_path team' hash' = Inr p then team' = team \<and> hash' = hash else True)"
proof (cases "get_media_file_path team hash")
  case (Inr p)
  have inj: "team' = team \<and> hash' = hash" if "get_media_file_path team' hash' = Inr p"
  proof -
    from that have "plain_segment team'" "p = media_dir @ ''/'' @ team' @ ''/'' @ hash'"
      by (auto simp: get_media_file_path_def media_path_eq dest!: valid_segment_plain split: sum.splits)
    moreover from Inr have "plain_segment team" "p = media_dir @ ''/'' @ team @ ''/'' @ hash"
      by (auto simp: get_media_file_path_def media_path_eq dest!: valid_segment_plain split: sum.splits)
    ultimately show ?thesis using plain_media_inject [of team' team hash' hash] by simp
  qed
  with Inr show ?thesis
    by (auto simp: get_media_file_path_def media_path_eq plain_segment_def list_all_iff dest!: valid_segment_plain split: sum.splits)
qed simp



end
