(* ===== verification/Content.thy ===== *)
theory Content
  imports Post_Service
begin

text \<open>
  What becomes of a post's text on its way out: \<open>internal/domain/templatevars.go\<close> (the variables of
  templates) and \<open>internal/hashtag\<close> (tags and links with their byte offsets). The Unicode classes L and N
  and \<open>strings.ToLower\<close> on arbitrary text are the parameters \<open>letter\<close>, \<open>number\<close> and \<open>lower\<close>.
\<close>

section \<open>Template variables\<close>

definition is_digit :: "char \<Rightarrow> bool" where
  "is_digit c \<longleftrightarrow> digit_val c \<noteq> None"

text \<open>The match of \<open>\{tag([+-]\d+)\}\<close> at the front: the signed number and the length of the match.\<close>

definition offset_match :: "string \<Rightarrow> string \<Rightarrow> (string \<times> nat) option" where
  "offset_match tag s =
     (let head = CHR 0x7B # tag; r = drop (length head) s in
      if \<not> has_prefix s head then None
      else (case r of [] \<Rightarrow> None
            | sign # t \<Rightarrow>
                (let ds = takeWhile is_digit t in
                 if (sign = CHR ''+'' \<or> sign = CHR ''-'') \<and> ds \<noteq> [] \<and> has_prefix (drop (length ds) t) [CHR 0x7D]
                 then Some (sign # ds, length head + length ds + 2) else None)))"

text \<open>\<open>parseOffset\<close> on a match: a number out of the range of \<open>int\<close> counts as zero.\<close>

definition parse_offset :: "string \<Rightarrow> int" where
  "parse_offset num = (case atoi num of None \<Rightarrow> 0 | Some n \<Rightarrow> n)"

definition clamp_day :: "int \<Rightarrow> int" where
  "clamp_day d = (if d < 1 then 1 else if d > 31 then 31 else d)"

definition clamp_month :: "int \<Rightarrow> int" where
  "clamp_month m = max 1 (min 12 m)"

definition zero_pad2 :: "int \<Rightarrow> string" where
  "zero_pad2 n = (if n < 10 then CHR ''0'' # itoa n else itoa n)"

function replace_offsets :: "string \<Rightarrow> (int \<Rightarrow> string) \<Rightarrow> string \<Rightarrow> string" where
  "replace_offsets tag f s =
     (case s of [] \<Rightarrow> []
      | c # t \<Rightarrow> (case offset_match tag s of
            None \<Rightarrow> c # replace_offsets tag f t
          | Some (num, n) \<Rightarrow> f (parse_offset num) @ replace_offsets tag f (drop (max 1 n) s)))"
  by pat_completeness auto
termination
  by (relation "measure (\<lambda>(_, _, s). length s)") auto

declare replace_offsets.simps [simp del]

definition weekday_names :: "string list" where
  "weekday_names = [''Sun'', ''Mon'', ''Tue'', ''Wed'', ''Thu'', ''Fri'', ''Sat'']"

definition var :: "string \<Rightarrow> string" where
  "var name = CHR 0x7B # name @ [CHR 0x7D]"

fun replace_each :: "(string \<times> string) list \<Rightarrow> string \<Rightarrow> string" where
  "replace_each [] s = s"
| "replace_each ((old, new) # rs) s = replace_each rs (replace_all s old new)"

definition counter_text :: "int option \<Rightarrow> string" where
  "counter_text c = (case c of None \<Rightarrow> [] | Some n \<Rightarrow> itoa n)"

definition expand_dynamic_variables ::
  "string \<Rightarrow> instant \<Rightarrow> int option \<Rightarrow> instant option \<Rightarrow> int option \<Rightarrow> string" where
  "expand_dynamic_variables content published_at counter main_event_at main_counter =
     (if content = [] then []
      else (case civil_of utc published_at of (y, m, d) \<Rightarrow>
        (let wd = weekday_of utc published_at;
             s1 = replace_offsets ''day'' (\<lambda>o'. zero_pad2 (clamp_day (wrap64 (d + o')))) content;
             s2 = replace_offsets ''month'' (\<lambda>o'. zero_pad2 (clamp_month (wrap64 (m + o')))) s1;
             s3 = replace_each [(var ''year'', itoa y), (var ''month'', zero_pad2 m), (var ''day'', zero_pad2 d),
                    (var ''weekday'', itoa wd), (var ''weekday_name'', weekday_names ! nat wd),
                    (var ''counter'', counter_text counter), (var ''main_counter'', counter_text main_counter)] s2
         in (case main_event_at of
               None \<Rightarrow> replace_each [(var ''main_day'', []), (var ''main_month'', []), (var ''main_weekday_name'', [])] s3
             | Some mt \<Rightarrow>
                 (case civil_of utc mt of (_, mm, md) \<Rightarrow>
                    replace_each [(var ''main_day'', zero_pad2 md), (var ''main_month'', zero_pad2 mm),
                      (var ''main_weekday_name'', weekday_names ! nat (weekday_of utc mt))] s3)))))"

section \<open>Links and hashtags\<close>

record text_match =
  ma_start :: nat
  ma_end :: nat
  ma_display :: string

definition url_trim_set :: "char list" where
  "url_trim_set = ''.,;:!?)]'' @ [CHR 0x7D, CHR 0x27, CHR 0x22]"

definition trim_url :: "string \<Rightarrow> string" where
  "trim_url raw = rev (dropWhile (\<lambda>c. c \<in> set url_trim_set) (rev raw))"

function url_scan :: "nat \<Rightarrow> string \<Rightarrow> text_match list" where
  "url_scan pos s =
     (case s of [] \<Rightarrow> []
      | c # t \<Rightarrow>
          (let n = url_length s in
           if n = 0 then url_scan (pos + 1) t
           else (let trimmed = trim_url (take n s); rest = url_scan (pos + n) (drop n s) in
                 if trimmed = [] then rest
                 else \<lparr>ma_start = pos, ma_end = pos + length trimmed, ma_display = trimmed\<rparr> # rest)))"
  by pat_completeness auto
termination
  by (relation "measure (\<lambda>(_, s). length s)") auto

declare url_scan.simps [simp del]

definition url_matches :: "string \<Rightarrow> text_match list" where
  "url_matches text = url_scan 0 text"

text \<open>The bytes of the longest run of tag runes at the front.\<close>

function tag_run :: "(nat \<Rightarrow> bool) \<Rightarrow> string \<Rightarrow> nat" where
  "tag_run tag_rune s =
     (if s = [] then 0
      else (case decode_bytes (map byte_of s) of
              (r, w) \<Rightarrow> if tag_rune r then min (max 1 w) (length s) + tag_run tag_rune (drop (max 1 w) s) else 0))"
  by pat_completeness auto
termination
  by (relation "measure (\<lambda>(_, s). length s)") auto

declare tag_run.simps [simp del]

function tag_scan :: "(nat \<Rightarrow> bool) \<Rightarrow> nat \<Rightarrow> string \<Rightarrow> text_match list" where
  "tag_scan tag_rune pos s =
     (case s of [] \<Rightarrow> []
      | c # t \<Rightarrow>
          (let n = (if c = CHR ''#'' then tag_run tag_rune t else 0) in
           if n = 0 then tag_scan tag_rune (pos + 1) t
           else \<lparr>ma_start = pos, ma_end = pos + 1 + n, ma_display = take n t\<rparr> #
                tag_scan tag_rune (pos + 1 + n) (drop n t)))"
  by pat_completeness auto
termination
  by (relation "measure (\<lambda>(_, _, s). length s)") auto

declare tag_scan.simps [simp del]

definition is_word_byte :: "char \<Rightarrow> bool" where
  "is_word_byte c \<longleftrightarrow> word_char c"

definition tag_matches :: "(nat \<Rightarrow> bool) \<Rightarrow> (nat \<Rightarrow> bool) \<Rightarrow> string \<Rightarrow> text_match list" where
  "tag_matches letter number text =
     filter (\<lambda>m. \<not> list_ex (\<lambda>u. ma_start u \<le> ma_start m \<and> ma_start m < ma_end u) (url_matches text) \<and>
         \<not> (ma_start m > 0 \<and> (let prev = text ! (ma_start m - 1) in prev = CHR ''#'' \<or> is_word_byte prev)) \<and>
         list_ex letter (runes (ma_display m)))
       (tag_scan (\<lambda>r. letter r \<or> number r \<or> r = 95) 0 text)"

definition tag_normalize :: "(string \<Rightarrow> string) \<Rightarrow> string \<Rightarrow> string" where
  "tag_normalize lower display = lower (trim_prefix display ''#'')"

definition tag_extract ::
  "(string \<Rightarrow> string) \<Rightarrow> (nat \<Rightarrow> bool) \<Rightarrow> (nat \<Rightarrow> bool) \<Rightarrow> string \<Rightarrow> (string \<times> string) list" where
  "tag_extract lower letter number text =
     dedup_by fst [] (map (\<lambda>m. (tag_normalize lower (ma_display m), ma_display m)) (tag_matches letter number text))"

section \<open>Lemmas\<close>

lemma tag_run_le: "tag_run p s \<le> length s"
proof (induction p s rule: tag_run.induct)
  case (1 p s)
  obtain r w where d: "decode_bytes (map byte_of s) = (r, w)" by (cases "decode_bytes (map byte_of s)")
  have "tag_run p s = (if s = [] then 0 else if p r then min (max 1 w) (length s) + tag_run p (drop (max 1 w) s) else 0)"
    by (subst tag_run.simps) (simp add: d)
  with 1 [OF _ d [symmetric]] show ?case by (auto simp: min_def)
qed

text \<open>A match lies in the text at its offsets, after a number sign, and starts behind the one before.\<close>

definition tag_at :: "string \<Rightarrow> nat \<Rightarrow> text_match \<Rightarrow> bool" where
  "tag_at s pos m \<longleftrightarrow> pos \<le> ma_start m \<and> ma_start m + 1 < ma_end m \<and> ma_end m \<le> pos + length s \<and>
     s ! (ma_start m - pos) = CHR ''#'' \<and>
     ma_display m = take (ma_end m - ma_start m - 1) (drop (ma_start m - pos + 1) s)"

lemma tag_at_drop: "k \<le> length s \<Longrightarrow> tag_at (drop k s) (pos + k) m \<Longrightarrow> tag_at s pos m"
proof -
  assume k: "k \<le> length s" and t: "tag_at (drop k s) (pos + k) m"
  define a where "a = ma_start m - (pos + k)"
  have a: "ma_start m = pos + k + a" using t by (simp add: tag_at_def a_def)
  from t k show ?thesis unfolding tag_at_def a by (simp add: add.commute add.left_commute)
qed

lemma tag_scan_at:
  "list_all (tag_at s pos) (tag_scan p pos s) \<and> sorted_wrt (\<lambda>m m'. ma_end m \<le> ma_start m') (tag_scan p pos s)"
proof (induction p pos s rule: tag_scan.induct)
  case (1 p pos s)
  show ?case
  proof (cases s)
    case Nil
    then show ?thesis by (simp add: tag_scan.simps)
  next
    case (Cons c t)
    define n where "n = (if c = CHR ''#'' then tag_run p t else 0)"
    show ?thesis
    proof (cases "n = 0")
      case True
      from 1(1) [OF Cons n_def True] Cons have ih: "list_all (tag_at (drop 1 s) (pos + 1)) (tag_scan p (pos + 1) t)"
        "sorted_wrt (\<lambda>m m'. ma_end m \<le> ma_start m') (tag_scan p (pos + 1) t)" by simp_all
      have "tag_scan p pos s = tag_scan p (pos + 1) t"
        using True by (subst tag_scan.simps) (simp add: Cons n_def [symmetric] Let_def)
      moreover have "list_all (tag_at s pos) (tag_scan p (pos + 1) t)"
        using ih(1) tag_at_drop [of 1 s pos] by (auto simp: list_all_iff Cons)
      ultimately show ?thesis using ih(2) by simp
    next
      case False
      let ?m = "\<lparr>ma_start = pos, ma_end = pos + 1 + n, ma_display = take n t\<rparr>"
      have le: "n \<le> length t" using tag_run_le by (simp add: n_def)
      from 1(2) [OF Cons n_def False] Cons have ih: "list_all (tag_at (drop (1 + n) s) (pos + (1 + n))) (tag_scan p (pos + 1 + n) (drop n t))"
        "sorted_wrt (\<lambda>m m'. ma_end m \<le> ma_start m') (tag_scan p (pos + 1 + n) (drop n t))" by simp_all
      have eq: "tag_scan p pos s = ?m # tag_scan p (pos + 1 + n) (drop n t)"
        using False by (subst tag_scan.simps) (simp add: Cons n_def [symmetric] Let_def)
      have "c = CHR ''#''" using False by (simp add: n_def split: if_splits)
      then have "tag_at s pos ?m" using False le by (simp add: tag_at_def Cons)
      moreover have "list_all (tag_at s pos) (tag_scan p (pos + 1 + n) (drop n t))"
        using ih(1) tag_at_drop [of "1 + n" s pos] le by (auto simp: list_all_iff Cons)
      moreover have "list_all (\<lambda>m. ma_end ?m \<le> ma_start m) (tag_scan p (pos + 1 + n) (drop n t))"
        using ih(1) by (auto simp: list_all_iff tag_at_def)
      ultimately show ?thesis using ih(2) by (simp add: eq list_all_iff)
    qed
  qed
qed

lemma replace_all_no_match: "CHR 0x7B \<notin> set s \<Longrightarrow> replace_all s (CHR 0x7B # p) q = s"
proof -
  assume "CHR 0x7B \<notin> set s"
  then have "replace_all_aux 0 (CHR 0x7B # p) q s = s" by (induction s) auto
  then show ?thesis by (simp add: replace_all_def)
qed

lemma replace_each_no_match: "CHR 0x7B \<notin> set s \<Longrightarrow> list_all (\<lambda>(old, _). \<exists>p. old = CHR 0x7B # p) rs \<Longrightarrow> replace_each rs s = s"
  by (induction rs s rule: replace_each.induct) (auto simp: replace_all_no_match)

lemma replace_offsets_no_match: "CHR 0x7B \<notin> set s \<Longrightarrow> replace_offsets tag f s = s"
proof (induction s)
  case (Cons c s)
  then have "offset_match tag (c # s) = None" by (auto simp: offset_match_def)
  with Cons show ?case by (subst replace_offsets.simps) simp
qed (simp add: replace_offsets.simps)

section \<open>Properties\<close>

text \<open>A text without an opening brace is published as it was written: expanding the template
  variables changes nothing, whatever the time and the counters.\<close>
theorem expand_plain_text:
  "expand_dynamic_variables (filter (\<lambda>c. c \<noteq> CHR 0x7B) s) at counter main main_counter = filter (\<lambda>c. c \<noteq> CHR 0x7B) s"
proof -
  define t where "t = filter (\<lambda>c. c \<noteq> CHR 0x7B) s"
  have n: "CHR 0x7B \<notin> set t" by (simp add: t_def)
  have "expand_dynamic_variables t at counter main main_counter = t"
    by (simp add: expand_dynamic_variables_def replace_offsets_no_match [OF n] replace_all_no_match [OF n] var_def Let_def
        split: prod.split option.split)
  then show ?thesis by (simp add: t_def)
qed

text \<open>C38: the hashtag matches of a text carry exact byte offsets: every match starts at a number sign,
  its display text is what stands between it and the match's end, matches come in order without
  overlapping, contain a letter, and do not start inside a link; and the tags extracted have pairwise
  different keys.\<close>
theorem tag_matches_exact:
  "list_all (\<lambda>m. ma_end m \<le> length text \<and> text ! ma_start m = CHR ''#'' \<and>
       ma_display m = take (ma_end m - ma_start m - 1) (drop (ma_start m + 1) text) \<and> list_ex letter (runes (ma_display m)) \<and>
       list_all (\<lambda>u. ma_start m < ma_start u \<or> ma_end u \<le> ma_start m) (url_matches text))
     (tag_matches letter number text) \<and>
   sorted_wrt (\<lambda>m m'. ma_end m \<le> ma_start m') (tag_matches letter number text) \<and>
   distinct (map fst (tag_extract lower letter number text))"
proof -
  let ?p = "\<lambda>r. letter r \<or> number r \<or> r = 95"
  have "list_all (tag_at text 0) (tag_matches letter number text)"
    using conjunct1 [OF tag_scan_at [of "text" 0 ?p]] by (simp add: tag_matches_def list_all_iff)
  moreover have "sorted_wrt (\<lambda>m m'. ma_end m \<le> ma_start m') (tag_matches letter number text)"
    using conjunct2 [OF tag_scan_at [of "text" 0 ?p]] by (simp add: tag_matches_def sorted_wrt_filter)
  moreover have "distinct (map fst (tag_extract lower letter number text))"
    using distinct_dedup_by unfolding tag_extract_def by blast
  ultimately show ?thesis
    by (auto simp: list_all_iff tag_at_def tag_matches_def list_ex_iff not_le not_less)
qed

end
