(* ===== verification/Publisher.thy ===== *)
theory Publisher
  imports Media_Store Content
begin

text \<open>
  The publication worker of \<open>internal/scheduler/scheduler.go\<close> (\<open>enqueueDuePosts\<close>, \<open>processPost\<close>,
  \<open>failPost\<close>, \<open>syncMediaToProvider\<close>, \<open>syncOnePostTargetMetrics\<close>), with \<open>scheduler/audit.go\<close>,
  \<open>socialtokens\<close>, \<open>provider/remote_post_id.go\<close> and \<open>provider/metrics_url.go\<close>. A worker is a program
  counter and what its frame holds; one step runs from one commit point of the code to the next, so the
  steps of several workers, of the poller and of the API interleave. The environment of a step is its
  clock, its fresh ids, the errors of the database connection, the cipher, the file system and the
  registered providers. The provider answers a publish call in one of three ways; the third one, any
  error that is neither a rejection nor a rate limit, says nothing about whether the post went out.
\<close>

section \<open>Providers\<close>

record publish_auth =
  au_access :: string
  au_refresh :: string

record publish_request =
  pq_content :: string
  pq_media :: "string list"
  pq_visibility :: string
  pq_scheduled_at :: "instant option"
  pq_spoiler :: string
  pq_sensitive :: bool

record publish_result =
  pb_remote :: string
  pb_url :: string
  pb_metadata :: "(string \<times> string) list"

datatype publish_answer = Published publish_result | Rejected string | Uncertain string bool

record provider_impl =
  im_refresh :: "(instance_row \<Rightarrow> string \<Rightarrow> string \<Rightarrow> (string \<times> string \<times> instant option) res) option"
  im_upload :: "social_account \<Rightarrow> publish_auth \<Rightarrow> string \<Rightarrow> string \<Rightarrow> string \<Rightarrow> string res"
  im_publish :: "social_account \<Rightarrow> publish_auth \<Rightarrow> publish_request \<Rightarrow> publish_answer"
  im_metrics :: "social_account \<Rightarrow> publish_auth \<Rightarrow> string \<Rightarrow> (string \<times> int) list res"
  im_account_metrics :: "social_account \<Rightarrow> publish_auth \<Rightarrow> (string \<times> int) list res"

record env =
  en_now :: instant
  en_attempt :: string
  en_event :: string
  en_fail :: "string \<Rightarrow> string option"
  en_describe :: "store_error \<Rightarrow> string"
  en_prepare_error :: "prepare_error \<Rightarrow> string"
  en_providers :: "string \<Rightarrow> provider_impl option"
  en_encrypt :: "string \<Rightarrow> string res"
  en_decrypt :: "string \<Rightarrow> string res"
  en_open :: "string \<Rightarrow> string res"
  en_lower :: "string \<Rightarrow> string"
  en_letter :: "nat \<Rightarrow> bool"
  en_number :: "nat \<Rightarrow> bool"

text \<open>A store call under the connection's errors: \<open>en_fail\<close> names the call that fails and how.\<close>

definition checked :: "env \<Rightarrow> string \<Rightarrow> 'a store_op \<Rightarrow> store_db \<Rightarrow> 'a res \<times> store_db" where
  "checked e call f db =
     (case en_fail e call of
        Some err \<Rightarrow> (Err err, db)
      | None \<Rightarrow> (case f db of (Inl err, db') \<Rightarrow> (Err (en_describe e err), db') | (Inr x, db') \<Rightarrow> (Ok x, db')))"

definition always :: "(store_db \<Rightarrow> store_db) \<Rightarrow> unit store_op" where
  "always f db = (Inr (), f db)"

definition reading :: "(store_db \<Rightarrow> store_error + 'a) \<Rightarrow> 'a store_op" where
  "reading f db = (f db, db)"

definition registry_get :: "env \<Rightarrow> string \<Rightarrow> provider_impl option" where
  "registry_get e name = en_providers e (to_lower name)"

definition metadata_get :: "(string \<times> string) list \<Rightarrow> string \<Rightarrow> string" where
  "metadata_get m k = (case map_of m k of None \<Rightarrow> [] | Some v \<Rightarrow> v)"

definition resolve_remote_post_id :: "string \<Rightarrow> publish_result \<Rightarrow> string" where
  "resolve_remote_post_id name r =
     (let uri = trim_space (metadata_get (pb_metadata r) ''uri'') in
      if to_lower (trim_space name) = ''bluesky'' \<and> uri \<noteq> [] then uri else trim_space (pb_remote r))"

definition metrics_published_url :: "social_account \<Rightarrow> string \<Rightarrow> (string \<times> string) list \<Rightarrow> string" where
  "metrics_published_url account url meta =
     (let uri = trim_space (metadata_get meta ''uri'') in
      if sa_provider account = ''bluesky'' \<and> uri \<noteq> [] then uri else trim_space url)"

definition decrypt_optional :: "env \<Rightarrow> string \<Rightarrow> string res" where
  "decrypt_optional e c = (if c = [] then Ok [] else en_decrypt e c)"

section \<open>Token refresh\<close>

definition ensure_mastodon_fresh :: "env \<Rightarrow> social_account \<Rightarrow> store_db \<Rightarrow> social_account res \<times> store_db" where
  "ensure_mastodon_fresh e account db =
     (if sa_provider account \<noteq> ''mastodon'' \<or> sa_instance_id account = [] then (Ok account, db)
      else (case sa_token_expires_at account of
              None \<Rightarrow> (Ok account, db)
            | Some t \<Rightarrow>
                if t - en_now e > 120 * nanos then (Ok account, db)
                else (case decrypt_optional e (sa_refresh_token account) of
                        Inl _ \<Rightarrow> (Ok account, db)
                      | Inr plain \<Rightarrow>
                          if plain = [] then (Ok account, db)
                          else (case registry_get e (sa_provider account) of
                                  None \<Rightarrow> (Ok account, db)
                                | Some impl \<Rightarrow>
                                    (case im_refresh impl of
                                       None \<Rightarrow> (Ok account, db)
                                     | Some refresher \<Rightarrow>
                                         (case checked e ''instance'' (reading (get_provider_instance_by_id (sa_instance_id account))) db of
                                            (Inl err, _) \<Rightarrow> (Err err, db)
                                          | (Inr inst, _) \<Rightarrow>
                                              (case decrypt_optional e (pi_secret inst) of
                                                 Inl err \<Rightarrow> (Err err, db)
                                               | Inr secret \<Rightarrow>
                                                   if secret = [] then (Ok account, db)
                                                   else (case refresher inst secret plain of
                                                           Inl err \<Rightarrow> (Err err, db)
                                                         | Inr (access, new_refresh, ex) \<Rightarrow>
                                                             (case checked e ''tokens'' (update_social_account_tokens (en_encrypt e)
                                                                  (sa_id account) access (if new_refresh = [] then plain else new_refresh) ex) db of
                                                                (Inl err, db') \<Rightarrow> (Err err, db')
                                                              | (Inr _, db') \<Rightarrow>
                                                                  (fst (checked e ''account'' (reading (get_account_by_id (sa_id account))) db'), db'))))))))))"

section \<open>Media\<close>

definition go_quote :: "string \<Rightarrow> string" where
  "go_quote s = CHR 0x22 # s @ [CHR 0x22]"

fun sync_media :: "env \<Rightarrow> string \<Rightarrow> social_account \<Rightarrow> provider_impl \<Rightarrow> publish_auth \<Rightarrow> string list \<Rightarrow> store_db \<Rightarrow>
    string list res \<times> store_db" where
  "sync_media e team account impl auth [] db = (Ok [], db)"
| "sync_media e team account impl auth (i # ids) db =
     (let more = (\<lambda>remote db. case sync_media e team account impl auth ids db of
                     (Inl err, db') \<Rightarrow> (Err err, db') | (Inr rs, db') \<Rightarrow> (Ok (remote # rs), db')) in
      (case fst (checked e (''media '' @ i) (reading (get_media_item_by_id team i)) db) of
         Inl _ \<Rightarrow> more i db
       | Inr item \<Rightarrow>
           (case fst (checked e (''mapping '' @ i) (reading (get_media_provider_mapping (md_id item) (sa_id account))) db) of
              Inr m \<Rightarrow> more (mm_remote m) db
            | Inl _ \<Rightarrow>
                (case get_media_file_path team (md_sha item) of
                   Inl err \<Rightarrow> (Err (''resolve local media '' @ go_quote (md_id item) @ '': '' @ err), db)
                 | Inr path \<Rightarrow>
                     (case en_open e path of
                        Inl err \<Rightarrow> (Err (''open local media '' @ go_quote (md_id item) @ '': '' @ err), db)
                      | Inr file \<Rightarrow>
                          (case im_upload impl account auth file (md_filename item) (md_mime item) of
                             Inl err \<Rightarrow> (Err (''provider upload '' @ go_quote (md_id item) @ '': '' @ err), db)
                           | Inr remote \<Rightarrow>
                               more remote (snd (checked e ''save mapping'' (upsert_media_provider_mapping (en_now e)
                                 \<lparr>mm_media = md_id item, mm_account = sa_id account, mm_remote = remote, mm_expires = None,
                                  mm_created = zero_time\<rparr>) db))))))))"

section \<open>Metrics\<close>

definition pad_zeros :: "nat \<Rightarrow> string \<Rightarrow> string" where
  "pad_zeros n s = replicate (n - length s) (CHR ''0'') @ s"

definition day_text :: "instant \<Rightarrow> string" where
  "day_text t = (case civil_of utc t of (y, m, d) \<Rightarrow>
     pad_zeros 4 (itoa y) @ ''-'' @ pad_zeros 2 (itoa m) @ ''-'' @ pad_zeros 2 (itoa d))"

text \<open>The map built from the readings: trimmed names, blank ones dropped, the last value wins.\<close>

definition metric_map :: "(string \<times> int) list \<Rightarrow> (string \<times> int) list" where
  "metric_map readings =
     dedup_by fst [] (rev (filter (\<lambda>(n, _). n \<noteq> []) (map (\<lambda>(n, v). (trim_space n, v)) readings)))"

record metric_target =
  mr_post :: string
  mr_url :: string
  mr_metadata :: "(string \<times> string) list"
  mr_account :: social_account

definition fresh_or_same :: "env \<Rightarrow> social_account \<Rightarrow> store_db \<Rightarrow> social_account \<times> store_db" where
  "fresh_or_same e account db =
     (case ensure_mastodon_fresh e account db of (Inl _, db') \<Rightarrow> (account, db') | (Inr a, db') \<Rightarrow> (a, db'))"

definition account_auth :: "env \<Rightarrow> social_account \<Rightarrow> publish_auth res" where
  "account_auth e account =
     (case en_decrypt e (sa_access_token account) of
        Inl err \<Rightarrow> Err err
      | Inr access \<Rightarrow>
          (case decrypt_optional e (sa_refresh_token account) of
             Inl err \<Rightarrow> Err err | Inr refresh \<Rightarrow> Ok \<lparr>au_access = access, au_refresh = refresh\<rparr>))"

definition sync_one_post_target_metrics :: "env \<Rightarrow> metric_target \<Rightarrow> string \<Rightarrow> string \<Rightarrow> store_db \<Rightarrow> store_db" where
  "sync_one_post_target_metrics e row day recorded_at db =
     (case registry_get e (sa_provider (mr_account row)) of
        None \<Rightarrow> db
      | Some impl \<Rightarrow>
          (case fresh_or_same e (mr_account row) db of (account, db) \<Rightarrow>
             (case account_auth e account of
                Inl _ \<Rightarrow> db
              | Inr auth \<Rightarrow>
                  (case im_metrics impl account auth (metrics_published_url account (mr_url row) (mr_metadata row)) of
                     Inl _ \<Rightarrow> db
                   | Inr readings \<Rightarrow>
                       if metric_map readings = [] then db
                       else (case checked e ''metrics'' (upsert_post_metrics (day_text (en_now e)) (mr_post row) (sa_id account)
                                    (metric_map readings) recorded_at) db of
                               (Inl _, db') \<Rightarrow> db'
                             | (Inr _, db') \<Rightarrow>
                                 snd (checked e ''synced'' (always (mark_target_metrics_synced (en_now e) (mr_post row)
                                        (sa_id account) day)) db'))))))"

text \<open>\<open>ListPostedTargetsForMetricSync\<close> does not select the name and the token expiry of the account.\<close>

definition metric_target_of :: "post_row \<Rightarrow> target_row \<Rightarrow> social_account \<Rightarrow> metric_target" where
  "metric_target_of p t a =
     \<lparr>mr_post = tg_post t, mr_url = tg_url t, mr_metadata = tg_metadata t,
      mr_account = a\<lparr>sa_name := [], sa_token_expires_at := None\<rparr>\<rparr>"

definition metric_due :: "instant \<Rightarrow> instant \<Rightarrow> post_row \<Rightarrow> target_row \<Rightarrow> bool" where
  "metric_due now since p t \<longleftrightarrow>
     (let published = max (rw_updated p) (sp_scheduled_at (rw_post p)); recent = now - 72 * 3600 * nanos in
      tg_status t = Posted \<and> rw_status p = Posted \<and> tg_url t \<noteq> [] \<and>
      (since \<le> rw_updated p \<or> since \<le> sp_scheduled_at (rw_post p)) \<and>
      (case tg_synced_at t of
         None \<Rightarrow> True
       | Some s \<Rightarrow> (recent \<le> published \<and> s \<le> now - 600 * nanos) \<or> (published < recent \<and> s \<le> now - 7200 * nanos)))"

definition list_posted_targets_for_metric_sync :: "instant \<Rightarrow> instant \<Rightarrow> int \<Rightarrow> store_db \<Rightarrow> metric_target list" where
  "list_posted_targets_for_metric_sync now since limit db =
     map (\<lambda>(p, t, a). metric_target_of p t a)
       (take (if limit \<le> 0 then 500 else nat limit)
         (sort_key (\<lambda>(p, t, a). (if tg_synced_at t = None then 0 else 1 :: int))
           (sort_key (\<lambda>(p, t, a). - rw_updated p)
             (List.map_filter (\<lambda>t. case (find_post (tg_post t) db, find_account (tg_account t) db) of
                 (Some p, Some a) \<Rightarrow> if metric_due now since p t then Some (p, t, a) else None | _ \<Rightarrow> None) (sd_targets db)))))"

definition fetch_metrics_job :: "env \<Rightarrow> store_db \<Rightarrow> store_db" where
  "fetch_metrics_job e db =
     (if en_fail e ''list metric targets'' \<noteq> None then db
      else fold (\<lambda>row. sync_one_post_target_metrics e row (day_text (en_now e)) [])
             (list_posted_targets_for_metric_sync (en_now e) (en_now e - 30 * 86400 * nanos) 500 db) db)"

section \<open>Audit events of the scheduler\<close>

definition automation_event :: "string \<Rightarrow> string \<Rightarrow> string \<Rightarrow> string \<Rightarrow> string \<Rightarrow> (string \<times> string) list \<Rightarrow> audit_event" where
  "automation_event fresh team action target_type target meta =
     \<lparr>ae_id = fresh, ae_team = team, ae_actor_user = [], ae_actor_name = ''Automation'', ae_actor_email = [],
      ae_actor_kind = ''system'', ae_token = None, ae_token_name = None, ae_action = action,
      ae_target_type = target_type, ae_target = Some target, ae_summary = [],
      ae_metadata = (''channel'', ''scheduler'') #
        (''outcome'', (let o' = metadata_get meta ''outcome'' in if o' = [] then ''success'' else o')) #
        filter (\<lambda>(k, _). k \<noteq> ''channel'' \<and> k \<noteq> ''outcome'') meta,
      ae_created = None\<rparr>"

definition publication_event ::
  "string \<Rightarrow> scheduled_post \<Rightarrow> string \<Rightarrow> string \<Rightarrow> string \<Rightarrow> string \<Rightarrow> string \<Rightarrow> audit_event" where
  "publication_event fresh post account attempt action outcome code =
     automation_event fresh (sp_team_id post) action ''post'' (sp_id post)
       [(''post_id'', sp_id post), (''account_id'', account), (''attempt_id'', attempt),
        (''attempt'', itoa (sp_attempt_count post + 1)), (''outcome'', outcome), (''error_code'', code)]"

text \<open>Claiming a target and announcing the attempt is one transaction, and so is recording its outcome.\<close>

definition claim_target :: "env \<Rightarrow> scheduled_post \<Rightarrow> string \<Rightarrow> bool store_op" where
  "claim_target e post account =
     with_audit_transaction (\<lambda>db. case claim_post_target_publication (sp_id post) account db of (claimed, db') \<Rightarrow>
       if \<not> claimed then (Inr False, db')
       else (case enqueue_audit_event (en_now e) (en_event e)
                 (publication_event (en_event e) post account (en_attempt e) ''post.publish_started'' ''pending'' []) db' of
               (Inl err, d) \<Rightarrow> (Inl err, d) | (Inr _, d) \<Rightarrow> (Inr True, d)))"

definition persist_target_outcome ::
  "env \<Rightarrow> scheduled_post \<Rightarrow> string \<Rightarrow> string \<Rightarrow> post_status \<Rightarrow> string \<Rightarrow> string \<Rightarrow> (string \<times> string) list \<Rightarrow> string \<Rightarrow>
   string \<Rightarrow> string \<Rightarrow> string \<Rightarrow> store_db \<Rightarrow> unit res \<times> store_db" where
  "persist_target_outcome e post account attempt status url err meta remote action outcome code db =
     (case checked e ''persist'' (with_audit_transaction (\<lambda>db.
          case mark_post_target_result (sp_id post) account status url err meta remote db of
            (Inl er, db') \<Rightarrow> (Inl er, db')
          | (Inr _, db') \<Rightarrow> enqueue_audit_event (en_now e) (en_event e)
                 (publication_event (en_event e) post account attempt action outcome code) db')) db of
        (Inl er, db') \<Rightarrow> (Err er, db')
      | (Inr _, db') \<Rightarrow> (Ok (), snd (checked e ''drain'' (drain_audit_events (en_now e)) db')))"

definition fail_post :: "env \<Rightarrow> scheduled_post \<Rightarrow> string \<Rightarrow> store_db \<Rightarrow> store_db" where
  "fail_post e post err db =
     (let n = sp_attempt_count post + 1 in
      snd (checked e ''result'' (always (mark_post_result (en_now e) (sp_id post) n Failed err
        (if n \<ge> 5 then None else Some (en_now e + n * n * 60 * nanos)))) db))"

section \<open>The worker\<close>

record progress =
  pg_rest :: "social_account list"
  pg_over :: "(string \<times> string) list"
  pg_err :: "string option"

datatype target_outcome =
    Failed_Preparation string
  | Refused_By_Provider string
  | Unknown_Outcome
  | Delivered publish_result string

datatype worker_pc =
    Validating
  | Loading
  | Claiming progress
  | Preparing social_account string progress
  | Publishing social_account string provider_impl publish_auth publish_request progress
  | Persisting social_account string target_outcome progress
  | Recording social_account publish_result string progress
  | Failing string
  | Finishing
  | Stopped

record worker =
  wk_post :: scheduled_post
  wk_pc :: worker_pc

definition first_error :: "string \<Rightarrow> progress \<Rightarrow> progress" where
  "first_error err pg = pg\<lparr>pg_err := (case pg_err pg of None \<Rightarrow> Some err | Some e \<Rightarrow> Some e)\<rparr>"

definition version_overrides :: "post_version list \<Rightarrow> (string \<times> string) list" where
  "version_overrides vs = rev (filter (\<lambda>(_, c). c \<noteq> []) (map (\<lambda>v. (pv_account_id v, trim_space (pv_content v))) vs))"

text \<open>From the claim to the call of \<open>Publish\<close>: the provider, fresh credentials, the content with its
  variables, and the media ids at the provider.\<close>

definition prepare_target :: "env \<Rightarrow> scheduled_post \<Rightarrow> social_account \<Rightarrow> string \<Rightarrow> progress \<Rightarrow> store_db \<Rightarrow> worker_pc \<times> store_db" where
  "prepare_target e post account attempt pg db =
     (case registry_get e (sa_provider account) of
        None \<Rightarrow> (Persisting account attempt
                  (Failed_Preparation (''unsupported provider '' @ go_quote (sa_provider account))) pg, db)
      | Some impl \<Rightarrow>
          (case ensure_mastodon_fresh e account db of
             (Inl err, db') \<Rightarrow> (Persisting account attempt (Failed_Preparation err) pg, db')
           | (Inr acc, db') \<Rightarrow>
               (case account_auth e acc of
                  Inl err \<Rightarrow> (Persisting acc attempt (Failed_Preparation err) pg, db')
                | Inr auth \<Rightarrow>
                    (let content = (case map_of (pg_over pg) (sa_id acc) of None \<Rightarrow> sp_content post | Some c \<Rightarrow> c);
                         content = expand_dynamic_variables content (en_now e) (sp_template_counter post) None None;
                         local_media = filter_media_ids_for_account (sp_media_ids post) (sp_media_exclude post) (sa_id acc)
                     in (case sync_media e (sp_team_id post) acc impl auth local_media db' of
                           (Inl err, d) \<Rightarrow> (Persisting acc attempt (Failed_Preparation err) pg, d)
                         | (Inr remote, d) \<Rightarrow>
                             (Publishing acc attempt impl auth
                                \<lparr>pq_content = content, pq_media = remote, pq_visibility = sp_visibility post,
                                 pq_scheduled_at = None, pq_spoiler = [], pq_sensitive = False\<rparr> pg, d))))))"

fun persist_outcome :: "env \<Rightarrow> scheduled_post \<Rightarrow> social_account \<Rightarrow> string \<Rightarrow> target_outcome \<Rightarrow> progress \<Rightarrow> store_db \<Rightarrow> worker_pc \<times> store_db" where
  "persist_outcome e post a att (Failed_Preparation err) pg db =
     (case persist_target_outcome e post (sa_id a) att Failed [] err [] [] ''post.publish_failure'' ''failure'' ''preparation_failed'' db of
        (Inl _, db') \<Rightarrow> (Stopped, db') | (Inr _, db') \<Rightarrow> (Claiming (first_error err pg), db'))"
| "persist_outcome e post a att (Refused_By_Provider err) pg db =
     (case persist_target_outcome e post (sa_id a) att Failed [] err [] [] ''post.publish_failure'' ''failure'' ''provider_rejected'' db of
        (Inl _, db') \<Rightarrow> (Stopped, db') | (Inr _, db') \<Rightarrow> (Claiming (first_error err pg), db'))"
| "persist_outcome e post a att Unknown_Outcome pg db =
     (Stopped, snd (persist_target_outcome e post (sa_id a) att Processing [] outcome_unknown [] [] ''post.publish_uncertain''
        ''uncertain'' ''provider_outcome_unknown'' db))"
| "persist_outcome e post a att (Delivered r content) pg db =
     (case persist_target_outcome e post (sa_id a) att Posted (pb_url r) [] (pb_metadata r)
        (resolve_remote_post_id (sa_provider a) r) ''post.publish_success'' ''success'' [] db of
        (Inl _, db') \<Rightarrow> (Stopped, db') | (Inr _, db') \<Rightarrow> (Recording a r content pg, db'))"

definition record_delivery :: "env \<Rightarrow> scheduled_post \<Rightarrow> social_account \<Rightarrow> publish_result \<Rightarrow> string \<Rightarrow> store_db \<Rightarrow> store_db" where
  "record_delivery e post a r content db =
     (let db' = snd (checked e ''hashtags'' (replace_post_hashtags (sp_id post) (sa_id a)
                  (tag_extract (en_lower e) (en_letter e) (en_number e) content)) db) in
      if trim_space (pb_url r) = [] then db'
      else sync_one_post_target_metrics e
             \<lparr>mr_post = sp_id post, mr_url = pb_url r, mr_metadata = pb_metadata r, mr_account = a\<rparr> (day_text (en_now e)) [] db')"

fun pc_step :: "env \<Rightarrow> scheduled_post \<Rightarrow> worker_pc \<Rightarrow> store_db \<Rightarrow> worker_pc \<times> store_db \<times> (string \<times> string) list" where
  "pc_step e post Validating db =
     (case resolve_targets (\<lambda>ids. case en_fail e ''accounts'' of Some err \<Rightarrow> Err err
                                  | None \<Rightarrow> get_accounts_by_ids_global db ids) (sp_team_id post) (sp_targets post) [] of
        Inl err \<Rightarrow> (Failing (''validate targets: '' @ en_prepare_error e err), db, [])
      | Inr _ \<Rightarrow> (Loading, db, []))"
| "pc_step e post Loading db =
     (case en_fail e ''targets'' of
        Some err \<Rightarrow> (Failing (''load targets: '' @ err), db, [])
      | None \<Rightarrow>
          (let accounts = load_post_targets (sp_id post) db in
           if accounts = [] then (Claiming \<lparr>pg_rest = [], pg_over = [], pg_err = None\<rparr>, db, [])
           else (case en_fail e ''versions'' of
                   Some err \<Rightarrow> (Failing (''list post versions: '' @ err), db, [])
                 | None \<Rightarrow> (Claiming \<lparr>pg_rest = accounts, pg_over = version_overrides
                              (list_post_versions_for_team_post (sp_team_id post) (sp_id post) db), pg_err = None\<rparr>, db, []))))"
| "pc_step e post (Claiming pg) db =
     (case pg_rest pg of
        [] \<Rightarrow> ((case pg_err pg of Some err \<Rightarrow> Failing err | None \<Rightarrow> Finishing), db, [])
      | a # as \<Rightarrow>
          (case checked e ''claim'' (claim_target e post (sa_id a)) db of
             (Inl _, db') \<Rightarrow> (Failing ''publication claim unavailable'', db', [])
           | (Inr claimed, db') \<Rightarrow>
               if claimed then (Preparing a (en_attempt e) (pg\<lparr>pg_rest := as\<rparr>), db', []) else (Stopped, db', [])))"
| "pc_step e post (Preparing a att pg) db =
     (case prepare_target e post a att pg db of (pc, db') \<Rightarrow> (pc, db', []))"
| "pc_step e post (Publishing a att impl auth req pg) db =
     (case im_publish impl a auth req of
        Published r \<Rightarrow> (Persisting a att (Delivered r (pq_content req)) pg, db, [(sp_id post, sa_id a)])
      | Rejected err \<Rightarrow> (Persisting a att (Refused_By_Provider err) pg, db, [])
      | Uncertain _ reached \<Rightarrow>
          (Persisting a att Unknown_Outcome pg, db, (if reached then [(sp_id post, sa_id a)] else [])))"
| "pc_step e post (Persisting a att out pg) db =
     (case persist_outcome e post a att out pg db of (pc, db') \<Rightarrow> (pc, db', []))"
| "pc_step e post (Recording a r content pg) db = (Claiming pg, record_delivery e post a r content db, [])"
| "pc_step e post (Failing err) db = (Stopped, fail_post e post err db, [])"
| "pc_step e post Finishing db =
     (Stopped, snd (checked e ''result'' (always (mark_post_result (en_now e) (sp_id post) (sp_attempt_count post + 1)
        Posted [] None)) db), [])"
| "pc_step e post Stopped db = (Stopped, db, [])"

definition worker_step :: "env \<Rightarrow> worker \<Rightarrow> store_db \<Rightarrow> worker \<times> store_db \<times> (string \<times> string) list" where
  "worker_step e w db = (case pc_step e (wk_post w) (wk_pc w) db of (pc, db', out) \<Rightarrow> (w\<lparr>wk_pc := pc\<rparr>, db', out))"

section \<open>The poller\<close>

text \<open>One round of the loop of \<open>enqueueDuePosts\<close>: a post that another actor has taken meanwhile is passed over.\<close>

definition enqueue_post :: "instant \<Rightarrow> scheduled_post \<Rightarrow> store_db \<Rightarrow> worker list \<times> store_db" where
  "enqueue_post now p db =
     (case mark_post_processing now (sp_id p) db of
        (Inl _, db') \<Rightarrow> ([], db') | (Inr _, db') \<Rightarrow> ([\<lparr>wk_post = p, wk_pc = Validating\<rparr>], db'))"

end
