(* ===== verification/Ai_Jobs.thy ===== *)
theory Ai_Jobs
  imports Publisher
begin

text \<open>
  AI jobs: the job table of \<open>internal/store/sqlite/ai.go\<close>, the completion of a job with its side effects
  (\<open>api/ai_callback.go\<close>, \<open>api/recurring_automation_callback.go\<close>, \<open>api/rss_automation_callback.go\<close>,
  \<open>api/recurring_automation.go\<close>, \<open>api/rss_automation.go\<close>, \<open>api/automation_audit.go\<close>), cancellation
  (\<open>api/ai_cancel.go\<close>) and the manager that queues and runs jobs (\<open>internal/aijobs\<close>). The language model is
  a parameter: a run ends with any result or error.
\<close>

section \<open>The job table\<close>

definition job_live :: "job_row \<Rightarrow> bool" where
  "job_live j \<longleftrightarrow> jb_status j = Job_Pending \<or> jb_status j = Job_Processing"

definition job_final :: "job_status \<Rightarrow> bool" where
  "job_final s \<longleftrightarrow> s = Job_Completed \<or> s = Job_Failed"

definition find_job :: "string \<Rightarrow> store_db \<Rightarrow> job_row option" where
  "find_job i db = find (\<lambda>j. jb_id j = i) (sd_jobs db)"

definition get_ai_job_by_id :: "string \<Rightarrow> string \<Rightarrow> store_db \<Rightarrow> store_error + job_row" where
  "get_ai_job_by_id team i db =
     (case find (\<lambda>j. jb_team j = team \<and> jb_id j = i) (sd_jobs db) of None \<Rightarrow> Inl No_Rows | Some j \<Rightarrow> Inr j)"

definition get_ai_job_by_id_global :: "string \<Rightarrow> store_db \<Rightarrow> store_error + job_row" where
  "get_ai_job_by_id_global i db = (case find_job i db of None \<Rightarrow> Inl No_Rows | Some j \<Rightarrow> Inr j)"

record job_input =
  ji_id :: string
  ji_team :: string
  ji_author :: string
  ji_type :: string
  ji_status :: "job_status option"
  ji_origin :: string
  ji_payload :: job_payload

definition create_ai_job :: "instant \<Rightarrow> string \<Rightarrow> job_input \<Rightarrow> job_row store_op" where
  "create_ai_job now fresh inp db =
     (let i = (if ji_id inp = [] then fresh else ji_id inp) in
      if find_job i db \<noteq> None \<or> \<not> team_exists (ji_team inp) db \<or> \<not> user_exists (ji_author inp) db
      then (Inl Constraint, db)
      else (let db' = db\<lparr>sd_jobs := sd_jobs db @
              [\<lparr>jb_id = i, jb_team = ji_team inp, jb_author = ji_author inp, jb_type = ji_type inp,
                jb_status = (case ji_status inp of None \<Rightarrow> Job_Pending | Some s \<Rightarrow> s),
                jb_origin = (if ji_origin inp = [] then ''user'' else ji_origin inp), jb_payload = ji_payload inp,
                jb_result = [], jb_error = [], jb_created = now, jb_updated = now, jb_completed = None\<rparr>]\<rparr>
            in (get_ai_job_by_id (ji_team inp) i db', db')))"

definition list_ai_jobs :: "string \<Rightarrow> nat \<Rightarrow> store_db \<Rightarrow> job_row list" where
  "list_ai_jobs team limit db =
     take limit (sort_key (\<lambda>j. - jb_created j) (filter (\<lambda>j. jb_team j = team) (sd_jobs db)))"

definition list_pending_ai_jobs :: "nat \<Rightarrow> store_db \<Rightarrow> job_row list" where
  "list_pending_ai_jobs limit db =
     take limit (sort_key jb_created (filter (\<lambda>j. jb_status j = Job_Pending) (sd_jobs db)))"

definition list_unfinished_ai_jobs :: "instant \<Rightarrow> nat \<Rightarrow> store_db \<Rightarrow> job_row list" where
  "list_unfinished_ai_jobs older limit db =
     take limit (sort_key jb_created (filter (\<lambda>j. job_live j \<and> jb_updated j < older) (sd_jobs db)))"

definition update_ai_job_status :: "instant \<Rightarrow> string \<Rightarrow> job_status \<Rightarrow> string \<Rightarrow> string \<Rightarrow> store_db \<Rightarrow> store_db" where
  "update_ai_job_status now i status result err db =
     db\<lparr>sd_jobs := update_where (\<lambda>j. jb_id j = i)
          (\<lambda>j. j\<lparr>jb_status := status, jb_result := result, jb_error := nullable_string err, jb_updated := now,
                 jb_completed := (if job_final status then Some now else None)\<rparr>) (sd_jobs db)\<rparr>"

definition mark_ai_job_processing :: "instant \<Rightarrow> string \<Rightarrow> store_db \<Rightarrow> bool \<times> store_db" where
  "mark_ai_job_processing now i db =
     (let p = (\<lambda>j. jb_id j = i \<and> jb_status j = Job_Pending) in
      (0 < count_where p (sd_jobs db),
       db\<lparr>sd_jobs := update_where p (\<lambda>j. j\<lparr>jb_status := Job_Processing, jb_updated := now\<rparr>) (sd_jobs db)\<rparr>))"

definition claim_ai_job_completion :: "instant \<Rightarrow> string \<Rightarrow> job_status \<Rightarrow> string \<Rightarrow> string \<Rightarrow> bool store_op" where
  "claim_ai_job_completion now i status result err db =
     (if \<not> job_final status then (Inl (Refused ''invalid terminal status''), db)
      else (let p = (\<lambda>j. jb_id j = i \<and> job_live j) in
        (Inr (0 < count_where p (sd_jobs db)),
         db\<lparr>sd_jobs := update_where p
              (\<lambda>j. j\<lparr>jb_status := status, jb_result := result, jb_error := nullable_string err, jb_updated := now,
                     jb_completed := Some now\<rparr>) (sd_jobs db)\<rparr>)))"

section \<open>What a job's payload and result say\<close>

text \<open>\<open>time.RFC3339Nano\<close> in UTC.\<close>

definition rfc3339_nano :: "instant \<Rightarrow> string" where
  "rfc3339_nano t =
     (let s = (t div nanos) mod 86400; f = t mod nanos in
      day_text t @ ''T'' @ pad_zeros 2 (itoa (s div 3600)) @ '':'' @ pad_zeros 2 (itoa (s div 60 mod 60)) @ '':'' @
      pad_zeros 2 (itoa (s mod 60)) @
      (if f = 0 then [] else ''.'' @ rev (dropWhile (\<lambda>c. c = CHR ''0'') (rev (pad_zeros 9 (itoa f))))) @ ''Z'')"

record ai_result =
  ar_title :: string
  ar_content :: string
  ar_scheduled :: "instant option"
  ar_suggested :: "instant option"
  ar_override :: "(string \<times> string) list"

definition no_result :: ai_result where
  "no_result = \<lparr>ar_title = [], ar_content = [], ar_scheduled = None, ar_suggested = None, ar_override = []\<rparr>"

text \<open>The database's errors, the language model's text and the parts outside the repository: \<open>ax_decode\<close> is the
  JSON decoder of a result, \<open>ax_notice\<close> adds the draft notice to it, \<open>ax_initiator\<close> the caller the job's context
  carries, \<open>ax_publish_team\<close> what the team's profile says about publishing results.\<close>

record auto_env =
  ax_env :: env
  ax_clusters :: "string \<Rightarrow> string list"
  ax_registry :: registry
  ax_decode :: "string \<Rightarrow> ai_result option"
  ax_notice :: "string \<Rightarrow> string option"
  ax_initiator :: "principal option"
  ax_publish_team :: "string \<Rightarrow> bool"
  ax_fresh :: "string \<Rightarrow> string"

abbreviation ax_now :: "auto_env \<Rightarrow> instant" where "ax_now x \<equiv> en_now (ax_env x)"

text \<open>A store call under the connection's errors.\<close>

definition faulty :: "env \<Rightarrow> string \<Rightarrow> 'a store_op \<Rightarrow> 'a store_op" where
  "faulty e call f db = (case en_fail e call of Some err \<Rightarrow> (Inl (Backend err), db) | None \<Rightarrow> f db)"

definition instant_of_seconds :: "int \<Rightarrow> instant" where
  "instant_of_seconds s = s * nanos"

record rss_meta =
  rx_feed :: string
  rx_key :: string
  rx_output_mode :: string
  rx_scheduled_at :: instant
  rx_draft :: bool
  rx_title :: string
  rx_fallback :: string
  rx_fetch_failed :: bool

definition parse_rss_meta :: "instant \<Rightarrow> job_payload \<Rightarrow> rss_meta option" where
  "parse_rss_meta now p =
     (case pl_rss p of
        None \<Rightarrow> None
      | Some r \<Rightarrow>
          if trim_space (rs_feed r) = [] \<or> trim_space (rs_key r) = [] then None
          else Some \<lparr>rx_feed = rs_feed r, rx_key = rs_key r,
                 rx_output_mode = normalize_automation_output_mode (rs_output_mode r),
                 rx_scheduled_at = (case rs_scheduled r of None \<Rightarrow> now | Some s \<Rightarrow> instant_of_seconds s),
                 rx_draft = rs_draft r, rx_title = trim_space (rs_title r), rx_fallback = trim_space (rs_fallback r),
                 rx_fetch_failed = rs_fetch_failed r\<rparr>)"

record recurring_meta =
  rm_template :: string
  rm_kind :: string
  rm_output_mode :: string
  rm_scheduled_at :: instant
  rm_occurrence :: "instant option"
  rm_draft :: bool
  rm_title :: string
  rm_fallback :: string
  rm_counter :: int
  rm_visibility :: string
  rm_media_ids :: "string list"
  rm_media_exclude :: "(string \<times> string list) list"
  rm_has_snapshot :: bool

definition parse_recurring_meta :: "instant \<Rightarrow> job_payload \<Rightarrow> recurring_meta option" where
  "parse_recurring_meta now p =
     (case pl_recurring p of
        None \<Rightarrow> None
      | Some r \<Rightarrow>
          if trim_space (rc_template r) = [] then None
          else Some \<lparr>rm_template = rc_template r,
                 rm_kind = (let k = trim_space (rc_kind r) in if k = [] then ''main'' else k),
                 rm_output_mode = normalize_automation_output_mode (rc_output_mode r),
                 rm_scheduled_at = (case rc_scheduled r of None \<Rightarrow> now | Some s \<Rightarrow> instant_of_seconds s),
                 rm_occurrence = map_option instant_of_seconds (rc_occurrence r),
                 rm_draft = rc_draft r, rm_title = trim_space (rc_title r), rm_fallback = trim_space (rc_fallback r),
                 rm_counter = (if rc_counter r \<le> 0 then 1 else rc_counter r),
                 rm_visibility = (case rc_visibility r of None \<Rightarrow> [] | Some v \<Rightarrow> v),
                 rm_media_ids = rc_media_ids r, rm_media_exclude = rc_media_exclude r,
                 rm_has_snapshot = (rc_visibility r \<noteq> None)\<rparr>)"

definition recurring_draft :: "recurring_meta \<Rightarrow> bool" where
  "recurring_draft m =
     (if rm_kind m = ''announcement'' then False else if rm_output_mode m = ''draft'' then True else rm_draft m)"

definition rss_draft :: "rss_meta \<Rightarrow> bool" where
  "rss_draft m = (if rx_output_mode m = ''draft'' then True else rx_draft m)"

definition real_time :: "instant option \<Rightarrow> instant option" where
  "real_time t = (case t of None \<Rightarrow> None | Some x \<Rightarrow> if x = zero_time then None else Some x)"

definition ai_schedule :: "ai_result \<Rightarrow> instant option" where
  "ai_schedule res = (case real_time (ar_scheduled res) of Some t \<Rightarrow> Some t | None \<Rightarrow> real_time (ar_suggested res))"

definition rss_scheduled_at :: "instant \<Rightarrow> rss_meta \<Rightarrow> ai_result \<Rightarrow> instant" where
  "rss_scheduled_at now m res =
     (case ai_schedule res of Some t \<Rightarrow> t
      | None \<Rightarrow> if rx_scheduled_at m = zero_time then now else rx_scheduled_at m)"

definition target_accounts_of :: "job_payload \<Rightarrow> string list" where
  "target_accounts_of p = normalize_media_ids (pl_targets p)"

section \<open>Creating the post\<close>

text \<open>The sentinels an error wraps, for \<open>errors.Is\<close>.\<close>

datatype sentinel = Post_Validation | Template_Fallback | Post_Not_Created | Audit_Failed | Source_Gone

type_synonym 'a effect = "store_db \<Rightarrow> (sentinel list + 'a) \<times> store_db"

definition job_audit_event ::
  "auto_env \<Rightarrow> string \<Rightarrow> job_row \<Rightarrow> string \<Rightarrow> string \<Rightarrow> string \<Rightarrow> (string \<times> string) list \<Rightarrow> audit_event" where
  "job_audit_event x fresh job action target_type target meta =
     \<lparr>ae_id = fresh, ae_team = jb_team job, ae_actor_user = [], ae_actor_name = ''Automation'', ae_actor_email = [],
      ae_actor_kind = ''system'', ae_token = None, ae_token_name = None, ae_action = action,
      ae_target_type = target_type, ae_target = Some target, ae_summary = [],
      ae_metadata =
        (case ax_initiator x of
           None \<Rightarrow> (if jb_origin job \<noteq> ''automation'' then [(''initiator_user_id'', jb_author job)] else [])
         | Some p \<Rightarrow> (''initiator_user_id'', u_id (p_user p)) #
             (case p_token_id p of None \<Rightarrow> []
              | Some t \<Rightarrow> if p_kind p = ''token'' then [(''initiator_token_id'', t)] else [])) @
        [(''channel'', ''ai''), (''job_id'', jb_id job), (''author_user_id'', jb_author job),
         (''outcome'', (let o' = metadata_get meta ''outcome'' in if o' = [] then ''success'' else o'))] @
        filter (\<lambda>(k, _). k \<noteq> ''outcome'') meta,
      ae_created = None\<rparr>"

definition system_principal :: "string \<Rightarrow> principal" where
  "system_principal author =
     \<lparr>p_user = \<lparr>u_id = author, u_email = [], u_name = [], u_picture_url = [], u_subject = [], u_is_admin = False,
        u_tour_done = False\<rparr>, p_kind = ''system'', p_scopes = [], p_team_id = None, p_expires_at = None,
      p_token_id = None, p_token_name = None\<rparr>"

definition create_job_automation_post ::
  "auto_env \<Rightarrow> job_row \<Rightarrow> create_post_input \<Rightarrow> (string \<times> string) list \<Rightarrow> scheduled_post effect" where
  "create_job_automation_post x job inp meta db =
     (case faulty (ax_env x) ''create post'' (create_scheduled_post (ax_now x) (ax_fresh x ''post'') (jb_team job)
             (system_principal (jb_author job)) inp) db of
        (Inl _, db') \<Rightarrow> (Inl [], db')
      | (Inr post, db') \<Rightarrow>
          (case faulty (ax_env x) ''create event'' (insert_audit_event (ax_now x) (ax_fresh x ''create event'')
                  (job_audit_event x (ax_fresh x ''create event'') job ''post.automation_create'' ''post'' (sp_id post)
                     ((''post_id'', sp_id post) # meta))) db' of
             (Inl _, d) \<Rightarrow> (Inl [Audit_Failed], d)
           | (Inr _, d) \<Rightarrow> (Inr post, d)))"

text \<open>\<open>a.posts.Prepare\<close> followed by \<open>ValidationError\<close>: the prepared input, or a failure.\<close>

definition prepare_automation :: "auto_env \<Rightarrow> string \<Rightarrow> create_post_input \<Rightarrow> bool \<Rightarrow> store_db \<Rightarrow> create_post_input option" where
  "prepare_automation x team inp limits db =
     (case prepare (ax_clusters x) (ax_registry x)
             (\<lambda>ids. case en_fail (ax_env x) ''accounts'' of Some err \<Rightarrow> Err err | None \<Rightarrow> get_accounts_by_ids_global db ids)
             (ax_now x) team inp \<lparr>po_check_limits = limits, po_require_team = True, po_reject_past = False\<rparr> of
        Inl _ \<Rightarrow> None
      | Inr res \<Rightarrow> if validation_error (pr_validation res) = None then Some (pr_input res) else None)"

definition get_post_template :: "string \<Rightarrow> string \<Rightarrow> store_db \<Rightarrow> store_error + template_row" where
  "get_post_template team i db =
     (case find (\<lambda>t. tp_team t = team \<and> tp_id t = i) (sd_templates db) of
        None \<Rightarrow> Inl No_Rows
      | Some t \<Rightarrow> Inr (t\<lparr>tp_output_mode := normalize_automation_output_mode (tp_output_mode t)\<rparr>))"

definition recurring_input ::
  "auto_env \<Rightarrow> job_row \<Rightarrow> recurring_meta \<Rightarrow> string \<Rightarrow> ai_result \<Rightarrow> string list \<Rightarrow> string option \<Rightarrow> template_row \<Rightarrow> create_post_input" where
  "recurring_input x job m content res targets reason t =
     (let now = (rm_kind m \<noteq> ''announcement'' \<and> rm_output_mode m = ''publish_now'') in
      ensure_title (empty_input\<lparr>
        in_title := resolve_automation_post_title (rm_title m) (ar_title res),
        in_content := content, in_target_accounts := targets,
        in_visibility := (if rm_has_snapshot m then rm_visibility m else tp_visibility t),
        in_media_ids := (if rm_has_snapshot m then rm_media_ids m else tp_media_ids t),
        in_media_exclude := (if rm_has_snapshot m then rm_media_exclude m else tp_media_exclude t),
        in_override := normalize_account_content_override (ar_override res) targets,
        in_scheduled_at := (if now then ax_now x
                            else case ai_schedule res of Some at \<Rightarrow> at | None \<Rightarrow> rm_scheduled_at m),
        in_draft := (if now then False else recurring_draft m),
        in_author_user_id := Some (jb_author job), in_source := source_automation,
        in_post_template_id := Some (rm_template m), in_template_counter := Some (rm_counter m),
        in_template_occurrence_at := rm_occurrence m,
        in_template_post_role := (if rm_kind m = ''announcement'' then ''announcement'' else ''main''),
        in_use_versions := (ar_override res \<noteq> []),
        in_ai_fallback_reason := reason,
        in_ai_job_id := (if reason = None then None else Some (jb_id job))\<rparr>))"

definition create_recurring_automation_post ::
  "auto_env \<Rightarrow> job_row \<Rightarrow> recurring_meta \<Rightarrow> string \<Rightarrow> ai_result \<Rightarrow> string option \<Rightarrow> unit effect" where
  "create_recurring_automation_post x job m content res reason db =
     (let targets = target_accounts_of (jb_payload job) in
      if targets = [] then (Inl [], db)
      else (case fst (faulty (ax_env x) ''template'' (reading (get_post_template (jb_team job) (rm_template m))) db) of
              Inl _ \<Rightarrow> (Inl [], db)
            | Inr t \<Rightarrow>
                (let inp = recurring_input x job m content res targets reason t in
                 if list_ex (\<lambda>i. case fst (faulty (ax_env x) (''media '' @ i)
                                    (reading (get_media_item_by_id (jb_team job) i)) db) of Inl _ \<Rightarrow> True | Inr _ \<Rightarrow> False)
                      (normalize_media_ids (in_media_ids inp))
                 then (Inl [], db)
                 else (case prepare_automation x (jb_team job) inp (\<not> in_draft inp) db of
                         None \<Rightarrow> (Inl [Post_Validation], db)
                       | Some inp' \<Rightarrow>
                           (case create_job_automation_post x job inp'
                                   [(''template_id'', rm_template m), (''post_kind'', rm_kind m)] db of
                              (Inl es, db') \<Rightarrow> (Inl es, db') | (Inr _, db') \<Rightarrow> (Inr (), db'))))))"

definition finish_recurring_fallback :: "auto_env \<Rightarrow> job_row \<Rightarrow> recurring_meta \<Rightarrow> string \<Rightarrow> unit effect" where
  "finish_recurring_fallback x job m reason db =
     (if rm_fallback m = [] then (Inl [], db)
      else create_recurring_automation_post x job m (rm_fallback m) no_result (Some reason) db)"

text \<open>A post made of the template instead: its success is reported as \<open>errAutomationTemplateFallback\<close>, its failure
  wraps what failed before. \<open>len(rawResult) == 0\<close> is the empty result.\<close>

definition or_fallback :: "sentinel list \<Rightarrow> unit effect \<Rightarrow> unit effect" where
  "or_fallback es f db =
     (case f db of (Inl es', db') \<Rightarrow> (Inl (es @ es'), db') | (Inr _, db') \<Rightarrow> (Inl (es @ [Template_Fallback]), db'))"

definition decode_result :: "auto_env \<Rightarrow> string \<Rightarrow> ai_result option" where
  "decode_result x raw = (if raw = [] then Some no_result else ax_decode x raw)"

definition finish_recurring_from_ai :: "auto_env \<Rightarrow> job_row \<Rightarrow> string \<Rightarrow> recurring_meta \<Rightarrow> unit effect" where
  "finish_recurring_from_ai x job raw m db =
     (case decode_result x raw of
        None \<Rightarrow> or_fallback [] (finish_recurring_fallback x job m ''invalid_output'') db
      | Some res \<Rightarrow>
          if trim_space (ar_content res) = []
          then or_fallback [] (finish_recurring_fallback x job m ''empty_content'') db
          else (case create_recurring_automation_post x job m (trim_space (ar_content res)) res None db of
                  (Inr _, db') \<Rightarrow> (Inr (), db')
                | (Inl es, db') \<Rightarrow>
                    if Post_Validation \<notin> set es then (Inl es, db')
                    else or_fallback es (finish_recurring_fallback x job m ''validation_failed'') db'))"

definition get_rss_feed_config_by_id :: "string \<Rightarrow> string \<Rightarrow> store_db \<Rightarrow> store_error + feed_row" where
  "get_rss_feed_config_by_id team i db =
     (case find (\<lambda>f. fd_team f = team \<and> fd_id f = i) (sd_feeds db) of None \<Rightarrow> Inl No_Rows | Some f \<Rightarrow> Inr f)"

definition rss_input ::
  "auto_env \<Rightarrow> job_row \<Rightarrow> rss_meta \<Rightarrow> string \<Rightarrow> ai_result \<Rightarrow> string list \<Rightarrow> string option \<Rightarrow> create_post_input" where
  "rss_input x job m content res targets reason =
     (let now = (rx_output_mode m = ''publish_now'');
          why = (if reason = None \<and> rx_fetch_failed m then Some ''article_fetch_failed'' else reason) in
      ensure_title (empty_input\<lparr>
        in_title := resolve_automation_post_title (rx_title m) (ar_title res),
        in_content := content, in_target_accounts := targets,
        in_override := normalize_account_content_override (ar_override res) targets,
        in_scheduled_at := (if now then ax_now x else rss_scheduled_at (ax_now x) m res),
        in_draft := (if now then False else rss_draft m),
        in_author_user_id := Some (jb_author job), in_source := source_automation,
        in_rss_feed_id := Some (rx_feed m), in_rss_item_key := rx_key m,
        in_use_versions := (ar_override res \<noteq> []),
        in_ai_fallback_reason := why, in_ai_job_id := (if why = None then None else Some (jb_id job))\<rparr>))"

definition create_rss_automation_post ::
  "auto_env \<Rightarrow> job_row \<Rightarrow> rss_meta \<Rightarrow> string \<Rightarrow> ai_result \<Rightarrow> string option \<Rightarrow> unit effect" where
  "create_rss_automation_post x job m content res reason db =
     (let targets = target_accounts_of (jb_payload job); inp = rss_input x job m content res targets reason in
      if targets = [] then (Inl [Post_Not_Created], db)
      else (case fst (faulty (ax_env x) ''feed'' (reading (get_rss_feed_config_by_id (jb_team job) (rx_feed m))) db) of
              Inl _ \<Rightarrow> (Inl [Post_Not_Created], db)
            | Inr _ \<Rightarrow>
                (case prepare_automation x (jb_team job) inp (\<not> in_draft inp) db of
                   None \<Rightarrow> (Inl [Post_Not_Created, Post_Validation], db)
                 | Some inp' \<Rightarrow>
                     (case create_job_automation_post x job inp' [(''feed_id'', rx_feed m)] db of
                        (Inl es, db') \<Rightarrow> (Inl (Post_Not_Created # es), db') | (Inr _, db') \<Rightarrow> (Inr (), db')))))"

definition finish_rss_fallback :: "auto_env \<Rightarrow> job_row \<Rightarrow> rss_meta \<Rightarrow> string \<Rightarrow> unit effect" where
  "finish_rss_fallback x job m reason db =
     (if rx_fallback m = [] then (Inl [Post_Not_Created], db)
      else create_rss_automation_post x job m (rx_fallback m) no_result (Some reason) db)"

definition finish_rss_from_ai :: "auto_env \<Rightarrow> job_row \<Rightarrow> string \<Rightarrow> rss_meta \<Rightarrow> unit effect" where
  "finish_rss_from_ai x job raw m db =
     (case decode_result x raw of
        None \<Rightarrow> or_fallback [] (finish_rss_fallback x job m ''invalid_output'') db
      | Some res \<Rightarrow>
          if trim_space (ar_content res) = [] then or_fallback [] (finish_rss_fallback x job m ''empty_content'') db
          else (case create_rss_automation_post x job m (trim_space (ar_content res)) res None db of
                  (Inr _, db') \<Rightarrow> (Inr (), db')
                | (Inl es, db') \<Rightarrow>
                    if Post_Validation \<notin> set es then (Inl es, db')
                    else or_fallback [] (finish_rss_fallback x job m ''validation_failed'') db'))"

section \<open>Completing a job\<close>

definition auto_input :: "auto_env \<Rightarrow> job_row \<Rightarrow> ai_result \<Rightarrow> create_post_input" where
  "auto_input x job res =
     (let targets = target_accounts_of (jb_payload job) in
      ensure_title (empty_input\<lparr>
        in_title := trim_space (ar_title res), in_content := trim_space (ar_content res),
        in_target_accounts := targets,
        in_override := normalize_account_content_override (ar_override res) targets,
        in_scheduled_at := (case ai_schedule res of Some at \<Rightarrow> at | None \<Rightarrow> ax_now x),
        in_draft := (\<not> pl_can_schedule (jb_payload job)), in_author_user_id := Some (jb_author job)\<rparr>))"

text \<open>\<open>autoCreatePostFromCallbackResult\<close>: the enriched result when the post was saved as a draft.\<close>

definition auto_create_post :: "auto_env \<Rightarrow> job_row \<Rightarrow> string \<Rightarrow> string option effect" where
  "auto_create_post x job raw db =
     (case decode_result x raw of
        None \<Rightarrow> (Inl [], db)
      | Some res \<Rightarrow>
          if trim_space (ar_content res) = [] then (Inr None, db)
          else (let inp = auto_input x job res in
            (case prepare_automation x (jb_team job) inp (\<not> in_draft inp) db of
               None \<Rightarrow> (Inl [], db)
             | Some inp' \<Rightarrow>
                 if in_draft inp \<and> ax_notice x raw = None then (Inl [], db)
                 else (case create_job_automation_post x job inp' [] db of
                         (Inl es, db') \<Rightarrow> (Inl es, db')
                       | (Inr _, db') \<Rightarrow> (Inr (if in_draft inp then ax_notice x raw else None), db')))))"

definition no_value :: "unit effect \<Rightarrow> string option effect" where
  "no_value f db = (case f db of (Inl es, db') \<Rightarrow> (Inl es, db') | (Inr _, db') \<Rightarrow> (Inr None, db'))"

text \<open>What a job is about: its metadata after the check of its origin.\<close>

record job_reading =
  jr_job :: job_row
  jr_preview :: bool
  jr_legacy :: bool
  jr_rss :: "rss_meta option"
  jr_recurring :: "recurring_meta option"

definition read_job :: "auto_env \<Rightarrow> job_row \<Rightarrow> job_reading" where
  "read_job x job =
     (let preview = (jb_origin job = ''preview'');
          rss = (if preview then None else parse_rss_meta (ax_now x) (jb_payload job));
          rc = (if preview then None else parse_recurring_meta (ax_now x) (jb_payload job));
          legacy = (jb_origin job \<noteq> ''automation'' \<and> (rss \<noteq> None \<or> rc \<noteq> None))
      in \<lparr>jr_job = job, jr_preview = preview, jr_legacy = legacy, jr_rss = (if legacy then None else rss),
          jr_recurring = (if legacy then None else rc)\<rparr>)"

definition jr_automation :: "job_reading \<Rightarrow> bool" where
  "jr_automation r \<longleftrightarrow> jb_type (jr_job r) = ''voice_engine'' \<and> (jr_rss r \<noteq> None \<or> jr_recurring r \<noteq> None)"

definition lock_job_source :: "auto_env \<Rightarrow> job_reading \<Rightarrow> store_db \<Rightarrow> store_error + unit" where
  "lock_job_source x r db =
     (if \<not> jr_automation r then Inr ()
      else fst (faulty (ax_env x) ''source'' (reading
        (case jr_rss r of
           Some m \<Rightarrow> lock_automation_source ''rss_feed'' (rx_feed m)
         | None \<Rightarrow> lock_automation_source ''post_template'' (rm_template (the (jr_recurring r))))) db))"

text \<open>The draft notice replaces the stored result in the same transaction.\<close>

definition with_draft :: "auto_env \<Rightarrow> job_row \<Rightarrow> job_status \<Rightarrow> string \<Rightarrow> string option effect \<Rightarrow> string option effect" where
  "with_draft x job status err f db =
     (case f db of
        (Inl es, db') \<Rightarrow> (Inl es, db')
      | (Inr None, db') \<Rightarrow> (Inr None, db')
      | (Inr (Some draft), db') \<Rightarrow>
          (case faulty (ax_env x) ''draft result''
                  (always (update_ai_job_status (ax_now x) (jb_id job) status draft err)) db' of
             (Inl _, d) \<Rightarrow> (Inl [], d) | (Inr _, d) \<Rightarrow> (Inr (Some draft), d)))"

definition completion_effect ::
  "auto_env \<Rightarrow> job_reading \<Rightarrow> bool \<Rightarrow> job_status \<Rightarrow> string \<Rightarrow> string \<Rightarrow> string option effect" where
  "completion_effect x r source_gone status result err db =
     (if source_gone then (Inl [Source_Gone], db)
      else if jr_automation r then
        (case jr_rss r of
           Some m \<Rightarrow> no_value (if status = Job_Completed then finish_rss_from_ai x (jr_job r) result m
                               else finish_rss_fallback x (jr_job r) m ''provider_failure'') db
         | None \<Rightarrow> (let m = the (jr_recurring r) in
             no_value (if status = Job_Completed then finish_recurring_from_ai x (jr_job r) result m
                       else finish_recurring_fallback x (jr_job r) m ''provider_failure'') db))
      else if jr_preview r then (Inr None, db)
      else if status = Job_Completed \<and> \<not> pl_no_publish (jb_payload (jr_job r)) \<and> ax_publish_team x (jb_team (jr_job r))
      then with_draft x (jr_job r) status err (auto_create_post x (jr_job r) result) db
      else (Inr None, db))"

text \<open>The nested transaction: a failed effect is rolled back, except that a fallback post is kept.\<close>

definition nested_effect :: "'a effect \<Rightarrow> 'a effect" where
  "nested_effect f db =
     (case f db of
        (Inr v, db') \<Rightarrow> (Inr v, db')
      | (Inl es, db') \<Rightarrow> (Inl es, if Template_Fallback \<in> set es then db' else db))"

definition release_item_of :: "auto_env \<Rightarrow> job_reading \<Rightarrow> sentinel list \<Rightarrow> store_db \<Rightarrow> store_db" where
  "release_item_of x r es db =
     (case jr_rss r of
        None \<Rightarrow> db
      | Some m \<Rightarrow>
          if Post_Not_Created \<in> set es
          then snd (faulty (ax_env x) ''release'' (release_rss_item_attempt (jb_team (jr_job r)) (rx_feed m) (rx_key m)) db)
          else db)"

definition completion_meta :: "job_reading \<Rightarrow> string \<Rightarrow> (string \<times> string) list" where
  "completion_meta r outcome =
     (''outcome'', outcome) #
     (case jr_rss r of None \<Rightarrow> [] | Some m \<Rightarrow> [(''feed_id'', rx_feed m)]) @
     (case jr_recurring r of None \<Rightarrow> [] | Some m \<Rightarrow>
        [(''template_id'', rm_template m), (''post_kind'', rm_kind m)] @
        (case rm_occurrence m of None \<Rightarrow> [] | Some t \<Rightarrow> [(''occurrence_at'', rfc3339_nano t)]))"

definition finish_event ::
  "auto_env \<Rightarrow> job_reading \<Rightarrow> string \<Rightarrow> string \<Rightarrow> job_row option store_op" where
  "finish_event x r action outcome db =
     (case faulty (ax_env x) ''event'' (insert_audit_event (ax_now x) (ax_fresh x ''event'')
             (job_audit_event x (ax_fresh x ''event'') (jr_job r) action ''ai_job'' (jb_id (jr_job r))
                (completion_meta r outcome))) db of
        (Inl e, d) \<Rightarrow> (Inl e, d)
      | (Inr _, d) \<Rightarrow>
          (case fst (faulty (ax_env x) ''updated'' (reading (get_ai_job_by_id_global (jb_id (jr_job r)))) d) of
             Inl e \<Rightarrow> (Inl e, d) | Inr j \<Rightarrow> (Inr (Some j), d)))"

definition failure_message :: "job_reading \<Rightarrow> sentinel list \<Rightarrow> string" where
  "failure_message r es =
     (if Template_Fallback \<in> set es then ''Automation failed: used template fallback''
      else if jr_automation r then ''Automation failed: post could not be created''
      else ''Auto-publish failed: post could not be created'')"

text \<open>What follows the claim: the effect, the correction of the outcome when it failed, and the audit event.\<close>

definition after_claim :: "auto_env \<Rightarrow> job_reading \<Rightarrow> bool \<Rightarrow> job_status \<Rightarrow> string \<Rightarrow> string \<Rightarrow> job_row option store_op" where
  "after_claim x r source_gone status result err db =
     (case nested_effect (completion_effect x r source_gone status result err) db of
        (Inr _, d) \<Rightarrow>
          if status = Job_Failed
          then (if jr_automation r then finish_event x r ''ai_job.fallback'' ''fallback'' d
                else finish_event x r ''ai_job.fail'' ''failure'' d)
          else finish_event x r ''ai_job.complete'' ''success'' d
      | (Inl es, d) \<Rightarrow>
          if Template_Fallback \<notin> set es \<and> Audit_Failed \<in> set es then (Inl (Backend ''audit''), d)
          else (let d1 = release_item_of x r es d in
            (case faulty (ax_env x) ''status''
                    (always (update_ai_job_status (ax_now x) (jb_id (jr_job r)) Job_Failed result (failure_message r es))) d1 of
               (Inl e, d2) \<Rightarrow> (Inl e, d2)
             | (Inr _, d2) \<Rightarrow>
                 if jr_automation r \<and> Template_Fallback \<in> set es
                 then finish_event x r ''ai_job.fallback'' ''fallback'' d2
                 else finish_event x r ''ai_job.fail'' ''failure'' d2)))"

definition legacy_message :: string where
  "legacy_message = ''Automation job from before upgrade; please re-run''"

definition complete_ai_job :: "auto_env \<Rightarrow> string \<Rightarrow> job_status \<Rightarrow> string \<Rightarrow> string \<Rightarrow> job_row option store_op" where
  "complete_ai_job x i status result err db =
     (if \<not> job_final status then (Inr None, db)
      else with_audit_transaction (\<lambda>db.
        (case fst (faulty (ax_env x) ''job'' (reading (get_ai_job_by_id_global i)) db) of
           Inl e \<Rightarrow> (Inl e, db)
         | Inr job \<Rightarrow>
             (let r = read_job x job;
                  status' = (if jr_legacy r then Job_Failed else status);
                  err' = (if jr_legacy r then legacy_message else err);
                  source = lock_job_source x r db
              in if source \<noteq> Inr () \<and> source \<noteq> Inl No_Rows then (Inl (Backend ''source''), db)
                 else (case faulty (ax_env x) ''claim'' (claim_ai_job_completion (ax_now x) i status' result err') db of
                         (Inl e, d) \<Rightarrow> (Inl e, d)
                       | (Inr False, d) \<Rightarrow> (Inr None, d)
                       | (Inr True, d) \<Rightarrow> after_claim x r (source \<noteq> Inr ()) status' result err' d)))) db)"

end
