(* ===== verification/Effects.thy ===== *)
theory Effects
  imports Ai_Jobs
begin

text \<open>
  The contract of the effects a completed job has: a relation \<open>R n\<close> between the tables before and after, for at
  most \<open>n\<close> posts created, that the creation of a post and the update of the job's status keep, is kept by the whole
  effect of a completion. A failure leaves no post, unless it says that the template's content was posted instead
  or that the post's audit event failed, which rolls the post back.
\<close>

named_theorems effects \<open>rules for the effects of a completion\<close>

locale effect_contract =
  fixes R :: "nat \<Rightarrow> store_db \<Rightarrow> store_db \<Rightarrow> bool"
  assumes R_refl: "R n db db"
    and R_trans: "R n a b \<Longrightarrow> R k b c \<Longrightarrow> R (n + k) a c"
    and R_mono: "R n a b \<Longrightarrow> n \<le> k \<Longrightarrow> R k a b"
begin

definition outcome :: "(sentinel list + 'a) \<Rightarrow> store_db \<Rightarrow> store_db \<Rightarrow> bool" where
  "outcome r db db' \<longleftrightarrow> (case r of Inr _ \<Rightarrow> R 1 db db'
     | Inl es \<Rightarrow> if Template_Fallback \<in> set es then R 1 db db' else Audit_Failed \<in> set es \<or> R 0 db db')"

definition keeps :: "'a effect \<Rightarrow> bool" where
  "keeps f \<longleftrightarrow> (\<forall>db r db'. f db = (r, db') \<longrightarrow> outcome r db db')"

lemma keepsI: "(\<And>db r db'. f db = (r, db') \<Longrightarrow> outcome r db db') \<Longrightarrow> keeps f"
  by (simp add: keeps_def)

lemma keepsD: "keeps f \<Longrightarrow> f db = (r, db') \<Longrightarrow> outcome r db db'"
  by (simp add: keeps_def)

lemma keeps_if [effects]: "keeps f \<Longrightarrow> keeps g \<Longrightarrow> keeps (\<lambda>db. if P db then f db else g db)"
  by (simp add: keeps_def)

lemma keeps_option [effects]:
  assumes "keeps f" "\<And>db y. t db = Some y \<Longrightarrow> keeps (g y)"
  shows "keeps (\<lambda>db. case t db of None \<Rightarrow> f db | Some y \<Rightarrow> g y db)"
proof (rule keepsI)
  fix db r db' assume "(case t db of None \<Rightarrow> f db | Some y \<Rightarrow> g y db) = (r, db')"
  then show "outcome r db db'"
    by (cases "t db") (auto intro: keepsD [OF assms(1)] keepsD [OF assms(2)])
qed

lemma keeps_sum [effects]:
  assumes "\<And>y. keeps (f y)" "\<And>y. keeps (g y)"
  shows "keeps (\<lambda>db. case t db of Inl y \<Rightarrow> f y db | Inr y \<Rightarrow> g y db)"
proof (rule keepsI)
  fix db r db' assume "(case t db of Inl y \<Rightarrow> f y db | Inr y \<Rightarrow> g y db) = (r, db')"
  then show "outcome r db db'"
    by (cases "t db") (auto intro: keepsD [OF assms(1)] keepsD [OF assms(2)])
qed

lemma keeps_fail [effects]: "Template_Fallback \<notin> set es \<Longrightarrow> keeps (\<lambda>db. (Inl es, db))"
  by (simp add: keeps_def outcome_def R_refl)

lemma keeps_none [effects]: "keeps (\<lambda>db. (Inr v, db))"
  by (simp add: keeps_def outcome_def R_refl)

lemma keeps_then [effects]:
  assumes "keeps f" "\<And>es. Template_Fallback \<in> set (h es) \<longleftrightarrow> Template_Fallback \<in> set es"
    "\<And>es. Audit_Failed \<in> set (h es) \<longleftrightarrow> Audit_Failed \<in> set es"
  shows "keeps (\<lambda>db. case f db of (Inl es, db') \<Rightarrow> (Inl (h es), db') | (Inr y, db') \<Rightarrow> (Inr (v y), db'))"
  by (rule keepsI) (auto dest!: keepsD [OF assms(1)] simp: assms(2,3) outcome_def split: prod.splits sum.splits)

lemma or_fallback_keeps:
  assumes "keeps f" "Template_Fallback \<notin> set es"
  shows "keeps (or_fallback es f)"
proof (rule keepsI)
  fix db r db' assume "or_fallback es f db = (r, db')"
  then obtain c where c: "f db = (c, db')" "r = Inl (es @ (case c of Inl es' \<Rightarrow> es' | Inr _ \<Rightarrow> [Template_Fallback]))"
    by (auto simp: or_fallback_def split: prod.splits sum.splits)
  from keepsD [OF assms(1) c(1)] c(2) assms(2) show "outcome r db db'"
    by (auto simp: outcome_def split: sum.splits if_splits)
qed

text \<open>A first attempt that fails leaves no post, so that a fallback after it is the only one.\<close>

lemma then_fallback_keeps:
  assumes f: "keeps f" "\<And>db es db'. f db = (Inl es, db') \<Longrightarrow> Template_Fallback \<notin> set es \<and> (P es \<or> Audit_Failed \<notin> set es)"
    and g: "keeps g" and h: "\<And>es. Template_Fallback \<notin> set es \<Longrightarrow> Template_Fallback \<notin> set (h es)"
  shows "keeps (\<lambda>db. case f db of (Inr _, db') \<Rightarrow> (Inr (), db')
     | (Inl es, db') \<Rightarrow> if P es then (Inl es, db') else or_fallback (h es) g db')"
proof (rule keepsI)
  fix db r db'
  assume r: "(case f db of (Inr _, db') \<Rightarrow> (Inr (), db')
     | (Inl es, db') \<Rightarrow> if P es then (Inl es, db') else or_fallback (h es) g db') = (r, db')"
  obtain c d where c: "f db = (c, d)" by (cases "f db")
  show "outcome r db db'"
  proof (cases c)
    case (Inr v)
    with r c keepsD [OF f(1) c] show ?thesis by (auto simp: outcome_def)
  next
    case (Inl es)
    have nf: "Template_Fallback \<notin> set es" using f(2) c Inl by blast
    show ?thesis
    proof (cases "P es")
      case True
      with r c Inl keepsD [OF f(1) c] show ?thesis by (auto simp: outcome_def)
    next
      case False
      with f(2) c Inl keepsD [OF f(1) c] have t: "R 0 db d" by (force simp: outcome_def split: if_splits)
      from False r c Inl have o: "or_fallback (h es) g d = (r, db')" by simp
      from keepsD [OF or_fallback_keeps [OF g h [OF nf]] o] R_trans [OF t] show ?thesis
        by (auto simp: outcome_def split: sum.splits if_splits)
    qed
  qed
qed

text \<open>Inside the nested transaction a failure may leave anything, as it is rolled back.\<close>

definition nested_keeps :: "'a effect \<Rightarrow> bool" where
  "nested_keeps f \<longleftrightarrow> (\<forall>db r db'. f db = (r, db') \<longrightarrow> (case r of Inr _ \<Rightarrow> True | Inl es \<Rightarrow> Template_Fallback \<in> set es) \<longrightarrow> R 1 db db')"

lemma keeps_nested: "keeps f \<Longrightarrow> nested_keeps f"
  unfolding nested_keeps_def
proof (intro allI impI)
  fix db r db' assume "keeps f" "f db = (r, db')" and ok: "case r of Inr _ \<Rightarrow> True | Inl es \<Rightarrow> Template_Fallback \<in> set es"
  then have "outcome r db db'" by (rule_tac keepsD)
  with ok show "R 1 db db'" by (cases r) (simp_all add: outcome_def)
qed

lemma nested_effect_keeps: "nested_keeps f \<Longrightarrow> R 1 db (snd (nested_effect f db))"
  by (cases "f db") (auto simp: nested_keeps_def nested_effect_def R_refl split: sum.splits)

lemma no_value_keeps: "keeps f \<Longrightarrow> keeps (no_value f)"
  unfolding no_value_def [abs_def] by (intro effects) simp_all

end

lemma create_job_no_fallback:
  "create_job_automation_post x job inp meta db = (Inl es, db') \<Longrightarrow> Template_Fallback \<notin> set es \<and> Post_Validation \<notin> set es"
  by (auto simp: create_job_automation_post_def split: prod.splits sum.splits)

lemma create_recurring_fails:
  assumes "create_recurring_automation_post x job m content res reason db = (Inl es, db')"
  shows "Template_Fallback \<notin> set es \<and> (Post_Validation \<notin> set es \<or> Audit_Failed \<notin> set es)"
  using assms create_job_no_fallback
  unfolding create_recurring_automation_post_def
  by (fastforce simp: Let_def split: if_splits sum.splits option.splits prod.splits)

lemma create_rss_fails:
  assumes "create_rss_automation_post x job m content res reason db = (Inl es, db')"
  shows "Template_Fallback \<notin> set es \<and> (Post_Validation \<notin> set es \<or> Audit_Failed \<notin> set es)"
  using assms create_job_no_fallback
  unfolding create_rss_automation_post_def
  by (fastforce simp: Let_def split: if_splits sum.splits option.splits prod.splits)

text \<open>The completion of one job. \<open>allowed\<close> says which posts it may create, \<open>meta_ok\<close> which template metadata it has.\<close>

locale completion_contract = effect_contract R for R +
  fixes x :: auto_env and job :: job_row and allowed :: "create_post_input \<Rightarrow> bool" and meta_ok :: "recurring_meta \<Rightarrow> bool"
  assumes create: "allowed inp \<Longrightarrow> keeps (create_job_automation_post x job inp meta)"
    and prepared: "prepare_automation x team inp limits db = Some inp' \<Longrightarrow> allowed inp \<Longrightarrow> allowed inp'"
    and status: "job_final s \<Longrightarrow> R 0 db (update_ai_job_status now (jb_id job) s result err db)"
    and recurring: "meta_ok m \<Longrightarrow> allowed (recurring_input x job m content res targets reason t)"
    and rss: "allowed (rss_input x job rm content res targets reason)"
    and auto: "allowed (auto_input x job res)"
begin

lemma create_recurring_keeps: "meta_ok m \<Longrightarrow> keeps (create_recurring_automation_post x job m content res reason)"
  unfolding create_recurring_automation_post_def [abs_def] Let_def
  by (intro effects create) (auto intro: prepared recurring)

lemma create_rss_keeps: "keeps (create_rss_automation_post x job rm content res reason)"
  unfolding create_rss_automation_post_def [abs_def] Let_def
  by (intro effects create) (auto intro: prepared rss)

lemma finish_recurring_fallback_keeps: "meta_ok m \<Longrightarrow> keeps (finish_recurring_fallback x job m reason)"
  unfolding finish_recurring_fallback_def [abs_def] by (intro effects create_recurring_keeps) simp

lemma finish_rss_fallback_keeps: "keeps (finish_rss_fallback x job rm reason)"
  unfolding finish_rss_fallback_def [abs_def] by (intro effects create_rss_keeps) simp

lemma finish_recurring_from_ai_keeps: "meta_ok m \<Longrightarrow> keeps (finish_recurring_from_ai x job raw m)"
  unfolding finish_recurring_from_ai_def [abs_def]
  by (intro effects or_fallback_keeps finish_recurring_fallback_keeps
      then_fallback_keeps [where h = "\<lambda>es. es", OF create_recurring_keeps create_recurring_fails]) simp_all

lemma finish_rss_from_ai_keeps: "keeps (finish_rss_from_ai x job raw rm)"
  unfolding finish_rss_from_ai_def [abs_def]
  by (intro effects or_fallback_keeps finish_rss_fallback_keeps
      then_fallback_keeps [where h = "\<lambda>es. []", OF create_rss_keeps create_rss_fails]) simp_all

lemma auto_create_post_keeps: "keeps (auto_create_post x job raw)"
  unfolding auto_create_post_def [abs_def] Let_def
  by (intro effects create) (auto intro: prepared auto)

lemma faulty_status_keeps:
  "job_final s \<Longrightarrow> R 0 db (snd (faulty e call (always (update_ai_job_status now (jb_id job) s result err)) db))"
  by (auto simp: faulty_def always_def R_refl status split: option.split)

lemma with_draft_keeps:
  assumes f: "keeps f" and s: "job_final s"
  shows "nested_keeps (with_draft x job s err f)"
  unfolding nested_keeps_def
proof (intro allI impI)
  fix db r db'
  assume w: "with_draft x job s err f db = (r, db')" and ok: "case r of Inr _ \<Rightarrow> True | Inl es \<Rightarrow> Template_Fallback \<in> set es"
  obtain c d where c: "f db = (c, d)" by (cases "f db")
  note o = keepsD [OF f c]
  show "R 1 db db'"
  proof (cases "\<exists>draft. c = Inr (Some draft)")
    case False
    with w c have "db' = d" "r = c" by (auto simp: with_draft_def split: sum.splits option.splits)
    with o ok show ?thesis by (auto simp: outcome_def split: sum.splits)
  next
    case True
    then obtain draft where draft: "c = Inr (Some draft)" by blast
    let ?u = "faulty (ax_env x) ''draft result'' (always (update_ai_job_status (ax_now x) (jb_id job) s draft err)) d"
    from w c draft have "db' = snd ?u" by (auto simp: with_draft_def split: prod.splits sum.splits)
    with faulty_status_keeps [OF s, of d "ax_env x" "''draft result''" "ax_now x" draft err] have "R 0 d db'" by simp
    with o draft R_trans [of 1 db d 0 db'] show ?thesis by (simp add: outcome_def)
  qed
qed

lemma completion_effect_keeps:
  assumes "jr_job r = job"
    "\<And>m. \<not> source_gone \<Longrightarrow> jr_automation r \<Longrightarrow> jr_rss r = None \<Longrightarrow> jr_recurring r = Some m \<Longrightarrow> meta_ok m"
  shows "nested_keeps (completion_effect x r source_gone s result err)"
proof -
  have rss: "keeps (no_value (if s = Job_Completed then finish_rss_from_ai x job result m
       else finish_rss_fallback x job m ''provider_failure''))" for m
    by (simp add: no_value_keeps finish_rss_from_ai_keeps finish_rss_fallback_keeps)
  have rc: "keeps (no_value (if s = Job_Completed then finish_recurring_from_ai x job result m
       else finish_recurring_fallback x job m ''provider_failure''))" if "meta_ok m" for m
    using that by (simp add: no_value_keeps finish_recurring_from_ai_keeps finish_recurring_fallback_keeps)
  have draft: "s = Job_Completed \<Longrightarrow> nested_keeps (with_draft x job s err (auto_create_post x job result))"
    by (rule with_draft_keeps [OF auto_create_post_keeps]) (simp add: job_final_def)
  have none: "nested_keeps (\<lambda>db. (Inr None, db))" "nested_keeps (\<lambda>db. (Inl [Source_Gone], db))"
    by (simp_all add: nested_keeps_def R_refl)
  consider "source_gone" | m where "\<not> source_gone" "jr_automation r" "jr_rss r = Some m"
    | m where "\<not> source_gone" "jr_automation r" "jr_rss r = None" "jr_recurring r = Some m"
    | "\<not> source_gone" "\<not> jr_automation r"
    by (cases source_gone; cases "jr_rss r"; cases "jr_recurring r"; cases "jr_automation r") (auto simp: jr_automation_def)
  then show ?thesis
  proof cases
    case 1
    with none(2) show ?thesis by (simp add: completion_effect_def [abs_def])
  next
    case 2
    with keeps_nested [OF rss [of m]] assms(1) show ?thesis
      by (cases "s = Job_Completed") (simp_all add: completion_effect_def [abs_def])
  next
    case 3
    with keeps_nested [OF rc [OF assms(2)]] assms(1) show ?thesis
      by (cases "s = Job_Completed") (simp_all add: completion_effect_def [abs_def] Let_def)
  next
    case 4
    with none(1) draft assms(1) show ?thesis
      by (cases "jr_preview r"; cases "s = Job_Completed \<and> \<not> pl_no_publish (jb_payload (jr_job r)) \<and>
            ax_publish_team x (jb_team (jr_job r))") (auto simp: completion_effect_def [abs_def])
  qed
qed

end

end
