(* ===== verification/Ai_Jobs_Safety.thy ===== *)
theory Ai_Jobs_Safety
  imports Effects
begin

text \<open>
  What the completion of an AI job leaves behind: every effect of a completion keeps the job table apart from
  the rows it names, closes a job at most once and creates a post only together with the closing.
\<close>

section \<open>What a completion leaves behind\<close>

definition job_ids :: "store_db \<Rightarrow> string list" where
  "job_ids db = map jb_id (sd_jobs db)"

definition closed_job :: "string \<Rightarrow> store_db \<Rightarrow> bool" where
  "closed_job i db \<longleftrightarrow> (case find_job i db of None \<Rightarrow> False | Some j \<Rightarrow> job_final (jb_status j))"

definition job_closing :: "string \<Rightarrow> audit_event \<Rightarrow> bool" where
  "job_closing i e \<longleftrightarrow> ae_target_type e = ''ai_job'' \<and> ae_target e = Some i \<and>
     ae_action e \<in> {''ai_job.complete'', ''ai_job.fail'', ''ai_job.fallback'', ''ai_job.cancel''}"

definition job_posting :: "string \<Rightarrow> audit_event \<Rightarrow> bool" where
  "job_posting i e \<longleftrightarrow> ae_action e = ''post.automation_create'' \<and> map_of (ae_metadata e) ''job_id'' = Some i"

definition closings :: "string \<Rightarrow> store_db \<Rightarrow> nat" where "closings i db = count_where (job_closing i) (sd_audit db)"
definition postings :: "string \<Rightarrow> store_db \<Rightarrow> nat" where "postings i db = count_where (job_posting i) (sd_audit db)"

lemma job_live_not_final: "job_live j \<longleftrightarrow> \<not> job_final (jb_status j)"
  by (cases "jb_status j") (auto simp: job_live_def job_final_def)

text \<open>Events an operation appends for one job: none of other jobs', at most one of each kind of its own.\<close>

definition job_trace :: "string \<Rightarrow> nat \<Rightarrow> nat \<Rightarrow> store_db \<Rightarrow> store_db \<Rightarrow> bool" where
  "job_trace i n m db db' \<longleftrightarrow>
     (\<exists>new. sd_audit db' = sd_audit db @ new \<and> count_where (job_posting i) new \<le> n \<and> count_where (job_closing i) new \<le> m \<and>
        (\<forall>k. k \<noteq> i \<longrightarrow> count_where (job_posting k) new = 0 \<and> count_where (job_closing k) new = 0)) \<and>
     job_ids db' = job_ids db \<and> (\<forall>k. k \<noteq> i \<longrightarrow> find_job k db' = find_job k db) \<and>
     (closed_job i db \<longrightarrow> closed_job i db') \<and> sd_identity db' = sd_identity db"

lemma count_where_empty [simp]: "count_where p [] = 0"
  by (simp add: count_where_def)

lemma count_where_single: "count_where p [x] = (if p x then 1 else 0)"
  by (simp add: count_where_def)

lemma job_trace_refl [intro, simp]: "job_trace i n m db db"
  by (auto simp: job_trace_def intro: exI [of _ "[]"])

lemma job_trace_mono: "job_trace i n m db db' \<Longrightarrow> n \<le> n' \<Longrightarrow> m \<le> m' \<Longrightarrow> job_trace i n' m' db db'"
  unfolding job_trace_def by (elim conjE exE) (intro conjI exI, auto)

lemma job_trace_trans:
  assumes "job_trace i n m db db1" "job_trace i n' m' db1 db2"
  shows "job_trace i (n + n') (m + m') db db2"
proof -
  from assms(1) obtain a where a: "sd_audit db1 = sd_audit db @ a" "count_where (job_posting i) a \<le> n"
    "count_where (job_closing i) a \<le> m" "\<forall>k. k \<noteq> i \<longrightarrow> count_where (job_posting k) a = 0 \<and> count_where (job_closing k) a = 0"
    by (auto simp: job_trace_def)
  from assms(2) obtain b where b: "sd_audit db2 = sd_audit db1 @ b" "count_where (job_posting i) b \<le> n'"
    "count_where (job_closing i) b \<le> m'" "\<forall>k. k \<noteq> i \<longrightarrow> count_where (job_posting k) b = 0 \<and> count_where (job_closing k) b = 0"
    by (auto simp: job_trace_def)
  have "sd_audit db2 = sd_audit db @ (a @ b)" using a(1) b(1) by simp
  with a b assms show ?thesis
    unfolding job_trace_def by (intro conjI exI [of _ "a @ b"]) (auto simp: count_where_append)
qed

text \<open>Tables that only differ elsewhere.\<close>

definition same_jobs :: "store_db \<Rightarrow> store_db \<Rightarrow> bool" where
  "same_jobs db db' \<longleftrightarrow> sd_jobs db' = sd_jobs db \<and> sd_audit db' = sd_audit db \<and> sd_identity db' = sd_identity db"

lemma same_jobs_refl [simp]: "same_jobs db db" by (simp add: same_jobs_def)

lemma same_jobs_trans: "same_jobs a b \<Longrightarrow> same_jobs b c \<Longrightarrow> same_jobs a c" by (simp add: same_jobs_def)

lemma same_jobs_trace: "same_jobs db db' \<Longrightarrow> job_trace i n m db db'"
  by (auto simp: job_trace_def same_jobs_def job_ids_def find_job_def closed_job_def intro: exI [of _ "[]"])

lemma faulty_cases:
  assumes "faulty e call f db = (r, db')"
  obtains err where "r = Inl (Backend err)" "db' = db" | "f db = (r, db')"
  using assms by (auto simp: faulty_def split: option.splits)

lemma create_scheduled_post_jobs: "same_jobs db (snd (create_scheduled_post now fresh team pr inp db))"
proof -
  have "same_jobs db db'" if "and_then (insert_post (new_post_row now fresh team pr inp)) (\<lambda>_.
         and_then (insert_versions fresh (in_override inp)) (\<lambda>_.
         and_then (insert_targets fresh (in_target_accounts inp)) (\<lambda>_.
           (case in_rss_feed_id inp of
              None \<Rightarrow> (\<lambda>db. (Inr (), db))
            | Some feed \<Rightarrow> if in_rss_item_key inp \<noteq> []
                           then link_rss_item_for_post now team feed (in_rss_item_key inp) fresh
                           else (\<lambda>db. (Inr (), db)))))) db = (Inr y, db')" for y db'
    using that
    by (auto simp: and_then_Inr same_jobs_def insert_post_def insert_versions_def insert_targets_def
        link_rss_item_for_post_def bump_counter_def Let_def split: option.splits if_splits)
  then show ?thesis
    unfolding create_scheduled_post_def with_audit_transaction_def
    by (auto simp del: split_paired_All split: prod.splits sum.splits)
qed

lemma insert_audit_event_trace:
  assumes "insert_audit_event now fresh e db = (r, db')" "\<And>k. k \<noteq> i \<Longrightarrow> \<not> job_posting k e \<and> \<not> job_closing k e"
  shows "job_trace i (if job_posting i e then 1 else 0) (if job_closing i e then 1 else 0) db db' \<and>
    (case r of Inl _ \<Rightarrow> db' = db | Inr _ \<Rightarrow> True)"
proof -
  have k: "job_posting k (fill_event now fresh e) = job_posting k e" "job_closing k (fill_event now fresh e) = job_closing k e" for k
    by (simp_all add: job_posting_def job_closing_def fill_event_def)
  consider "db' = db" | "db' = db\<lparr>sd_audit := sd_audit db @ [fill_event now fresh e]\<rparr>" "r = Inr ()"
    using assms(1) by (auto simp: insert_audit_event_def Let_def split: if_splits)
  then show ?thesis
  proof cases
    case 1
    then show ?thesis by (simp split: sum.splits)
  next
    case 2
    then show ?thesis using assms(2)
      by (auto simp: job_trace_def count_where_single k job_ids_def find_job_def closed_job_def)
  qed
qed

text \<open>An effect of a completion creates at most one post, and none when it fails, unless the failure says that the
  template's content was posted instead.\<close>

interpretation jt: effect_contract "\<lambda>n. job_trace i n 0" for i
  by unfold_locales (auto intro: job_trace_mono job_trace_trans dest: job_trace_trans)

abbreviation effect_ok :: "string \<Rightarrow> 'a effect \<Rightarrow> bool" where
  "effect_ok i \<equiv> effect_contract.keeps (\<lambda>n. job_trace i n 0)"

lemma effect_okD:
  assumes "effect_ok i f" "f db = (r, db')"
  shows "case r of Inr _ \<Rightarrow> job_trace i 1 0 db db'
       | Inl es \<Rightarrow> if Template_Fallback \<in> set es then job_trace i 1 0 db db' else Audit_Failed \<in> set es \<or> job_trace i 0 0 db db'"
  using jt.keepsD [OF assms] by (simp only: jt.outcome_def)

lemma job_event_posting: "job_posting k (job_audit_event x fresh job ''post.automation_create'' ty target meta) \<longleftrightarrow> k = jb_id job"
  by (auto simp: job_posting_def job_audit_event_def split: option.splits)

lemma job_event_not_closing: "\<not> job_closing k (job_audit_event x fresh job ''post.automation_create'' ty target meta)"
  by (simp add: job_closing_def job_audit_event_def)

lemma create_job_automation_post_ok: "effect_ok (jb_id job) (create_job_automation_post x job inp meta)"
proof (rule jt.keepsI)
  fix db r db' assume r: "create_job_automation_post x job inp meta db = (r, db')"
  obtain c d where c: "faulty (ax_env x) ''create post'' (create_scheduled_post (ax_now x) (ax_fresh x ''post'') (jb_team job)
             (system_principal (jb_author job)) inp) db = (c, d)" by (metis surj_pair)
  have same: "same_jobs db d"
    using c by (elim faulty_cases) (simp, metis create_scheduled_post_jobs snd_conv)
  have "case r of Inr _ \<Rightarrow> job_trace (jb_id job) 1 0 db db'
       | Inl es \<Rightarrow> job_trace (jb_id job) (if Template_Fallback \<in> set es then 1 else 0) 0 db db'"
  proof (cases c)
    case (Inl e)
    with r c same show ?thesis by (auto simp: create_job_automation_post_def intro: same_jobs_trace)
  next
    case (Inr post)
    let ?ev = "job_audit_event x (ax_fresh x ''create event'') job ''post.automation_create'' ''post'' (sp_id post)
                     ((''post_id'', sp_id post) # meta)"
    obtain ic d2 where ic: "faulty (ax_env x) ''create event'' (insert_audit_event (ax_now x) (ax_fresh x ''create event'') ?ev) d = (ic, d2)"
      by (metis surj_pair)
    have tr: "(case ic of Inl _ \<Rightarrow> d2 = d | Inr _ \<Rightarrow> job_trace (jb_id job) 1 0 d d2)"
      using ic
    proof (cases rule: faulty_cases)
      case 1
      then show ?thesis by simp
    next
      case 2
      from insert_audit_event_trace [OF this, of "jb_id job"]
      have t: "job_trace (jb_id job) 1 0 d d2 \<and> (case ic of Inl _ \<Rightarrow> d2 = d | Inr _ \<Rightarrow> True)"
        by (simp only: job_event_posting job_event_not_closing) simp
      then show ?thesis by (simp split: sum.splits)
    qed
    show ?thesis
    proof (cases ic)
      case (Inl e)
      with r c Inr ic tr same show ?thesis
        by (auto simp: create_job_automation_post_def intro: same_jobs_trace)
    next
      case (Inr u)
      with tr have "job_trace (jb_id job) 1 0 d d2" by simp
      from job_trace_trans [OF same_jobs_trace [OF same, of "jb_id job" 0 0] this]
      have "job_trace (jb_id job) 1 0 db d2" by simp
      with r c \<open>c = Inr post\<close> ic Inr show ?thesis by (auto simp: create_job_automation_post_def)
    qed
  qed
  then show "effect_contract.outcome (\<lambda>n. job_trace (jb_id job) n 0) r db db'"
    by (simp add: jt.outcome_def split: sum.splits if_splits)
qed

lemma find_job_update:
  assumes "\<And>j. jb_id (f j) = jb_id j"
  shows "find_job k (db\<lparr>sd_jobs := update_where p f (sd_jobs db)\<rparr>) = map_option (\<lambda>j. if p j then f j else j) (find_job k db)"
  unfolding find_job_def by (simp add: find_update_where_key [where key = jb_id, OF assms])

lemma job_ids_update:
  "(\<And>j. jb_id (f j) = jb_id j) \<Longrightarrow> job_ids (db\<lparr>sd_jobs := update_where p f (sd_jobs db)\<rparr>) = job_ids db"
  by (simp add: job_ids_def map_update_where_key)

lemma find_job_id: "find_job k db = Some j \<Longrightarrow> jb_id j = k"
  unfolding find_job_def by (auto dest: find_SomeD)

lemma update_ai_job_status_trace:
  assumes "job_final status"
  shows "job_trace i n m db (update_ai_job_status now i status result err db)"
  using assms find_job_id unfolding job_trace_def update_ai_job_status_def
  by (auto simp: job_ids_update find_job_update closed_job_def fun_eq_iff map_option_case split: option.splits
      intro: exI [of _ "[]"])

lemma faulty_update_ok:
  assumes "job_final status"
  shows "job_trace i n m db (snd (faulty e call (always (update_ai_job_status now i status result err)) db))"
  using update_ai_job_status_trace [OF assms] by (auto simp: faulty_def always_def split: option.split)

text \<open>So does the whole completion, for any job and any post.\<close>

interpretation jc: completion_contract "\<lambda>n. job_trace (jb_id job) n 0" x job "\<lambda>_. True" "\<lambda>_. True" for x job
  by unfold_locales (auto intro: create_job_automation_post_ok update_ai_job_status_trace)

lemmas create_recurring_ok = jc.create_recurring_keeps [OF TrueI]
lemmas create_rss_ok = jc.create_rss_keeps

lemma completion_effect_trace: "job_trace (jb_id (jr_job r)) 1 0 db (snd (nested_effect (completion_effect x r source_gone s result err) db))"
  by (rule jt.nested_effect_keeps [OF jc.completion_effect_keeps]) simp_all

lemma release_item_same_jobs: "same_jobs db (snd (release_rss_item_attempt team feed key db))"
  by (auto simp: release_rss_item_attempt_def same_jobs_def Let_def split: option.split)

lemma release_item_of_same_jobs: "same_jobs db (release_item_of x r es db)"
  using release_item_same_jobs unfolding release_item_of_def faulty_def by (auto split: option.splits)

lemma finish_event_trace:
  assumes "action \<noteq> ''post.automation_create''" "finish_event x r action outcome db = (v, db')"
  shows "job_trace (jb_id (jr_job r)) 0 1 db db'"
proof -
  let ?e = "job_audit_event x (ax_fresh x ''event'') (jr_job r) action ''ai_job'' (jb_id (jr_job r)) (completion_meta r outcome)"
  have k: "\<not> job_posting k ?e" "job_closing k ?e \<Longrightarrow> k = jb_id (jr_job r)" for k
    using assms(1) by (auto simp: job_posting_def job_closing_def job_audit_event_def)
  from assms(2) obtain u where "faulty (ax_env x) ''event'' (insert_audit_event (ax_now x) (ax_fresh x ''event'') ?e) db = (u, db')"
    by (auto simp: finish_event_def split: prod.splits sum.splits)
  then show ?thesis
  proof (cases rule: faulty_cases)
    case 1
    then show ?thesis by simp
  next
    case 2
    have "k \<noteq> jb_id (jr_job r) \<Longrightarrow> \<not> job_posting k ?e \<and> \<not> job_closing k ?e" for k using k by blast
    from insert_audit_event_trace [OF 2 this]
    have "job_trace (jb_id (jr_job r)) (if job_posting (jb_id (jr_job r)) ?e then 1 else 0)
       (if job_closing (jb_id (jr_job r)) ?e then 1 else 0) db db'" by blast
    then show ?thesis by (rule job_trace_mono) (simp_all add: k(1))
  qed
qed

lemmas finish_event_traces =
  finish_event_trace [of "''ai_job.complete''", simplified] finish_event_trace [of "''ai_job.fail''", simplified]
  finish_event_trace [of "''ai_job.fallback''", simplified]

lemma after_claim_trace:
  assumes "after_claim x r source_gone status result err db = (Inr v, db')"
  shows "job_trace (jb_id (jr_job r)) 1 1 db db'"
proof -
  let ?i = "jb_id (jr_job r)"
  obtain o' d where n: "nested_effect (completion_effect x r source_gone status result err) db = (o', d)" by (metis surj_pair)
  have t: "job_trace ?i 1 0 db d"
    using completion_effect_trace [of r db x source_gone status result err] n by simp
  have "job_trace ?i 0 1 d db'"
  proof (cases o')
    case (Inr u)
    with assms n finish_event_traces show ?thesis by (auto simp: after_claim_def split: if_splits)
  next
    case (Inl es)
    let ?d1 = "release_item_of x r es d"
    obtain u d2 where u: "faulty (ax_env x) ''status''
        (always (update_ai_job_status (ax_now x) ?i Job_Failed result (failure_message r es))) ?d1 = (u, d2)" by (metis surj_pair)
    have "job_final Job_Failed" by (simp add: job_final_def)
    from faulty_update_ok [OF this, of ?i 0 0 ?d1 "ax_env x" "''status''" "ax_now x" result "failure_message r es"] u
    have "job_trace ?i 0 0 ?d1 d2" by simp
    with same_jobs_trace [OF release_item_of_same_jobs [of d x r es], of ?i 0 0]
    have d2: "job_trace ?i 0 0 d d2" using job_trace_trans by force
    have "job_trace ?i 0 1 d2 db'"
      using assms n Inl u finish_event_traces
      by (auto simp: after_claim_def Let_def split: if_splits sum.splits)
    with d2 show ?thesis using job_trace_trans by force
  qed
  with t show ?thesis using job_trace_trans by force
qed

section \<open>Progress of jobs\<close>

text \<open>What an operation may do to the jobs: a closed job keeps its row and gets no more events; a job that it closes
  gets at most one closing event and one post; any other job gets none.\<close>

definition job_progress :: "store_db \<Rightarrow> store_db \<Rightarrow> bool" where
  "job_progress db db' \<longleftrightarrow> (distinct (job_ids db) \<longrightarrow> distinct (job_ids db') \<and>
     (\<forall>i. if closed_job i db
          then find_job i db' = find_job i db \<and> closings i db' = closings i db \<and> postings i db' = postings i db
          else if closed_job i db'
          then closings i db' \<le> closings i db + 1 \<and> postings i db' \<le> postings i db + 1
          else closings i db' = closings i db \<and> postings i db' = postings i db))"

lemma job_progress_refl [simp]: "job_progress db db"
  by (simp add: job_progress_def)

lemma closed_job_find: "find_job i db' = find_job i db \<Longrightarrow> closed_job i db' = closed_job i db"
  by (simp add: closed_job_def)

lemma job_progress_trans:
  assumes "job_progress a b" "job_progress b c"
  shows "job_progress a c"
  unfolding job_progress_def
proof (intro impI conjI allI)
  assume d: "distinct (job_ids a)"
  with assms(1) have db: "distinct (job_ids b)" and ab: "\<And>i. if closed_job i a
      then find_job i b = find_job i a \<and> closings i b = closings i a \<and> postings i b = postings i a
      else if closed_job i b then closings i b \<le> closings i a + 1 \<and> postings i b \<le> postings i a + 1
      else closings i b = closings i a \<and> postings i b = postings i a" unfolding job_progress_def by blast+
  with assms(2) show "distinct (job_ids c)" unfolding job_progress_def by blast
  fix i
  from assms(2) db have bc: "if closed_job i b
      then find_job i c = find_job i b \<and> closings i c = closings i b \<and> postings i c = postings i b
      else if closed_job i c then closings i c \<le> closings i b + 1 \<and> postings i c \<le> postings i b + 1
      else closings i c = closings i b \<and> postings i c = postings i b" unfolding job_progress_def by blast
  show "if closed_job i a
      then find_job i c = find_job i a \<and> closings i c = closings i a \<and> postings i c = postings i a
      else if closed_job i c then closings i c \<le> closings i a + 1 \<and> postings i c \<le> postings i a + 1
      else closings i c = closings i a \<and> postings i c = postings i a"
    using ab [of i] bc closed_job_find [of i b a] closed_job_find [of i c b] by (auto split: if_splits)
qed

lemma job_progress_same:
  assumes "sd_jobs db' = sd_jobs db" "\<And>i. closings i db' = closings i db" "\<And>i. postings i db' = postings i db"
  shows "job_progress db db'"
  using assms by (simp add: job_progress_def job_ids_def find_job_def closed_job_def)

lemma same_jobs_progress: "same_jobs db db' \<Longrightarrow> job_progress db db'"
  by (rule job_progress_same) (simp_all add: same_jobs_def closings_def postings_def)

lemma transaction_progress:
  assumes "\<And>v db'. body db = (Inr v, db') \<Longrightarrow> job_progress db db'"
  shows "job_progress db (snd (with_audit_transaction body db))"
  by (rule transaction_cases [of body db]) (simp_all add: assms)

lemma find_job_live_row:
  assumes "distinct (job_ids db)" "j \<in> set (sd_jobs db)" "jb_id j = i"
  shows "find_job i db = Some j"
  unfolding find_job_def
  by (rule find_unique [where key = jb_id]) (use assms in \<open>auto simp: job_ids_def\<close>)

lemma claim_effect:
  assumes "claim_ai_job_completion now i status result err db = (Inr won, d)"
  shows "job_final status \<and> sd_audit d = sd_audit db \<and> job_ids d = job_ids db \<and> (\<forall>k. k \<noteq> i \<longrightarrow> find_job k d = find_job k db) \<and>
    (distinct (job_ids db) \<longrightarrow> (if won then \<not> closed_job i db \<and> closed_job i d \<and> find_job i d \<noteq> None
                              else find_job i d = find_job i db \<and> (find_job i db = None \<or> closed_job i db)))"
proof -
  let ?p = "\<lambda>j. jb_id j = i \<and> job_live j"
  let ?f = "\<lambda>j. j\<lparr>jb_status := status, jb_result := result, jb_error := nullable_string err, jb_updated := now,
                     jb_completed := Some now\<rparr>"
  have fin: "job_final status" and won: "won = (0 < count_where ?p (sd_jobs db))"
    and d: "d = db\<lparr>sd_jobs := update_where ?p ?f (sd_jobs db)\<rparr>"
    using assms by (auto simp: claim_ai_job_completion_def Let_def split: if_splits)
  have find: "find_job k d = map_option (\<lambda>j. if ?p j then ?f j else j) (find_job k db)" for k
    unfolding d by (rule find_job_update) simp
  have other: "find_job k d = find_job k db" if "k \<noteq> i" for k
    using that find_job_id [of k db] unfolding find by (cases "find_job k db") auto
  have "if won then \<not> closed_job i db \<and> closed_job i d \<and> find_job i d \<noteq> None
        else find_job i d = find_job i db \<and> (find_job i db = None \<or> closed_job i db)" if dist: "distinct (job_ids db)"
  proof (cases won)
    case True
    then obtain j where j: "j \<in> set (sd_jobs db)" "?p j" using won by (auto simp: count_where_pos)
    with find_job_live_row [OF dist] have f: "find_job i db = Some j" by blast
    then have "find_job i d = Some (?f j)" using j(2) by (simp add: find)
    then show ?thesis using True f j(2) fin by (auto simp: closed_job_def job_live_not_final)
  next
    case False
    then have none: "\<forall>j \<in> set (sd_jobs db). \<not> ?p j" using won by (auto simp: count_where_pos)
    then have "d = db" by (simp add: d update_where_none)
    moreover have "find_job i db = None \<or> closed_job i db"
    proof (cases "find_job i db")
      case (Some j)
      then have "j \<in> set (sd_jobs db)" "jb_id j = i" unfolding find_job_def by (auto dest: find_SomeD)
      with none have "\<not> job_live j" by blast
      with Some show ?thesis by (simp add: closed_job_def job_live_not_final)
    qed simp
    ultimately show ?thesis using False by simp
  qed
  moreover have "sd_audit d = sd_audit db" "job_ids d = job_ids db" unfolding d by (simp_all add: job_ids_update)
  ultimately show ?thesis using fin other by blast
qed

lemma claim_then_trace:
  assumes c: "claim_ai_job_completion now i status result err db = (Inr True, d)" and t: "job_trace i 1 1 d db'"
  shows "job_progress db db'"
  unfolding job_progress_def
proof (intro impI conjI allI)
  assume dist: "distinct (job_ids db)"
  note ce = claim_effect [OF c]
  from t obtain new where new: "sd_audit db' = sd_audit d @ new" "count_where (job_posting i) new \<le> 1"
    "count_where (job_closing i) new \<le> 1"
    "\<And>k. k \<noteq> i \<Longrightarrow> count_where (job_posting k) new = 0 \<and> count_where (job_closing k) new = 0"
    and ids: "job_ids db' = job_ids d" and other: "\<And>k. k \<noteq> i \<Longrightarrow> find_job k db' = find_job k d"
    and closed: "closed_job i d \<Longrightarrow> closed_job i db'"
    unfolding job_trace_def by blast
  show "distinct (job_ids db')" using ids ce dist by simp
  fix k
  have cl: "closings k db' = closings k db + count_where (job_closing k) new"
    "postings k db' = postings k db + count_where (job_posting k) new"
    using ce by (simp_all add: closings_def postings_def new(1) count_where_append)
  show "if closed_job k db
      then find_job k db' = find_job k db \<and> closings k db' = closings k db \<and> postings k db' = postings k db
      else if closed_job k db' then closings k db' \<le> closings k db + 1 \<and> postings k db' \<le> postings k db + 1
      else closings k db' = closings k db \<and> postings k db' = postings k db"
  proof (cases "k = i")
    case True
    with ce dist closed cl new(2,3) show ?thesis by simp
  next
    case False
    with ce have "find_job k db' = find_job k db" using other by simp
    with closed_job_find [OF this] cl new(4) [OF False] show ?thesis by simp
  qed
qed

lemma claim_lost_progress:
  assumes "claim_ai_job_completion now i status result err db = (Inr False, d)"
  shows "job_progress db d"
  using claim_effect [OF assms] closed_job_find [of _ d db]
  unfolding job_progress_def by (metis closings_def postings_def)

lemma read_job_job [simp]: "jr_job (read_job x job) = job"
  by (simp add: read_job_def Let_def)

lemma complete_ai_job_progress: "job_progress db (snd (complete_ai_job x i status result err db))"
proof (cases "job_final status")
  case False
  then show ?thesis by (simp add: complete_ai_job_def)
next
  case True
  let ?body = "\<lambda>db. (case fst (faulty (ax_env x) ''job'' (reading (get_ai_job_by_id_global i)) db) of
           Inl e \<Rightarrow> (Inl e, db)
         | Inr job \<Rightarrow>
             (let r = read_job x job;
                  status' = (if jr_legacy r then Job_Failed else status);
                  err' = (if jr_legacy r then legacy_message else err);
                  source = lock_job_source x r db
              in if source \<noteq> Inr () \<and> source \<noteq> Inl No_Rows then (Inl (Backend ''source''), db)
                 else (case faulty (ax_env x) ''claim'' (claim_ai_job_completion (ax_now x) i status' result err') db of
                         (Inl e, d) \<Rightarrow> (Inl e, d)
                       | (Inr False, d) \<Rightarrow> (Inr None, d)
                       | (Inr True, d) \<Rightarrow> after_claim x r (source \<noteq> Inr ()) status' result err' d)))"
  have "complete_ai_job x i status result err db = with_audit_transaction ?body db"
    using True by (simp add: complete_ai_job_def)
  moreover have "job_progress db db'" if b: "?body db = (Inr v, db')" for v db'
  proof -
    from b obtain job where job: "fst (faulty (ax_env x) ''job'' (reading (get_ai_job_by_id_global i)) db) = Inr job"
      by (auto split: sum.splits)
    let ?r = "read_job x job"
    let ?st = "if jr_legacy ?r then Job_Failed else status" and ?err = "if jr_legacy ?r then legacy_message else err"
    have i: "jb_id job = i"
      using job by (auto simp: faulty_def reading_def get_ai_job_by_id_global_def find_job_id split: option.splits)
    obtain u d where c: "faulty (ax_env x) ''claim'' (claim_ai_job_completion (ax_now x) i ?st result ?err) db = (u, d)"
      by (metis surj_pair)
    show ?thesis
    proof (cases u)
      case (Inl e)
      with b job c show ?thesis by (auto simp: Let_def split: if_splits)
    next
      case (Inr won)
      from c Inr have cl: "claim_ai_job_completion (ax_now x) i ?st result ?err db = (Inr won, d)" by (elim faulty_cases) auto
      show ?thesis
      proof (cases won)
        case True
        with b job c Inr have "after_claim x ?r (lock_job_source x ?r db \<noteq> Inr ()) ?st result ?err d = (Inr v, db')"
          by (auto simp: Let_def split: if_splits)
        from after_claim_trace [OF this] i have "job_trace i 1 1 d db'" by simp
        with cl True show ?thesis by (auto intro: claim_then_trace)
      next
        case False
        with b job c Inr have "db' = d" by (auto simp: Let_def split: if_splits)
        with cl False show ?thesis by (auto intro: claim_lost_progress)
      qed
    qed
  qed
  ultimately show ?thesis using transaction_progress [of ?body db] by simp
qed

end
