(* ===== verification/Ai_Jobs_Success.thy ===== *)
theory Ai_Jobs_Success
  imports Ai_Jobs_Safety
begin

text \<open>
  When the database does not fail, the completion of an AI job closes it.
\<close>

section \<open>A completion succeeds\<close>

text \<open>Without errors of the database, and as long as the job's team exists, the audit event of a created post is
  never the reason to roll the completion back.\<close>

definition audit_safe :: "string \<Rightarrow> 'a effect \<Rightarrow> bool" where
  "audit_safe team f \<longleftrightarrow> (\<forall>db. team_exists team db \<longrightarrow> (case f db of (Inl es, _) \<Rightarrow> Audit_Failed \<notin> set es | (Inr _, _) \<Rightarrow> True))"

named_theorems safe_effects \<open>rules for effects that do not fail in the audit log\<close>

lemma audit_safe_if [safe_effects]: "audit_safe t f \<Longrightarrow> audit_safe t g \<Longrightarrow> audit_safe t (\<lambda>db. if P db then f db else g db)"
  by (simp add: audit_safe_def)

lemma audit_safe_option [safe_effects]:
  assumes "audit_safe t f" "\<And>y. audit_safe t (g y)"
  shows "audit_safe t (\<lambda>db. case r db of None \<Rightarrow> f db | Some y \<Rightarrow> g y db)"
  unfolding audit_safe_def
proof (intro allI impI)
  fix db assume "team_exists t db"
  with assms show "case (case r db of None \<Rightarrow> f db | Some y \<Rightarrow> g y db) of (Inl es, _) \<Rightarrow> Audit_Failed \<notin> set es | (Inr _, _) \<Rightarrow> True"
    by (cases "r db") (simp_all only: audit_safe_def option.case)
qed

lemma audit_safe_sum [safe_effects]:
  assumes "\<And>y. audit_safe t (f y)" "\<And>y. audit_safe t (g y)"
  shows "audit_safe t (\<lambda>db. case r db of Inl y \<Rightarrow> f y db | Inr y \<Rightarrow> g y db)"
  unfolding audit_safe_def
proof (intro allI impI)
  fix db assume "team_exists t db"
  with assms show "case (case r db of Inl y \<Rightarrow> f y db | Inr y \<Rightarrow> g y db) of (Inl es, _) \<Rightarrow> Audit_Failed \<notin> set es | (Inr _, _) \<Rightarrow> True"
    by (cases "r db") (simp_all only: audit_safe_def sum.case)
qed

lemma audit_safe_fail [safe_effects]: "Audit_Failed \<notin> set es \<Longrightarrow> audit_safe t (\<lambda>db. (Inl es, db))"
  by (simp add: audit_safe_def)

lemma audit_safe_none [safe_effects]: "audit_safe t (\<lambda>db. (Inr v, db))"
  by (simp add: audit_safe_def)

lemma audit_safeI:
  assumes "\<And>db es db'. team_exists t db \<Longrightarrow> f db = (Inl es, db') \<Longrightarrow> Audit_Failed \<notin> set es"
  shows "audit_safe t f"
  unfolding audit_safe_def using assms by (auto split: prod.splits sum.splits)

lemma audit_safeD: "audit_safe t f \<Longrightarrow> team_exists t db \<Longrightarrow> f db = (Inl es, db') \<Longrightarrow> Audit_Failed \<notin> set es"
  unfolding audit_safe_def by (drule spec [of _ db]) simp

lemma audit_safe_then [safe_effects]:
  assumes "audit_safe t f" "\<And>es. Audit_Failed \<in> set (h es) \<longleftrightarrow> Audit_Failed \<in> set es"
  shows "audit_safe t (\<lambda>db. case f db of (Inl es, db') \<Rightarrow> (Inl (h es), db') | (Inr y, db') \<Rightarrow> (Inr (v y), db'))"
  by (rule audit_safeI) (auto dest: audit_safeD [OF assms(1)] simp: assms(2) split: prod.splits sum.splits)

lemma create_job_audit_safe:
  assumes "en_fail (ax_env x) = Map.empty"
  shows "audit_safe (jb_team job) (create_job_automation_post x job inp meta)"
proof (rule audit_safeI)
  fix db es db'
  assume t: "team_exists (jb_team job) db" and c: "create_job_automation_post x job inp meta db = (Inl es, db')"
  have "team_exists (jb_team job) (snd (create_scheduled_post (ax_now x) (ax_fresh x ''post'') (jb_team job)
             (system_principal (jb_author job)) inp db))"
    using t create_scheduled_post_jobs [of db] by (simp add: team_exists_def same_jobs_def)
  with c assms show "Audit_Failed \<notin> set es"
    by (auto simp: create_job_automation_post_def faulty_def insert_audit_event_def Let_def fill_event_def job_audit_event_def
        split: prod.splits sum.splits if_splits)
qed

lemma or_fallback_safe: "audit_safe t f \<Longrightarrow> Audit_Failed \<notin> set es \<Longrightarrow> audit_safe t (or_fallback es f)"
  by (rule audit_safeI) (auto simp: or_fallback_def split: prod.splits sum.splits dest: audit_safeD)

lemma then_fallback_safe:
  assumes f: "effect_ok i f" "audit_safe t f" and g: "audit_safe t g"
    and h: "\<And>es. Audit_Failed \<notin> set es \<Longrightarrow> Audit_Failed \<notin> set (h es)"
  shows "audit_safe t (\<lambda>db. case f db of (Inr _, db') \<Rightarrow> (Inr (), db')
     | (Inl es, db') \<Rightarrow> if P es then (Inl es, db') else or_fallback (h es) g db')"
proof (rule audit_safeI)
  fix db es db'
  assume t: "team_exists t db" and r: "(case f db of (Inr _, db') \<Rightarrow> (Inr (), db')
     | (Inl es, db') \<Rightarrow> if P es then (Inl es, db') else or_fallback (h es) g db') = (Inl es, db')"
  then obtain es1 d where c: "f db = (Inl es1, d)" by (auto split: prod.splits sum.splits)
  have a: "Audit_Failed \<notin> set es1" by (rule audit_safeD [OF f(2) t c])
  from effect_okD [OF f(1) c] have "team_exists t d" using t a by (auto simp: job_trace_def team_exists_def split: if_splits)
  from audit_safeD [OF or_fallback_safe [OF g h [OF a]] this] r c a show "Audit_Failed \<notin> set es"
    by (auto split: if_splits)
qed

text \<open>\<open>calm_env\<close>: no call to the database fails.\<close>

definition calm_env :: "auto_env \<Rightarrow> bool" where
  "calm_env x \<longleftrightarrow> en_fail (ax_env x) = Map.empty"

lemma calm_faulty [simp]: "calm_env x \<Longrightarrow> faulty (ax_env x) call f db = f db"
  by (simp add: calm_env_def faulty_def)

lemma create_recurring_safe:
  "calm_env x \<Longrightarrow> audit_safe (jb_team job) (create_recurring_automation_post x job m content res reason)"
  unfolding create_recurring_automation_post_def [abs_def] Let_def
  by (intro safe_effects create_job_audit_safe) (simp_all add: calm_env_def)

lemma create_rss_safe: "calm_env x \<Longrightarrow> audit_safe (jb_team job) (create_rss_automation_post x job m content res reason)"
  unfolding create_rss_automation_post_def [abs_def] Let_def
  by (intro safe_effects create_job_audit_safe) (simp_all add: calm_env_def)

lemma finish_recurring_fallback_safe: "calm_env x \<Longrightarrow> audit_safe (jb_team job) (finish_recurring_fallback x job m reason)"
  unfolding finish_recurring_fallback_def [abs_def] by (intro safe_effects create_recurring_safe) simp_all

lemma finish_rss_fallback_safe: "calm_env x \<Longrightarrow> audit_safe (jb_team job) (finish_rss_fallback x job m reason)"
  unfolding finish_rss_fallback_def [abs_def] by (intro safe_effects create_rss_safe) simp_all

lemma finish_recurring_from_ai_safe: "calm_env x \<Longrightarrow> audit_safe (jb_team job) (finish_recurring_from_ai x job raw m)"
  unfolding finish_recurring_from_ai_def [abs_def]
  by (intro safe_effects or_fallback_safe finish_recurring_fallback_safe
      then_fallback_safe [where h = "\<lambda>es. es", OF create_recurring_ok create_recurring_safe]) simp_all

lemma finish_rss_from_ai_safe: "calm_env x \<Longrightarrow> audit_safe (jb_team job) (finish_rss_from_ai x job raw m)"
  unfolding finish_rss_from_ai_def [abs_def]
  by (intro safe_effects or_fallback_safe finish_rss_fallback_safe
      then_fallback_safe [where h = "\<lambda>es. []", OF create_rss_ok create_rss_safe]) simp_all

lemma auto_create_post_safe: "calm_env x \<Longrightarrow> audit_safe (jb_team job) (auto_create_post x job raw)"
  unfolding auto_create_post_def [abs_def] Let_def
  by (intro safe_effects create_job_audit_safe) (simp_all add: calm_env_def)

lemma no_value_safe: "audit_safe t f \<Longrightarrow> audit_safe t (no_value f)"
  unfolding no_value_def [abs_def] by (intro safe_effects) simp_all

lemma with_draft_safe:
  assumes "audit_safe t f"
  shows "audit_safe t (with_draft x job status err f)"
  by (rule audit_safeI)
     (auto simp: with_draft_def dest: audit_safeD [OF assms] split: prod.splits sum.splits option.splits)

lemma completion_effect_safe:
  assumes c: "calm_env x"
  shows "audit_safe (jb_team (jr_job r)) (completion_effect x r source_gone status result err)"
proof -
  have rss: "audit_safe (jb_team (jr_job r)) (no_value (if status = Job_Completed then finish_rss_from_ai x (jr_job r) result m
       else finish_rss_fallback x (jr_job r) m ''provider_failure''))" for m
    by (simp add: no_value_safe finish_rss_from_ai_safe finish_rss_fallback_safe c)
  have rc: "audit_safe (jb_team (jr_job r)) (no_value (if status = Job_Completed then finish_recurring_from_ai x (jr_job r) result m
       else finish_recurring_fallback x (jr_job r) m ''provider_failure''))" for m
    by (simp add: no_value_safe finish_recurring_from_ai_safe finish_recurring_fallback_safe c)
  have draft: "audit_safe (jb_team (jr_job r)) (with_draft x (jr_job r) status err (auto_create_post x (jr_job r) result))"
    by (rule with_draft_safe [OF auto_create_post_safe [OF c]])
  consider "source_gone" | m where "\<not> source_gone" "jr_automation r" "jr_rss r = Some m"
    | "\<not> source_gone" "jr_automation r" "jr_rss r = None"
    | "\<not> source_gone" "\<not> jr_automation r" by blast
  then show ?thesis
  proof cases
    case 1
    then show ?thesis by (auto simp: completion_effect_def [abs_def] audit_safe_fail)
  next
    case 2
    with rss [of m] show ?thesis by (simp add: completion_effect_def [abs_def])
  next
    case 3
    with rc show ?thesis by (simp add: completion_effect_def [abs_def] Let_def)
  next
    case 4
    show ?thesis
      by (simp add: completion_effect_def [abs_def] Let_def 4) (intro audit_safe_if audit_safe_none draft)
  qed
qed

lemma after_claim_succeeds:
  assumes c: "calm_env x" and t: "team_exists (jb_team (jr_job r)) db" and f: "find_job (jb_id (jr_job r)) db \<noteq> None"
  shows "\<exists>v db'. after_claim x r source_gone status result err db = (Inr v, db')"
proof -
  let ?i = "jb_id (jr_job r)"
  have event: "\<exists>v d'. finish_event x r action outcome d = (Inr v, d')"
    if "team_exists (jb_team (jr_job r)) d" "?i \<in> set (job_ids d)" for action outcome d
  proof -
    obtain u d' where u: "insert_audit_event (ax_now x) (ax_fresh x ''event'')
        (job_audit_event x (ax_fresh x ''event'') (jr_job r) action ''ai_job'' ?i (completion_meta r outcome)) d = (u, d')"
      by (metis surj_pair)
    with that(1) have "u = Inr ()" "sd_jobs d' = sd_jobs d"
      by (auto simp: insert_audit_event_def Let_def fill_event_def job_audit_event_def split: if_splits)
    moreover have "find_job ?i d \<noteq> None" using that(2) unfolding find_job_def job_ids_def by (auto simp: find_None_iff)
    ultimately show ?thesis using u c
      by (auto simp: finish_event_def reading_def get_ai_job_by_id_global_def find_job_def)
  qed
  obtain o' d where n: "nested_effect (completion_effect x r source_gone status result err) db = (o', d)" by (metis surj_pair)
  have tr: "job_trace ?i 1 0 db d"
    using completion_effect_trace [of r db x source_gone status result err] n by simp
  have td: "team_exists (jb_team (jr_job r)) d" and id: "?i \<in> set (job_ids d)"
  proof -
    have "sd_identity d = sd_identity db" "job_ids d = job_ids db" using tr unfolding job_trace_def by blast+
    moreover have "?i \<in> set (job_ids db)" using f unfolding find_job_def job_ids_def by (clarsimp dest!: find_SomeD) (metis imageI)
    ultimately show "team_exists (jb_team (jr_job r)) d" "?i \<in> set (job_ids d)" using t by (simp_all add: team_exists_def)
  qed
  show ?thesis
  proof (cases o')
    case (Inr u)
    with n event [OF td id] show ?thesis by (simp add: after_claim_def)
  next
    case (Inl es)
    from n Inl obtain e' where "completion_effect x r source_gone status result err db = (Inl es, e')"
      by (auto simp: nested_effect_def split: prod.splits sum.splits)
    from audit_safeD [OF completion_effect_safe [OF c] t this] have a: "Audit_Failed \<notin> set es" .
    let ?d1 = "release_item_of x r es d"
    let ?d2 = "update_ai_job_status (ax_now x) ?i Job_Failed result (failure_message r es) ?d1"
    have s1: "same_jobs d ?d1" by (rule release_item_of_same_jobs)
    have "sd_identity ?d2 = sd_identity d" "job_ids ?d2 = job_ids d"
      using s1 by (simp_all add: same_jobs_def update_ai_job_status_def job_ids_def map_update_where_key)
    then have "team_exists (jb_team (jr_job r)) ?d2" "?i \<in> set (job_ids ?d2)" using td id by (simp_all add: team_exists_def)
    from event [OF this] show ?thesis using n Inl a c by (simp add: after_claim_def Let_def always_def)
  qed
qed

lemma lock_source_calm:
  assumes "calm_env x"
  shows "lock_job_source x r db = Inr () \<or> lock_job_source x r db = Inl No_Rows"
  using assms by (auto simp: lock_job_source_def reading_def lock_automation_source_def split: option.split)

text \<open>So without faults a completion always closes the job, and changes no other.\<close>

definition closes_only :: "string \<Rightarrow> store_db \<Rightarrow> store_db \<Rightarrow> bool" where
  "closes_only i db db' \<longleftrightarrow> closed_job i db' \<and> job_ids db' = job_ids db \<and> sd_identity db' = sd_identity db \<and>
     (\<forall>k. k \<noteq> i \<longrightarrow> find_job k db' = find_job k db)"

lemma complete_ai_job_closes:
  assumes c: "calm_env x" and j: "find_job i db = Some j" and t: "team_exists (jb_team j) db" and dist: "distinct (job_ids db)"
    and st: "job_final status"
  shows "closes_only i db (snd (complete_ai_job x i status result err db))"
proof -
  let ?r = "read_job x j"
  let ?st = "if jr_legacy ?r then Job_Failed else status" and ?err = "if jr_legacy ?r then legacy_message else err"
  have fin: "job_final ?st" using st by (simp add: job_final_def)
  obtain won d where cl: "claim_ai_job_completion (ax_now x) i ?st result ?err db = (Inr won, d)"
    using fin by (auto simp: claim_ai_job_completion_def Let_def)
  note ce = claim_effect [OF cl]
  have i: "jb_id j = i" using find_job_id [OF j] .
  have sd: "sd_identity d = sd_identity db" using cl by (auto simp: claim_ai_job_completion_def Let_def split: if_splits)
  have body: "complete_ai_job x i status result err db = with_audit_transaction (\<lambda>_.
      if won then after_claim x ?r (lock_job_source x ?r db \<noteq> Inr ()) ?st result ?err d else (Inr None, d)) db"
    using lock_source_calm [OF c, of ?r db] st c j cl
    by (elim disjE) (simp_all add: complete_ai_job_def with_audit_transaction_def reading_def get_ai_job_by_id_global_def
        Let_def split: bool.split)
  show ?thesis
  proof (cases won)
    case True
    have "team_exists (jb_team (jr_job ?r)) d" using t sd by (simp add: team_exists_def)
    moreover have "find_job (jb_id (jr_job ?r)) d \<noteq> None" using ce True dist i by simp
    ultimately obtain v d' where a: "after_claim x ?r (lock_job_source x ?r db \<noteq> Inr ()) ?st result ?err d = (Inr v, d')"
      using after_claim_succeeds [OF c] by blast
    have "closes_only i db d'" using after_claim_trace [OF a] ce True dist i sd by (auto simp: job_trace_def closes_only_def)
    with body a True show ?thesis by (simp add: with_audit_transaction_def)
  next
    case False
    with ce dist j sd have "closes_only i db d" using closed_job_find [of i d db] by (auto simp: closes_only_def)
    with body False show ?thesis by (simp add: with_audit_transaction_def)
  qed
qed

end
