(* ===== verification/Publisher_Safety.thy ===== *)
theory Publisher_Safety
  imports Publisher
begin

text \<open>
  The publication workers together with the poller, the API and restarts: a system whose steps
  interleave, the log of what reached the providers, the invariant that gives at-most-once publication,
  the bound on a worker's steps, and what its end says about the post.
\<close>

section \<open>The system\<close>

record system =
  sy_db :: store_db
  sy_listed :: "scheduled_post list"
  sy_workers :: "worker list"
  sy_sent :: "(string \<times> string) list"

text \<open>Store operations that neither add target rows nor make one claimable that was not. Retrying a failed
  post counts when none of its targets is in an unknown state, a patch when it leaves the target list.\<close>

inductive quiet_step :: "store_db \<Rightarrow> store_db \<Rightarrow> bool" where
  q_patch: "pt_target_accounts patch = None \<Longrightarrow> quiet_step db (snd (patch_scheduled_post now team post patch db))"
| q_cancel: "quiet_step db (cancel_scheduled_post now team post db)"
| q_delete: "quiet_step db (delete_scheduled_post team post db)"
| q_event: "quiet_step db (snd (insert_audit_event now fresh ev db))"
| q_drain: "quiet_step db (snd (drain_audit_events now db))"
| q_ack: "quiet_step db (snd (admin_acknowledge_failed_post now post db))"
| q_retry: "list_all (\<lambda>t. tg_post t = post \<longrightarrow> tg_status t \<noteq> Processing) (sd_targets db) \<Longrightarrow>
    quiet_step db (snd (admin_retry_failed_post now post db))"
| q_repair: "quiet_step db (snd (repair_future_posted_posts caller fresh_id now db))"
| q_lock: "quiet_step db (snd (try_acquire_lock now lock duration db))"
| q_account: "quiet_step db (snd (create_account encrypt fresh team ca db))"
| q_update_account: "quiet_step db (snd (update_account encrypt team account ua db))"
| q_delete_account: "quiet_step db (snd (delete_account team account db))"
| q_migrate: "quiet_step db (snd (migrate_account_to_team now user account team is_admin db))"
| q_metrics: "quiet_step db (fetch_metrics_job e db)"

text \<open>A post id is in use when a row, a worker, the poller or the log has it; ids are fresh UUIDs.\<close>

definition post_in_use :: "system \<Rightarrow> string \<Rightarrow> bool" where
  "post_in_use s i \<longleftrightarrow> i \<in> set (post_ids (sy_db s)) \<or> i \<in> (sp_id \<circ> wk_post) ` set (sy_workers s) \<or>
     i \<in> sp_id ` set (sy_listed s) \<or> i \<in> fst ` set (sy_sent s)"

inductive sys_step :: "system \<Rightarrow> system \<Rightarrow> bool" where
  s_list: "sy_listed s = [] \<Longrightarrow> sys_step s (s\<lparr>sy_listed := list_due_posts now limit (sy_db s)\<rparr>)"
| s_enqueue: "sy_listed s = p # ps \<Longrightarrow> enqueue_post now p (sy_db s) = (ws, db') \<Longrightarrow>
    sys_step s (s\<lparr>sy_db := db', sy_listed := ps, sy_workers := sy_workers s @ ws\<rparr>)"
| s_work: "i < length (sy_workers s) \<Longrightarrow> worker_step e (sy_workers s ! i) (sy_db s) = (w', db', out) \<Longrightarrow>
    sys_step s (s\<lparr>sy_db := db', sy_workers := (sy_workers s)[i := w'], sy_sent := sy_sent s @ out\<rparr>)"
| s_restart: "sys_step s (s\<lparr>sy_listed := [], sy_workers := []\<rparr>)"
| s_create: "\<not> post_in_use s fresh \<Longrightarrow>
    sys_step s (s\<lparr>sy_db := snd (create_scheduled_post now fresh team pr inp (sy_db s))\<rparr>)"
| s_quiet: "quiet_step (sy_db s) db' \<Longrightarrow> sys_step s (s\<lparr>sy_db := db'\<rparr>)"

section \<open>Target statuses\<close>

definition statuses :: "store_db \<Rightarrow> ((string \<times> string) \<times> post_status) set" where
  "statuses db = (\<lambda>t. ((tg_post t, tg_account t), tg_status t)) ` set (sd_targets db)"

definition set_status :: "string \<times> string \<Rightarrow> post_status \<Rightarrow> ((string \<times> string) \<times> post_status) set \<Rightarrow>
    ((string \<times> string) \<times> post_status) set" where
  "set_status k st S = (\<lambda>(k', st'). (k', if k' = k then st else st')) ` S"

lemma mem_set_status: "(k', st') \<in> set_status k st S \<longleftrightarrow> (if k' = k then st' = st \<and> k \<in> fst ` S else (k', st') \<in> S)"
  by (force simp: set_status_def image_iff)

lemma statuses_keys: "fst ` statuses db = set (target_keys db)"
  by (force simp: statuses_def target_keys_def)

lemma statuses_unique:
  assumes "store_ok db" "(k, st) \<in> statuses db" "(k, st') \<in> statuses db"
  shows "st = st'"
proof -
  from assms(2,3) obtain t t' where t: "t \<in> set (sd_targets db)" "k = (tg_post t, tg_account t)" "st = tg_status t"
    "t' \<in> set (sd_targets db)" "k = (tg_post t', tg_account t')" "st' = tg_status t'"
    by (auto simp: statuses_def)
  have "distinct (map (\<lambda>t. (tg_post t, tg_account t)) (sd_targets db))"
    using assms(1) by (simp add: store_ok_def links_ok_def target_keys_def)
  from distinct_key_unique [OF this t(1,4)] t show ?thesis by simp
qed

lemma statuses_same: "sd_targets db' = sd_targets db \<Longrightarrow> statuses db' = statuses db"
  by (simp add: statuses_def)

lemma statuses_map:
  "(\<And>t. (tg_post (f t), tg_account (f t), tg_status (f t)) = (tg_post t, tg_account t, tg_status t)) \<Longrightarrow>
     sd_targets db' = map f (sd_targets db) \<Longrightarrow> statuses db' = statuses db"
  by (simp add: statuses_def image_image)

lemma image_update_same: "(\<And>t. g (f t) = g t) \<Longrightarrow> g ` set (update_where p f xs) = g ` set xs"
  unfolding set_update_where image_image by (rule image_cong) simp_all

lemma statuses_set:
  assumes "sd_targets db' = update_where p f (sd_targets db)"
    "\<And>t. t \<in> set (sd_targets db) \<Longrightarrow> p t \<longleftrightarrow> (tg_post t, tg_account t) = k"
    "\<And>t. (tg_post (f t), tg_account (f t), tg_status (f t)) = (tg_post t, tg_account t, st)"
  shows "statuses db' = set_status k st (statuses db)"
proof -
  have "statuses db' = (\<lambda>t. ((tg_post t, tg_account t), if (tg_post t, tg_account t) = k then st else tg_status t)) ` set (sd_targets db)"
    unfolding statuses_def assms(1) set_update_where image_image
    by (rule image_cong) (use assms(2,3) in auto)
  also have "\<dots> = set_status k st (statuses db)"
    by (simp add: set_status_def statuses_def image_image)
  finally show ?thesis .
qed


section \<open>Effects\<close>

text \<open>A calm step keeps the store's invariant, the identity tables, and every target's status and remote id.\<close>

definition remotes :: "store_db \<Rightarrow> ((string \<times> string) \<times> string) set" where
  "remotes db = (\<lambda>t. ((tg_post t, tg_account t), tg_remote t)) ` set (sd_targets db)"

definition calm :: "store_db \<Rightarrow> store_db \<Rightarrow> bool" where
  "calm db db' \<longleftrightarrow> statuses db' = statuses db \<and> remotes db' = remotes db \<and> sd_identity db' = sd_identity db \<and>
     (store_ok db \<longrightarrow> store_ok db')"

lemma calm_refl [simp]: "calm db db"
  by (simp add: calm_def)

lemma calm_trans: "calm a b \<Longrightarrow> calm b c \<Longrightarrow> calm a c"
  by (simp add: calm_def)

lemma calm_view: "same_keys db db' \<Longrightarrow> statuses db' = statuses db \<Longrightarrow> remotes db' = remotes db \<Longrightarrow> calm db db'"
  using same_keys_ok by (auto simp: calm_def same_keys_def)

lemma calm_targets: "(store_ok db \<Longrightarrow> store_ok db') \<Longrightarrow> sd_targets db' = sd_targets db \<Longrightarrow> sd_identity db' = sd_identity db \<Longrightarrow> calm db db'"
  unfolding calm_def remotes_def using statuses_same [of db' db] by simp

lemma calm_keys: "same_keys db db' \<Longrightarrow> sd_targets db' = sd_targets db \<Longrightarrow> calm db db'"
  using same_keys_ok by (intro calm_targets) (auto simp: same_keys_def)

lemma calm_checked: "calm db (snd (f db)) \<Longrightarrow> calm db (snd (checked e call f db))"
  by (cases "f db"; cases "fst (f db)") (auto simp: checked_def split: option.split)

lemma calm_checked_eq: "checked e call f db = (r, db') \<Longrightarrow> calm db (snd (f db)) \<Longrightarrow> calm db db'"
  using calm_checked [of db f e call] by simp

lemma insert_event_targets:
  "sd_targets (snd (insert_audit_event now fresh ev db)) = sd_targets db"
  "sd_identity (snd (insert_audit_event now fresh ev db)) = sd_identity db"
  by (simp_all add: insert_audit_event_def Let_def)

lemma enqueue_targets:
  "sd_targets (snd (enqueue_audit_event now fresh ev db)) = sd_targets db"
  "sd_identity (snd (enqueue_audit_event now fresh ev db)) = sd_identity db"
  by (simp_all add: enqueue_audit_event_def Let_def)

lemma deliver_targets:
  "sd_targets (snd (deliver_events now es db)) = sd_targets db \<and> sd_identity (snd (deliver_events now es db)) = sd_identity db"
proof (induction es arbitrary: db)
  case (Cons ev es)
  from insert_event_targets [of now "ae_id ev" ev db] show ?case
    by (cases "insert_audit_event now (ae_id ev) ev db"; cases "fst (insert_audit_event now (ae_id ev) ev db)")
      (auto simp: Cons.IH)
qed simp

lemma drain_targets:
  "sd_targets (snd (drain_audit_events now db)) = sd_targets db \<and> sd_identity (snd (drain_audit_events now db)) = sd_identity db"
  unfolding drain_audit_events_def
  by (rule transaction_pred [where P = "\<lambda>d. sd_targets d = sd_targets db \<and> sd_identity d = sd_identity db"]) (simp, metis deliver_targets snd_conv)

lemma calm_drain: "calm db (snd (drain_audit_events now db))"
  by (rule calm_targets) (simp_all add: drain_ok drain_targets)

lemma calm_event: "calm db (snd (insert_audit_event now fresh ev db))" "calm db (snd (enqueue_audit_event now fresh ev db))"
  by (rule calm_targets; simp add: event_ok insert_event_targets enqueue_targets)+

lemma calm_tokens: "calm db (snd (update_social_account_tokens encrypt account access refresh ex db))"
  by (rule calm_keys [OF account_update_same_keys(2)])
    (simp add: update_social_account_tokens_def Let_def split: sum.split)

lemma calm_mapping: "calm db (snd (upsert_media_provider_mapping now m db))"
  by (rule calm_keys, rule same_keys_ops) (simp add: upsert_media_provider_mapping_def Let_def)

lemma calm_hashtags: "calm db (snd (replace_post_hashtags post account tags db))"
  by (rule calm_keys, rule same_keys_ops) (simp add: replace_post_hashtags_def)

lemma metrics_loop_targets: "sd_targets (upsert_metrics_loop post account day ms db) = sd_targets db"
  by (induction post account day ms db rule: upsert_metrics_loop.induct) (simp_all add: Let_def)

lemma calm_metrics: "calm db (snd (upsert_post_metrics today post account ms day db))"
  by (rule calm_keys [OF metrics_same_keys]) (simp add: upsert_post_metrics_def metrics_loop_targets)

lemma calm_synced: "calm db (mark_target_metrics_synced now post account day db)"
proof (cases "trim_space day = []")
  case False
  then have t: "sd_targets (mark_target_metrics_synced now post account day db) =
      update_where (\<lambda>t. tg_post t = post \<and> tg_account t = account)
        (\<lambda>t. t\<lparr>tg_synced_day := trim_space day, tg_synced_at := Some now\<rparr>) (sd_targets db)"
    by (simp add: mark_target_metrics_synced_def)
  have "statuses (mark_target_metrics_synced now post account day db) = statuses db"
    unfolding statuses_def t by (rule image_update_same) simp
  moreover have "remotes (mark_target_metrics_synced now post account day db) = remotes db"
    unfolding remotes_def t by (rule image_update_same) simp
  ultimately show ?thesis by (intro calm_view same_keys_ops)
qed (simp add: mark_target_metrics_synced_def)

lemma calm_result: "calm db (mark_post_result now post n st err at db)"
  by (rule calm_keys, rule same_keys_ops) (simp add: mark_post_result_def)

lemmas calm_ops = calm_event calm_tokens calm_mapping calm_hashtags calm_metrics calm_synced calm_result calm_drain

lemma get_account_id: "get_account_by_id i db = Inr a \<Longrightarrow> sa_id a = i"
  by (auto simp: get_account_by_id_def find_account_def dest: find_SomeD split: option.splits)

lemma calm_fresh:
  "calm db (snd (ensure_mastodon_fresh e a db)) \<and> (\<forall>a'. fst (ensure_mastodon_fresh e a db) = Ok a' \<longrightarrow> sa_id a' = sa_id a)"
proof -
  have t: "calm db d" if "checked e ''tokens'' (update_social_account_tokens enc i ac re ex) db = (r, d)" for enc i ac re ex r d
    using calm_checked_eq [OF that calm_tokens] .
  have g: "sa_id a' = i" if "fst (checked e ''account'' (reading (get_account_by_id i)) d) = Ok a'" for i d a'
    using that by (auto simp: checked_def reading_def dest: get_account_id split: option.splits sum.splits)
  show ?thesis
    unfolding ensure_mastodon_fresh_def
    by (auto split: option.splits sum.splits prod.splits if_splits dest: t g)
qed

lemma calm_fresh_or_same: "fresh_or_same e a db = (a', db') \<Longrightarrow> calm db db' \<and> sa_id a' = sa_id a"
  using calm_fresh [of db e a]
  by (cases "ensure_mastodon_fresh e a db") (auto simp: fresh_or_same_def split: sum.splits)

lemma calm_sync_media: "calm db (snd (sync_media e team a impl auth ids db))"
proof (induction ids arbitrary: db)
  case (Cons i ids)
  have more: "snd (case x of (Inl err, db') \<Rightarrow> (Err err, db') | (Inr rs, db') \<Rightarrow> (Ok (remote # rs), db')) = snd x"
    for x :: "string list res \<times> store_db" and remote by (auto split: prod.split sum.split)
  have step: "calm db (snd (sync_media e team a impl auth ids (snd (checked e call (upsert_media_provider_mapping now m) db))))" for call now m
    by (rule calm_trans [OF calm_checked [OF calm_mapping] Cons.IH])
  show ?case
    by (simp add: Let_def more Cons.IH step split: sum.split)
qed simp

lemma calm_sync_metrics: "calm db (sync_one_post_target_metrics e row day rec db)"
proof -
  have m: "calm d (case checked e ''metrics'' (upsert_post_metrics today post account ms rec) d of
      (Inl _, db') \<Rightarrow> db' | (Inr _, db') \<Rightarrow>
        snd (checked e ''synced'' (always (mark_target_metrics_synced now post account day)) db'))" for today post account ms now d
  proof (cases "checked e ''metrics'' (upsert_post_metrics today post account ms rec) d")
    case (Pair r d')
    have "calm d d'" using calm_checked_eq [OF Pair calm_metrics] .
    moreover have "calm d' (snd (checked e ''synced'' (always (mark_target_metrics_synced now post account day)) d'))"
      by (rule calm_checked) (simp add: always_def calm_synced)
    ultimately show ?thesis by (auto simp: Pair split: sum.split intro: calm_trans)
  qed
  show ?thesis
  proof (cases "fresh_or_same e (mr_account row) db")
    case (Pair account d)
    have d: "calm db d" using calm_fresh_or_same [OF Pair] by blast
    show ?thesis
      by (auto simp: sync_one_post_target_metrics_def Pair d split: option.split sum.split intro: calm_trans [OF d m])
  qed
qed

lemma calm_fetch_metrics: "calm db (fetch_metrics_job e db)"
proof -
  have "calm db (fold (\<lambda>row. sync_one_post_target_metrics e row day []) rows db)" for day rows
    by (induction rows arbitrary: db) (auto intro: calm_trans calm_sync_metrics)
  then show ?thesis by (simp add: fetch_metrics_job_def)
qed

lemma calm_record_delivery: "calm db (record_delivery e post a r content db)"
  unfolding record_delivery_def Let_def
  by (simp add: calm_checked calm_hashtags calm_trans [OF calm_checked [OF calm_hashtags] calm_sync_metrics])

lemma calm_fail_post: "calm db (fail_post e post err db)"
  unfolding fail_post_def Let_def by (rule calm_checked) (simp add: always_def calm_result)


section \<open>The ledger\<close>

text \<open>The abstract protocol on one worker's claims: a claim needs a claimable target and makes it
  processing, a delivery needs an unsettled claim, and a claim ends by recording a status, a claimable one
  only while it is unsettled, or by being abandoned with the target left as it is.\<close>

inductive ledger_step ::
  "((string \<times> string) \<times> post_status) set \<Rightarrow> (string \<times> string) set \<times> (string \<times> string) set \<Rightarrow>
   ((string \<times> string) \<times> post_status) set \<Rightarrow> (string \<times> string) set \<times> (string \<times> string) set \<Rightarrow> (string \<times> string) list \<Rightarrow> bool" where
  l_idle: "C' \<subseteq> C \<Longrightarrow> U' \<subseteq> U \<Longrightarrow> ledger_step S (C, U) S (C', U') []"
| l_claim: "(k, st) \<in> S \<Longrightarrow> st = Pending \<or> st = Failed \<Longrightarrow> ledger_step S ({}, {}) (set_status k Processing S) ({k}, {k}) []"
| l_deliver: "ledger_step S ({k}, {k}) S ({k}, {}) [k]"
| l_close: "st = Posted \<or> st = Processing \<or> st = Failed \<and> U = {k} \<Longrightarrow> ledger_step S ({k}, U) (set_status k st S) ({}, {}) []"

fun pc_claims :: "string \<Rightarrow> worker_pc \<Rightarrow> (string \<times> string) set" where
  "pc_claims p (Preparing a _ _) = {(p, sa_id a)}"
| "pc_claims p (Publishing a _ _ _ _ _) = {(p, sa_id a)}"
| "pc_claims p (Persisting a _ _ _) = {(p, sa_id a)}"
| "pc_claims p _ = {}"

fun pc_unsettled :: "string \<Rightarrow> worker_pc \<Rightarrow> (string \<times> string) set" where
  "pc_unsettled p (Preparing a _ _) = {(p, sa_id a)}"
| "pc_unsettled p (Publishing a _ _ _ _ _) = {(p, sa_id a)}"
| "pc_unsettled p (Persisting a _ (Failed_Preparation _) _) = {(p, sa_id a)}"
| "pc_unsettled p (Persisting a _ (Refused_By_Provider _) _) = {(p, sa_id a)}"
| "pc_unsettled p _ = {}"

definition claims :: "worker \<Rightarrow> (string \<times> string) set" where
  "claims w = pc_claims (sp_id (wk_post w)) (wk_pc w)"

definition unsettled :: "worker \<Rightarrow> (string \<times> string) set" where
  "unsettled w = pc_unsettled (sp_id (wk_post w)) (wk_pc w)"

lemma unsettled_claims: "unsettled w \<subseteq> claims w"
  unfolding unsettled_def claims_def
  by (cases "(sp_id (wk_post w), wk_pc w)" rule: pc_unsettled.cases) auto

lemma claim_cases:
  assumes "store_ok db" "claim_target e post account db = (r, db')"
  shows "store_ok db' \<and> (case r of Inr True \<Rightarrow> \<exists>st. ((sp_id post, account), st) \<in> statuses db \<and> (st = Pending \<or> st = Failed) \<and>
      statuses db' = set_status (sp_id post, account) Processing (statuses db) | _ \<Rightarrow> statuses db' = statuses db)"
proof -
  obtain claimed d where c: "claim_post_target_publication (sp_id post) account db = (claimed, d)"
    by (cases "claim_post_target_publication (sp_id post) account db")
  then have d: "sd_targets d = update_where (claimable (sp_id post) account)
      (\<lambda>t. t\<lparr>tg_status := Processing, tg_error := outcome_unknown\<rparr>) (sd_targets db)"
    and n: "claimed \<longleftrightarrow> count_where (claimable (sp_id post) account) (sd_targets db) = 1"
    by (auto simp: claim_post_target_publication_def)
  have okd: "store_ok d"
    using same_keys_ok [OF post_update_same_keys(5) assms(1), of "sp_id post" account] by (simp add: c)
  let ?k = "(sp_id post, account)"
  show ?thesis
  proof (cases claimed)
    case True
    then obtain t where t: "t \<in> set (sd_targets db)" "claimable (sp_id post) account t"
      using n count_where_0 [of "claimable (sp_id post) account" "sd_targets db"] by auto
    then have st: "(?k, tg_status t) \<in> statuses db" "tg_status t = Pending \<or> tg_status t = Failed"
      by (force simp: statuses_def claimable_def)+
    have one: "claimable (sp_id post) account x \<longleftrightarrow> (tg_post x, tg_account x) = ?k" if x: "x \<in> set (sd_targets db)" for x
    proof
      assume "(tg_post x, tg_account x) = ?k"
      then have "(?k, tg_status x) \<in> statuses db" using x by (force simp: statuses_def)
      with st have "tg_status x = tg_status t" using statuses_unique [OF assms(1)] by blast
      with st(2) \<open>(tg_post x, tg_account x) = ?k\<close> show "claimable (sp_id post) account x" by (simp add: claimable_def)
    qed (simp add: claimable_def)
    have S: "statuses d = set_status ?k Processing (statuses db)"
      by (rule statuses_set [OF d one]) simp_all
    obtain q d' where q: "enqueue_audit_event (en_now e) (en_event e)
        (publication_event (en_event e) post account (en_attempt e) ''post.publish_started'' ''pending'' []) d = (q, d')"
      by (cases "enqueue_audit_event (en_now e) (en_event e)
        (publication_event (en_event e) post account (en_attempt e) ''post.publish_started'' ''pending'' []) d")
    have "calm d d'" using calm_event(2) q by (metis snd_conv)
    then have d': "statuses d' = statuses d" "store_ok d'" using okd by (simp_all add: calm_def)
    have "claim_target e post account db = (case q of Inl err \<Rightarrow> (Inl err, db) | Inr _ \<Rightarrow> (Inr True, d'))"
      using True q by (simp add: claim_target_def with_audit_transaction_def c split: sum.split)
    then consider err where "r = Inl err" "db' = db" | "r = Inr True" "db' = d'"
      using assms(2) by (auto split: sum.splits)
    then show ?thesis
    proof cases
      case 2
      then show ?thesis using d' S st by auto
    qed (use assms(1) in simp)
  next
    case False
    have dist: "distinct (map (\<lambda>t. (tg_post t, tg_account t)) (sd_targets db))"
      using assms(1) unfolding store_ok_def links_ok_def target_keys_def by blast
    have "count_where (claimable (sp_id post) account) (sd_targets db) \<le> 1"
      by (rule count_where_key_le_1 [OF dist, where k = ?k]) (simp add: claimable_def)
    then have "count_where (claimable (sp_id post) account) (sd_targets db) = 0"
      using False n by linarith
    then have "sd_targets d = sd_targets db"
      unfolding d count_where_0 by (rule update_where_none)
    then have "statuses d = statuses db" by (rule statuses_same)
    with False okd assms show ?thesis
      by (auto simp: claim_target_def with_audit_transaction_def c)
  qed
qed

lemma persist_cases:
  assumes "store_ok db" "persist_target_outcome e post account att st url err meta remote action outcome code db = (r, db')"
  shows "store_ok db' \<and> (case r of Inl _ \<Rightarrow> statuses db' = statuses db
      | Inr _ \<Rightarrow> statuses db' = set_status (sp_id post, account) st (statuses db))"
proof -
  let ?ev = "publication_event (en_event e) post account att action outcome code"
  obtain m d where m: "mark_post_target_result (sp_id post) account st url err meta remote db = (m, d)"
    by (cases "mark_post_target_result (sp_id post) account st url err meta remote db")
  obtain q d' where q: "enqueue_audit_event (en_now e) (en_event e) ?ev d = (q, d')"
    by (cases "enqueue_audit_event (en_now e) (en_event e) ?ev d")
  have okd: "store_ok d" using same_keys_ok [OF post_update_same_keys(4) assms(1)] m by (metis snd_conv)
  have dd': "calm d d'" using calm_event(2) q by (metis snd_conv)
  have S: "statuses d = set_status (sp_id post, account) st (statuses db)" if "m = Inr ()"
  proof -
    from that m have "sd_targets d = update_where (\<lambda>t. tg_post t = sp_id post \<and> tg_account t = account)
        (\<lambda>t. t\<lparr>tg_status := st, tg_url := nullable_string url, tg_error := nullable_string err,
               tg_metadata := meta, tg_remote := nullable_string remote\<rparr>) (sd_targets db)"
      by (auto simp: mark_post_target_result_def split: if_splits)
    then show ?thesis by (rule statuses_set) auto
  qed
  have dr: "calm x (snd (checked e ''drain'' (drain_audit_events (en_now e)) x))" for x
    by (rule calm_checked [OF calm_drain])
  show ?thesis
  proof (cases "m = Inr () \<and> q = Inr () \<and> en_fail e ''persist'' = None")
    case True
    with assms(2) m q have "r = Inr ()" "db' = snd (checked e ''drain'' (drain_audit_events (en_now e)) d')"
      by (auto simp: persist_target_outcome_def checked_def with_audit_transaction_def)
    with True S okd dd' dr [of d'] show ?thesis by (simp add: calm_def)
  next
    case False
    then consider err where "m = Inl err" | err where "m = Inr ()" "q = Inl err" | "en_fail e ''persist'' \<noteq> None"
      by (cases m; cases q) auto
    then have "(\<exists>er. r = Inl er) \<and> db' = db"
      using assms(2) m q
      by cases (auto simp: persist_target_outcome_def checked_def with_audit_transaction_def split: option.splits)
    with assms(1) show ?thesis by auto
  qed
qed


lemma prepare_cases:
  assumes "prepare_target e post a att pg db = (pc, db')"
  shows "calm db db' \<and> pc_claims (sp_id post) pc = {(sp_id post, sa_id a)} \<and> pc_unsettled (sp_id post) pc = {(sp_id post, sa_id a)}"
proof (cases "registry_get e (sa_provider a)")
  case (Some impl)
  obtain r d where f: "ensure_mastodon_fresh e a db = (r, d)" by (cases "ensure_mastodon_fresh e a db")
  have cd: "calm db d" and ida: "r = Inr a' \<Longrightarrow> sa_id a' = sa_id a" for a'
    using calm_fresh [of db e a] f by auto
  show ?thesis
  proof (cases r)
    case (Inr acc)
    have s: "calm d d'" if "sync_media e team acc impl auth ids d = (q, d')" for team auth ids q d'
      using calm_sync_media [of d e team acc impl auth ids] that by simp
    show ?thesis
      using assms ida [OF Inr] cd
      by (auto simp: prepare_target_def Some f Inr Let_def split: sum.splits prod.splits dest!: s intro: calm_trans)
  qed (use assms cd in \<open>auto simp: prepare_target_def Some f\<close>)
qed (use assms in \<open>auto simp: prepare_target_def\<close>)

text \<open>Every step of a worker implements a step of the ledger.\<close>

lemma idle_step: "calm db db' \<Longrightarrow> C' \<subseteq> C \<Longrightarrow> U' \<subseteq> U \<Longrightarrow> ledger_step (statuses db) (C, U) (statuses db') (C', U') []"
  by (simp add: calm_def l_idle)

lemma pc_step_ledger:
  assumes ok: "store_ok db" and step: "pc_step e post pc db = (pc', db', out)"
  shows "store_ok db' \<and> ledger_step (statuses db) (pc_claims (sp_id post) pc, pc_unsettled (sp_id post) pc)
           (statuses db') (pc_claims (sp_id post) pc', pc_unsettled (sp_id post) pc') out"
proof (cases pc)
  case Validating
  with step ok show ?thesis by (auto simp: l_idle split: sum.splits)
next
  case Loading
  with step ok show ?thesis by (auto simp: l_idle Let_def split: option.splits if_splits)
next
  case (Claiming pg)
  show ?thesis
  proof (cases "pg_rest pg")
    case Nil
    with Claiming step ok show ?thesis by (auto simp: l_idle split: option.splits)
  next
    case (Cons a as)
    show ?thesis
    proof (cases "en_fail e ''claim''")
      case None
      obtain r d where c: "claim_target e post (sa_id a) db = (r, d)" by (cases "claim_target e post (sa_id a) db")
      from claim_cases [OF ok c] Claiming Cons None c step show ?thesis
        by (cases r) (auto simp: checked_def l_idle intro: l_claim split: bool.splits if_splits)
    qed (use Claiming Cons step ok in \<open>auto simp: checked_def l_idle\<close>)
  qed
next
  case (Preparing a att pg)
  with step have out: "out = []" "prepare_target e post a att pg db = (pc', db')" by (auto split: prod.splits)
  from prepare_cases [OF this(2)] Preparing ok out(1) show ?thesis by (auto simp: calm_def intro: idle_step)
next
  case (Publishing a att impl auth req pg)
  with step ok show ?thesis by (auto intro: l_idle l_deliver split: publish_answer.splits if_splits)
next
  case (Persisting a att o' pg)
  let ?k = "(sp_id post, sa_id a)"
  have close: "store_ok d \<and> ledger_step (statuses db) ({?k}, U) (statuses d) ({}, {}) []"
    if "persist_target_outcome e post (sa_id a) att st url err meta remote action outcome code db = (r, d)"
      "st = Posted \<or> st = Processing \<or> st = Failed \<and> U = {?k}" for st url err meta remote action outcome code r d U
    using persist_cases [OF ok that(1)] that(2) by (cases r) (auto intro: l_close l_idle)
  show ?thesis
    by (cases o'; insert step Persisting)
      (auto split: prod.splits sum.splits dest!: close [of _ _ _ _ _ _ _ _ _ _ "pc_unsettled (sp_id post) pc"]
        intro: close [OF surjective_pairing, THEN conjunct1] close [OF surjective_pairing, THEN conjunct2])
next
  case (Recording a r content pg)
  with step calm_record_delivery [of db e post a r content] ok show ?thesis by (auto simp: calm_def l_idle)
next
  case (Failing err)
  with step calm_fail_post [of db e post err] ok show ?thesis by (auto simp: calm_def l_idle)
next
  case Finishing
  have "calm db (snd (checked e ''result'' (always (mark_post_result n i k st er at)) db))" for n i k st er at
    by (rule calm_checked) (simp add: always_def calm_result)
  with Finishing step ok show ?thesis by (auto simp: calm_def l_idle)
qed (use step ok in \<open>auto simp: l_idle\<close>)


section \<open>Quiet steps\<close>

definition quiet :: "store_db \<Rightarrow> store_db \<Rightarrow> bool" where
  "quiet db db' \<longleftrightarrow> (\<forall>(k, st') \<in> statuses db'. \<exists>st. (k, st) \<in> statuses db \<and> (st' = st \<or> st' = Pending \<and> st \<noteq> Processing \<and> st \<noteq> Posted))"

lemma quiet_sub: "set (sd_targets db') \<subseteq> set (sd_targets db) \<Longrightarrow> quiet db db'"
  by (fastforce simp: quiet_def statuses_def)

lemma quiet_same: "sd_targets db' = sd_targets db \<Longrightarrow> quiet db db'"
  by (rule quiet_sub) simp

lemma quiet_calm: "calm db db' \<Longrightarrow> quiet db db'"
  by (auto simp: quiet_def calm_def)

lemma patch_targets_kept:
  assumes "pt_target_accounts patch = None"
  shows "sd_targets (snd (patch_scheduled_post now team post patch db)) = sd_targets db"
proof (cases "get_scheduled_post team post db")
  case (Inr existing)
  obtain merged flags where m: "apply_post_patch existing (list_post_versions_for_team_post team post db) patch = (merged, flags)"
    by (cases "apply_post_patch existing (list_post_versions_for_team_post team post db) patch")
  have f: "\<not> pf_target_accounts flags" using m assms by (auto simp: apply_post_patch_def Let_def)
  have v: "sd_targets d' = sd_targets d" if "insert_versions i over d = (x, d')" for i over d x d'
    using that by (auto simp: insert_versions_def split: if_splits)
  have "sd_targets (patch_post_columns now team post existing merged flags d) = sd_targets d" for d
    by (simp add: patch_post_columns_def Let_def)
  then have "sd_targets (snd (with_audit_transaction
      (and_then (\<lambda>db. (Inr (), patch_post_columns now team post existing merged flags db)) (\<lambda>_.
       and_then (\<lambda>db. if pf_versions flags then insert_versions post (in_override merged)
                    (db\<lparr>sd_versions := delete_where (\<lambda>v. pv_post_id v = post) (sd_versions db)\<rparr>) else (Inr (), db)) (\<lambda>_ db.
         if pf_target_accounts flags then insert_targets post (in_target_accounts merged)
                    (db\<lparr>sd_targets := delete_where (\<lambda>t. tg_post t = post) (sd_targets db)\<rparr>) else (Inr (), db)))) db)) = sd_targets db"
    using f by (intro transaction_pred [where P = "\<lambda>d. sd_targets d = sd_targets db"])
      (auto simp: and_then_Inr split: if_splits dest!: v)
  then show ?thesis
    by (auto simp: patch_scheduled_post_def Inr m complete_review_def Let_def split: prod.split sum.split)
qed (simp add: patch_scheduled_post_def)

lemma repair_targets: "sd_targets (snd (repair_future_posted_posts caller fresh now db)) = sd_targets db"
proof -
  have r: "sd_targets (snd (insert_repair_events now caller fresh rs d)) = sd_targets d" for rs d
  proof (induction rs arbitrary: d)
    case (Cons r rs)
    let ?i = "insert_audit_event now (fresh (rw_id r)) (repair_event caller (fresh (rw_id r)) r) d"
    from insert_event_targets [of now "fresh (rw_id r)" "repair_event caller (fresh (rw_id r)) r" d] show ?case
      by (cases ?i; cases "fst ?i") (auto simp: Cons.IH)
  qed simp
  show ?thesis
    unfolding repair_future_posted_posts_def Let_def
    by (rule transaction_pred [where P = "\<lambda>d. sd_targets d = sd_targets db"], simp)
      (auto split: prod.splits sum.splits dest!: arg_cong [where f = "\<lambda>x. sd_targets (snd x)"] simp: r)
qed

lemma quiet_retry:
  assumes "list_all (\<lambda>t. tg_post t = post \<longrightarrow> tg_status t \<noteq> Processing) (sd_targets db)"
  shows "quiet db (snd (admin_retry_failed_post now post db))"
proof (cases "count_where (\<lambda>r. rw_id r = post \<and> rw_status r = Failed) (sd_posts db) = 0")
  case False
  then have t: "sd_targets (snd (admin_retry_failed_post now post db)) =
      update_where (\<lambda>t. tg_post t = post \<and> tg_status t \<noteq> Posted) (\<lambda>t. t\<lparr>tg_status := Pending, tg_error := []\<rparr>) (sd_targets db)"
    by (simp add: admin_retry_failed_post_def Let_def)
  show ?thesis
    unfolding quiet_def statuses_def t using assms by (force simp: list_all_iff)
qed (simp add: admin_retry_failed_post_def Let_def quiet_calm)

lemma quiet_step_ok:
  assumes "quiet_step db db'" "store_ok db"
  shows "store_ok db' \<and> quiet db db'"
  using assms
proof (induction rule: quiet_step.induct)
  case (q_patch patch db now team post)
  then show ?case using post_step_ok [OF ps_patch] patch_targets_kept quiet_same by blast
next
  case (q_cancel db now team post)
  then show ?case using post_step_ok [OF ps_cancel] by (auto intro!: quiet_same simp: cancel_scheduled_post_def)
next
  case (q_delete db team post)
  then show ?case using post_step_ok [OF ps_delete]
    by (auto intro!: quiet_sub simp: delete_scheduled_post_def delete_post_rows_def Let_def)
next
  case (q_event db now fresh ev)
  then show ?case using calm_event(1) [of db now fresh ev] quiet_calm by (auto simp: calm_def)
next
  case (q_drain db now)
  then show ?case using calm_drain [of db now] quiet_calm by (auto simp: calm_def)
next
  case (q_ack db now post)
  then show ?case using post_step_ok [OF ps_ack] by (auto intro!: quiet_same simp: admin_acknowledge_failed_post_def Let_def)
next
  case (q_retry post db now)
  then show ?case using post_step_ok [OF ps_retry] quiet_retry by blast
next
  case (q_repair db caller fresh_id now)
  then show ?case using post_step_ok [OF ps_repair] quiet_same [OF repair_targets] by blast
next
  case (q_lock db now lock duration)
  then show ?case using post_step_ok [OF ps_lock] by (auto intro!: quiet_same simp: try_acquire_lock_def Let_def split: option.split)
next
  case (q_account db encrypt fresh team ca)
  then show ?case using post_step_ok [OF ps_account] by (auto intro!: quiet_same simp: create_account_def Let_def split: sum.split)
next
  case (q_update_account db encrypt team account ua)
  then show ?case using post_step_ok [OF ps_update_account] by (auto intro!: quiet_same simp: update_account_def Let_def split: sum.split)
next
  case (q_delete_account db team account)
  then show ?case using post_step_ok [OF ps_delete_account]
    by (auto intro!: quiet_sub simp: delete_account_def delete_account_rows_def split: sum.split)
next
  case (q_migrate db now user account team is_admin)
  then show ?case using post_step_ok [OF ps_migrate]
    by (auto intro!: quiet_same simp: migrate_account_to_team_def Let_def split: sum.split)
next
  case (q_metrics db e)
  then show ?case using calm_fetch_metrics [of db e] quiet_calm by (auto simp: calm_def)
qed


section \<open>The invariant\<close>

definition publisher_ok :: "system \<Rightarrow> bool" where
  "publisher_ok s \<longleftrightarrow> store_ok (sy_db s) \<and> distinct (sy_sent s) \<and>
     (\<forall>(k, st) \<in> statuses (sy_db s). k \<in> set (sy_sent s) \<longrightarrow> st = Posted \<or> st = Processing) \<and>
     (\<forall>i < length (sy_workers s). \<forall>(k, st) \<in> statuses (sy_db s). k \<in> claims (sy_workers s ! i) \<longrightarrow> st = Processing) \<and>
     (\<forall>i < length (sy_workers s). \<forall>j < length (sy_workers s). i \<noteq> j \<longrightarrow> claims (sy_workers s ! i) \<inter> claims (sy_workers s ! j) = {}) \<and>
     (\<forall>i < length (sy_workers s). unsettled (sy_workers s ! i) \<inter> set (sy_sent s) = {})"

lemma publisher_okD:
  assumes "publisher_ok s"
  shows "store_ok (sy_db s)" "distinct (sy_sent s)"
    "(k, st) \<in> statuses (sy_db s) \<Longrightarrow> k \<in> set (sy_sent s) \<Longrightarrow> st = Posted \<or> st = Processing"
    "i < length (sy_workers s) \<Longrightarrow> (k, st) \<in> statuses (sy_db s) \<Longrightarrow> k \<in> claims (sy_workers s ! i) \<Longrightarrow> st = Processing"
    "i < length (sy_workers s) \<Longrightarrow> j < length (sy_workers s) \<Longrightarrow> i \<noteq> j \<Longrightarrow> claims (sy_workers s ! i) \<inter> claims (sy_workers s ! j) = {}"
    "i < length (sy_workers s) \<Longrightarrow> unsettled (sy_workers s ! i) \<inter> set (sy_sent s) = {}"
  using assms unfolding publisher_ok_def by fast+

lemma publisher_okI:
  assumes "store_ok (sy_db s)" "distinct (sy_sent s)"
    "\<And>k st. (k, st) \<in> statuses (sy_db s) \<Longrightarrow> k \<in> set (sy_sent s) \<Longrightarrow> st = Posted \<or> st = Processing"
    "\<And>i k st. i < length (sy_workers s) \<Longrightarrow> (k, st) \<in> statuses (sy_db s) \<Longrightarrow> k \<in> claims (sy_workers s ! i) \<Longrightarrow> st = Processing"
    "\<And>i j. i < length (sy_workers s) \<Longrightarrow> j < length (sy_workers s) \<Longrightarrow> i \<noteq> j \<Longrightarrow> claims (sy_workers s ! i) \<inter> claims (sy_workers s ! j) = {}"
    "\<And>i. i < length (sy_workers s) \<Longrightarrow> unsettled (sy_workers s ! i) \<inter> set (sy_sent s) = {}"
  shows "publisher_ok s"
  unfolding publisher_ok_def using assms by (intro conjI) (blast | simp)+

lemma publisher_ok_quiet:
  assumes ok: "publisher_ok s" and st: "store_ok db'" and q: "quiet (sy_db s) db'"
  shows "publisher_ok (s\<lparr>sy_db := db'\<rparr>)"
proof -
  have old: "\<exists>st0. (k, st0) \<in> statuses (sy_db s) \<and> (st' = st0 \<or> st' = Pending \<and> st0 \<noteq> Processing \<and> st0 \<noteq> Posted)"
    if "(k, st') \<in> statuses db'" for k st' using q that unfolding quiet_def by fast
  show ?thesis
    unfolding publisher_ok_def using st publisher_okD(2,5,6) [OF ok] old publisher_okD(3,4) [OF ok]
    by (simp, intro conjI ballI allI impI) (fast | metis (no_types, lifting) case_prodI2)+
qed

lemma create_targets:
  "\<exists>accounts. sd_targets (snd (create_scheduled_post now fresh team pr inp db)) = sd_targets db @ map (new_target fresh) accounts"
proof -
  define link :: "unit store_op" where "link = (case in_rss_feed_id inp of None \<Rightarrow> (\<lambda>db. (Inr (), db))
    | Some feed \<Rightarrow> if in_rss_item_key inp \<noteq> [] then link_rss_item_for_post now team feed (in_rss_item_key inp) fresh
                   else (\<lambda>db. (Inr (), db)))"
  have l: "sd_targets d' = sd_targets d" if "link d = (x, d')" for d x d'
    using that by (auto simp: link_def link_rss_item_for_post_def Let_def bump_counter_def split: option.splits if_splits)
  have v: "sd_targets d' = sd_targets d" if "insert_versions i over d = (x, d')" for i over d x d'
    using that by (auto simp: insert_versions_def split: if_splits)
  have p: "sd_targets d' = sd_targets d" if "insert_post r d = (x, d')" for r d x d'
    using that by (auto simp: insert_post_def Let_def split: if_splits)
  have t: "\<exists>accounts. sd_targets d' = sd_targets d @ map (new_target fresh) accounts"
    if "insert_targets fresh as d = (x, d')" for as d x d'
    using that by (force simp: insert_targets_def split: if_splits)
  define body where "body = and_then (insert_post (new_post_row now fresh team pr inp)) (\<lambda>_.
     and_then (insert_versions fresh (in_override inp)) (\<lambda>_. and_then (insert_targets fresh (in_target_accounts inp)) (\<lambda>_. link)))"
  have "\<exists>accounts. sd_targets (snd (with_audit_transaction body db)) = sd_targets db @ map (new_target fresh) accounts"
    by (rule transaction_pred [where P = "\<lambda>d. \<exists>accounts. sd_targets d = sd_targets db @ map (new_target fresh) accounts"])
      (auto simp: body_def and_then_Inr intro: exI [of _ "[]"] dest!: l v p t)
  moreover have "snd (create_scheduled_post now fresh team pr inp db) = snd (with_audit_transaction body db)"
    by (simp add: create_scheduled_post_def body_def link_def split: prod.split sum.split)
  ultimately show ?thesis by simp
qed

lemma publisher_ok_create:
  assumes ok: "publisher_ok s" and fresh: "\<not> post_in_use s fresh"
  shows "publisher_ok (s\<lparr>sy_db := snd (create_scheduled_post now fresh team pr inp (sy_db s))\<rparr>)"
proof -
  let ?db' = "snd (create_scheduled_post now fresh team pr inp (sy_db s))"
  have old: "(k, st) \<in> statuses (sy_db s) \<or> fst k = fresh" if "(k, st) \<in> statuses ?db'" for k st
    using create_targets [of now fresh team pr inp "sy_db s"] that by (auto simp: statuses_def new_target_def)
  have "k \<notin> set (sy_sent s)" if "fst k = fresh" for k
    using fresh that by (auto simp: post_in_use_def)
  moreover have "k \<notin> claims (sy_workers s ! i)" if "fst k = fresh" "i < length (sy_workers s)" for k i
  proof
    assume "k \<in> claims (sy_workers s ! i)"
    then have "fst k = sp_id (wk_post (sy_workers s ! i))"
      unfolding claims_def by (cases "(sp_id (wk_post (sy_workers s ! i)), wk_pc (sy_workers s ! i))" rule: pc_claims.cases) auto
    with fresh that show False by (auto simp: post_in_use_def)
  qed
  ultimately show ?thesis
    unfolding publisher_ok_def using create_ok [OF publisher_okD(1) [OF ok]] publisher_okD(2,5,6) [OF ok]
      old publisher_okD(3,4) [OF ok]
    by (simp, intro conjI ballI allI impI) (fast | metis (no_types, lifting) case_prodI2)+
qed


lemma publisher_ok_ledger:
  assumes ok: "publisher_ok s" and i: "i < length (sy_workers s)" and st: "store_ok db'"
    and l: "ledger_step (statuses (sy_db s)) (claims (sy_workers s ! i), unsettled (sy_workers s ! i))
              (statuses db') (claims w', unsettled w') out"
  shows "publisher_ok (s\<lparr>sy_db := db', sy_workers := (sy_workers s)[i := w'], sy_sent := sy_sent s @ out\<rparr>)"
proof -
  note D = publisher_okD [OF ok]
  have uniq: "(k, x) \<in> statuses (sy_db s) \<Longrightarrow> (k, y) \<in> statuses (sy_db s) \<Longrightarrow> x = y" for k x y
    using statuses_unique [OF D(1)] .
  let ?W = "\<lambda>j. (sy_workers s)[i := w'] ! j"
  have w: "?W j = (if j = i then w' else sy_workers s ! j)" if "j < length (sy_workers s)" for j
    using that by simp
  have dis: "claims (sy_workers s ! j) \<inter> claims (sy_workers s ! i) = {}" if "j < length (sy_workers s)" "j \<noteq> i" for j
    using D(5) [OF that(1) i that(2)] .
  define s' where "s' = s\<lparr>sy_db := db', sy_workers := (sy_workers s)[i := w'], sy_sent := sy_sent s @ out\<rparr>"
  have e: "sy_db s' = db'" "sy_workers s' = (sy_workers s)[i := w']" "sy_sent s' = sy_sent s @ out"
    by (simp_all add: s'_def)
  have oth: "claims (?W j) = claims (sy_workers s ! j)" "unsettled (?W j) = unsettled (sy_workers s ! j)"
    if "j < length (sy_workers s)" "j \<noteq> i" for j using that by simp_all
  have own: "?W i = w'" using i by simp
  have disj: "claims (?W j) \<inter> claims (?W j') = {}"
    if "j < length (sy_workers s)" "j' < length (sy_workers s)" "j \<noteq> j'"
      "\<And>m. m < length (sy_workers s) \<Longrightarrow> m \<noteq> i \<Longrightarrow> claims (sy_workers s ! m) \<inter> claims w' = {}" for j j'
    using D(5) [OF that(1-3)] that by (cases "j = i"; cases "j' = i") (auto simp: own)
  have sub: "claims (sy_workers s ! m) \<inter> claims w' = {}"
    if "claims w' \<subseteq> claims (sy_workers s ! i)" "m < length (sy_workers s)" "m \<noteq> i" for m
    using dis [OF that(2,3)] that(1) by blast
  from l have "publisher_ok s'"
  proof cases
    case l_idle
    show ?thesis
    proof (rule publisher_okI, unfold e l_idle(1) l_idle(2) append_Nil2 length_list_update)
      show "(k, x) \<in> statuses (sy_db s) \<Longrightarrow> k \<in> set (sy_sent s) \<Longrightarrow> x = Posted \<or> x = Processing" for k x by (rule D(3))
      show "x = Processing" if "j < length (sy_workers s)" "(k, x) \<in> statuses (sy_db s)" "k \<in> claims (?W j)" for j k x
        using D(4) [OF that(1,2)] that(3) l_idle oth(1) [OF that(1)] by (cases "j = i") (auto simp: own)
      show "claims (?W j) \<inter> claims (?W j') = {}" if "j < length (sy_workers s)" "j' < length (sy_workers s)" "j \<noteq> j'" for j j'
        by (rule disj [OF that sub]) (use l_idle in auto)
      show "unsettled (?W j) \<inter> set (sy_sent s) = {}" if "j < length (sy_workers s)" for j
        using D(6) [OF that] l_idle oth(2) [OF that] by (cases "j = i") (auto simp: own)
    qed (fact st, fact D(2))
  next
    case (l_claim k st0)
    have fr: "k \<notin> set (sy_sent s)" using l_claim D(3) by blast
    have free: "k \<notin> claims (sy_workers s ! j)" if "j < length (sy_workers s)" for j
      using l_claim D(4) [OF that] by blast
    show ?thesis
    proof (rule publisher_okI, unfold e l_claim(3) l_claim(6) append_Nil2 length_list_update mem_set_status)
      show "x = Posted \<or> x = Processing"
        if "if k' = k then x = Processing \<and> k \<in> fst ` statuses (sy_db s) else (k', x) \<in> statuses (sy_db s)"
          "k' \<in> set (sy_sent s)" for k' x
        using that D(3) fr by (cases "k' = k") auto
      show "x = Processing"
        if "j < length (sy_workers s)" "if k' = k then x = Processing \<and> k \<in> fst ` statuses (sy_db s) else (k', x) \<in> statuses (sy_db s)"
          "k' \<in> claims (?W j)" for j k' x
        using that D(4) [OF that(1)] l_claim oth(1) [OF that(1)] by (cases "j = i"; cases "k' = k") (auto simp: own)
      show "claims (?W j) \<inter> claims (?W j') = {}" if "j < length (sy_workers s)" "j' < length (sy_workers s)" "j \<noteq> j'" for j j'
        by (rule disj [OF that]) (use l_claim free in auto)
      show "unsettled (?W j) \<inter> set (sy_sent s) = {}" if "j < length (sy_workers s)" for j
        using D(6) [OF that] l_claim fr oth(2) [OF that] by (cases "j = i") (auto simp: own)
    qed (fact st, fact D(2))
  next
    case (l_deliver k)
    have fr: "k \<notin> set (sy_sent s)" using l_deliver D(6) [OF i] by auto
    have pr: "(k, x) \<in> statuses (sy_db s) \<Longrightarrow> x = Processing" for x using l_deliver D(4) [OF i] by auto
    have free: "k \<notin> unsettled (sy_workers s ! j)" if "j < length (sy_workers s)" "j \<noteq> i" for j
      using dis [OF that] l_deliver unsettled_claims [of "sy_workers s ! j"] by auto
    show ?thesis
    proof (rule publisher_okI, unfold e l_deliver(3) l_deliver(6) length_list_update)
      show "distinct (sy_sent s @ [k])" using D(2) fr by simp
      show "x = Posted \<or> x = Processing" if "(k', x) \<in> statuses (sy_db s)" "k' \<in> set (sy_sent s @ [k])" for k' x
        using that D(3) [of k' x] pr [of x] by auto
      show "x = Processing" if "j < length (sy_workers s)" "(k', x) \<in> statuses (sy_db s)" "k' \<in> claims (?W j)" for j k' x
        using D(4) [OF that(1,2)] that(3) l_deliver oth(1) [OF that(1)] by (cases "j = i") (auto simp: own)
      show "claims (?W j) \<inter> claims (?W j') = {}" if "j < length (sy_workers s)" "j' < length (sy_workers s)" "j \<noteq> j'" for j j'
        by (rule disj [OF that sub]) (use l_deliver in auto)
      show "unsettled (?W j) \<inter> set (sy_sent s @ [k]) = {}" if "j < length (sy_workers s)" for j
        using D(6) [OF that] l_deliver free [OF that] oth(2) [OF that] by (cases "j = i") (auto simp: own)
    qed (fact st)
  next
    case (l_close x k)
    have fr: "x = Failed \<Longrightarrow> k \<notin> set (sy_sent s)" using l_close D(6) [OF i] by auto
    have free: "k \<notin> claims (sy_workers s ! j)" if "j < length (sy_workers s)" "j \<noteq> i" for j
      using dis [OF that] l_close by auto
    show ?thesis
    proof (rule publisher_okI, unfold e l_close(2) l_close(5) append_Nil2 length_list_update mem_set_status)
      show "y = Posted \<or> y = Processing"
        if "if k' = k then y = x \<and> k \<in> fst ` statuses (sy_db s) else (k', y) \<in> statuses (sy_db s)"
          "k' \<in> set (sy_sent s)" for k' y
        using that D(3) fr l_close by (cases "k' = k") auto
      show "y = Processing"
        if "j < length (sy_workers s)" "if k' = k then y = x \<and> k \<in> fst ` statuses (sy_db s) else (k', y) \<in> statuses (sy_db s)"
          "k' \<in> claims (?W j)" for j k' y
        using that D(4) [OF that(1)] l_close free [OF that(1)] oth(1) [OF that(1)] by (cases "j = i"; cases "k' = k") (auto simp: own)
      show "claims (?W j) \<inter> claims (?W j') = {}" if "j < length (sy_workers s)" "j' < length (sy_workers s)" "j \<noteq> j'" for j j'
        by (rule disj [OF that]) (use l_close in auto)
      show "unsettled (?W j) \<inter> set (sy_sent s) = {}" if "j < length (sy_workers s)" for j
        using D(6) [OF that] l_close oth(2) [OF that] unsettled_claims [of w'] by (cases "j = i") (auto simp: own)
    qed (fact st, fact D(2))
  qed
  then show ?thesis by (simp add: s'_def)
qed

lemma sys_step_ok:
  assumes "sys_step s s'" "publisher_ok s"
  shows "publisher_ok s'"
  using assms
proof (induction rule: sys_step.induct)
  case (s_list s now limit)
  then show ?case by (simp add: publisher_ok_def)
next
  case (s_enqueue s p ps now ws db')
  have "calm (sy_db s) db'"
    using s_enqueue(2) calm_keys [OF post_update_same_keys(2), of now "sp_id p" "sy_db s"]
    by (auto simp: enqueue_post_def mark_post_processing_def Let_def split: if_splits)
  then have ok: "publisher_ok (s\<lparr>sy_db := db'\<rparr>)"
    using publisher_ok_quiet [OF s_enqueue(3)] quiet_calm publisher_okD(1) [OF s_enqueue(3)] by (simp add: calm_def)
  have c: "claims \<lparr>wk_post = p, wk_pc = Validating\<rparr> = {}" "unsettled \<lparr>wk_post = p, wk_pc = Validating\<rparr> = {}"
    by (simp_all add: claims_def unsettled_def)
  have "ws = [] \<or> ws = [\<lparr>wk_post = p, wk_pc = Validating\<rparr>]"
    using s_enqueue(2) by (auto simp: enqueue_post_def split: prod.splits sum.splits)
  with ok show ?case
    by (elim disjE) (auto simp: publisher_ok_def nth_append less_Suc_eq c split: if_splits)
next
  case (s_work i s e w' db' out)
  obtain pc d o' where p: "pc_step e (wk_post (sy_workers s ! i)) (wk_pc (sy_workers s ! i)) (sy_db s) = (pc, d, o')"
    by (cases "pc_step e (wk_post (sy_workers s ! i)) (wk_pc (sy_workers s ! i)) (sy_db s)")
  then have w: "w' = (sy_workers s ! i)\<lparr>wk_pc := pc\<rparr>" "db' = d" "out = o'"
    using s_work(2) by (auto simp: worker_step_def)
  from pc_step_ledger [OF publisher_okD(1) [OF s_work(3)] p] show ?case
    by (intro publisher_ok_ledger s_work) (simp_all add: w claims_def unsettled_def)
next
  case (s_restart s)
  then show ?case by (simp add: publisher_ok_def)
next
  case (s_create s fresh now team pr inp)
  then show ?case by (intro publisher_ok_create)
next
  case (s_quiet s db')
  then show ?case using quiet_step_ok [OF s_quiet(1) publisher_okD(1) [OF s_quiet(2)]] publisher_ok_quiet by blast
qed

section \<open>Runs of one worker\<close>

fun run_worker :: "env list \<Rightarrow> worker \<Rightarrow> store_db \<Rightarrow> worker \<times> store_db \<times> (string \<times> string) list" where
  "run_worker [] w db = (w, db, [])"
| "run_worker (e # es) w db =
     (case worker_step e w db of (w1, db1, out1) \<Rightarrow>
        (case run_worker es w1 db1 of (w2, db2, out2) \<Rightarrow> (w2, db2, out1 @ out2)))"

text \<open>The steps a worker can still take, \<open>n\<close> bounding the targets it will load.\<close>

fun pc_fuel :: "nat \<Rightarrow> worker_pc \<Rightarrow> nat" where
  "pc_fuel n Validating = 5 * n + 4"
| "pc_fuel n Loading = 5 * n + 3"
| "pc_fuel n (Claiming pg) = 5 * length (pg_rest pg) + 2"
| "pc_fuel n (Preparing _ _ pg) = 5 * length (pg_rest pg) + 6"
| "pc_fuel n (Publishing _ _ _ _ _ pg) = 5 * length (pg_rest pg) + 5"
| "pc_fuel n (Persisting _ _ _ pg) = 5 * length (pg_rest pg) + 4"
| "pc_fuel n (Recording _ _ _ pg) = 5 * length (pg_rest pg) + 3"
| "pc_fuel n (Failing _) = 1"
| "pc_fuel n Finishing = 1"
| "pc_fuel n Stopped = 0"

lemma load_targets_length: "length (load_post_targets post db) \<le> length (sd_targets db)"
proof -
  have "length (List.map_filter f xs) \<le> length xs" for f :: "target_row \<Rightarrow> social_account option" and xs
    by (simp add: map_filter_def)
  then show ?thesis by (simp add: load_post_targets_def split: option.split)
qed

lemma prepare_fuel: "prepare_target e post a att pg db = (pc, db') \<Longrightarrow> pc_fuel n pc < 5 * length (pg_rest pg) + 6"
  by (auto simp: prepare_target_def Let_def split: option.splits sum.splits prod.splits)

lemma persist_fuel: "persist_outcome e post a att out pg db = (pc, db') \<Longrightarrow> pc_fuel n pc < 5 * length (pg_rest pg) + 4"
  by (cases out) (auto simp: first_error_def split: prod.splits sum.splits)

lemma run_Cons:
  assumes "pc_step e (wk_post w) (wk_pc w) db = (pc, db1, out1)"
  shows "run_worker (e # es) w db = (case run_worker es (w\<lparr>wk_pc := pc\<rparr>) db1 of (w2, db2, out2) \<Rightarrow> (w2, db2, out1 @ out2))"
    "fst (run_worker (e # es) w db) = fst (run_worker es (w\<lparr>wk_pc := pc\<rparr>) db1)"
  by (simp_all add: worker_step_def assms case_prod_beta)

definition late :: "worker_pc \<Rightarrow> bool" where
  "late pc \<longleftrightarrow> pc \<noteq> Validating \<and> pc \<noteq> Loading"

lemma prepare_late: "prepare_target e post a att pg db = (pc, db') \<Longrightarrow> late pc"
  by (auto simp: prepare_target_def late_def Let_def split: option.splits sum.splits prod.splits)

lemma persist_late: "persist_outcome e post a att out pg db = (pc, db') \<Longrightarrow> late pc"
  by (cases out) (auto simp: late_def split: prod.splits sum.splits)

lemma pc_step_late:
  assumes "pc_step e post pc db = (pc', db', out)" "late pc"
  shows "late pc' \<and> pc_fuel n pc' \<le> pc_fuel n pc - 1"
proof (cases pc)
  case (Claiming pg)
  with assms show ?thesis by (auto simp: late_def split: list.splits option.splits prod.splits sum.splits if_splits)
next
  case (Preparing a att pg)
  with assms(1) obtain "prepare_target e post a att pg db = (pc', db')" by (auto split: prod.splits)
  with Preparing prepare_fuel [OF this, of n] prepare_late [OF this] show ?thesis by simp
next
  case (Persisting a att o' pg)
  with assms(1) obtain "persist_outcome e post a att o' pg db = (pc', db')" by (auto split: prod.splits)
  with Persisting persist_fuel [OF this, of n] persist_late [OF this] show ?thesis by simp
qed (use assms in \<open>auto simp: late_def split: publish_answer.splits\<close>)

lemma run_late:
  "late (wk_pc w) \<Longrightarrow> pc_fuel n (wk_pc w) \<le> length es \<Longrightarrow> wk_pc (fst (run_worker es w db)) = Stopped"
proof (induction es arbitrary: w db)
  case Nil
  then show ?case by (cases "wk_pc w") (auto simp: late_def)
next
  case (Cons e es)
  obtain pc db1 out where p: "pc_step e (wk_post w) (wk_pc w) db = (pc, db1, out)"
    by (cases "pc_step e (wk_post w) (wk_pc w) db")
  from pc_step_late [OF p Cons.prems(1), of n] Cons.prems(2)
  have "wk_pc (fst (run_worker es (w\<lparr>wk_pc := pc\<rparr>) db1)) = Stopped" by (intro Cons.IH) auto
  then show ?case by (simp only: run_Cons(2) [OF p])
qed

lemma loading_cases:
  assumes "pc_step e post Loading db = (pc, db', out)"
  obtains err where "pc = Failing err" "db' = db" "out = []"
  | pg where "pc = Claiming pg" "pg_rest pg = load_post_targets (sp_id post) db" "pg_err pg = None" "db' = db" "out = []"
proof (cases "en_fail e ''targets''")
  case None
  consider err where "load_post_targets (sp_id post) db \<noteq> []" "en_fail e ''versions'' = Some err"
    | "load_post_targets (sp_id post) db = []" | "load_post_targets (sp_id post) db \<noteq> []" "en_fail e ''versions'' = None"
    by (cases "en_fail e ''versions''") auto
  then show ?thesis
  proof cases
    case 1
    with assms None show ?thesis by (intro that(1)) (auto simp: Let_def)
  next
    case 2
    with assms None show ?thesis
      by (intro that(2) [of "\<lparr>pg_rest = [], pg_over = [], pg_err = None\<rparr>"]) (auto simp: Let_def)
  next
    case 3
    with assms None show ?thesis
      by (intro that(2) [of "\<lparr>pg_rest = load_post_targets (sp_id post) db, pg_over = version_overrides
            (list_post_versions_for_team_post (sp_team_id post) (sp_id post) db), pg_err = None\<rparr>"]) (auto simp: Let_def)
  qed
next
  case (Some err)
  with assms show ?thesis by (intro that(1)) auto
qed

lemma validating_cases:
  assumes "pc_step e post Validating db = (pc, db', out)"
  obtains err where "pc = Failing err" "db' = db" "out = []" | "pc = Loading" "db' = db" "out = []"
  using assms by (auto split: sum.splits)

lemma run_loading:
  assumes "5 * length (sd_targets db) + 3 \<le> length es"
  shows "wk_pc (fst (run_worker es \<lparr>wk_post = post, wk_pc = Loading\<rparr> db)) = Stopped"
proof (cases es)
  case (Cons e es')
  obtain pc db1 out where p: "pc_step e post Loading db = (pc, db1, out)" by (cases "pc_step e post Loading db")
  have "wk_pc (fst (run_worker es' \<lparr>wk_post = post, wk_pc = pc\<rparr> db1)) = Stopped"
    using loading_cases [OF p]
    by cases (rule run_late [where n = 0]; use assms Cons load_targets_length [of "sp_id post" db] in \<open>simp add: late_def\<close>)+
  then show ?thesis using run_Cons(2) [of e "\<lparr>wk_post = post, wk_pc = Loading\<rparr>" db pc db1 out es'] p Cons by simp
qed (use assms in simp)

lemma run_validating:
  assumes "5 * length (sd_targets db) + 4 \<le> length es"
  shows "wk_pc (fst (run_worker es \<lparr>wk_post = post, wk_pc = Validating\<rparr> db)) = Stopped"
proof (cases es)
  case (Cons e es')
  obtain pc db1 out where p: "pc_step e post Validating db = (pc, db1, out)" by (cases "pc_step e post Validating db")
  have "wk_pc (fst (run_worker es' \<lparr>wk_post = post, wk_pc = pc\<rparr> db1)) = Stopped"
    using validating_cases [OF p]
  proof cases
    case 1
    then show ?thesis by (intro run_late [where n = 0]) (use assms Cons in \<open>simp_all add: late_def\<close>)
  next
    case 2
    then show ?thesis using run_loading [of db es' post] assms Cons by simp
  qed
  then show ?thesis using run_Cons(2) [of e "\<lparr>wk_post = post, wk_pc = Validating\<rparr>" db pc db1 out es'] p Cons by simp
qed (use assms in simp)

text \<open>The accounts a worker without an error still has to deliver to before it can finish.\<close>

fun owed :: "worker_pc \<Rightarrow> string set" where
  "owed (Claiming pg) = sa_id ` set (pg_rest pg)"
| "owed (Preparing a _ pg) = insert (sa_id a) (sa_id ` set (pg_rest pg))"
| "owed (Publishing a _ _ _ _ pg) = insert (sa_id a) (sa_id ` set (pg_rest pg))"
| "owed (Persisting a _ out pg) = (case out of Delivered _ _ \<Rightarrow> {} | _ \<Rightarrow> {sa_id a}) \<union> sa_id ` set (pg_rest pg)"
| "owed (Recording _ _ _ pg) = sa_id ` set (pg_rest pg)"
| "owed _ = {}"

text \<open>A worker that is bound to fail, or has stopped, never finishes.\<close>

fun doomed :: "worker_pc \<Rightarrow> bool" where
  "doomed (Claiming pg) = (pg_err pg \<noteq> None)"
| "doomed (Preparing _ _ pg) = (pg_err pg \<noteq> None)"
| "doomed (Publishing _ _ _ _ _ pg) = (pg_err pg \<noteq> None)"
| "doomed (Persisting _ _ out pg) = (pg_err pg \<noteq> None \<or> (case out of Delivered _ _ \<Rightarrow> False | _ \<Rightarrow> True))"
| "doomed (Recording _ _ _ pg) = (pg_err pg \<noteq> None)"
| "doomed (Failing _) = True"
| "doomed Stopped = True"
| "doomed _ = False"

lemma prepare_owed:
  "prepare_target e post a att pg db = (pc, db') \<Longrightarrow>
     (doomed pc \<or> pg_err pg = None \<and> owed pc = insert (sa_id a) (sa_id ` set (pg_rest pg))) \<and> (pg_err pg \<noteq> None \<longrightarrow> doomed pc)"
  using calm_fresh [of db e a]
  by (auto simp: prepare_target_def Let_def split: option.splits sum.splits prod.splits)

lemma pc_step_owed:
  assumes "pc_step e post pc db = (pc', db', out)" "late pc"
  shows "(doomed pc \<longrightarrow> doomed pc') \<and> (doomed pc' \<or> owed pc \<subseteq> owed pc' \<union> snd ` set out) \<and> (\<forall>k \<in> set out. fst k = sp_id post)"
proof (cases pc)
  case (Claiming pg)
  with assms show ?thesis by (auto split: list.splits option.splits prod.splits sum.splits if_splits)
next
  case (Preparing a att pg)
  with assms(1) have "prepare_target e post a att pg db = (pc', db')" "out = []" by (auto split: prod.splits)
  with Preparing prepare_owed [OF this(1)] show ?thesis by auto
next
  case (Persisting a att o' pg)
  with assms show ?thesis
    by (cases o') (auto simp: first_error_def split: prod.splits sum.splits option.splits)
qed (use assms in \<open>auto simp: late_def split: publish_answer.splits\<close>)

lemma run_owed:
  "late (wk_pc w) \<Longrightarrow> run_worker es w db = (w', db', out) \<Longrightarrow> wk_pc w' = Finishing \<Longrightarrow>
     \<not> doomed (wk_pc w) \<and> Pair (sp_id (wk_post w)) ` owed (wk_pc w) \<subseteq> set out"
proof (induction es arbitrary: w db out)
  case Nil
  then show ?case by simp
next
  case (Cons e es)
  obtain pc db1 out1 where p: "pc_step e (wk_post w) (wk_pc w) db = (pc, db1, out1)"
    by (cases "pc_step e (wk_post w) (wk_pc w) db")
  from Cons.prems(2) obtain out2 where r: "run_worker es (w\<lparr>wk_pc := pc\<rparr>) db1 = (w', db', out2)" and out: "out = out1 @ out2"
    unfolding run_Cons(1) [OF p] by (auto split: prod.splits)
  from Cons.IH [OF _ r Cons.prems(3)] pc_step_late [OF p Cons.prems(1)]
  have ih: "\<not> doomed pc" "Pair (sp_id (wk_post w)) ` owed pc \<subseteq> set out2" by auto
  from pc_step_owed [OF p Cons.prems(1)] ih(1) have o: "\<not> doomed (wk_pc w)" "owed (wk_pc w) \<subseteq> owed pc \<union> snd ` set out1"
    "\<forall>k \<in> set out1. fst k = sp_id (wk_post w)" by auto
  have A: "Pair (sp_id (wk_post w)) ` (snd ` set out1) \<subseteq> set out1"
  proof
    fix x assume "x \<in> Pair (sp_id (wk_post w)) ` (snd ` set out1)"
    then obtain k where "k \<in> set out1" "x = (sp_id (wk_post w), snd k)" by blast
    then show "x \<in> set out1" using o(3) by (metis prod.collapse)
  qed
  have B: "Pair (sp_id (wk_post w)) ` owed (wk_pc w) \<subseteq>
      Pair (sp_id (wk_post w)) ` owed pc \<union> Pair (sp_id (wk_post w)) ` (snd ` set out1)" using o(2) by blast
  have "Pair (sp_id (wk_post w)) ` owed (wk_pc w) \<subseteq> set out"
    using order_trans [OF B Un_mono [OF ih(2) A]] unfolding out set_append by (simp only: Un_commute)
  with o(1) show ?case by blast
qed


section \<open>A healthy run\<close>

text \<open>What a delivery needs: a registered provider that publishes, readable credentials that are not due
  for a refresh, a remote id no other post of the account has, and a claimable target.\<close>

definition deliverable :: "env \<Rightarrow> scheduled_post \<Rightarrow> store_db \<Rightarrow> social_account \<Rightarrow> bool" where
  "deliverable e post db a \<longleftrightarrow> sa_token_expires_at a = None \<and> is_ok (account_auth e a) \<and>
     (\<exists>impl. registry_get e (sa_provider a) = Some impl \<and>
       (\<forall>auth req. \<exists>r. im_publish impl a auth req = Published r \<and>
          \<not> remote_taken (sp_id post) (sa_id a) (nullable_string (resolve_remote_post_id (sa_provider a) r)) db)) \<and>
     (\<exists>st. ((sp_id post, sa_id a), st) \<in> statuses db \<and> (st = Pending \<or> st = Failed))"

text \<open>Changes to the rows of one post only.\<close>

definition own_rows :: "string \<Rightarrow> store_db \<Rightarrow> store_db \<Rightarrow> bool" where
  "own_rows p db db' \<longleftrightarrow> sd_identity db' = sd_identity db \<and>
     (\<forall>k r. fst k \<noteq> p \<longrightarrow> (k, r) \<in> remotes db' \<longleftrightarrow> (k, r) \<in> remotes db)"

lemma own_calm: "calm db db' \<Longrightarrow> own_rows p db db'"
  by (simp add: own_rows_def calm_def)

lemma own_trans: "own_rows p a b \<Longrightarrow> own_rows p b c \<Longrightarrow> own_rows p a c"
  by (simp add: own_rows_def)

lemma own_update:
  assumes "sd_targets db' = update_where q f (sd_targets db)" "sd_identity db' = sd_identity db"
    "\<And>t. q t \<Longrightarrow> tg_post t = p" "\<And>t. tg_post (f t) = tg_post t"
  shows "own_rows p db db'"
  unfolding own_rows_def remotes_def assms(1,2) set_update_where using assms(3,4) by (auto simp: image_iff split: if_splits)

lemma remote_taken_iff: "remote_taken post account remote db \<longleftrightarrow> remote \<noteq> [] \<and> (\<exists>p. p \<noteq> post \<and> ((p, account), remote) \<in> remotes db)"
  by (auto simp: remote_taken_def remotes_def list_ex_iff image_iff)

lemma own_remote_taken: "own_rows post db db' \<Longrightarrow> remote_taken post account remote db' = remote_taken post account remote db"
  by (auto simp: own_rows_def remote_taken_iff)

lemma own_team: "own_rows p db db' \<Longrightarrow> team_exists t db' = team_exists t db"
  by (simp add: own_rows_def team_exists_def)

lemma enqueue_ok: "team_exists (ae_team ev) db \<Longrightarrow> \<exists>d. enqueue_audit_event now fresh ev db = (Inr (), d)"
  by (simp add: enqueue_audit_event_def fill_event_def Let_def)

lemma publication_event_team [simp]: "ae_team (publication_event fresh post account att action outcome code) = sp_team_id post"
  by (simp add: publication_event_def automation_event_def)

lemma claim_succeeds:
  assumes ok: "store_ok db" and team: "team_exists (sp_team_id post) db"
    and st: "((sp_id post, account), st) \<in> statuses db" "st = Pending \<or> st = Failed"
  shows "\<exists>d. claim_target e post account db = (Inr True, d) \<and> own_rows (sp_id post) db d"
proof -
  obtain claimed d where c: "claim_post_target_publication (sp_id post) account db = (claimed, d)"
    by (cases "claim_post_target_publication (sp_id post) account db")
  from st obtain t where t: "t \<in> set (sd_targets db)" "claimable (sp_id post) account t"
    by (auto simp: statuses_def claimable_def)
  then have "count_where (claimable (sp_id post) account) (sd_targets db) \<noteq> 0" by (auto simp: count_where_0)
  moreover have "count_where (claimable (sp_id post) account) (sd_targets db) \<le> 1"
  proof -
    have dist: "distinct (map (\<lambda>t. (tg_post t, tg_account t)) (sd_targets db))"
      using ok unfolding store_ok_def links_ok_def target_keys_def by blast
    show ?thesis by (rule count_where_key_le_1 [OF dist, where k = "(sp_id post, account)"]) (simp add: claimable_def)
  qed
  ultimately have cl: "claimed" using c by (simp add: claim_post_target_publication_def)
  have d: "sd_targets d = update_where (claimable (sp_id post) account)
      (\<lambda>t. t\<lparr>tg_status := Processing, tg_error := outcome_unknown\<rparr>) (sd_targets db)" "sd_identity d = sd_identity db"
    using c by (auto simp: claim_post_target_publication_def)
  have own: "own_rows (sp_id post) db d" by (rule own_update [OF d]) (simp_all add: claimable_def)
  obtain d' where q: "enqueue_audit_event (en_now e) (en_event e)
      (publication_event (en_event e) post account (en_attempt e) ''post.publish_started'' ''pending'' []) d = (Inr (), d')"
    using enqueue_ok own_team [OF own] team by (metis publication_event_team)
  have "calm d d'" using calm_event(2) q by (metis snd_conv)
  with own have "own_rows (sp_id post) db d'" by (blast intro: own_trans own_calm)
  moreover have "claim_target e post account db = (Inr True, d')"
    by (simp add: claim_target_def with_audit_transaction_def c cl q)
  ultimately show ?thesis by blast
qed

lemma persist_succeeds:
  assumes "en_fail e = Map.empty" "team_exists (sp_team_id post) db" "\<not> remote_taken (sp_id post) account (nullable_string remote) db"
  shows "\<exists>d. persist_target_outcome e post account att Posted url err meta remote action outcome code db = (Ok (), d) \<and>
    own_rows (sp_id post) db d"
proof -
  obtain d where m: "mark_post_target_result (sp_id post) account Posted url err meta remote db = (Inr (), d)"
    using assms(3) by (simp add: mark_post_target_result_def)
  then have d: "sd_targets d = update_where (\<lambda>t. tg_post t = sp_id post \<and> tg_account t = account)
        (\<lambda>t. t\<lparr>tg_status := Posted, tg_url := nullable_string url, tg_error := nullable_string err,
               tg_metadata := meta, tg_remote := nullable_string remote\<rparr>) (sd_targets db)" "sd_identity d = sd_identity db"
    by (auto simp: mark_post_target_result_def split: if_splits)
  have own: "own_rows (sp_id post) db d" by (rule own_update [OF d]) simp_all
  obtain d' where q: "enqueue_audit_event (en_now e) (en_event e)
      (publication_event (en_event e) post account att action outcome code) d = (Inr (), d')"
    using enqueue_ok own_team [OF own] assms(2) by (metis publication_event_team)
  have "calm d d'" using calm_event(2) q by (metis snd_conv)
  moreover have "calm d' (snd (checked e ''drain'' (drain_audit_events (en_now e)) d'))"
    by (rule calm_checked [OF calm_drain])
  ultimately have "own_rows (sp_id post) db (snd (checked e ''drain'' (drain_audit_events (en_now e)) d'))"
    using own by (blast intro: own_trans own_calm)
  then show ?thesis
    by (simp add: persist_target_outcome_def checked_def [of e "''persist''"] assms(1) with_audit_transaction_def m q)
qed

lemma run_append:
  "run_worker (es @ fs) w db =
     (case run_worker es w db of (w1, db1, o1) \<Rightarrow> case run_worker fs w1 db1 of (w2, db2, o2) \<Rightarrow> (w2, db2, o1 @ o2))"
  by (induction es arbitrary: w db) (auto split: prod.split)

lemma filter_no_media: "filter_media_ids_for_account [] m a = []"
  by (simp add: filter_media_ids_for_account_def normalize_media_ids_def Let_def)

text \<open>Five steps take a healthy worker past one account.\<close>

lemma healthy_cycle:
  assumes ok: "store_ok db" and nofail: "en_fail e = Map.empty" and team: "team_exists (sp_team_id post) db"
    and media: "sp_media_ids post = []" and a: "deliverable e post db a" and pg: "pg_rest pg = a # as"
  shows "\<exists>db'. run_worker (replicate 5 e) \<lparr>wk_post = post, wk_pc = Claiming pg\<rparr> db =
      (\<lparr>wk_post = post, wk_pc = Claiming (pg\<lparr>pg_rest := as\<rparr>)\<rparr>, db', [(sp_id post, sa_id a)]) \<and>
    store_ok db' \<and> own_rows (sp_id post) db db' \<and> statuses db' = set_status (sp_id post, sa_id a) Posted (statuses db)"
proof -
  let ?k = "(sp_id post, sa_id a)"
  let ?pg = "pg\<lparr>pg_rest := as\<rparr>"
  from a obtain impl st auth where impl: "registry_get e (sa_provider a) = Some impl"
    "\<And>auth req. \<exists>r. im_publish impl a auth req = Published r \<and>
        \<not> remote_taken (sp_id post) (sa_id a) (nullable_string (resolve_remote_post_id (sa_provider a) r)) db"
    and st: "(?k, st) \<in> statuses db" "st = Pending \<or> st = Failed" and auth: "account_auth e a = Ok auth"
    and ex: "sa_token_expires_at a = None"
    by (auto simp: deliverable_def is_ok_iff)
  obtain d1 where c: "claim_target e post (sa_id a) db = (Inr True, d1)" and o1: "own_rows (sp_id post) db d1"
    using claim_succeeds [OF ok team st] by blast
  have s1: "store_ok d1" "statuses d1 = set_status ?k Processing (statuses db)" using claim_cases [OF ok c] by auto
  have p1: "pc_step e post (Claiming pg) db = (Preparing a (en_attempt e) ?pg, d1, [])"
    by (simp add: pg checked_def nofail c)
  have fresh: "ensure_mastodon_fresh e a d = (Ok a, d)" for d by (simp add: ensure_mastodon_fresh_def ex)
  obtain req where p2: "pc_step e post (Preparing a (en_attempt e) ?pg) d1 = (Publishing a (en_attempt e) impl auth req ?pg, d1, [])"
    by (simp add: prepare_target_def impl(1) fresh auth media filter_no_media Let_def)
  obtain r where r: "im_publish impl a auth req = Published r"
    "\<not> remote_taken (sp_id post) (sa_id a) (nullable_string (resolve_remote_post_id (sa_provider a) r)) db"
    using impl(2) by blast
  have p3: "pc_step e post (Publishing a (en_attempt e) impl auth req ?pg) d1 =
      (Persisting a (en_attempt e) (Delivered r (pq_content req)) ?pg, d1, [?k])"
    by (simp add: r(1))
  obtain d2 where pe: "persist_target_outcome e post (sa_id a) (en_attempt e) Posted (pb_url r) [] (pb_metadata r)
        (resolve_remote_post_id (sa_provider a) r) ''post.publish_success'' ''success'' [] d1 = (Ok (), d2)"
      and o2: "own_rows (sp_id post) d1 d2"
    using persist_succeeds [OF nofail] own_team [OF o1] own_remote_taken [OF o1] team r(2) by metis
  have s2: "store_ok d2" "statuses d2 = set_status ?k Posted (statuses d1)" using persist_cases [OF s1(1) pe] by auto
  have p4: "pc_step e post (Persisting a (en_attempt e) (Delivered r (pq_content req)) ?pg) d1 = (Recording a r (pq_content req) ?pg, d2, [])"
    by (simp add: pe)
  define d3 where "d3 = record_delivery e post a r (pq_content req) d2"
  have cd: "calm d2 d3" unfolding d3_def by (rule calm_record_delivery)
  have p5: "pc_step e post (Recording a r (pq_content req) ?pg) d2 = (Claiming ?pg, d3, [])" by (simp add: d3_def)
  have "set_status ?k Posted (set_status ?k Processing (statuses db)) = set_status ?k Posted (statuses db)"
    by (simp add: set_status_def image_image cong: image_cong) (rule image_cong, auto)
  then have "store_ok d3" "statuses d3 = set_status ?k Posted (statuses db)" using cd s1 s2 by (simp_all add: calm_def)
  moreover have "own_rows (sp_id post) db d3" using o1 o2 cd by (blast intro: own_trans own_calm)
  moreover have "run_worker (replicate 5 e) \<lparr>wk_post = post, wk_pc = Claiming pg\<rparr> db =
      (\<lparr>wk_post = post, wk_pc = Claiming ?pg\<rparr>, d3, [?k])"
    by (simp add: numeral_eq_Suc worker_step_def p1 p2 p3 p4 p5 del: pc_step.simps)
  ultimately show ?thesis by blast
qed

lemma set_status_posted:
  "(k, st) \<in> set_status k0 Posted S \<longleftrightarrow> (if k = k0 then st = Posted \<and> k0 \<in> fst ` S else (k, st) \<in> S)"
  by (rule mem_set_status)

lemma deliverable_later:
  assumes "deliverable e post db a" "own_rows (sp_id post) db db'" "statuses db' = set_status (sp_id post, b) Posted (statuses db)" "sa_id a \<noteq> b"
  shows "deliverable e post db' a"
  using assms(1) unfolding deliverable_def own_remote_taken [OF assms(2)] assms(3) mem_set_status using assms(4) by auto

lemma healthy_claims:
  assumes "store_ok db" "en_fail e = Map.empty" "team_exists (sp_team_id post) db" "sp_media_ids post = []"
    "\<And>a. a \<in> set (pg_rest pg) \<Longrightarrow> deliverable e post db a" "distinct (map sa_id (pg_rest pg))" "pg_err pg = None"
  shows "\<exists>db'. run_worker (replicate (5 * length (pg_rest pg) + 1) e) \<lparr>wk_post = post, wk_pc = Claiming pg\<rparr> db =
      (\<lparr>wk_post = post, wk_pc = Finishing\<rparr>, db', map (\<lambda>a. (sp_id post, sa_id a)) (pg_rest pg)) \<and>
    (\<forall>a \<in> set (pg_rest pg). ((sp_id post, sa_id a), Posted) \<in> statuses db') \<and>
    (\<forall>k st. k \<notin> Pair (sp_id post) ` sa_id ` set (pg_rest pg) \<longrightarrow> (k, st) \<in> statuses db' \<longleftrightarrow> (k, st) \<in> statuses db)"
  using assms
proof (induction "pg_rest pg" arbitrary: pg db)
  case Nil
  then have "pc_step e post (Claiming pg) db = (Finishing, db, [])" by simp
  with Nil(1) show ?case by (simp add: Nil(1) [symmetric] worker_step_def del: pc_step.simps)
next
  case (Cons a as)
  note rest = Cons(2) [symmetric]
  let ?pg = "pg\<lparr>pg_rest := as\<rparr>"
  from healthy_cycle [OF Cons(3,4,5,6) Cons(7) rest] rest obtain d where
    r1: "run_worker (replicate 5 e) \<lparr>wk_post = post, wk_pc = Claiming pg\<rparr> db =
      (\<lparr>wk_post = post, wk_pc = Claiming ?pg\<rparr>, d, [(sp_id post, sa_id a)])"
    and d: "store_ok d" "own_rows (sp_id post) db d" "statuses d = set_status (sp_id post, sa_id a) Posted (statuses db)" by auto
  have del: "deliverable e post d b" if "b \<in> set (pg_rest ?pg)" for b
  proof (rule deliverable_later [OF _ d(2,3)])
    show "deliverable e post db b" using Cons(7) that rest by simp
    show "sa_id b \<noteq> sa_id a" using Cons(8) that rest by (auto simp: image_iff)
  qed
  obtain d' where r2: "run_worker (replicate (5 * length as + 1) e) \<lparr>wk_post = post, wk_pc = Claiming ?pg\<rparr> d =
      (\<lparr>wk_post = post, wk_pc = Finishing\<rparr>, d', map (\<lambda>a. (sp_id post, sa_id a)) as)"
    and d': "\<forall>b \<in> set as. ((sp_id post, sa_id b), Posted) \<in> statuses d'"
      "\<forall>k st. k \<notin> Pair (sp_id post) ` sa_id ` set as \<longrightarrow> (k, st) \<in> statuses d' \<longleftrightarrow> (k, st) \<in> statuses d"
    using Cons(1) [of ?pg d] d(1) Cons(4) own_team [OF d(2)] Cons(5,6) del Cons(8,9) rest by auto
  have split: "replicate (5 * length (pg_rest pg) + 1) e = replicate 5 e @ replicate (5 * length as + 1) e"
    unfolding replicate_add [symmetric] rest by (rule arg_cong [where f = "\<lambda>n. replicate n e"]) simp
  have run: "run_worker (replicate (5 * length (pg_rest pg) + 1) e) \<lparr>wk_post = post, wk_pc = Claiming pg\<rparr> db =
      (\<lparr>wk_post = post, wk_pc = Finishing\<rparr>, d', map (\<lambda>a. (sp_id post, sa_id a)) (pg_rest pg))"
    unfolding split run_append r1 prod.case r2 by (simp add: rest)
  have na: "(sp_id post, sa_id a) \<notin> Pair (sp_id post) ` sa_id ` set as" using Cons(8) rest by auto
  have ina: "(sp_id post, sa_id a) \<in> fst ` statuses db" using Cons(7) [of a] rest by (force simp: deliverable_def)
  have "((sp_id post, sa_id a), Posted) \<in> statuses d'" using d'(2) na ina unfolding d(3) mem_set_status by auto
  moreover have "(k, st) \<in> statuses d' \<longleftrightarrow> (k, st) \<in> statuses db" if "k \<notin> Pair (sp_id post) ` sa_id ` set (pg_rest pg)" for k st
  proof -
    from that rest have k: "k \<notin> Pair (sp_id post) ` sa_id ` set as" "k \<noteq> (sp_id post, sa_id a)" by auto
    with d'(2) have "(k, st) \<in> statuses d' \<longleftrightarrow> (k, st) \<in> statuses d" by blast
    with k(2) show ?thesis unfolding d(3) mem_set_status by simp
  qed
  ultimately show ?case using run d'(1) rest by auto
qed

lemma loaded_distinct:
  assumes "store_ok db"
  shows "distinct (map sa_id (load_post_targets post db))"
proof -
  have *: "distinct (map sa_id (List.map_filter f ts))"
    if "distinct (map (\<lambda>t. (tg_post t, tg_account t)) ts)" "\<And>t a. f t = Some a \<Longrightarrow> tg_post t = post \<and> sa_id a = tg_account t"
    for f and ts :: "target_row list"
    using that
  proof (induction ts)
    case (Cons t ts)
    have "sa_id a \<notin> sa_id ` set (List.map_filter f ts)" if a: "f t = Some a" for a
    proof
      assume "sa_id a \<in> sa_id ` set (List.map_filter f ts)"
      then obtain t' a' where t': "t' \<in> set ts" "f t' = Some a'" "sa_id a' = sa_id a" by (auto simp: map_filter_def)
      with Cons.prems(2) a have "(tg_post t', tg_account t') = (tg_post t, tg_account t)" by metis
      with Cons.prems(1) t'(1) show False by (auto simp: image_iff)
    qed
    with Cons show ?case by (auto simp: map_filter_simps split: option.split)
  qed (simp add: map_filter_simps)
  have "distinct (map (\<lambda>t. (tg_post t, tg_account t)) (sd_targets db))"
    using assms unfolding store_ok_def links_ok_def target_keys_def by blast
  then show ?thesis
    unfolding load_post_targets_def
    by (auto intro!: * dest: find_SomeD split: option.split if_splits)
qed

section \<open>Properties\<close>

definition idle_system :: "store_db \<Rightarrow> system" where
  "idle_system db = \<lparr>sy_db = db, sy_listed = [], sy_workers = [], sy_sent = []\<rparr>"

lemma idle_ok: "store_ok db \<Longrightarrow> publisher_ok (idle_system db)"
  by (simp add: publisher_ok_def idle_system_def)

lemma reachable_ok: "sys_step\<^sup>*\<^sup>* s s' \<Longrightarrow> publisher_ok s \<Longrightarrow> publisher_ok s'"
  by (induction rule: rtranclp_induct) (auto intro: sys_step_ok)

text \<open>C1: no post reaches an account twice. However the poller, the workers, the API and restarts
  interleave, and whatever the database, the file system and the providers answer, the log of deliveries
  never contains a post and account twice, and a target that was delivered is posted or in the unknown
  state, so no later claim can pick it up. (The API steps leave out a patch of the target list and an
  administrator's retry while a target is in the unknown state: these two do requeue a delivered target.)\<close>
theorem published_at_most_once:
  assumes "store_ok db" "sys_step\<^sup>*\<^sup>* (idle_system db) s"
  shows "distinct (sy_sent s) \<and>
    list_all (\<lambda>t. if (tg_post t, tg_account t) \<in> set (sy_sent s) then tg_status t = Posted \<or> tg_status t = Processing else True)
      (sd_targets (sy_db s))"
proof -
  have ok: "publisher_ok s" using reachable_ok [OF assms(2) idle_ok [OF assms(1)]] .
  have "((tg_post t, tg_account t), tg_status t) \<in> statuses (sy_db s)" if "t \<in> set (sd_targets (sy_db s))" for t
    using that by (force simp: statuses_def)
  then show ?thesis using publisher_okD(2,3) [OF ok] unfolding list_all_iff by (metis (no_types, lifting))
qed

theorem published_at_most_once_witness:
  "distinct (sy_sent ((idle_system ann_store)\<lparr>sy_db := cancel_scheduled_post 0 ''t1'' ''p1'' ann_store\<rparr>))"
proof -
  have "sys_step (idle_system ann_store) ((idle_system ann_store)\<lparr>sy_db := cancel_scheduled_post 0 ''t1'' ''p1'' ann_store\<rparr>)"
    using s_quiet [OF q_cancel, of "idle_system ann_store" 0 "''t1''" "''p1''"] by (simp add: idle_system_def)
  then have "sys_step\<^sup>*\<^sup>* (idle_system ann_store) ((idle_system ann_store)\<lparr>sy_db := cancel_scheduled_post 0 ''t1'' ''p1'' ann_store\<rparr>)"
    by (rule r_into_rtranclp)
  from published_at_most_once [OF ann_store_ok this] show ?thesis by blast
qed


text \<open>C30: a post is only marked as posted when every account it was loaded for has received it: a worker
  that reaches the final write has delivered the post to each of them in this run.\<close>
theorem posted_only_if_delivered:
  "case run_worker es \<lparr>wk_post = post, wk_pc = Validating\<rparr> db of
     (w, db', out) \<Rightarrow> if wk_pc w = Finishing
       then list_all (\<lambda>a. (sp_id post, sa_id a) \<in> set out) (load_post_targets (sp_id post) db) else True"
proof (cases "\<exists>w db' out. run_worker es \<lparr>wk_post = post, wk_pc = Validating\<rparr> db = (w, db', out) \<and> wk_pc w = Finishing")
  case True
  then obtain w db' out where r: "run_worker es \<lparr>wk_post = post, wk_pc = Validating\<rparr> db = (w, db', out)"
    and fin: "wk_pc w = Finishing" by blast
  then obtain e1 es1 where es1: "es = e1 # es1" by (cases es) auto
  obtain pc d o1 where p1: "pc_step e1 post Validating db = (pc, d, o1)" by (cases "pc_step e1 post Validating db")
  have r1: "run_worker es \<lparr>wk_post = post, wk_pc = Validating\<rparr> db =
      (case run_worker es1 \<lparr>wk_post = post, wk_pc = pc\<rparr> d of (w2, db2, out2) \<Rightarrow> (w2, db2, o1 @ out2))"
    using run_Cons(1) [of e1 "\<lparr>wk_post = post, wk_pc = Validating\<rparr>" db pc d o1 es1] p1 es1 by simp
  from p1 have "list_all (\<lambda>a. (sp_id post, sa_id a) \<in> set out) (load_post_targets (sp_id post) db)"
  proof (cases rule: validating_cases)
    case (1 err)
    with r r1 fin run_owed [of "\<lparr>wk_post = post, wk_pc = pc\<rparr>" es1 d w db'] show ?thesis
      by (auto simp: late_def split: prod.splits)
  next
    case 2
    with r r1 have r2: "run_worker es1 \<lparr>wk_post = post, wk_pc = Loading\<rparr> db = (w, db', out)" by (auto split: prod.splits)
    with fin obtain e2 es2 where es2: "es1 = e2 # es2" by (cases es1) auto
    obtain pc2 d2 o2 where p2: "pc_step e2 post Loading db = (pc2, d2, o2)" by (cases "pc_step e2 post Loading db")
    have r3: "run_worker es1 \<lparr>wk_post = post, wk_pc = Loading\<rparr> db =
        (case run_worker es2 \<lparr>wk_post = post, wk_pc = pc2\<rparr> d2 of (w2, db2, out2) \<Rightarrow> (w2, db2, o2 @ out2))"
      using run_Cons(1) [of e2 "\<lparr>wk_post = post, wk_pc = Loading\<rparr>" db pc2 d2 o2 es2] p2 es2 by simp
    from p2 show ?thesis
    proof (cases rule: loading_cases)
      case (1 err)
      with r2 r3 fin run_owed [of "\<lparr>wk_post = post, wk_pc = pc2\<rparr>" es2 d2 w db'] show ?thesis
        by (auto simp: late_def split: prod.splits)
    next
      case (2 pg)
      with r2 r3 fin run_owed [of "\<lparr>wk_post = post, wk_pc = pc2\<rparr>" es2 d2 w db'] show ?thesis
        by (force simp: late_def list_all_iff split: prod.splits)
    qed
  qed
  with r show ?thesis by simp
qed (auto split: prod.split)


definition quiet_env :: env where
  "quiet_env = \<lparr>en_now = 0, en_attempt = ''att'', en_event = ''ev'', en_fail = Map.empty, en_describe = (\<lambda>_. ''db''),
     en_prepare_error = (\<lambda>_. ''prep''), en_providers = Map.empty, en_encrypt = Ok, en_decrypt = Ok, en_open = (\<lambda>_. Err ''none''),
     en_lower = to_lower, en_letter = (\<lambda>r. 65 \<le> r), en_number = (\<lambda>r. 48 \<le> r \<and> r \<le> 57)\<rparr>"

definition author :: principal where
  "author = \<lparr>p_user = \<lparr>u_id = ''u1'', u_email = ''a@b'', u_name = ''Ann'', u_picture_url = [], u_subject = ''sub'',
     u_is_admin = False, u_tour_done = False\<rparr>, p_kind = ''session'', p_scopes = [], p_team_id = None, p_expires_at = None,
     p_token_id = None, p_token_name = None\<rparr>"

text \<open>C8: the worker implements the ledger. On a store in good state each of its steps, over all program
  points, errors and answers, is a step of the abstract protocol on its claims, and the store stays good.\<close>
theorem worker_refines_ledger:
  assumes "store_ok db"
  shows "case worker_step e w db of (w', db', out) \<Rightarrow>
    store_ok db' \<and> ledger_step (statuses db) (claims w, unsettled w) (statuses db') (claims w', unsettled w') out"
proof -
  obtain pc db' out where p: "pc_step e (wk_post w) (wk_pc w) db = (pc, db', out)" by (cases "pc_step e (wk_post w) (wk_pc w) db")
  from pc_step_ledger [OF assms p] show ?thesis by (simp add: worker_step_def p claims_def unsettled_def)
qed

theorem worker_refines_ledger_witness:
  "case worker_step quiet_env \<lparr>wk_post = rw_post (new_post_row 0 ''p1'' ''t1'' author draft_input), wk_pc = Finishing\<rparr> ann_store of
     (w', db', out) \<Rightarrow> store_ok db' \<and> ledger_step {} ({}, {}) (statuses db') (claims w', unsettled w') out"
  using worker_refines_ledger [OF ann_store_ok, where e = quiet_env
    and w = "\<lparr>wk_post = rw_post (new_post_row 0 ''p1'' ''t1'' author draft_input), wk_pc = Finishing\<rparr>"]
  by (simp add: claims_def unsettled_def statuses_def ann_store_def empty_store_def)


definition live_store :: store_db where
  "live_store = ann_store\<lparr>sd_posts := [new_post_row 0 ''p1'' ''t1'' author draft_input],
     sd_targets := [new_target ''p1'' ''a1'']\<rparr>"

definition live_env :: env where
  "live_env = quiet_env\<lparr>en_providers := (\<lambda>_. Some \<lparr>im_refresh = None, im_upload = (\<lambda>_ _ _ _ _. Err ''none''),
     im_publish = (\<lambda>_ _ _. Published \<lparr>pb_remote = ''r1'', pb_url = [], pb_metadata = []\<rparr>),
     im_metrics = (\<lambda>_ _ _. Ok []), im_account_metrics = (\<lambda>_ _. Ok [])\<rparr>)\<rparr>"

definition live_post :: scheduled_post where
  "live_post = scan_post live_store (new_post_row 0 ''p1'' ''t1'' author draft_input)"

lemmas live_defs = live_store_def ann_store_def empty_store_def new_target_def demo_account_def
  one_user_db_def empty_identity_db_def

lemma live_post_simps:
  "sp_id live_post = ''p1''" "sp_team_id live_post = ''t1''" "sp_media_ids live_post = []" "sp_targets live_post = [''a1'']"
  unfolding live_post_def scan_post_def new_post_row_def Let_def
  by (simp_all add: live_store_def draft_input_def empty_input_def normalize_media_ids_def new_target_def)

lemma live_targets: "load_post_targets ''p1'' live_store = [demo_account]"
  unfolding load_post_targets_def find_post_def live_store_def
  by (simp add: new_post_row_def Let_def map_filter_simps new_target_def ann_store_def demo_account_def)

lemma live_store_ok: "store_ok live_store"
  using ann_store_ok unfolding store_ok_defs live_store_def
  by (simp add: new_post_row_def Let_def new_target_def ann_store_def demo_account_def empty_store_def)


text \<open>A cancellation that arrives while a worker holds the post is lost when the attempt fails: the failure
  is written whatever the row's status is, and the post is due again.\<close>

lemma cancelled_post_retried:
  assumes "en_fail e ''result'' = None" "r \<in> set (sd_posts db)" "rw_id r = sp_id post" "rw_status r = Cancelled"
    "0 \<le> sp_attempt_count post" "sp_attempt_count post < 4"
  shows "\<exists>r' \<in> set (sd_posts (fail_post e post err db)). rw_id r' = sp_id post \<and> rw_status r' = Failed \<and>
    sp_attempt_count (rw_post r') < 5 \<and>
    sp_scheduled_at (rw_post r') = en_now e + (sp_attempt_count post + 1) * (sp_attempt_count post + 1) * 60 * nanos"
proof -
  let ?n = "sp_attempt_count post + 1"
  let ?f = "on_post (\<lambda>s. s\<lparr>sp_attempt_count := ?n, sp_status := Failed, sp_last_error := nullable_string err,
      sp_scheduled_at := en_now e + ?n * ?n * 60 * nanos\<rparr>) (en_now e)"
  have "sd_posts (fail_post e post err db) = update_where (\<lambda>r. rw_id r = sp_id post) ?f (sd_posts db)"
    using assms(6) by (simp add: fail_post_def checked_def assms(1) always_def mark_post_result_def Let_def)
  then have "?f r \<in> set (sd_posts (fail_post e post err db))" using assms(2,3) by force
  then show ?thesis using assms(3,6) by (intro bexI [of _ "?f r"]) auto
qed

end
