(* ===== verification/Job_Manager.thy ===== *)
theory Job_Manager
  imports Ai_Jobs_Success Publisher_Safety
begin

text \<open>
  \<open>internal/aijobs/manager.go\<close>: the in-process queue of AI jobs with its concurrency limit, its completion,
  cancellation and the recovery of jobs a restart left behind, together with the API's cancellation handler
  (\<open>api/ai_cancel.go\<close>) and the transaction around every mutating request (\<open>api/audit_transaction.go\<close>,
  \<open>api/audit.go\<close>). A goroutine of the manager is a record of its program counter; its steps, the API's, the
  recovery sweep and restarts interleave.
\<close>

section \<open>Audited requests\<close>

text \<open>A handler answers with a status and a body, reports whether its audit event failed, and leaves its writes
  in the request's transaction. \<open>None\<close> is the answer \<open>internal_error\<close> written after a rollback.\<close>

type_synonym 'b handler = "store_db \<Rightarrow> (nat \<times> 'b) \<times> bool \<times> store_db"

definition audited_handler :: "'b handler \<Rightarrow> store_db \<Rightarrow> (nat \<times> 'b) option \<times> store_db" where
  "audited_handler h db =
     (case h db of ((status, body), failed, db') \<Rightarrow>
        if failed then (None, db)
        else if status \<ge> 400 then (Some (status, body), db)
        else (Some (status, body), db'))"

record audit_request =
  aq_principal :: "principal option"
  aq_request :: string
  aq_fields :: string

text \<open>\<open>recordAudit\<close>: whether the insert failed, and the tables after it. A later detail wins over an earlier one.\<close>

definition api_event ::
  "audit_request \<Rightarrow> principal \<Rightarrow> string \<Rightarrow> string \<Rightarrow> string \<Rightarrow> string option \<Rightarrow> string \<Rightarrow> (string \<times> string) list \<Rightarrow> audit_event" where
  "api_event rq p team action target_type target summary details =
     \<lparr>ae_id = [], ae_team = team, ae_actor_user = u_id (p_user p), ae_actor_name = u_name (p_user p),
      ae_actor_email = u_email (p_user p), ae_actor_kind = p_kind p,
      ae_token = (if p_kind p = ''token'' then p_token_id p else None),
      ae_token_name = (if p_kind p = ''token'' then p_token_name p else None),
      ae_action = action, ae_target_type = target_type,
      ae_target = Some (case target of None \<Rightarrow> team | Some t \<Rightarrow> t), ae_summary = summary,
      ae_metadata = dedup_by fst [] ((if aq_fields rq = [] then [] else [(''changed_fields'', aq_fields rq)]) @
        [(''request_id'', aq_request rq)] @ details @ [(''channel'', ''rest''), (''outcome'', ''success'')]),
      ae_created = None\<rparr>"

definition record_audit ::
  "env \<Rightarrow> string \<Rightarrow> audit_request \<Rightarrow> string \<Rightarrow> string \<Rightarrow> string \<Rightarrow> string option \<Rightarrow> string \<Rightarrow> (string \<times> string) list \<Rightarrow>
   store_db \<Rightarrow> bool \<times> store_db" where
  "record_audit e fresh rq team action target_type target summary details db =
     (if trim_space team = [] then (False, db)
      else (case aq_principal rq of
              None \<Rightarrow> (False, db)
            | Some p \<Rightarrow>
                (case faulty e ''audit'' (insert_audit_event (en_now e) fresh
                        (api_event rq p team action target_type target summary details)) db of
                   (Inl _, db') \<Rightarrow> (True, db') | (Inr _, db') \<Rightarrow> (False, db'))))"

section \<open>Cancelling a job\<close>

datatype cancel_answer = Cancel_Error string | Cancelled_Job job_row

definition cancelled_message :: string where "cancelled_message = ''cancelled''"

definition release_cancelled :: "auto_env \<Rightarrow> job_row \<Rightarrow> store_db \<Rightarrow> store_db" where
  "release_cancelled x job db =
     (if jb_origin job = ''automation'' \<and> jb_type job = ''voice_engine''
      then (case parse_rss_meta (ax_now x) (jb_payload job) of
              None \<Rightarrow> db
            | Some m \<Rightarrow> snd (faulty (ax_env x) ''release'' (release_rss_item_attempt (jb_team job) (rx_feed m) (rx_key m)) db))
      else db)"

definition handle_cancel_ai_job :: "auto_env \<Rightarrow> audit_request \<Rightarrow> string \<Rightarrow> string \<Rightarrow> cancel_answer handler" where
  "handle_cancel_ai_job x rq team i db =
     (case fst (faulty (ax_env x) ''job'' (reading (get_ai_job_by_id team i)) db) of
        Inl _ \<Rightarrow> ((404, Cancel_Error ''ai_job_not_found''), False, db)
      | Inr job \<Rightarrow>
          (case faulty (ax_env x) ''claim'' (claim_ai_job_completion (ax_now x) (jb_id job) Job_Failed [] cancelled_message) db of
             (Inl _, db1) \<Rightarrow> ((500, Cancel_Error ''internal_error''), False, db1)
           | (Inr False, db1) \<Rightarrow>
               (case fst (faulty (ax_env x) ''current'' (reading (get_ai_job_by_id team i)) db1) of
                  Inl _ \<Rightarrow> ((500, Cancel_Error ''internal_error''), False, db1)
                | Inr current \<Rightarrow>
                    if jb_status current = Job_Failed \<and> jb_error current = cancelled_message
                    then ((200, Cancelled_Job current), False, db1)
                    else ((409, Cancel_Error ''ai_job_not_cancellable''), False, db1))
           | (Inr True, db1) \<Rightarrow>
               (case record_audit (ax_env x) (ax_fresh x ''event'') rq team ''ai_job.cancel'' ''ai_job'' (Some i)
                        ''Cancelled AI job'' [(''job_id'', i)] (release_cancelled x job db1) of
                  (failed, db2) \<Rightarrow>
                    (case fst (faulty (ax_env x) ''updated'' (reading (get_ai_job_by_id team i)) db2) of
                       Inl _ \<Rightarrow> ((500, Cancel_Error ''internal_error''), failed, db2)
                     | Inr updated \<Rightarrow> ((200, Cancelled_Job updated), failed, db2)))))"

section \<open>Submitting\<close>

datatype service_config = Config_Missing string | Config_Error string | Config string

text \<open>\<open>SubmitJob\<close>: the service configuration and the prompt context are read first, the row and its audit event
  are one transaction. \<open>context\<close> is the error of building the context, if any.\<close>

definition submit_event :: "auto_env \<Rightarrow> job_row \<Rightarrow> audit_event" where
  "submit_event x job =
     (let own = (jb_origin job \<noteq> ''automation'' \<and> ax_initiator x \<noteq> None); p = the (ax_initiator x);
          token = (ax_initiator x \<noteq> None \<and> p_kind p = ''token'') in
      \<lparr>ae_id = ax_fresh x ''submit event'', ae_team = jb_team job,
       ae_actor_user = (if own then u_id (p_user p) else []),
       ae_actor_name = (if own then u_name (p_user p) else ''Automation''),
       ae_actor_email = (if own then u_email (p_user p) else []),
       ae_actor_kind = (if own then p_kind p else ''system''),
       ae_token = (if own \<and> token then p_token_id p else None), ae_token_name = (if own \<and> token then p_token_name p else None),
       ae_action = ''ai_job.submit'', ae_target_type = ''ai_job'', ae_target = Some (jb_id job), ae_summary = [],
       ae_metadata =
         [(''channel'', (if jb_origin job = ''preview'' then ''preview'' else if ax_initiator x = None then ''scheduler'' else ''rest'')),
          (''outcome'', ''success''), (''job_id'', jb_id job), (''author_user_id'', jb_author job)] @
         (if ax_initiator x = None then [] else [(''initiator_user_id'', u_id (p_user p))] @
            (case p_token_id p of None \<Rightarrow> [] | Some t \<Rightarrow> if token then [(''initiator_token_id'', t)] else [])),
       ae_created = None\<rparr>)"

definition submit_job :: "auto_env \<Rightarrow> service_config \<Rightarrow> string option \<Rightarrow> job_input \<Rightarrow> job_row store_op" where
  "submit_job x config ctx inp db =
     (case config of
        Config_Missing err \<Rightarrow> (Inl (Refused ''ai service not configured''), db)
      | Config_Error err \<Rightarrow> (Inl (Backend err), db)
      | Config key \<Rightarrow>
          if trim_space key = [] then (Inl (Refused ''ai service not configured''), db)
          else (case ctx of
                  Some err \<Rightarrow> (Inl (Backend err), db)
                | None \<Rightarrow> with_audit_transaction
                    (and_then (faulty (ax_env x) ''create job'' (create_ai_job (ax_now x) (ax_fresh x ''job'') (inp\<lparr>ji_status := Some Job_Pending\<rparr>)))
                       (\<lambda>job db. case faulty (ax_env x) ''submit event'' (insert_audit_event (ax_now x) (ax_fresh x ''submit event'')
                                        (submit_event x job)) db of
                           (Inl e, d) \<Rightarrow> (Inl e, d) | (Inr _, d) \<Rightarrow> (Inr job, d))) db))"

section \<open>Running\<close>

text \<open>Where a goroutine of \<open>execute\<close> stands; \<open>Finishing\<close> records whether it holds a slot.\<close>

datatype exec_pc = Waiting_Slot | Marking | Running | Finishing_Job bool job_status string string

record job_exec =
  jx_job :: string
  jx_pc :: exec_pc
  jx_cancelled :: bool

definition holds_slot :: "job_exec \<Rightarrow> bool" where
  "holds_slot ex = (case jx_pc ex of Waiting_Slot \<Rightarrow> False | Marking \<Rightarrow> True | Running \<Rightarrow> True | Finishing_Job s _ _ _ \<Rightarrow> s)"

definition completion_event :: "auto_env \<Rightarrow> job_row \<Rightarrow> job_status \<Rightarrow> audit_event" where
  "completion_event x job status =
     \<lparr>ae_id = [], ae_team = jb_team job, ae_actor_user = [], ae_actor_name = ''Automation'', ae_actor_email = [],
      ae_actor_kind = ''system'', ae_token = None, ae_token_name = None,
      ae_action = (if status = Job_Failed then ''ai_job.fail'' else ''ai_job.complete''),
      ae_target_type = ''ai_job'', ae_target = Some (jb_id job), ae_summary = [],
      ae_metadata = [(''channel'', ''ai''), (''outcome'', (if status = Job_Failed then ''failure'' else ''success'')),
        (''job_id'', jb_id job), (''author_user_id'', jb_author job)],
      ae_created = None\<rparr>"

definition persist_completion :: "auto_env \<Rightarrow> string \<Rightarrow> job_status \<Rightarrow> string \<Rightarrow> string \<Rightarrow> unit store_op" where
  "persist_completion x i status result err =
     with_audit_transaction (\<lambda>db.
       (case faulty (ax_env x) ''claim'' (claim_ai_job_completion (ax_now x) i status result err) db of
          (Inl e, d) \<Rightarrow> (Inl e, d)
        | (Inr False, d) \<Rightarrow> (Inr (), d)
        | (Inr True, d) \<Rightarrow>
            (case fst (faulty (ax_env x) ''job'' (reading (get_ai_job_by_id_global i)) d) of
               Inl e \<Rightarrow> (Inl e, d)
             | Inr job \<Rightarrow> faulty (ax_env x) ''event'' (insert_audit_event (ax_now x) (ax_fresh x ''event'')
                            (completion_event x job status)) d)))"

definition finish_job :: "auto_env \<Rightarrow> bool \<Rightarrow> string \<Rightarrow> job_status \<Rightarrow> string \<Rightarrow> string \<Rightarrow> store_db \<Rightarrow> store_db" where
  "finish_job x completer i status result err db =
     (if completer then snd (complete_ai_job x i status result err db)
      else snd (persist_completion x i status result err db))"

text \<open>One step of a goroutine: the goroutine after it, \<open>None\<close> when it returned. \<open>free\<close> tells whether a slot is free,
  \<open>outcome\<close> is how the language model's run ends.\<close>

fun exec_step ::
  "auto_env \<Rightarrow> bool \<Rightarrow> bool \<Rightarrow> string + string \<Rightarrow> job_exec \<Rightarrow> store_db \<Rightarrow> job_exec option \<times> store_db" where
  "exec_step x completer free outcome ex db =
     (case jx_pc ex of
        Waiting_Slot \<Rightarrow>
          (if free then (Some (ex\<lparr>jx_pc := (if jx_cancelled ex then Finishing_Job True Job_Failed [] cancelled_message else Marking)\<rparr>), db)
           else if jx_cancelled ex then (Some (ex\<lparr>jx_pc := Finishing_Job False Job_Failed [] cancelled_message\<rparr>), db)
           else (Some ex, db))
      | Marking \<Rightarrow>
          (case en_fail (ax_env x) ''mark'' of
             Some _ \<Rightarrow> (Some (ex\<lparr>jx_pc := Running\<rparr>), db)
           | None \<Rightarrow> (case mark_ai_job_processing (ax_now x) (jx_job ex) db of (moved, db') \<Rightarrow>
                        ((if moved then Some (ex\<lparr>jx_pc := Running\<rparr>) else None), db')))
      | Running \<Rightarrow>
          (case outcome of
             Inl err \<Rightarrow> (Some (ex\<lparr>jx_pc := Finishing_Job True Job_Failed [] err\<rparr>), db)
           | Inr raw \<Rightarrow> (Some (ex\<lparr>jx_pc := Finishing_Job True Job_Completed raw []\<rparr>), db))
      | Finishing_Job _ status result err \<Rightarrow> (None, finish_job x completer (jx_job ex) status result err db))"

definition stale_after :: int where "stale_after = 12 * 60 * nanos"

definition interrupted_message :: string where "interrupted_message = ''interrupted by restart''"

fun fail_each :: "auto_env \<Rightarrow> bool \<Rightarrow> job_row list \<Rightarrow> store_db \<Rightarrow> store_db" where
  "fail_each x completer [] db = db"
| "fail_each x completer (j # js) db =
     (if completer then fail_each x completer js (snd (complete_ai_job x (jb_id j) Job_Failed [] interrupted_message db))
      else (case persist_completion x (jb_id j) Job_Failed [] interrupted_message db of
              (Inl _, db') \<Rightarrow> db' | (Inr _, db') \<Rightarrow> fail_each x completer js db'))"

definition recover_interrupted :: "auto_env \<Rightarrow> bool \<Rightarrow> store_db \<Rightarrow> store_db" where
  "recover_interrupted x completer db =
     (case en_fail (ax_env x) ''unfinished'' of
        Some _ \<Rightarrow> db
      | None \<Rightarrow> fail_each x completer (list_unfinished_ai_jobs (ax_now x - stale_after) 1000 db) db)"

section \<open>The system\<close>

record job_system =
  js_db :: store_db
  js_execs :: "job_exec list"
  js_slots :: nat

definition slot_free :: "job_system \<Rightarrow> bool" where
  "slot_free s \<longleftrightarrow> count_where holds_slot (js_execs s) < js_slots s"

text \<open>What the rest of the program does to the tables: it neither touches jobs nor records events about them.\<close>

definition job_event :: "audit_event \<Rightarrow> bool" where
  "job_event e \<longleftrightarrow> ae_target_type e = ''ai_job'' \<or> ae_action e = ''post.automation_create''"

definition job_neutral :: "store_db \<Rightarrow> store_db \<Rightarrow> bool" where
  "job_neutral db db' \<longleftrightarrow> sd_jobs db' = sd_jobs db \<and> filter job_event (sd_audit db') = filter job_event (sd_audit db)"

inductive job_step :: "job_system \<Rightarrow> job_system \<Rightarrow> bool" where
  j_submit: "submit_job x config ctx inp (js_db s) = (Inr job, db') \<Longrightarrow>
    job_step s (s\<lparr>js_db := db', js_execs := js_execs s @ [\<lparr>jx_job = jb_id job, jx_pc = Waiting_Slot, jx_cancelled = False\<rparr>]\<rparr>)"
| j_exec: "js_execs s = before @ ex # after \<Longrightarrow> exec_step x completer (slot_free s) outcome ex (js_db s) = (ex', db') \<Longrightarrow>
    job_step s (s\<lparr>js_db := db', js_execs := before @ (case ex' of None \<Rightarrow> [] | Some y \<Rightarrow> [y]) @ after\<rparr>)"
| j_cancel: "audited_handler (handle_cancel_ai_job x rq team i) (js_db s) = (answer, db') \<Longrightarrow>
    job_step s (s\<lparr>js_db := db'\<rparr>)"
| j_abort: "job_step s (s\<lparr>js_execs := map (\<lambda>ex. if jx_job ex = i then ex\<lparr>jx_cancelled := True\<rparr> else ex) (js_execs s)\<rparr>)"
| j_recover: "job_step s (s\<lparr>js_db := recover_interrupted x completer (js_db s)\<rparr>)"
| j_restart: "job_step s (s\<lparr>js_execs := []\<rparr>)"
| j_other: "job_neutral (js_db s) db' \<Longrightarrow> job_step s (s\<lparr>js_db := db'\<rparr>)"

inductive_simps job_step_iff: "job_step s s'"

section \<open>Jobs settle once\<close>

lemma persist_completion_progress: "job_progress db (snd (persist_completion x i status result err db))"
  unfolding persist_completion_def
proof (rule transaction_progress)
  fix v db'
  assume b: "(case faulty (ax_env x) ''claim'' (claim_ai_job_completion (ax_now x) i status result err) db of
          (Inl e, d) \<Rightarrow> (Inl e, d)
        | (Inr False, d) \<Rightarrow> (Inr (), d)
        | (Inr True, d) \<Rightarrow>
            (case fst (faulty (ax_env x) ''job'' (reading (get_ai_job_by_id_global i)) d) of
               Inl e \<Rightarrow> (Inl e, d)
             | Inr job \<Rightarrow> faulty (ax_env x) ''event'' (insert_audit_event (ax_now x) (ax_fresh x ''event'')
                            (completion_event x job status)) d)) = (Inr v, db')"
  obtain u d where c: "faulty (ax_env x) ''claim'' (claim_ai_job_completion (ax_now x) i status result err) db = (u, d)"
    by (metis surj_pair)
  from b c obtain won where u: "u = Inr won" by (cases u) auto
  with c have cl: "claim_ai_job_completion (ax_now x) i status result err db = (Inr won, d)" by (elim faulty_cases) auto
  show "job_progress db db'"
  proof (cases won)
    case True
    with b c u obtain job where job: "fst (faulty (ax_env x) ''job'' (reading (get_ai_job_by_id_global i)) d) = Inr job"
      and ins: "faulty (ax_env x) ''event'' (insert_audit_event (ax_now x) (ax_fresh x ''event'')
                            (completion_event x job status)) d = (Inr v, db')"
      by (auto split: sum.splits)
    have i: "jb_id job = i"
      using job by (auto simp: faulty_def reading_def get_ai_job_by_id_global_def find_job_id split: option.splits)
    have k: "\<not> job_posting k (completion_event x job status)"
      "k \<noteq> i \<Longrightarrow> \<not> job_closing k (completion_event x job status)" for k
      using i by (auto simp: job_posting_def job_closing_def completion_event_def)
    from ins have ins: "insert_audit_event (ax_now x) (ax_fresh x ''event'') (completion_event x job status) d = (Inr v, db')"
      by (elim faulty_cases) auto
    have "k \<noteq> i \<Longrightarrow> \<not> job_posting k (completion_event x job status) \<and> \<not> job_closing k (completion_event x job status)" for k
      using k by blast
    from insert_audit_event_trace [OF ins this]
    have "job_trace i (if job_posting i (completion_event x job status) then 1 else 0)
      (if job_closing i (completion_event x job status) then 1 else 0) d db'" by blast
    then have "job_trace i 1 1 d db'" by (rule job_trace_mono) (simp_all add: k(1))
    with cl True show ?thesis by (auto intro: claim_then_trace)
  next
    case False
    with b c u have "db' = d" by auto
    with cl False show ?thesis by (auto intro: claim_lost_progress)
  qed
qed

lemma finish_job_progress: "job_progress db (finish_job x completer i status result err db)"
  by (simp add: finish_job_def complete_ai_job_progress persist_completion_progress)

lemma fail_each_progress: "job_progress db (fail_each x completer js db)"
proof (induction js arbitrary: db)
  case (Cons j js)
  show ?case
  proof (cases completer)
    case True
    with job_progress_trans [OF complete_ai_job_progress Cons.IH] show ?thesis by simp
  next
    case False
    obtain r d where r: "persist_completion x (jb_id j) Job_Failed [] interrupted_message db = (r, d)" by (metis surj_pair)
    with persist_completion_progress [of db x "jb_id j" Job_Failed "[]" interrupted_message] have "job_progress db d" by simp
    with r False show ?thesis using job_progress_trans [OF _ Cons.IH] by (cases r) auto
  qed
qed simp

lemma recover_progress: "job_progress db (recover_interrupted x completer db)"
  by (simp add: recover_interrupted_def fail_each_progress split: option.split)

text \<open>An update of open jobs that leaves them open.\<close>

lemma mark_processing_progress: "job_progress db (snd (mark_ai_job_processing now i db))"
proof -
  let ?p = "\<lambda>j. jb_id j = i \<and> jb_status j = Job_Pending" and ?f = "\<lambda>j. j\<lparr>jb_status := Job_Processing, jb_updated := now\<rparr>"
  let ?d = "db\<lparr>sd_jobs := update_where ?p ?f (sd_jobs db)\<rparr>"
  have f: "find_job k ?d = map_option (\<lambda>j. if ?p j then ?f j else j) (find_job k db)" for k
    by (rule find_job_update) simp
  have c: "closed_job k ?d = closed_job k db" "closed_job k db \<Longrightarrow> find_job k ?d = find_job k db" for k
    unfolding closed_job_def f by (auto simp: job_final_def split: option.splits)
  have "closings k ?d = closings k db" "postings k ?d = postings k db" for k by (simp_all add: closings_def postings_def)
  moreover have "job_ids ?d = job_ids db" by (rule job_ids_update) simp
  ultimately have "job_progress db ?d" using c unfolding job_progress_def by presburger
  then show ?thesis by (simp add: mark_ai_job_processing_def Let_def)
qed

lemma exec_step_progress:
  assumes "exec_step x completer free outcome ex db = (ex', db')"
  shows "job_progress db db'"
proof (cases "jx_pc ex")
  case Marking
  with assms mark_processing_progress [of db "ax_now x" "jx_job ex"] show ?thesis
    by (auto split: option.splits prod.splits)
next
  case (Finishing_Job s status result err)
  with assms finish_job_progress show ?thesis by auto
qed (use assms in \<open>auto split: if_splits sum.splits\<close>)

text \<open>A request that answers with an error has changed nothing.\<close>

lemma audited_cases:
  assumes "audited_handler h db = (answer, db')"
  obtains "db' = db" | status body where "h db = ((status, body), False, db')" "status < 400"
  using assms by (auto simp: audited_handler_def split: prod.splits if_splits)

lemma release_cancelled_same: "same_jobs db (release_cancelled x job db)"
  using release_item_same_jobs unfolding release_cancelled_def faulty_def by (auto split: option.splits)

lemma record_audit_trace:
  assumes "record_audit e fresh rq team action ''ai_job'' (Some i) summary details db = (failed, db')"
    "action \<noteq> ''post.automation_create''"
  shows "job_trace i 0 1 db db'"
proof (cases "trim_space team = [] \<or> aq_principal rq = None")
  case True
  with assms(1) show ?thesis by (auto simp: record_audit_def split: if_splits)
next
  case False
  then obtain p where p: "aq_principal rq = Some p" "trim_space team \<noteq> []" by auto
  let ?e = "api_event rq p team action ''ai_job'' (Some i) summary details"
  have k: "\<not> job_posting k ?e" "k \<noteq> i \<Longrightarrow> \<not> job_closing k ?e" for k
    using assms(2) by (auto simp: job_posting_def job_closing_def api_event_def)
  from assms(1) p obtain u where "faulty e ''audit'' (insert_audit_event (en_now e) fresh ?e) db = (u, db')"
    by (auto simp: record_audit_def split: prod.splits sum.splits)
  then show ?thesis
  proof (cases rule: faulty_cases)
    case 1
    then show ?thesis by simp
  next
    case 2
    have "k \<noteq> i \<Longrightarrow> \<not> job_posting k ?e \<and> \<not> job_closing k ?e" for k using k by blast
    from insert_audit_event_trace [OF 2 this]
    have "job_trace i (if job_posting i ?e then 1 else 0) (if job_closing i ?e then 1 else 0) db db'" by blast
    then show ?thesis by (rule job_trace_mono) (simp_all add: k(1))
  qed
qed

lemma cancel_progress:
  assumes "audited_handler (handle_cancel_ai_job x rq team i) db = (answer, db')"
  shows "job_progress db db'"
  using assms
proof (cases rule: audited_cases)
  case 1
  then show ?thesis by simp
next
  case (2 status body)
  from 2(1) obtain job where job: "fst (faulty (ax_env x) ''job'' (reading (get_ai_job_by_id team i)) db) = Inr job"
    using 2(2) by (auto simp: handle_cancel_ai_job_def split: sum.splits)
  have i: "jb_id job = i"
    using job by (auto simp: faulty_def reading_def get_ai_job_by_id_def split: option.splits dest!: find_SomeD)
  obtain u d where c: "faulty (ax_env x) ''claim'' (claim_ai_job_completion (ax_now x) (jb_id job) Job_Failed [] cancelled_message) db = (u, d)"
    by (metis surj_pair)
  from 2 job c obtain won where u: "u = Inr won" by (cases u) (auto simp: handle_cancel_ai_job_def)
  with c i have cl: "claim_ai_job_completion (ax_now x) i Job_Failed [] cancelled_message db = (Inr won, d)"
    by (elim faulty_cases) auto
  show ?thesis
  proof (cases won)
    case True
    obtain failed d2 where ra: "record_audit (ax_env x) (ax_fresh x ''event'') rq team ''ai_job.cancel'' ''ai_job'' (Some i)
                        ''Cancelled AI job'' [(''job_id'', i)] (release_cancelled x job d) = (failed, d2)" by (metis surj_pair)
    with 2 job c u True have "db' = d2"
      by (auto simp: handle_cancel_ai_job_def split: sum.splits)
    have "job_trace i 0 1 (release_cancelled x job d) d2" by (rule record_audit_trace [OF ra]) simp
    with same_jobs_trace [OF release_cancelled_same [of d x job], of i 0 0] have "job_trace i 0 1 d d2"
      using job_trace_trans by force
    then have "job_trace i 1 1 d d2" by (rule job_trace_mono) simp_all
    with cl True \<open>db' = d2\<close> show ?thesis by (auto intro: claim_then_trace)
  next
    case False
    with 2 job c u have "db' = d" by (auto simp: handle_cancel_ai_job_def split: sum.splits if_splits)
    with cl False show ?thesis by (auto intro: claim_lost_progress)
  qed
qed

lemma count_job_events:
  assumes "\<And>e. P e \<Longrightarrow> job_event e" "filter job_event xs = filter job_event ys"
  shows "count_where P xs = count_where P ys"
proof -
  have "filter P zs = filter P (filter job_event zs)" for zs
    using assms(1) by (induction zs) auto
  with assms(2) show ?thesis by (metis count_where_def)
qed

lemma closing_is_job_event: "job_closing i e \<Longrightarrow> job_event e"
  and posting_is_job_event: "job_posting i e \<Longrightarrow> job_event e"
  by (simp_all add: job_event_def job_closing_def job_posting_def)

lemma neutral_progress: "job_neutral db db' \<Longrightarrow> job_progress db db'"
  unfolding job_neutral_def
  by (intro job_progress_same)
     (auto simp: closings_def postings_def
       intro: count_job_events [OF closing_is_job_event] count_job_events [OF posting_is_job_event])

lemma insert_other_event_progress:
  assumes "insert_audit_event now fresh e db = (r, db')" "\<And>k. \<not> job_posting k e" "\<And>k. \<not> job_closing k e"
  shows "job_progress db db'"
proof -
  have k: "\<not> job_posting k (fill_event now fresh e)" "\<not> job_closing k (fill_event now fresh e)" for k
    using assms(2,3) [of k] by (simp_all add: job_posting_def job_closing_def fill_event_def)
  have "db' = db \<or> db' = db\<lparr>sd_audit := sd_audit db @ [fill_event now fresh e]\<rparr>"
    using assms(1) by (auto simp: insert_audit_event_def Let_def split: if_splits)
  then show ?thesis
    by (elim disjE) (auto intro: job_progress_same simp: closings_def postings_def count_where_append count_where_single k)
qed

lemma find_job_append: "find_job k (db\<lparr>sd_jobs := sd_jobs db @ [j]\<rparr>) =
    (case find_job k db of None \<Rightarrow> if jb_id j = k then Some j else None | Some r \<Rightarrow> Some r)"
  by (simp add: find_job_def find_append split: option.split)

lemma submit_progress:
  assumes "submit_job x config ctx inp db = (Inr job, db')"
  shows "job_progress db db'"
proof -
  let ?inp = "inp\<lparr>ji_status := Some Job_Pending\<rparr>"
  from assms obtain d where cr: "create_ai_job (ax_now x) (ax_fresh x ''job'') ?inp db = (Inr job, d)"
    and ins: "faulty (ax_env x) ''submit event'' (insert_audit_event (ax_now x) (ax_fresh x ''submit event'') (submit_event x job)) d = (Inr (), db')"
    by (auto simp: submit_job_def with_audit_transaction_def and_then_def faulty_def
        split: service_config.splits if_splits option.splits prod.splits sum.splits)
  from cr obtain j where d: "d = db\<lparr>sd_jobs := sd_jobs db @ [j]\<rparr>" and new: "find_job (jb_id j) db = None" "job_live j"
    by (auto simp: create_ai_job_def Let_def job_live_def split: if_splits)
  have f: "find_job k d = (case find_job k db of None \<Rightarrow> if jb_id j = k then Some j else None | Some r \<Rightarrow> Some r)" for k
    unfolding d by (rule find_job_append)
  have notin: "jb_id j \<notin> set (job_ids db)"
    using new(1) unfolding find_job_def job_ids_def by (auto simp: find_None_iff)
  have "closed_job k d = closed_job k db" "closed_job k db \<Longrightarrow> find_job k d = find_job k db" for k
    using new(2) unfolding closed_job_def f by (auto simp: job_live_not_final split: option.splits)
  moreover have "closings k d = closings k db" "postings k d = postings k db" for k
    by (simp_all add: d closings_def postings_def)
  moreover have "distinct (job_ids db) \<Longrightarrow> distinct (job_ids d)" using notin by (simp add: d job_ids_def)
  ultimately have "job_progress db d" unfolding job_progress_def by presburger
  moreover have "job_progress d db'"
  proof -
    have k: "\<not> job_posting k (submit_event x job)" "\<not> job_closing k (submit_event x job)" for k
      by (simp_all add: job_posting_def job_closing_def submit_event_def Let_def)
    from ins have "insert_audit_event (ax_now x) (ax_fresh x ''submit event'') (submit_event x job) d = (Inr (), db')"
      by (elim faulty_cases) auto
    then show ?thesis by (rule insert_other_event_progress) (simp_all add: k)
  qed
  ultimately show ?thesis by (rule job_progress_trans)
qed

lemma job_step_progress: "job_step s s' \<Longrightarrow> job_progress (js_db s) (js_db s')"
  by (induction rule: job_step.induct)
     (auto intro: submit_progress exec_step_progress cancel_progress recover_progress neutral_progress)

lemma job_steps_progress: "job_step\<^sup>*\<^sup>* s s' \<Longrightarrow> job_progress (js_db s) (js_db s')"
  by (induction rule: rtranclp_induct) (auto intro: job_progress_trans job_step_progress)

text \<open>What holds of every job in a reachable state.\<close>

definition jobs_settled :: "store_db \<Rightarrow> bool" where
  "jobs_settled db \<longleftrightarrow> distinct (job_ids db) \<and>
     (\<forall>i. closings i db \<le> 1 \<and> postings i db \<le> 1 \<and> (closed_job i db \<or> closings i db = 0 \<and> postings i db = 0))"

lemma jobs_settled_progress:
  assumes "jobs_settled db" "job_progress db db'"
  shows "jobs_settled db'"
proof -
  have d: "distinct (job_ids db)" and i: "\<And>i. closings i db \<le> 1 \<and> postings i db \<le> 1 \<and>
      (closed_job i db \<or> closings i db = 0 \<and> postings i db = 0)"
    using assms(1) unfolding jobs_settled_def by blast+
  from assms(2) d have d': "distinct (job_ids db')" and p: "\<And>i. if closed_job i db
      then find_job i db' = find_job i db \<and> closings i db' = closings i db \<and> postings i db' = postings i db
      else if closed_job i db' then closings i db' \<le> closings i db + 1 \<and> postings i db' \<le> postings i db + 1
      else closings i db' = closings i db \<and> postings i db' = postings i db"
    unfolding job_progress_def by blast+
  have "closings k db' \<le> 1 \<and> postings k db' \<le> 1 \<and> (closed_job k db' \<or> closings k db' = 0 \<and> postings k db' = 0)" for k
    using i [of k] p [of k] closed_job_find [of k db' db] by (auto split: if_splits)
  with d' show ?thesis unfolding jobs_settled_def by blast
qed

lemma jobs_settled_initially: "filter job_event (sd_audit db) = [] \<Longrightarrow> distinct (job_ids db) \<Longrightarrow> jobs_settled db"
  unfolding jobs_settled_def closings_def postings_def
  using count_job_events [OF closing_is_job_event, where xs = "sd_audit db" and ys = "[]"]
    count_job_events [OF posting_is_job_event, where xs = "sd_audit db" and ys = "[]"] by simp

section \<open>Slots\<close>

lemma exec_slot:
  assumes "exec_step x completer free outcome ex db = (Some ex', db')" "holds_slot ex'"
  shows "holds_slot ex \<or> free"
  using assms by (cases "jx_pc ex") (auto simp: holds_slot_def split: if_splits option.splits prod.splits sum.splits)

lemma job_step_slots:
  "job_step s s' \<Longrightarrow> count_where holds_slot (js_execs s) \<le> js_slots s \<Longrightarrow>
     js_slots s' = js_slots s \<and> count_where holds_slot (js_execs s') \<le> js_slots s'"
proof (induction rule: job_step.induct)
  case (j_exec s before ex after x completer outcome ex' db')
  have c: "count_where holds_slot (js_execs s) = count_where holds_slot before + (if holds_slot ex then 1 else 0) + count_where holds_slot after"
    by (simp add: j_exec.hyps(1) count_where_def)
  show ?case
  proof (cases ex')
    case None
    with j_exec c show ?thesis by (simp add: count_where_append)
  next
    case (Some y)
    show ?thesis
    proof (cases "holds_slot y \<and> \<not> holds_slot ex")
      case True
      with exec_slot [OF j_exec.hyps(2) [unfolded Some]] have "slot_free s" by blast
      with True Some c show ?thesis by (simp add: slot_free_def count_where_append count_where_def)
    next
      case False
      with Some c j_exec.prems show ?thesis by (auto simp: count_where_append count_where_def)
    qed
  qed
next
  case (j_abort s i)
  have "filter holds_slot (map (\<lambda>ex. if jx_job ex = i then ex\<lparr>jx_cancelled := True\<rparr> else ex) xs) =
      map (\<lambda>ex. if jx_job ex = i then ex\<lparr>jx_cancelled := True\<rparr> else ex) (filter holds_slot xs)" for xs
    by (induction xs) (auto simp: holds_slot_def)
  with j_abort show ?case by (simp add: count_where_def)
qed (simp_all add: count_where_def holds_slot_def)

lemma job_steps_slots:
  "job_step\<^sup>*\<^sup>* s s' \<Longrightarrow> count_where holds_slot (js_execs s) \<le> js_slots s \<Longrightarrow>
     js_slots s' = js_slots s \<and> count_where holds_slot (js_execs s') \<le> js_slots s'"
  by (induction rule: rtranclp_induct) (auto dest: job_step_slots)

section \<open>Properties\<close>

text \<open>C11: an AI job is settled once. Start from tables without jobs' events; whatever submissions, goroutines,
  cancellations, recovery sweeps, restarts and errors of the database interleave, and whatever the language
  model returns, each job gets at most one closing event (completed, failed, fallback or cancelled) and
  creates at most one post, none of either while it is open; and the row of a closed job never changes again.\<close>
theorem job_settled_once:
  assumes "filter job_event (sd_audit (js_db s0)) = []" "distinct (job_ids (js_db s0))"
    "job_step\<^sup>*\<^sup>* s0 s" "job_step\<^sup>*\<^sup>* s s'"
  shows "closings i (js_db s') \<le> 1 \<and> postings i (js_db s') \<le> 1 \<and>
    (if closed_job i (js_db s') then True else closings i (js_db s') = 0 \<and> postings i (js_db s') = 0) \<and>
    (if closed_job i (js_db s) then find_job i (js_db s') = find_job i (js_db s) \<and>
       closings i (js_db s') = closings i (js_db s) \<and> postings i (js_db s') = postings i (js_db s) else True)"
proof -
  have s: "jobs_settled (js_db s)"
    by (rule jobs_settled_progress [OF jobs_settled_initially job_steps_progress]) (use assms in auto)
  have p: "job_progress (js_db s) (js_db s')" using job_steps_progress [OF assms(4)] .
  from jobs_settled_progress [OF s p] s p show ?thesis
    unfolding jobs_settled_def job_progress_def by (smt (verit, best))
qed

definition job_env :: auto_env where
  "job_env = \<lparr>ax_env = quiet_env, ax_clusters = (\<lambda>s. [s]), ax_registry = Map.empty, ax_decode = (\<lambda>_. None), ax_notice = Some,
     ax_initiator = Some author, ax_publish_team = (\<lambda>_. False), ax_fresh = id\<rparr>"

definition demo_job :: job_input where
  "demo_job = \<lparr>ji_id = [], ji_team = ''t1'', ji_author = ''u1'', ji_type = ''voice_engine'', ji_status = None, ji_origin = [],
     ji_payload = \<lparr>pl_recurring = None, pl_rss = None, pl_targets = [], pl_no_publish = False, pl_can_schedule = False, pl_source = []\<rparr>\<rparr>"

definition demo_request :: audit_request where
  "demo_request = \<lparr>aq_principal = Some author, aq_request = ''r1'', aq_fields = []\<rparr>"

definition queued_store :: store_db where
  "queued_store = snd (submit_job job_env (Config ''key'') None demo_job ann_store)"

definition stopped_store :: store_db where
  "stopped_store = snd (audited_handler (handle_cancel_ai_job job_env demo_request ''t1'' ''job'') queued_store)"

lemmas demo_defs = queued_store_def stopped_store_def submit_job_def job_env_def demo_job_def demo_request_def quiet_env_def
  author_def ann_store_def empty_store_def one_user_db_def empty_identity_db_def with_audit_transaction_def and_then_def
  faulty_def create_ai_job_def find_job_def get_ai_job_by_id_def insert_audit_event_def fill_event_def team_exists_def
  user_exists_def submit_event_def Let_def

lemma demo_submit:
  "\<exists>job. submit_job job_env (Config ''key'') None demo_job ann_store = (Inr job, queued_store) \<and> jb_id job = ''job''"
  by (simp add: demo_defs trim_eval)

lemma demo_cancel:
  "\<exists>answer. audited_handler (handle_cancel_ai_job job_env demo_request ''t1'' ''job'') queued_store = (answer, stopped_store)"
  by (simp add: stopped_store_def) (metis surj_pair snd_conv)

lemma demo_stopped: "closed_job ''job'' stopped_store" "closings ''job'' stopped_store = 1"
  unfolding stopped_store_def queued_store_def
  by (simp_all add: demo_defs trim_eval audited_handler_def handle_cancel_ai_job_def reading_def claim_ai_job_completion_def
      update_where_def count_where_def job_live_def job_final_def record_audit_def release_cancelled_def api_event_def
      closed_job_def closings_def job_closing_def nullable_string_def)

theorem job_settled_once_witness:
  "find_job ''job'' (recover_interrupted job_env True stopped_store) = find_job ''job'' stopped_store \<and>
   closings ''job'' (recover_interrupted job_env True stopped_store) = 1"
proof -
  let ?s = "\<lambda>db xs. \<lparr>js_db = db, js_execs = xs, js_slots = 4\<rparr>"
  let ?x = "\<lparr>jx_job = ''job'', jx_pc = Waiting_Slot, jx_cancelled = False\<rparr>"
  from demo_submit obtain job where "submit_job job_env (Config ''key'') None demo_job (js_db (?s ann_store [])) = (Inr job, queued_store)"
    "jb_id job = ''job''" by auto
  from j_submit [OF this(1)] this(2) have "job_step (?s ann_store []) (?s queued_store [?x])" by simp
  moreover from demo_cancel obtain answer where
    "audited_handler (handle_cancel_ai_job job_env demo_request ''t1'' ''job'') (js_db (?s queued_store [?x])) = (answer, stopped_store)" by auto
  from j_cancel [OF this] have "job_step (?s queued_store [?x]) (?s stopped_store [?x])" by simp
  ultimately have run: "job_step\<^sup>*\<^sup>* (?s ann_store []) (?s stopped_store [?x])" by (meson converse_rtranclp_into_rtranclp rtranclp.rtrancl_refl)
  have rec: "job_step\<^sup>*\<^sup>* (?s stopped_store [?x]) (?s (recover_interrupted job_env True stopped_store) [?x])"
    using j_recover [of "?s stopped_store [?x]" job_env True] by (simp add: r_into_rtranclp)
  have "filter job_event (sd_audit (js_db (?s ann_store []))) = []" "distinct (job_ids (js_db (?s ann_store [])))"
    by (simp_all add: ann_store_def empty_store_def job_ids_def)
  from job_settled_once [OF this run rec, of "''job''"] demo_stopped show ?thesis by simp
qed



section \<open>Recovery\<close>

lemma fail_each_closes:
  assumes "calm_env x" "distinct (job_ids db)" "distinct (map jb_id js)"
    "\<And>j. j \<in> set js \<Longrightarrow> find_job (jb_id j) db = Some j \<and> team_exists (jb_team j) db"
  shows "(\<forall>j \<in> set js. closed_job (jb_id j) (fail_each x True js db)) \<and>
    (\<forall>k. closed_job k db \<longrightarrow> closed_job k (fail_each x True js db))"
  using assms(2-)
proof (induction js arbitrary: db)
  case Nil
  then show ?case by simp
next
  case (Cons j js)
  let ?i = "jb_id j" and ?d = "snd (complete_ai_job x (jb_id j) Job_Failed [] interrupted_message db)"
  have j: "find_job ?i db = Some j" "team_exists (jb_team j) db" using Cons.prems(3) [of j] by simp_all
  have co: "closes_only ?i db ?d"
    by (rule complete_ai_job_closes [OF assms(1) j Cons.prems(1)]) (simp add: job_final_def)
  have keep: "closed_job k ?d" if "closed_job k db" for k
    using that co closed_job_find [of k ?d db] by (cases "k = ?i") (simp_all add: closes_only_def)
  have "(\<forall>j \<in> set js. closed_job (jb_id j) (fail_each x True js ?d)) \<and>
    (\<forall>k. closed_job k ?d \<longrightarrow> closed_job k (fail_each x True js ?d))"
  proof (rule Cons.IH)
    show "distinct (job_ids ?d)" using co Cons.prems(1) by (simp add: closes_only_def)
    show "distinct (map jb_id js)" using Cons.prems(2) by simp
    show "find_job (jb_id j') ?d = Some j' \<and> team_exists (jb_team j') ?d" if "j' \<in> set js" for j'
    proof -
      from that Cons.prems(2) have "jb_id j' \<noteq> ?i" by (auto simp: image_iff)
      with co Cons.prems(3) [of j'] that show ?thesis by (simp add: closes_only_def team_exists_def)
    qed
  qed
  then show ?case using co keep by (auto simp: closes_only_def)
qed

lemma unfinished_distinct:
  "distinct (job_ids db) \<Longrightarrow> distinct (map jb_id (list_unfinished_ai_jobs older limit db))"
  unfolding list_unfinished_ai_jobs_def job_ids_def take_map [symmetric]
  by (rule distinct_take) (simp add: distinct_map inj_on_def)

lemma unfinished_find:
  assumes "distinct (job_ids db)" "j \<in> set (list_unfinished_ai_jobs older limit db)"
  shows "find_job (jb_id j) db = Some j"
proof -
  from assms(2) have "j \<in> set (sd_jobs db)"
    by (auto simp: list_unfinished_ai_jobs_def dest!: in_set_takeD)
  with assms(1) show ?thesis
    unfolding find_job_def job_ids_def by (rule find_unique) simp_all
qed

text \<open>C12: recovery settles what a restart interrupted. Without errors of the database, and as long as the team of
  each job exists, every one of the jobs that the sweep selects, those pending or processing for longer than
  twelve minutes, is closed after the sweep, whatever the job's payload says and whatever became of its source.\<close>
theorem recovery_settles:
  assumes "en_fail (ax_env x) = Map.empty" "distinct (job_ids db)"
    "\<forall>j \<in> set (sd_jobs db). team_exists (jb_team j) db"
    "j \<in> set (list_unfinished_ai_jobs (ax_now x - stale_after) 1000 db)"
  shows "closed_job (jb_id j) (recover_interrupted x True db)"
proof -
  let ?js = "list_unfinished_ai_jobs (ax_now x - stale_after) 1000 db"
  have c: "calm_env x" using assms(1) by (simp add: calm_env_def)
  have team: "team_exists (jb_team j) db" if "j \<in> set ?js" for j
    using that assms(3) by (auto simp: list_unfinished_ai_jobs_def dest!: in_set_takeD)
  have "\<forall>j \<in> set ?js. closed_job (jb_id j) (fail_each x True ?js db)"
    using fail_each_closes [OF c assms(2) unfinished_distinct [OF assms(2)]] unfinished_find [OF assms(2)] team by blast
  with assms(1,4) show ?thesis by (simp add: recover_interrupted_def)
qed

definition later_env :: auto_env where
  "later_env = job_env\<lparr>ax_env := quiet_env\<lparr>en_now := 13 * 60 * nanos\<rparr>\<rparr>"

theorem recovery_settles_witness: "closed_job ''job'' (recover_interrupted later_env True queued_store)"
proof -
  obtain j where j: "sd_jobs queued_store = [j]" "jb_id j = ''job''" "jb_team j = ''t1''" "jb_updated j = 0" "job_live j"
    and id: "sd_identity queued_store = sd_identity ann_store"
    by (simp add: queued_store_def demo_defs trim_eval job_live_def)
  have "en_fail (ax_env later_env) = Map.empty" "distinct (job_ids queued_store)"
    by (simp_all add: later_env_def quiet_env_def job_ids_def j)
  moreover have "\<forall>j \<in> set (sd_jobs queued_store). team_exists (jb_team j) queued_store"
    using j id by (simp add: team_exists_def ann_store_def)
  moreover have "j \<in> set (list_unfinished_ai_jobs (ax_now later_env - stale_after) 1000 queued_store)"
    using j by (simp add: list_unfinished_ai_jobs_def later_env_def quiet_env_def stale_after_def nanos_def)
  ultimately have "closed_job (jb_id j) (recover_interrupted later_env True queued_store)" by (rule recovery_settles)
  with j show ?thesis by simp
qed

end
