(* ===== verification/Templates.thy ===== *)
theory Templates
  imports Job_Manager Recurrence
begin

text \<open>
  Recurring templates in the store (\<open>internal/store/sqlite/post_templates.go\<close>): their rows, the skips and
  shifts of single occurrences, the posts linked to them, and the question whether a round of a template
  (an occurrence and a role) is materialized, as a post or as a job under way.
\<close>

section \<open>Environment\<close>

text \<open>What an operation on templates sees: the errors, clock, ids and initiator of \<open>auto_env\<close>, the decoder of
  recurrence rules, the time zones, whether a job manager is wired, the team's service configuration and
  whether the prompt context can be built.\<close>

record mat_env =
  me_auto :: auto_env
  me_rule :: "string \<Rightarrow> recurrence_rule option"
  me_zones :: "string \<Rightarrow> location option"
  me_manager :: bool
  me_config :: service_config
  me_context :: "string option"

text \<open>A read under the errors of the database.\<close>

definition look :: "auto_env \<Rightarrow> string \<Rightarrow> (store_db \<Rightarrow> store_error + 'a) \<Rightarrow> store_db \<Rightarrow> store_error + 'a" where
  "look x call f db = fst (faulty (ax_env x) call (reading f) db)"

text \<open>\<open>ParseRecurrenceJSON\<close> followed by \<open>NextOccurrence\<close>.\<close>

definition next_slot :: "mat_env \<Rightarrow> string \<Rightarrow> instant \<Rightarrow> instant option" where
  "next_slot m raw after =
     (case parse_recurrence_json (me_rule m) (me_zones m) raw of
        Inl _ \<Rightarrow> None
      | Inr r \<Rightarrow> (case next_occurrence (me_zones m) (Some r) after of Inl _ \<Rightarrow> None | Inr t \<Rightarrow> Some t))"

section \<open>Templates\<close>

definition scan_post_template :: "template_row \<Rightarrow> template_row" where
  "scan_post_template t = t\<lparr>tp_output_mode := normalize_automation_output_mode (tp_output_mode t)\<rparr>"

definition list_enabled_post_templates :: "nat \<Rightarrow> store_db \<Rightarrow> template_row list" where
  "list_enabled_post_templates limit db =
     map scan_post_template (take (if limit = 0 then 50 else limit)
       (sort_key (\<lambda>t. the (tp_next t)) (filter (\<lambda>t. tp_enabled t \<and> tp_next t \<noteq> None) (sd_templates db))))"

definition list_post_templates :: "string \<Rightarrow> store_db \<Rightarrow> template_row list" where
  "list_post_templates team db =
     map scan_post_template (sort_key (\<lambda>t. - tp_created t) (filter (\<lambda>t. tp_team t = team) (sd_templates db)))"

text \<open>An optional field of the inputs is \<open>None\<close> when it is absent.\<close>

record template_input =
  ti_title :: string
  ti_content :: string
  ti_recurrence :: string
  ti_visibility :: string
  ti_media_ids :: "string list"
  ti_media_exclude :: "(string \<times> string list) list"
  ti_targets :: "string list"
  ti_enabled :: "bool option"
  ti_ai_enhance :: "bool option"
  ti_ai_enhance_ann :: "bool option"
  ti_output_mode :: string
  ti_prompt_hint :: string
  ti_title_hint :: string
  ti_tonality :: string
  ti_horizon_days :: "int option"
  ti_ann_enabled :: "bool option"
  ti_ann_title :: string
  ti_ann_content :: string
  ti_ann_days_before :: "int option"
  ti_ann_counter :: "int option"
  ti_ann_targets :: "string list"
  ti_counter :: "int option"

definition clamp_horizon :: "int \<Rightarrow> int" where
  "clamp_horizon n = (if n < 0 then 0 else if n > 366 then 366 else n)"

definition counter_or :: "int \<Rightarrow> int option \<Rightarrow> int" where
  "counter_or old c = (case c of None \<Rightarrow> old | Some n \<Rightarrow> if n \<ge> 1 then n else old)"

definition new_template :: "instant \<Rightarrow> string \<Rightarrow> string \<Rightarrow> principal \<Rightarrow> template_input \<Rightarrow> instant \<Rightarrow> template_row" where
  "new_template now fresh team pr inp next_at =
     \<lparr>tp_id = fresh, tp_team = team, tp_author = u_id (p_user pr), tp_title = trim_space (ti_title inp),
      tp_content = trim_space (ti_content inp), tp_recurrence = trim_space (ti_recurrence inp),
      tp_visibility = normalize_post_visibility (ti_visibility inp),
      tp_media_ids = normalize_media_ids (ti_media_ids inp), tp_media_exclude = ti_media_exclude inp,
      tp_targets = normalize_media_ids (ti_targets inp), tp_enabled = (ti_enabled inp \<noteq> Some False),
      tp_ai_enhance = (ti_ai_enhance inp = Some True), tp_ai_enhance_ann = (ti_ai_enhance_ann inp = Some True),
      tp_output_mode = normalize_automation_output_mode (if ti_output_mode inp = [] then ''scheduled'' else ti_output_mode inp),
      tp_prompt_hint = trim_space (ti_prompt_hint inp), tp_title_hint = trim_space (ti_title_hint inp),
      tp_tonality = trim_space (ti_tonality inp),
      tp_horizon_days = (case ti_horizon_days inp of None \<Rightarrow> 0 | Some n \<Rightarrow> clamp_horizon n),
      tp_next = Some next_at, tp_counter = counter_or 1 (ti_counter inp),
      tp_ann_enabled = (ti_ann_enabled inp = Some True), tp_ann_title = trim_space (ti_ann_title inp),
      tp_ann_content = trim_space (ti_ann_content inp),
      tp_ann_days_before = (case ti_ann_days_before inp of None \<Rightarrow> 0 | Some n \<Rightarrow> n),
      tp_ann_counter = counter_or 1 (ti_ann_counter inp), tp_ann_targets = normalize_media_ids (ti_ann_targets inp),
      tp_created = now, tp_updated = now\<rparr>"

definition create_post_template ::
  "mat_env \<Rightarrow> string \<Rightarrow> string \<Rightarrow> principal \<Rightarrow> template_input \<Rightarrow> template_row store_op" where
  "create_post_template m fresh team pr inp db =
     (let now = ax_now (me_auto m) in
      case next_slot m (trim_space (ti_recurrence inp)) now of
        None \<Rightarrow> (Inl (Refused ''recurrence''), db)
      | Some next_at \<Rightarrow>
          if fresh \<in> tp_id ` set (sd_templates db) \<or> \<not> team_exists team db \<or> \<not> user_exists (u_id (p_user pr)) db
          then (Inl Constraint, db)
          else (let db' = db\<lparr>sd_templates := sd_templates db @ [new_template now fresh team pr inp next_at]\<rparr>
                in (get_post_template team fresh db', db')))"

record template_patch =
  tu_title :: "string option"
  tu_content :: "string option"
  tu_recurrence :: "string option"
  tu_visibility :: "string option"
  tu_media_ids :: "string list option"
  tu_media_exclude :: "(string \<times> string list) list option"
  tu_targets :: "string list option"
  tu_enabled :: "bool option"
  tu_ai_enhance :: "bool option"
  tu_ai_enhance_ann :: "bool option"
  tu_output_mode :: "string option"
  tu_prompt_hint :: "string option"
  tu_title_hint :: "string option"
  tu_tonality :: "string option"
  tu_horizon_days :: "int option"
  tu_ann_enabled :: "bool option"
  tu_ann_title :: "string option"
  tu_ann_content :: "string option"
  tu_ann_days_before :: "int option"
  tu_ann_counter :: "int option"
  tu_ann_targets :: "string list option"
  tu_counter :: "int option"

definition given :: "'a \<Rightarrow> 'a option \<Rightarrow> 'a" where
  "given old v = (case v of None \<Rightarrow> old | Some x \<Rightarrow> x)"

text \<open>The cursor after an update: none when the template is disabled, searched again when the rule changes or the
  template is enabled, kept otherwise. \<open>Inl\<close> is a rule that does not parse or has no occurrence.\<close>

definition next_after_update :: "mat_env \<Rightarrow> template_row \<Rightarrow> template_patch \<Rightarrow> store_error + instant option" where
  "next_after_update m t p =
     (let raw = (case tu_recurrence p of None \<Rightarrow> tp_recurrence t | Some r \<Rightarrow> trim_space r);
          enabled = given (tp_enabled t) (tu_enabled p) in
      if \<not> enabled then Inr None
      else (case parse_recurrence_json (me_rule m) (me_zones m) raw of
              Inl _ \<Rightarrow> Inl (Refused ''recurrence'')
            | Inr r \<Rightarrow>
                if tu_recurrence p \<noteq> None \<or> (tu_enabled p = Some True \<and> \<not> tp_enabled t)
                then (case next_occurrence (me_zones m) (Some r) (ax_now (me_auto m)) of
                        Inl _ \<Rightarrow> Inl (Refused ''recurrence'') | Inr nx \<Rightarrow> Inr (Some nx))
                else Inr (tp_next t)))"

definition patched_template :: "instant \<Rightarrow> template_row \<Rightarrow> template_patch \<Rightarrow> instant option \<Rightarrow> template_row" where
  "patched_template now t p next_at = t\<lparr>
     tp_title := given (tp_title t) (map_option trim_space (tu_title p)),
     tp_content := given (tp_content t) (map_option trim_space (tu_content p)),
     tp_recurrence := given (tp_recurrence t) (map_option trim_space (tu_recurrence p)),
     tp_visibility := given (tp_visibility t) (map_option normalize_post_visibility (tu_visibility p)),
     tp_media_ids := normalize_media_ids (given (tp_media_ids t) (tu_media_ids p)),
     tp_media_exclude := given (tp_media_exclude t) (tu_media_exclude p),
     tp_targets := normalize_media_ids (given (tp_targets t) (tu_targets p)),
     tp_enabled := given (tp_enabled t) (tu_enabled p),
     tp_ai_enhance := given (tp_ai_enhance t) (tu_ai_enhance p),
     tp_ai_enhance_ann := given (tp_ai_enhance_ann t) (tu_ai_enhance_ann p),
     tp_output_mode := given (tp_output_mode t) (map_option normalize_automation_output_mode (tu_output_mode p)),
     tp_prompt_hint := given (tp_prompt_hint t) (map_option trim_space (tu_prompt_hint p)),
     tp_title_hint := given (tp_title_hint t) (map_option trim_space (tu_title_hint p)),
     tp_tonality := given (tp_tonality t) (map_option trim_space (tu_tonality p)),
     tp_horizon_days := given (tp_horizon_days t) (map_option clamp_horizon (tu_horizon_days p)),
     tp_next := next_at,
     tp_counter := counter_or (tp_counter t) (tu_counter p),
     tp_ann_enabled := given (tp_ann_enabled t) (tu_ann_enabled p),
     tp_ann_title := given (tp_ann_title t) (map_option trim_space (tu_ann_title p)),
     tp_ann_content := given (tp_ann_content t) (map_option trim_space (tu_ann_content p)),
     tp_ann_days_before := given (tp_ann_days_before t) (tu_ann_days_before p),
     tp_ann_counter := counter_or (tp_ann_counter t) (tu_ann_counter p),
     tp_ann_targets := normalize_media_ids (given (tp_ann_targets t) (tu_ann_targets p)),
     tp_updated := now\<rparr>"

definition update_post_template :: "mat_env \<Rightarrow> string \<Rightarrow> string \<Rightarrow> template_patch \<Rightarrow> template_row store_op" where
  "update_post_template m team i p db =
     (case get_post_template team i db of
        Inl e \<Rightarrow> (Inl e, db)
      | Inr t \<Rightarrow>
          (case next_after_update m t p of
             Inl e \<Rightarrow> (Inl e, db)
           | Inr next_at \<Rightarrow>
               (let db' = db\<lparr>sd_templates := update_where (\<lambda>r. tp_team r = team \<and> tp_id r = i)
                      (\<lambda>_. patched_template (ax_now (me_auto m)) t p next_at) (sd_templates db)\<rparr>
                in (get_post_template team i db', db'))))"

text \<open>Posts keep the id of a deleted template; the skips go with it.\<close>

definition delete_post_template :: "string \<Rightarrow> string \<Rightarrow> unit store_op" where
  "delete_post_template team i db =
     (let p = (\<lambda>t. tp_team t = team \<and> tp_id t = i) in
      if count_where p (sd_templates db) = 0 then (Inl (Refused ''template not found''), db)
      else (Inr (), db\<lparr>sd_templates := delete_where p (sd_templates db),
                      sd_skips := delete_where (\<lambda>s. sk_template s = i) (sd_skips db)\<rparr>))"

definition on_template :: "string \<Rightarrow> (template_row \<Rightarrow> template_row) \<Rightarrow> store_db \<Rightarrow> store_db" where
  "on_template i f db = db\<lparr>sd_templates := update_where (\<lambda>t. tp_id t = i) f (sd_templates db)\<rparr>"

definition advance_post_template_schedule :: "instant \<Rightarrow> string \<Rightarrow> instant option \<Rightarrow> int \<Rightarrow> store_db \<Rightarrow> store_db" where
  "advance_post_template_schedule now i next_at counter =
     on_template i (\<lambda>t. t\<lparr>tp_next := next_at, tp_counter := counter, tp_updated := now\<rparr>)"

definition advance_post_template_announcement_counter :: "instant \<Rightarrow> string \<Rightarrow> int \<Rightarrow> store_db \<Rightarrow> store_db" where
  "advance_post_template_announcement_counter now i counter =
     on_template i (\<lambda>t. t\<lparr>tp_ann_counter := counter, tp_updated := now\<rparr>)"

definition set_post_template_materialization_state :: "instant \<Rightarrow> string \<Rightarrow> instant option \<Rightarrow> int \<Rightarrow> int \<Rightarrow> store_db \<Rightarrow> store_db" where
  "set_post_template_materialization_state now i next_at counter ann =
     on_template i (\<lambda>t. t\<lparr>tp_next := next_at, tp_counter := counter, tp_ann_counter := ann, tp_updated := now\<rparr>)"

section \<open>Skips and shifts\<close>

definition find_skip :: "string \<Rightarrow> instant \<Rightarrow> store_db \<Rightarrow> skip_row option" where
  "find_skip t at db = find (\<lambda>s. sk_template s = t \<and> sk_at s = at) (sd_skips db)"

definition is_post_template_occurrence_skipped :: "string \<Rightarrow> instant \<Rightarrow> store_db \<Rightarrow> bool" where
  "is_post_template_occurrence_skipped t at db =
     list_ex (\<lambda>s. sk_template s = t \<and> sk_at s = at \<and> sk_scope s = Skip_Occurrence) (sd_skips db)"

definition is_post_template_announcement_skipped :: "string \<Rightarrow> instant \<Rightarrow> store_db \<Rightarrow> bool" where
  "is_post_template_announcement_skipped t at db =
     list_ex (\<lambda>s. sk_template s = t \<and> sk_at s = at \<and> (sk_scope s = Skip_Announcement \<or> sk_scope s = Skip_Occurrence)) (sd_skips db)"

definition template_of_team :: "string \<Rightarrow> string \<Rightarrow> store_db \<Rightarrow> bool" where
  "template_of_team team t db \<longleftrightarrow> list_ex (\<lambda>r. tp_team r = team \<and> tp_id r = t) (sd_templates db)"

text \<open>\<open>on conflict do update set skip_scope\<close>: a shift recorded before stays.\<close>

definition upsert_skip :: "skip_scope \<Rightarrow> string \<Rightarrow> instant \<Rightarrow> store_db \<Rightarrow> store_db" where
  "upsert_skip scope t at db =
     (if find_skip t at db = None
      then db\<lparr>sd_skips := sd_skips db @ [\<lparr>sk_template = t, sk_at = at, sk_shift = None, sk_scope = scope\<rparr>]\<rparr>
      else db\<lparr>sd_skips := update_where (\<lambda>s. sk_template s = t \<and> sk_at s = at) (\<lambda>s. s\<lparr>sk_scope := scope\<rparr>) (sd_skips db)\<rparr>)"

definition add_post_template_skip :: "string \<Rightarrow> string \<Rightarrow> instant \<Rightarrow> unit store_op" where
  "add_post_template_skip team t at db =
     (if template_of_team team t db then (Inr (), upsert_skip Skip_Occurrence t at db)
      else (Inl (Refused ''template not found''), db))"

definition add_post_template_announcement_skip :: "string \<Rightarrow> string \<Rightarrow> instant \<Rightarrow> unit store_op" where
  "add_post_template_announcement_skip team t at db =
     (if template_of_team team t db then (Inr (), upsert_skip Skip_Announcement t at db)
      else (Inl (Refused ''template not found''), db))"

text \<open>A plain insert: the primary key refuses a second row for the occurrence. The scope is the column's default.\<close>

definition shift_post_template_occurrence :: "string \<Rightarrow> string \<Rightarrow> instant \<Rightarrow> instant \<Rightarrow> unit store_op" where
  "shift_post_template_occurrence team t at shift_to db =
     (if \<not> template_of_team team t db then (Inl (Refused ''template not found''), db)
      else if find_skip t at db \<noteq> None then (Inl Constraint, db)
      else (Inr (), db\<lparr>sd_skips := sd_skips db @
              [\<lparr>sk_template = t, sk_at = at, sk_shift = Some shift_to, sk_scope = Skip_Occurrence\<rparr>]\<rparr>))"

definition get_post_template_shift_to :: "string \<Rightarrow> instant \<Rightarrow> store_db \<Rightarrow> instant option" where
  "get_post_template_shift_to t at db = (case find_skip t at db of None \<Rightarrow> None | Some s \<Rightarrow> sk_shift s)"

section \<open>Rounds\<close>

text \<open>A round is an occurrence of a template and a role. It is materialized when a post that is not cancelled
  carries it, or a job that is not closed will create that post. Jobs name the occurrence in whole seconds.\<close>

definition round_post :: "string \<Rightarrow> instant \<Rightarrow> string \<Rightarrow> post_row \<Rightarrow> bool" where
  "round_post t at role r \<longleftrightarrow> sp_post_template_id (rw_post r) = Some t \<and> sp_template_occurrence_at (rw_post r) = Some at \<and>
     sp_template_post_role (rw_post r) = role \<and> rw_status r \<noteq> Cancelled"

definition round_job :: "string option \<Rightarrow> string \<Rightarrow> instant \<Rightarrow> string \<Rightarrow> job_row \<Rightarrow> bool" where
  "round_job team t at role j \<longleftrightarrow> jb_origin j = ''automation'' \<and> job_live j \<and> Some (jb_team j) = team \<and>
     (case pl_recurring (jb_payload j) of
        None \<Rightarrow> False
      | Some r \<Rightarrow> rc_template r = t \<and> rc_occurrence r = Some (at div nanos) \<and>
          (if rc_kind r = [] then ''main'' else rc_kind r) = role)"

definition team_of_template :: "string \<Rightarrow> store_db \<Rightarrow> string option" where
  "team_of_template t db = map_option tp_team (find (\<lambda>r. tp_id r = t) (sd_templates db))"

definition round_count :: "string \<Rightarrow> instant \<Rightarrow> string \<Rightarrow> store_db \<Rightarrow> nat" where
  "round_count t at role db =
     count_where (round_post t at role) (sd_posts db) +
     count_where (round_job (team_of_template t db) t at role) (sd_jobs db)"

definition has_post_template_role_materialized :: "string \<Rightarrow> instant \<Rightarrow> string \<Rightarrow> store_db \<Rightarrow> store_error + bool" where
  "has_post_template_role_materialized t at role db =
     (let role' = trim_space role in
      if role' = [] then Inl (Refused ''role is required'') else Inr (0 < round_count t at role' db))"

record linked_post =
  lp_id :: string
  lp_status :: post_status
  lp_at :: instant
  lp_role :: string
  lp_counter :: "int option"

definition list_post_template_linked_posts :: "string \<Rightarrow> string \<Rightarrow> store_db \<Rightarrow> linked_post list" where
  "list_post_template_linked_posts team t db =
     sort_key lp_at (sort_key lp_role (map (\<lambda>r.
         \<lparr>lp_id = rw_id r, lp_status = rw_status r, lp_at = the (sp_template_occurrence_at (rw_post r)),
          lp_role = sp_template_post_role (rw_post r), lp_counter = sp_template_counter (rw_post r)\<rparr>)
       (filter (\<lambda>r. rw_team r = team \<and> sp_post_template_id (rw_post r) = Some t \<and>
            sp_template_occurrence_at (rw_post r) \<noteq> None \<and> rw_status r \<noteq> Cancelled) (sd_posts db))))"

fun delete_post_template_linked_posts :: "string \<Rightarrow> string \<Rightarrow> string list \<Rightarrow> store_db \<Rightarrow> nat \<times> store_db" where
  "delete_post_template_linked_posts team t [] db = (0, db)"
| "delete_post_template_linked_posts team t (i # is) db =
     (let p = (\<lambda>r. rw_team r = team \<and> sp_post_template_id (rw_post r) = Some t \<and> rw_id r = i) in
      case delete_post_template_linked_posts team t is (delete_post_rows p db) of
        (n, db') \<Rightarrow> (count_where p (sd_posts db) + n, db'))"

end
