(* ===== verification/Template_Scheduler.thy ===== *)
theory Template_Scheduler
  imports Templates
begin

text \<open>
  The scheduler's work on templates: materializing rounds along a template's cursor
  (\<open>scheduler/template_materialize.go\<close>, \<open>materializeAnnouncement\<close> and \<open>createScheduledPostFromTemplate\<close> of
  \<open>scheduler.go\<close>, \<open>recurring_ai.go\<close>, \<open>createAutomationPost\<close> of \<open>audit.go\<close>), regenerating rounds
  (\<open>template_regenerate.go\<close>) and skipping or shifting one (\<open>template_skip.go\<close>).
\<close>

section \<open>Creating the post of a round\<close>

text \<open>The calls made for one round have errors and ids of their own.\<close>

definition for_round :: "string \<Rightarrow> instant \<Rightarrow> auto_env \<Rightarrow> auto_env" where
  "for_round role at x =
     (let tag = (\<lambda>n. n @ '' '' @ role @ '' '' @ rfc3339_nano at) in
      x\<lparr>ax_env := (ax_env x)\<lparr>en_fail := (\<lambda>n. en_fail (ax_env x) (tag n))\<rparr>, ax_fresh := (\<lambda>n. ax_fresh x (tag n))\<rparr>)"

definition initiator_meta :: "auto_env \<Rightarrow> (string \<times> string) list" where
  "initiator_meta x =
     (case ax_initiator x of
        None \<Rightarrow> []
      | Some p \<Rightarrow> (''initiator_user_id'', u_id (p_user p)) #
          (case p_token_id p of None \<Rightarrow> [] | Some t \<Rightarrow> if p_kind p = ''token'' then [(''initiator_token_id'', t)] else []))"

text \<open>The source is locked and the round looked up before the insert, when the post belongs to one. \<open>None\<close> is the
  empty post returned when the round exists.\<close>

definition round_taken :: "auto_env \<Rightarrow> create_post_input \<Rightarrow> store_db \<Rightarrow> store_error + bool" where
  "round_taken x inp db =
     (case (in_post_template_id inp, in_template_occurrence_at inp) of
        (Some t, Some at) \<Rightarrow>
          (case look x ''source'' (lock_automation_source ''post_template'' t) db of
             Inl e \<Rightarrow> Inl e
           | Inr _ \<Rightarrow> look x ''round'' (has_post_template_role_materialized t at (in_template_post_role inp)) db)
      | _ \<Rightarrow> Inr False)"

definition create_automation_post ::
  "auto_env \<Rightarrow> string \<Rightarrow> principal \<Rightarrow> create_post_input \<Rightarrow> (string \<times> string) list \<Rightarrow> (scheduled_post \<Rightarrow> unit store_op) \<Rightarrow>
   scheduled_post option store_op" where
  "create_automation_post x team pr inp meta after =
     with_audit_transaction (\<lambda>db.
       case round_taken x inp db of
         Inl e \<Rightarrow> (Inl e, db)
       | Inr True \<Rightarrow> (Inr None, db)
       | Inr False \<Rightarrow>
           and_then (faulty (ax_env x) ''create post'' (create_scheduled_post (ax_now x) (ax_fresh x ''post'') team pr inp)) (\<lambda>post.
           and_then (after post) (\<lambda>_.
           and_then (faulty (ax_env x) ''create event'' (insert_audit_event (ax_now x) (ax_fresh x ''create event'')
               (automation_event (ax_fresh x ''create event'') team ''post.automation_create'' ''post'' (sp_id post)
                  ([(''post_id'', sp_id post)] @
                   (case in_author_user_id inp of None \<Rightarrow> [] | Some a \<Rightarrow> [(''author_user_id'', a)]) @
                   initiator_meta x @ meta)))) (\<lambda>_ db. (Inr (Some post), db)))) db)"

definition no_follow_up :: "scheduled_post \<Rightarrow> unit store_op" where
  "no_follow_up _ db = (Inr (), db)"

definition rss_output_schedule :: "instant \<Rightarrow> string \<Rightarrow> instant \<Rightarrow> instant \<times> bool" where
  "rss_output_schedule now mode published =
     (if mode = ''draft'' then ((if now < published then published else now), True)
      else if mode = ''scheduled'' then ((if now < published then published else now), False)
      else (now, False))"

definition expand_post_template_title ::
  "string \<Rightarrow> instant \<Rightarrow> int \<Rightarrow> instant option \<Rightarrow> int option \<Rightarrow> string" where
  "expand_post_template_title title at counter main main_counter =
     trim_space (expand_dynamic_variables title at (Some counter) main main_counter)"

section \<open>Enhancement by a language model\<close>

definition ai_team :: "mat_env \<Rightarrow> template_row \<Rightarrow> store_db \<Rightarrow> bool" where
  "ai_team m t db =
     (case look (me_auto m) ''team'' (\<lambda>db. get_team_by_id (tp_team t) (sd_identity db)) db of
        Inl _ \<Rightarrow> False | Inr team \<Rightarrow> tm_ai_enabled team)"

definition should_enhance_recurring :: "mat_env \<Rightarrow> template_row \<Rightarrow> store_db \<Rightarrow> bool" where
  "should_enhance_recurring m t db \<longleftrightarrow> tp_ai_enhance t \<and> me_manager m \<and> ai_team m t db"

definition should_enhance_announcement :: "mat_env \<Rightarrow> template_row \<Rightarrow> store_db \<Rightarrow> bool" where
  "should_enhance_announcement m t db \<longleftrightarrow> tp_ann_enabled t \<and> tp_ai_enhance t \<and> tp_ai_enhance_ann t \<and> me_manager m \<and>
     trim_space (tp_ann_content t) \<noteq> [] \<and> ai_team m t db"

text \<open>Of the parameters of the job those are kept that the completion reads.\<close>

definition recurring_job ::
  "template_row \<Rightarrow> string \<Rightarrow> string \<Rightarrow> string \<Rightarrow> instant \<Rightarrow> bool \<Rightarrow> string list \<Rightarrow> int \<Rightarrow> instant \<Rightarrow> job_input" where
  "recurring_job t kind content title at draft targets counter occ =
     \<lparr>ji_id = [], ji_team = tp_team t, ji_author = tp_author t, ji_type = ''voice_engine'', ji_status = None,
      ji_origin = ''automation'',
      ji_payload = \<lparr>
        pl_recurring = Some \<lparr>rc_template = tp_id t, rc_kind = kind,
          rc_output_mode = normalize_automation_output_mode (tp_output_mode t), rc_scheduled = Some (at div nanos),
          rc_occurrence = Some (occ div nanos), rc_draft = draft, rc_title = title, rc_fallback = content,
          rc_counter = counter, rc_visibility = Some (tp_visibility t), rc_media_ids = tp_media_ids t,
          rc_media_exclude = tp_media_exclude t\<rparr>,
        pl_rss = None, pl_targets = targets, pl_no_publish = False, pl_can_schedule = False, pl_source = content\<rparr>\<rparr>"

definition submit_recurring_ai_job :: "mat_env \<Rightarrow> auto_env \<Rightarrow> job_input \<Rightarrow> unit store_op" where
  "submit_recurring_ai_job m x inp db =
     (case submit_job x (me_config m) (me_context m) inp db of
        (Inl e, db') \<Rightarrow> (Inl e, db')
      | (Inr job, db') \<Rightarrow>
          if jb_status job = Job_Failed then (Inl (Refused ''recurring ai job dispatch failed''), db') else (Inr (), db'))"

section \<open>Rounds\<close>

definition announcement_targets :: "template_row \<Rightarrow> string list" where
  "announcement_targets t = (if tp_ann_targets t = [] then tp_targets t else tp_ann_targets t)"

definition days_before_event :: "template_row \<Rightarrow> int" where
  "days_before_event t = (if tp_ann_days_before t \<le> 0 then 2 else tp_ann_days_before t)"

definition announce_time :: "template_row \<Rightarrow> instant \<Rightarrow> instant" where
  "announce_time t main = main + wrap64 (- (days_before_event t) * 24 * 3600 * nanos)"

definition at_least_one :: "int \<Rightarrow> int" where
  "at_least_one n = (if n < 1 then 1 else n)"

definition round_input ::
  "template_row \<Rightarrow> string \<Rightarrow> string \<Rightarrow> instant \<Rightarrow> string list \<Rightarrow> bool \<Rightarrow> int \<Rightarrow> instant \<Rightarrow> string \<Rightarrow> bool \<Rightarrow> create_post_input" where
  "round_input t title content at targets draft counter occ role fallback =
     ensure_title (empty_input\<lparr>
       in_title := title, in_content := content, in_scheduled_at := at, in_target_accounts := targets,
       in_visibility := tp_visibility t, in_media_ids := tp_media_ids t, in_media_exclude := tp_media_exclude t,
       in_draft := draft, in_author_user_id := Some (tp_author t), in_post_template_id := Some (tp_id t),
       in_template_counter := Some counter, in_template_occurrence_at := Some occ, in_template_post_role := role,
       in_source := source_automation, in_ai_fallback_reason := (if fallback then Some ''dispatch_failed'' else None)\<rparr>)"

definition round_meta :: "template_row \<Rightarrow> instant \<Rightarrow> string \<Rightarrow> bool \<Rightarrow> (string \<times> string) list" where
  "round_meta t occ role fallback =
     [(''template_id'', tp_id t), (''occurrence_at'', rfc3339_nano occ), (''post_kind'', role)] @
     (if fallback then [(''outcome'', ''fallback''), (''error_code'', ''ai_submission_failed'')] else [])"

text \<open>The job when the template asks for one and it can be submitted, the template's own text otherwise. What a
  failed submission wrote is undone, as it is a transaction of its own.\<close>

definition job_or_post ::
  "mat_env \<Rightarrow> auto_env \<Rightarrow> template_row \<Rightarrow> bool \<Rightarrow> job_input \<Rightarrow> (bool \<Rightarrow> create_post_input) \<Rightarrow> instant \<Rightarrow> string \<Rightarrow> unit store_op" where
  "job_or_post m x t enhance job inp occ role db =
     (case (if enhance then submit_recurring_ai_job m x job db else (Inl (Refused []), db)) of
        (Inr _, db') \<Rightarrow> (Inr (), db')
      | (Inl _, db') \<Rightarrow>
          (case create_automation_post x (tp_team t) (system_principal (tp_author t)) (inp enhance) (round_meta t occ role enhance)
                  no_follow_up db' of
             (Inl e, d) \<Rightarrow> (Inl e, d) | (Inr _, d) \<Rightarrow> (Inr (), d)))"

definition create_scheduled_post_from_template_once ::
  "mat_env \<Rightarrow> template_row \<Rightarrow> instant \<Rightarrow> instant \<Rightarrow> string \<Rightarrow> unit store_op" where
  "create_scheduled_post_from_template_once m t at occ role db =
     (let x = for_round role occ (me_auto m); now = ax_now x;
          title = expand_post_template_title (tp_title t) at (tp_counter t) None None;
          mode = (if tp_output_mode t = [] then ''scheduled'' else normalize_automation_output_mode (tp_output_mode t));
          (at', draft) = (if mode = ''draft'' then rss_output_schedule now mode at
                          else if mode = ''publish_now'' then (now, False) else (at, False))
      in job_or_post m x t (should_enhance_recurring m t db)
           (recurring_job t ''main'' (tp_content t) title at' draft (tp_targets t) (tp_counter t) occ)
           (round_input t title (tp_content t) at' (tp_targets t) draft (tp_counter t) occ role) occ role db)"

definition create_scheduled_post_from_template ::
  "mat_env \<Rightarrow> template_row \<Rightarrow> instant \<Rightarrow> instant \<Rightarrow> string \<Rightarrow> unit store_op" where
  "create_scheduled_post_from_template m t at occ role =
     with_audit_transaction (\<lambda>db.
       let x = for_round role occ (me_auto m) in
       case look x ''lock'' (lock_automation_source ''post_template'' (tp_id t)) db of
         Inl e \<Rightarrow> (Inl e, db)
       | Inr _ \<Rightarrow>
           (case look x ''exists'' (has_post_template_role_materialized (tp_id t) occ role) db of
              Inl e \<Rightarrow> (Inl e, db)
            | Inr True \<Rightarrow> (Inr (), db)
            | Inr False \<Rightarrow> create_scheduled_post_from_template_once m t at occ role db))"

definition count_announcement :: "auto_env \<Rightarrow> template_row \<Rightarrow> bool \<Rightarrow> unit store_op" where
  "count_announcement x t advance =
     (if advance
      then faulty (ax_env x) ''count'' (always (advance_post_template_announcement_counter (ax_now x) (tp_id t) (tp_ann_counter t + 1)))
      else (\<lambda>db. (Inr (), db)))"

definition announce ::
  "mat_env \<Rightarrow> auto_env \<Rightarrow> template_row \<Rightarrow> instant \<Rightarrow> bool \<Rightarrow> unit store_op" where
  "announce m x t main advance db =
     (let at = announce_time t main; counter = at_least_one (tp_ann_counter t);
          main_counter = at_least_one (tp_counter t);
          content = expand_dynamic_variables (tp_ann_content t) at (Some counter) (Some main) (Some main_counter);
          title = expand_post_template_title (tp_ann_title t) at counter (Some main) (Some main_counter);
          targets = announcement_targets t
      in and_then
           (job_or_post m x t (should_enhance_announcement m t db)
              (recurring_job t ''announcement'' content title at False targets (tp_ann_counter t) main)
              (round_input t title content at targets False counter main ''announcement'') main ''announcement'')
           (\<lambda>_. count_announcement x t advance) db)"

definition materialize_announcement :: "mat_env \<Rightarrow> template_row \<Rightarrow> instant \<Rightarrow> bool \<Rightarrow> unit store_op" where
  "materialize_announcement m t main advance db =
     (let x = for_round ''announcement'' main (me_auto m) in
      if \<not> tp_ann_enabled t \<or> trim_space (tp_ann_content t) = [] then (Inr (), db)
      else (case look x ''skipped'' (\<lambda>db. Inr (is_post_template_announcement_skipped (tp_id t) main db)) db of
              Inl e \<Rightarrow> (Inl e, db)
            | Inr True \<Rightarrow> (Inr (), db)
            | Inr False \<Rightarrow>
                (case look x ''exists'' (has_post_template_role_materialized (tp_id t) main ''announcement'') db of
                   Inl e \<Rightarrow> (Inl e, db)
                 | Inr True \<Rightarrow> (Inr (), db)
                 | Inr False \<Rightarrow> announce m x t main advance db)))"

text \<open>An error of the lookup is logged and taken for no shift.\<close>

definition maybe_shift_occurrence :: "mat_env \<Rightarrow> template_row \<Rightarrow> instant \<Rightarrow> store_db \<Rightarrow> instant option" where
  "maybe_shift_occurrence m t occ db =
     (case look (for_round ''main'' occ (me_auto m)) ''shift'' (\<lambda>db. Inr (get_post_template_shift_to (tp_id t) occ db)) db of
        Inl _ \<Rightarrow> None | Inr s \<Rightarrow> s)"

definition advance_schedule :: "mat_env \<Rightarrow> template_row \<Rightarrow> instant \<Rightarrow> instant \<Rightarrow> int \<Rightarrow> unit store_op" where
  "advance_schedule m t occ next_at counter =
     (let x = for_round ''main'' occ (me_auto m) in
      faulty (ax_env x) ''advance'' (always (advance_post_template_schedule (ax_now x) (tp_id t) (Some next_at) counter)))"

text \<open>The round at \<open>at\<close>, the cursor standing on \<open>occ\<close>: the main post unless it exists, the cursor to the next
  occurrence, the announcement.\<close>

definition materialize_round :: "mat_env \<Rightarrow> template_row \<Rightarrow> instant \<Rightarrow> instant \<Rightarrow> instant \<Rightarrow> bool store_op" where
  "materialize_round m t occ at next_at db =
     (let x = for_round ''main'' occ (me_auto m) in
      case look x ''main exists'' (has_post_template_role_materialized (tp_id t) at ''main'') db of
        Inl e \<Rightarrow> (Inl e, db)
      | Inr exists \<Rightarrow>
          and_then (if exists then (\<lambda>db. (Inr (), db)) else create_scheduled_post_from_template m t at at ''main'') (\<lambda>_.
          and_then (advance_schedule m t occ next_at (if exists then tp_counter t else tp_counter t + 1)) (\<lambda>_.
          and_then (materialize_announcement m t at (\<not> exists)) (\<lambda>_ db. (Inr True, db)))) db)"

definition materialize_template_occurrence_once :: "mat_env \<Rightarrow> template_row \<Rightarrow> instant \<Rightarrow> bool store_op" where
  "materialize_template_occurrence_once m t occ db =
     (case next_slot m (tp_recurrence t) occ of
        None \<Rightarrow> (Inr False, db)
      | Some next_at \<Rightarrow>
          (case look (for_round ''main'' occ (me_auto m)) ''skipped'' (\<lambda>db. Inr (is_post_template_occurrence_skipped (tp_id t) occ db)) db of
             Inl e \<Rightarrow> (Inl e, db)
           | Inr False \<Rightarrow> materialize_round m t occ occ next_at db
           | Inr True \<Rightarrow>
               (case maybe_shift_occurrence m t occ db of
                  Some at \<Rightarrow> materialize_round m t occ at next_at db
                | None \<Rightarrow> and_then (advance_schedule m t occ next_at (tp_counter t)) (\<lambda>_ db. (Inr True, db)) db)))"

definition materialize_template_occurrence :: "mat_env \<Rightarrow> template_row \<Rightarrow> instant \<Rightarrow> bool store_op" where
  "materialize_template_occurrence m t occ =
     with_audit_transaction (\<lambda>db.
       let x = for_round ''main'' occ (me_auto m) in
       case look x ''cursor lock'' (lock_automation_source ''post_template'' (tp_id t)) db of
         Inl e \<Rightarrow> (Inl e, db)
       | Inr _ \<Rightarrow>
           (case look x ''cursor'' (get_post_template (tp_team t) (tp_id t)) db of
              Inl e \<Rightarrow> (Inl e, db)
            | Inr fresh \<Rightarrow>
                if tp_id fresh = [] then materialize_template_occurrence_once m t occ db
                else if tp_next fresh \<noteq> Some occ then (Inr False, db)
                else materialize_template_occurrence_once m fresh occ db))"

definition materialize_horizon_end :: "instant \<Rightarrow> int \<Rightarrow> instant" where
  "materialize_horizon_end now days = (if days \<le> 0 then now else now + wrap64 (days * 24 * 3600 * nanos))"

text \<open>The loop of 64 rounds; each round is committed on its own.\<close>

fun materialize_loop :: "nat \<Rightarrow> mat_env \<Rightarrow> instant \<Rightarrow> template_row \<Rightarrow> unit store_op" where
  "materialize_loop 0 m end_at t db = (Inr (), db)"
| "materialize_loop (Suc n) m end_at t db =
     (case tp_next t of
        None \<Rightarrow> (Inr (), db)
      | Some occ \<Rightarrow>
          if end_at < occ then (Inr (), db)
          else (case materialize_template_occurrence m t occ db of
                  (Inl e, db') \<Rightarrow> (Inl e, db')
                | (Inr False, db') \<Rightarrow> (Inr (), db')
                | (Inr True, db') \<Rightarrow>
                    (case look (for_round ''main'' occ (me_auto m)) ''reload'' (get_post_template (tp_team t) (tp_id t)) db' of
                       Inl e \<Rightarrow> (Inl e, db') | Inr t' \<Rightarrow> materialize_loop n m end_at t' db')))"

definition materialize_template_horizon :: "mat_env \<Rightarrow> template_row \<Rightarrow> instant \<Rightarrow> unit store_op" where
  "materialize_template_horizon m t now = materialize_loop 64 m (materialize_horizon_end now (tp_horizon_days t)) t"

definition materialize_post_templates :: "mat_env \<Rightarrow> unit store_op" where
  "materialize_post_templates m db =
     (case look (me_auto m) ''templates'' (\<lambda>db. Inr (list_enabled_post_templates 100 db)) db of
        Inl e \<Rightarrow> (Inl e, db)
      | Inr ts \<Rightarrow> (Inr (), fold (\<lambda>t db. snd (materialize_template_horizon m t (ax_now (me_auto m)) db)) ts db))"

end
