(* ===== verification/Template_Changes.thy ===== *)
theory Template_Changes
  imports Template_Scheduler
begin

text \<open>
  What users ask of a template's rounds: to regenerate one occurrence or the horizon
  (\<open>scheduler/template_regenerate.go\<close>), to skip or shift an occurrence (\<open>scheduler/template_skip.go\<close>), and the
  handlers of these requests (\<open>api/post_templates.go\<close>).
\<close>

section \<open>Selecting posts\<close>

definition filter_linked_posts_for_occurrence :: "linked_post list \<Rightarrow> instant \<Rightarrow> linked_post list" where
  "filter_linked_posts_for_occurrence ps occ = filter (\<lambda>p. lp_at p = occ) ps"

definition filter_linked_posts_from_occurrence :: "linked_post list \<Rightarrow> instant \<Rightarrow> linked_post list" where
  "filter_linked_posts_from_occurrence ps occ = filter (\<lambda>p. \<not> lp_at p < occ) ps"

definition filter_linked_posts_for_horizon :: "linked_post list \<Rightarrow> instant \<Rightarrow> instant \<Rightarrow> linked_post list" where
  "filter_linked_posts_for_horizon ps start end_at = filter (\<lambda>p. \<not> lp_at p < start \<and> \<not> end_at < lp_at p) ps"

definition is_regenerable_status :: "post_status \<Rightarrow> bool" where
  "is_regenerable_status s \<longleftrightarrow> s = Draft \<or> s = Pending \<or> s = Failed"

definition is_blocked_regenerate_status :: "post_status \<Rightarrow> bool" where
  "is_blocked_regenerate_status s \<longleftrightarrow> s = Posted \<or> s = Processing"

definition regenerable_linked_posts :: "linked_post list \<Rightarrow> linked_post list" where
  "regenerable_linked_posts = filter (\<lambda>p. is_regenerable_status (lp_status p))"

definition blocked_linked_posts :: "linked_post list \<Rightarrow> linked_post list" where
  "blocked_linked_posts = filter (\<lambda>p. is_blocked_regenerate_status (lp_status p))"

text \<open>The counters the posts of an occurrence carry; of several posts of a role the last one counts.\<close>

definition linked_counter :: "linked_post list \<Rightarrow> instant \<Rightarrow> string \<Rightarrow> int" where
  "linked_counter ps occ role =
     foldl (\<lambda>c p. if lp_at p = occ \<and> lp_role p = role
                  then (case lp_counter p of None \<Rightarrow> 1 | Some n \<Rightarrow> if n \<ge> 1 then n else 1) else c) (- 1) ps"

definition counters_for_occurrence :: "linked_post list \<Rightarrow> instant \<Rightarrow> (int \<times> int) option" where
  "counters_for_occurrence ps occ =
     (let main = linked_counter ps occ ''main''; ann = linked_counter ps occ ''announcement'' in
      if main < 1 \<and> ann < 1 then None else Some (at_least_one main, at_least_one ann))"

definition unique_occurrences :: "linked_post list \<Rightarrow> instant list" where
  "unique_occurrences ps = sort (dedup (map lp_at ps))"

section \<open>Jobs under way\<close>

record recurring_lite =
  li_kind :: string
  li_counter :: int
  li_at :: "instant option"
  li_template :: string

definition parse_recurring_lite :: "job_payload \<Rightarrow> recurring_lite option" where
  "parse_recurring_lite p =
     (case pl_recurring p of
        None \<Rightarrow> None
      | Some r \<Rightarrow>
          if trim_space (rc_template r) = [] then None
          else Some \<lparr>li_kind = (let k = trim_space (rc_kind r) in if k = [] then ''main'' else k), li_counter = rc_counter r,
                 li_at = map_option instant_of_seconds (rc_occurrence r), li_template = rc_template r\<rparr>)"

definition pending_recurring_ai_jobs ::
  "auto_env \<Rightarrow> string \<Rightarrow> string \<Rightarrow> (instant option \<Rightarrow> bool) \<Rightarrow> store_db \<Rightarrow> store_error + job_row list" where
  "pending_recurring_ai_jobs x team t match db =
     (case look x ''jobs'' (\<lambda>db. Inr (list_ai_jobs team 2147483647 db)) db of
        Inl e \<Rightarrow> Inl e
      | Inr js \<Rightarrow> Inr (filter (\<lambda>j. jb_team j = team \<and> jb_origin j = ''automation'' \<and> jb_type j = ''voice_engine'' \<and> job_live j \<and>
          (case parse_recurring_lite (jb_payload j) of None \<Rightarrow> False | Some l \<Rightarrow> li_template l = t \<and> match (li_at l))) js))"

definition recurring_cancel_event :: "auto_env \<Rightarrow> string \<Rightarrow> string \<Rightarrow> job_row \<Rightarrow> audit_event" where
  "recurring_cancel_event x team t j =
     (let l = the (parse_recurring_lite (jb_payload j)); fresh = ax_fresh x (''cancel '' @ jb_id j) in
      automation_event fresh team ''ai_job.cancel'' ''ai_job'' (jb_id j)
        ([(''job_id'', jb_id j), (''template_id'', t), (''post_kind'', li_kind l), (''author_user_id'', jb_author j),
          (''reason'', ''recurring_change'')] @
         (case li_at l of None \<Rightarrow> [] | Some at \<Rightarrow> [(''occurrence_at'', rfc3339_nano at)]) @ initiator_meta x))"

fun cancel_each :: "auto_env \<Rightarrow> string \<Rightarrow> string \<Rightarrow> job_row list \<Rightarrow> unit store_op" where
  "cancel_each x team t [] db = (Inr (), db)"
| "cancel_each x team t (j # js) db =
     (case faulty (ax_env x) (''claim '' @ jb_id j) (claim_ai_job_completion (ax_now x) (jb_id j) Job_Failed [] ''cancelled'') db of
        (Inl e, db') \<Rightarrow> (Inl e, db')
      | (Inr False, db') \<Rightarrow> cancel_each x team t js db'
      | (Inr True, db') \<Rightarrow>
          (case faulty (ax_env x) (''cancel event '' @ jb_id j) (insert_audit_event (ax_now x) (ax_fresh x (''cancel '' @ jb_id j))
                  (recurring_cancel_event x team t j)) db' of
             (Inl e, d) \<Rightarrow> (Inl e, d) | (Inr _, d) \<Rightarrow> cancel_each x team t js d))"

definition cancel_pending_recurring_ai_jobs_matching ::
  "auto_env \<Rightarrow> string \<Rightarrow> string \<Rightarrow> (instant option \<Rightarrow> bool) \<Rightarrow> unit store_op" where
  "cancel_pending_recurring_ai_jobs_matching x team t match db =
     (case pending_recurring_ai_jobs x team t match db of
        Inl e \<Rightarrow> (Inl e, db) | Inr js \<Rightarrow> cancel_each x team t js db)"

section \<open>Regenerating\<close>

record regenerate_result =
  rr_deleted :: nat
  rr_occurrences :: nat

definition regenerate_blocked :: store_error where
  "regenerate_blocked = Refused ''regenerate blocked: posts already published or publishing''"

definition regenerate_no_posts :: store_error where
  "regenerate_no_posts = Refused ''regenerate: no posts in scope''"

definition mutate_post_template :: "auto_env \<Rightarrow> string \<Rightarrow> regenerate_result store_op \<Rightarrow> regenerate_result store_op" where
  "mutate_post_template x t mutate =
     with_audit_transaction (\<lambda>db.
       case look x ''template lock'' (lock_automation_source ''post_template'' t) db of
         Inl e \<Rightarrow> (Inl e, db) | Inr _ \<Rightarrow> mutate db)"

definition delete_linked_posts :: "auto_env \<Rightarrow> string \<Rightarrow> string \<Rightarrow> linked_post list \<Rightarrow> nat store_op" where
  "delete_linked_posts x team t ps =
     faulty (ax_env x) ''delete posts'' (\<lambda>db. case delete_post_template_linked_posts team t (map lp_id ps) db of (n, db') \<Rightarrow> (Inr n, db'))"

definition rematerialize_occurrence :: "mat_env \<Rightarrow> template_row \<Rightarrow> instant \<Rightarrow> int \<Rightarrow> int \<Rightarrow> unit store_op" where
  "rematerialize_occurrence m t occ main ann db =
     (let t' = t\<lparr>tp_counter := main, tp_ann_counter := ann\<rparr>;
          at = (case maybe_shift_occurrence m t' occ db of None \<Rightarrow> occ | Some s \<Rightarrow> s)
      in and_then (create_scheduled_post_from_template m t' at occ ''main'') (\<lambda>_. materialize_announcement m t' at False) db)"

definition regenerate_occurrence_body :: "mat_env \<Rightarrow> string \<Rightarrow> string \<Rightarrow> instant \<Rightarrow> regenerate_result store_op" where
  "regenerate_occurrence_body m team i occ db =
     (let x = me_auto m in
      case look x ''template'' (get_post_template team i) db of
        Inl e \<Rightarrow> (Inl e, db)
      | Inr t \<Rightarrow>
          (case look x ''linked'' (\<lambda>db. Inr (list_post_template_linked_posts team i db)) db of
             Inl e \<Rightarrow> (Inl e, db)
           | Inr linked \<Rightarrow>
               (let scope = filter_linked_posts_for_occurrence linked occ; again = regenerable_linked_posts scope;
                    (main, ann) = (case counters_for_occurrence scope occ of
                       Some c \<Rightarrow> c | None \<Rightarrow> (at_least_one (tp_counter t), at_least_one (tp_ann_counter t)))
                in if scope = [] then (Inl regenerate_no_posts, db)
                   else if blocked_linked_posts scope \<noteq> [] then (Inl regenerate_blocked, db)
                   else if again = [] then (Inl regenerate_no_posts, db)
                   else and_then (cancel_pending_recurring_ai_jobs_matching x team i (\<lambda>at. at = Some occ)) (\<lambda>_.
                        and_then (delete_linked_posts x team i again) (\<lambda>n.
                        and_then (rematerialize_occurrence m t occ main ann) (\<lambda>_ db.
                          (Inr \<lparr>rr_deleted = n, rr_occurrences = 1\<rparr>, db)))) db)))"

definition regenerate_post_template_occurrence :: "mat_env \<Rightarrow> string \<Rightarrow> string \<Rightarrow> instant \<Rightarrow> regenerate_result store_op" where
  "regenerate_post_template_occurrence m team i occ =
     mutate_post_template (me_auto m) i (regenerate_occurrence_body m team i occ)"

text \<open>Tearing down and walking again from \<open>start\<close> with the counters that round had.\<close>

definition rewind_and_walk ::
  "mat_env \<Rightarrow> string \<Rightarrow> string \<Rightarrow> linked_post list \<Rightarrow> (instant option \<Rightarrow> bool) \<Rightarrow> instant \<Rightarrow> int \<Rightarrow> int \<Rightarrow> nat store_op" where
  "rewind_and_walk m team i again match start main ann =
     (let x = me_auto m in
      and_then (cancel_pending_recurring_ai_jobs_matching x team i match) (\<lambda>_.
      and_then (delete_linked_posts x team i again) (\<lambda>n.
      and_then (faulty (ax_env x) ''rewind'' (always (set_post_template_materialization_state (ax_now x) i (Some start) main ann))) (\<lambda>_ db.
        case look x ''fresh'' (get_post_template team i) db of
          Inl e \<Rightarrow> (Inl e, db)
        | Inr fresh \<Rightarrow>
            and_then (materialize_template_horizon m fresh (ax_now x)) (\<lambda>_ db. (Inr n, db)) db))))"

definition regenerate_horizon_body :: "mat_env \<Rightarrow> string \<Rightarrow> string \<Rightarrow> regenerate_result store_op" where
  "regenerate_horizon_body m team i db =
     (let x = me_auto m; now = ax_now x in
      case look x ''template'' (get_post_template team i) db of
        Inl e \<Rightarrow> (Inl e, db)
      | Inr t \<Rightarrow>
          (case look x ''linked'' (\<lambda>db. Inr (list_post_template_linked_posts team i db)) db of
             Inl e \<Rightarrow> (Inl e, db)
           | Inr linked \<Rightarrow>
               (let end_at = (if tp_horizon_days t \<le> 0 then now + 366 * 24 * 3600 * nanos
                              else materialize_horizon_end now (tp_horizon_days t));
                    scope = filter_linked_posts_for_horizon linked now end_at; again = regenerable_linked_posts scope;
                    occs = unique_occurrences again
                in if scope = [] then (Inl regenerate_no_posts, db)
                   else if blocked_linked_posts scope \<noteq> [] then (Inl regenerate_blocked, db)
                   else if again = [] then (Inl regenerate_no_posts, db)
                   else (case counters_for_occurrence scope (hd occs) of
                           None \<Rightarrow> (Inl (Refused ''regenerate horizon: missing counters''), db)
                         | Some (main, ann) \<Rightarrow>
                             and_then (rewind_and_walk m team i again (\<lambda>_. True) (hd occs) main ann) (\<lambda>n db.
                               (Inr \<lparr>rr_deleted = n, rr_occurrences = length occs\<rparr>, db)) db))))"

definition regenerate_post_template_horizon :: "mat_env \<Rightarrow> string \<Rightarrow> string \<Rightarrow> regenerate_result store_op" where
  "regenerate_post_template_horizon m team i = mutate_post_template (me_auto m) i (regenerate_horizon_body m team i)"

section \<open>Skipping and shifting\<close>

definition record_skip :: "string \<Rightarrow> string \<Rightarrow> instant \<Rightarrow> instant option \<Rightarrow> unit store_op" where
  "record_skip team i occ shift =
     (case shift of None \<Rightarrow> add_post_template_skip team i occ | Some s \<Rightarrow> shift_post_template_occurrence team i occ s)"

text \<open>The counters of the jobs of the slot; of several of a kind the last one counts.\<close>

definition pending_counter :: "job_row list \<Rightarrow> string \<Rightarrow> int" where
  "pending_counter js kind =
     foldl (\<lambda>c j. let l = the (parse_recurring_lite (jb_payload j)) in if li_kind l = kind then li_counter l else c) 0 js"

definition skip_pending_round ::
  "mat_env \<Rightarrow> string \<Rightarrow> string \<Rightarrow> template_row \<Rightarrow> instant \<Rightarrow> instant option \<Rightarrow> regenerate_result store_op" where
  "skip_pending_round m team i t occ shift db =
     (let x = me_auto m; nothing = \<lparr>rr_deleted = 0, rr_occurrences = 0\<rparr> in
      case pending_recurring_ai_jobs x team i (\<lambda>at. at = Some occ) db of
        Inl e \<Rightarrow> (Inl e, db)
      | Inr js \<Rightarrow>
          if js = [] then (Inr nothing, db)
          else (let main = pending_counter js ''main''; ann = pending_counter js ''announcement'' in
            if shift \<noteq> None \<and> (main \<le> 0 \<or> (tp_ann_enabled t \<and> trim_space (tp_ann_content t) \<noteq> [] \<and> ann \<le> 0))
            then (Inl (Refused ''shift pending occurrence: original counters unavailable''), db)
            else and_then (cancel_pending_recurring_ai_jobs_matching x team i (\<lambda>at. at = Some occ)) (\<lambda>_.
                   if shift = None then (\<lambda>db. (Inr nothing, db))
                   else and_then (rematerialize_occurrence m t occ main ann) (\<lambda>_ db.
                          (Inr \<lparr>rr_deleted = 0, rr_occurrences = 1\<rparr>, db))) db))"

definition skip_occurrence_body ::
  "mat_env \<Rightarrow> string \<Rightarrow> string \<Rightarrow> instant \<Rightarrow> instant option \<Rightarrow> regenerate_result store_op" where
  "skip_occurrence_body m team i occ shift db =
     (let x = me_auto m in
      case look x ''template'' (get_post_template team i) db of
        Inl e \<Rightarrow> (Inl e, db)
      | Inr t \<Rightarrow>
          (case look x ''linked'' (\<lambda>db. Inr (list_post_template_linked_posts team i db)) db of
             Inl e \<Rightarrow> (Inl e, db)
           | Inr linked \<Rightarrow>
               (let scope = filter_linked_posts_from_occurrence linked occ; again = regenerable_linked_posts scope;
                    (main, ann) = (case counters_for_occurrence scope occ of
                       Some c \<Rightarrow> c | None \<Rightarrow> (tp_counter t, tp_ann_counter t))
                in if blocked_linked_posts scope \<noteq> [] then (Inl regenerate_blocked, db)
                   else and_then (faulty (ax_env x) ''record skip'' (record_skip team i occ shift)) (\<lambda>_.
                     if again = [] then skip_pending_round m team i t occ shift
                     else and_then (rewind_and_walk m team i again (\<lambda>at. case at of None \<Rightarrow> False | Some a \<Rightarrow> \<not> a < occ)
                                      occ (at_least_one main) (at_least_one ann)) (\<lambda>n db.
                            (Inr \<lparr>rr_deleted = n, rr_occurrences = length (unique_occurrences again)\<rparr>, db))) db)))"

definition skip_post_template_occurrence ::
  "mat_env \<Rightarrow> string \<Rightarrow> string \<Rightarrow> instant \<Rightarrow> instant option \<Rightarrow> regenerate_result store_op" where
  "skip_post_template_occurrence m team i occ shift =
     mutate_post_template (me_auto m) i (skip_occurrence_body m team i occ shift)"

end
