(* ===== verification/Template_Rounds.thy ===== *)
theory Template_Rounds
  imports Template_Changes
begin

text \<open>
  Every round of a template is materialized at most once: whatever the scheduler's ticks, regenerations, skips and
  shifts, the completion and cancellation of jobs and edits of templates do in any order, an occurrence of a
  template never has two live posts, or a post and a job under way, in the same role.
\<close>

section \<open>What counts for rounds\<close>

definition whole :: "instant \<Rightarrow> bool" where "whole at \<longleftrightarrow> at mod nanos = 0"

definition template_keys :: "store_db \<Rightarrow> (string \<times> string) list" where
  "template_keys db = map (\<lambda>t. (tp_id t, tp_team t)) (sd_templates db)"

definition keys_ok :: "store_db \<Rightarrow> bool" where
  "keys_ok db \<longleftrightarrow> distinct (map fst (template_keys db)) \<and> (\<forall>k \<in> set (map fst (template_keys db)). k \<noteq> [] \<and> trim_space k = k)"

definition template_in :: "template_row \<Rightarrow> store_db \<Rightarrow> bool" where
  "template_in t db \<longleftrightarrow> (tp_id t, tp_team t) \<in> set (template_keys db)"

text \<open>The occurrences in the tables are whole seconds, as rules produce them.\<close>

definition instants_ok :: "store_db \<Rightarrow> bool" where
  "instants_ok db \<longleftrightarrow> (\<forall>t \<in> set (sd_templates db). \<forall>n. tp_next t = Some n \<longrightarrow> whole n) \<and>
     (\<forall>s \<in> set (sd_skips db). \<forall>n. sk_shift s = Some n \<longrightarrow> whole n) \<and>
     (\<forall>r \<in> set (sd_posts db). \<forall>n. sp_template_occurrence_at (rw_post r) = Some n \<longrightarrow> whole n)"

lemma team_of_template_keys: "team_of_template t db = map_of (template_keys db) t"
proof -
  have "map_option tp_team (find (\<lambda>r. tp_id r = t) rows) = map_of (map (\<lambda>t. (tp_id t, tp_team t)) rows) t" for rows
    by (induction rows) simp_all
  then show ?thesis by (simp add: team_of_template_def template_keys_def)
qed

definition a_role :: "string \<Rightarrow> bool" where "a_role role \<longleftrightarrow> role = ''main'' \<or> role = ''announcement''"

text \<open>Automation jobs are submitted by the scheduler, which names a template of the job's team and one of the two
  roles.\<close>

definition job_shape :: "job_row \<Rightarrow> store_db \<Rightarrow> bool" where
  "job_shape j db \<longleftrightarrow> (jb_origin j = ''automation'' \<longrightarrow>
     (case pl_recurring (jb_payload j) of
        None \<Rightarrow> True
      | Some q \<Rightarrow> trim_space (rc_template q) = rc_template q \<and> a_role (rc_kind q) \<and>
          (\<forall>team. map_of (template_keys db) (rc_template q) = Some team \<longrightarrow> jb_team j = team)))"

definition jobs_ok :: "store_db \<Rightarrow> bool" where
  "jobs_ok db \<longleftrightarrow> distinct (job_ids db) \<and> (\<forall>j \<in> set (sd_jobs db). job_shape j db)"

definition job_shapes :: "store_db \<Rightarrow> (string \<times> string \<times> string \<times> job_payload) list" where
  "job_shapes db = map (\<lambda>j. (jb_id j, jb_team j, jb_origin j, jb_payload j)) (sd_jobs db)"

lemma jobs_ok_shapes:
  assumes "job_shapes db' = job_shapes db" "template_keys db' = template_keys db" "jobs_ok db"
  shows "jobs_ok db'"
proof -
  let ?f = "\<lambda>j. (jb_id j, jb_team j, jb_origin j, jb_payload j)"
  note same = assms(1) [unfolded job_shapes_def]
  have "map fst (map ?f (sd_jobs db')) = map fst (map ?f (sd_jobs db))" by (simp only: same)
  then have "job_ids db' = job_ids db" by (simp add: job_ids_def comp_def)
  moreover have "\<exists>k \<in> set (sd_jobs db). ?f k = ?f j" if "j \<in> set (sd_jobs db')" for j
  proof -
    from that have "?f j \<in> set (map ?f (sd_jobs db'))" by auto
    then show ?thesis unfolding same by auto
  qed
  moreover have "job_shape j db'" if "job_shape k db" "?f k = ?f j" for j k
    using that assms(2) by (cases "pl_recurring (jb_payload j)") (simp_all add: job_shape_def)
  ultimately have "\<forall>j \<in> set (sd_jobs db'). job_shape j db'" "distinct (job_ids db')"
    using assms(3) unfolding jobs_ok_def by (fast, simp)
  then show ?thesis by (simp add: jobs_ok_def)
qed

text \<open>An operation keeps the rounds when none of them becomes materialized a second time.\<close>

definition rounds_kept :: "store_db \<Rightarrow> store_db \<Rightarrow> bool" where
  "rounds_kept db db' \<longleftrightarrow> template_keys db' = template_keys db \<and>
     (\<forall>t at role. whole at \<longrightarrow> round_count t at role db' \<le> max 1 (round_count t at role db)) \<and>
     (jobs_ok db \<longrightarrow> jobs_ok db')"

lemma rounds_kept_refl [simp]: "rounds_kept db db"
  by (simp add: rounds_kept_def)

lemma rounds_kept_trans: "rounds_kept a b \<Longrightarrow> rounds_kept b c \<Longrightarrow> rounds_kept a c"
proof -
  assume ab: "rounds_kept a b" and bc: "rounds_kept b c"
  have "round_count t at role c \<le> max 1 (round_count t at role a)" if "whole at" for t at role
  proof -
    from ab bc that have "round_count t at role b \<le> max 1 (round_count t at role a)"
      "round_count t at role c \<le> max 1 (round_count t at role b)" by (simp_all add: rounds_kept_def)
    then show ?thesis by linarith
  qed
  with ab bc show ?thesis by (simp add: rounds_kept_def)
qed

lemma rounds_keptI:
  assumes "template_keys db' = template_keys db"
    "\<And>t at role. whole at \<Longrightarrow> count_where (round_post t at role) (sd_posts db') \<le> count_where (round_post t at role) (sd_posts db)"
    "\<And>team t at role. whole at \<Longrightarrow> count_where (round_job team t at role) (sd_jobs db') \<le> count_where (round_job team t at role) (sd_jobs db)"
    "job_shapes db' = job_shapes db"
  shows "rounds_kept db db'"
  unfolding rounds_kept_def
proof (intro conjI allI impI)
  fix t at role assume w: "whole at"
  have "team_of_template t db' = team_of_template t db" by (simp add: team_of_template_keys assms(1))
  with assms(2) [OF w, of t role] assms(3) [OF w, of "team_of_template t db" t role]
  show "round_count t at role db' \<le> max 1 (round_count t at role db)" by (simp add: round_count_def)
next
  assume "jobs_ok db"
  with jobs_ok_shapes [OF assms(4,1)] show "jobs_ok db'" .
qed (fact assms(1))

definition same_rounds :: "store_db \<Rightarrow> store_db \<Rightarrow> bool" where
  "same_rounds db db' \<longleftrightarrow> sd_posts db' = sd_posts db \<and> sd_jobs db' = sd_jobs db \<and> template_keys db' = template_keys db"

lemma same_rounds_refl [simp]: "same_rounds db db" by (simp add: same_rounds_def)

lemma same_rounds_kept: "same_rounds db db' \<Longrightarrow> rounds_kept db db'"
  by (rule rounds_keptI) (simp_all add: same_rounds_def job_shapes_def)

lemma same_rounds_count: "same_rounds db db' \<Longrightarrow> round_count t at role db' = round_count t at role db"
  by (simp add: round_count_def same_rounds_def team_of_template_keys)

lemma on_template_same:
  "(\<And>t. tp_id (f t) = tp_id t \<and> tp_team (f t) = tp_team t) \<Longrightarrow> same_rounds db (on_template i f db)"
  by (simp add: same_rounds_def on_template_def template_keys_def update_where_def)

lemma schedule_same [simp]:
  "same_rounds db (advance_post_template_schedule now i n c db)"
  "same_rounds db (advance_post_template_announcement_counter now i c db)"
  "same_rounds db (set_post_template_materialization_state now i n c a db)"
  by (simp_all add: advance_post_template_schedule_def advance_post_template_announcement_counter_def
      set_post_template_materialization_state_def on_template_same)

lemma insert_event_same: "insert_audit_event now fresh e db = (r, db') \<Longrightarrow> same_rounds db db'"
  by (auto simp: insert_audit_event_def Let_def same_rounds_def template_keys_def split: if_splits)

section \<open>New posts and jobs\<close>

definition adds_post :: "post_row \<Rightarrow> store_db \<Rightarrow> store_db \<Rightarrow> bool" where
  "adds_post r db db' \<longleftrightarrow> sd_posts db' = sd_posts db @ [r] \<and> sd_jobs db' = sd_jobs db \<and>
     sd_templates db' = sd_templates db \<and> sd_skips db' = sd_skips db"

lemma create_scheduled_post_rows:
  assumes "create_scheduled_post now fresh team pr inp db = (r, db')"
  shows "adds_post (new_post_row now fresh team pr inp) db db' \<and> (\<exists>p. r = Inr p) \<or> (\<exists>e. r = Inl e) \<and> db' = db"
proof -
  let ?body = "and_then (insert_post (new_post_row now fresh team pr inp)) (\<lambda>_.
         and_then (insert_versions fresh (in_override inp)) (\<lambda>_.
         and_then (insert_targets fresh (in_target_accounts inp)) (\<lambda>_.
           (case in_rss_feed_id inp of
              None \<Rightarrow> (\<lambda>db. (Inr (), db))
            | Some feed \<Rightarrow> if in_rss_item_key inp \<noteq> []
                           then link_rss_item_for_post now team feed (in_rss_item_key inp) fresh
                           else (\<lambda>db. (Inr (), db))))))"
  have body: "adds_post (new_post_row now fresh team pr inp) db d" if "?body db = (Inr y, d)" for y d
    using that
    by (auto simp: and_then_Inr adds_post_def insert_post_def insert_versions_def insert_targets_def
        link_rss_item_for_post_def bump_counter_def Let_def split: option.splits if_splits)
  have found: "\<exists>p. get_scheduled_post team fresh d = Inr p" if "adds_post (new_post_row now fresh team pr inp) db d" for d
  proof -
    have "rw_team (new_post_row now fresh team pr inp) = team" "rw_id (new_post_row now fresh team pr inp) = fresh"
      by (simp_all add: new_post_row_def Let_def)
    with that have "find (\<lambda>r. rw_team r = team \<and> rw_id r = fresh) (sd_posts d) \<noteq> None"
      by (auto simp: adds_post_def find_None_iff)
    then show ?thesis by (auto simp: get_scheduled_post_def)
  qed
  show ?thesis
  proof (cases "?body db")
    case (Pair v d)
    then show ?thesis using assms body [of _ d] found [of d]
      by (cases v) (auto simp: create_scheduled_post_def with_audit_transaction_def)
  qed
qed

lemma count_where_Suc: "count_where p (xs @ [x]) = count_where p xs + (if p x then 1 else 0)"
  by (simp add: count_where_append count_where_single)

lemma new_post_row_simps:
  "rw_status (new_post_row now fresh team pr inp) = (if in_draft inp then Draft else Pending)"
  "sp_post_template_id (rw_post (new_post_row now fresh team pr inp)) = trimmed_ref (in_post_template_id inp)"
  "sp_template_post_role (rw_post (new_post_row now fresh team pr inp)) = trim_space (in_template_post_role inp)"
  "sp_template_occurrence_at (rw_post (new_post_row now fresh team pr inp)) =
     (case in_template_occurrence_at inp of None \<Rightarrow> None | Some t \<Rightarrow> if t = zero_time then None else Some t)"
  "rw_id (new_post_row now fresh team pr inp) = fresh" "rw_team (new_post_row now fresh team pr inp) = team"
  by (simp_all add: new_post_row_def resolve_post_insert_def Let_def)

text \<open>A new post counts for one round at most.\<close>

lemma new_post_round:
  assumes "round_post t at role (new_post_row now fresh team pr inp)"
  shows "trimmed_ref (in_post_template_id inp) = Some t \<and> in_template_occurrence_at inp = Some at \<and>
    trim_space (in_template_post_role inp) = role"
  using assms by (auto simp: round_post_def new_post_row_def resolve_post_insert_def Let_def split: option.splits if_splits)

lemma adds_post_kept:
  assumes "adds_post r db db'"
    "\<And>t at role. whole at \<Longrightarrow> round_post t at role r \<Longrightarrow> round_count t at role db = 0"
  shows "rounds_kept db db'"
  unfolding rounds_kept_def
proof (intro conjI allI impI)
  show "template_keys db' = template_keys db" using assms(1) by (simp add: adds_post_def template_keys_def)
  fix t at role assume w: "whole at"
  show "round_count t at role db' \<le> max 1 (round_count t at role db)"
    using assms(1) assms(2) [OF w, of t role]
    by (cases "round_post t at role r")
       (simp_all add: round_count_def adds_post_def team_of_template_keys template_keys_def count_where_Suc)
next
  assume "jobs_ok db"
  then show "jobs_ok db'" by (rule jobs_ok_shapes [rotated 2]) (use assms(1) in \<open>simp_all add: adds_post_def template_keys_def job_shapes_def\<close>)
qed

definition adds_job :: "job_row \<Rightarrow> store_db \<Rightarrow> store_db \<Rightarrow> bool" where
  "adds_job j db db' \<longleftrightarrow> sd_jobs db' = sd_jobs db @ [j] \<and> jb_id j \<notin> set (job_ids db) \<and> sd_posts db' = sd_posts db \<and>
     sd_templates db' = sd_templates db \<and> sd_skips db' = sd_skips db"

lemma adds_job_kept:
  assumes "adds_job j db db'"
    "\<And>team t at role. whole at \<Longrightarrow> round_job team t at role j \<Longrightarrow> team = team_of_template t db \<Longrightarrow> round_count t at role db = 0"
    "job_shape j db"
  shows "rounds_kept db db'"
  unfolding rounds_kept_def
proof (intro conjI allI impI)
  show "template_keys db' = template_keys db" using assms(1) by (simp add: adds_job_def template_keys_def)
  fix t at role assume w: "whole at"
  show "round_count t at role db' \<le> max 1 (round_count t at role db)"
    using assms(1) assms(2) [OF w, of "team_of_template t db" t role]
    by (cases "round_job (team_of_template t db) t at role j")
       (simp_all add: round_count_def adds_job_def team_of_template_keys template_keys_def count_where_Suc)
next
  assume "jobs_ok db"
  moreover have "job_shape k db' = job_shape k db" for k
  proof -
    have "template_keys db' = template_keys db" using assms(1) by (simp add: adds_job_def template_keys_def)
    then show ?thesis by (simp only: job_shape_def)
  qed
  ultimately show "jobs_ok db'" using assms(1,3)
    by (auto simp: jobs_ok_def adds_job_def job_ids_def)
qed

lemma create_ai_job_rows:
  assumes "create_ai_job now fresh inp db = (r, db')"
  shows "(\<exists>e. r = Inl e) \<and> db' = db \<or> (\<exists>j. r = Inr j \<and> adds_job j db db' \<and> jb_team j = ji_team inp \<and>
      jb_origin j = (if ji_origin inp = [] then ''user'' else ji_origin inp) \<and> jb_payload j = ji_payload inp \<and>
      jb_type j = ji_type inp \<and> jb_status j = (case ji_status inp of None \<Rightarrow> Job_Pending | Some s \<Rightarrow> s))"
proof -
  let ?i = "if ji_id inp = [] then fresh else ji_id inp"
  have "find (\<lambda>j. jb_team j = ji_team inp \<and> jb_id j = ?i) (sd_jobs db) = None" if "find_job ?i db = None"
    using that unfolding find_job_def find_None_iff by blast
  moreover have "?i \<notin> set (job_ids db)" if "find_job ?i db = None"
    using that by (auto simp: find_job_def find_None_iff job_ids_def)
  ultimately show ?thesis using assms
    by (auto simp: create_ai_job_def Let_def get_ai_job_by_id_def find_append_new adds_job_def split: if_splits)
qed

lemma submit_job_rows:
  assumes "submit_job x config ctx inp db = (r, db')"
  shows "(\<exists>e. r = Inl e) \<and> db' = db \<or> (\<exists>j. r = Inr j \<and> adds_job j db db' \<and> jb_team j = ji_team inp \<and>
      jb_origin j = (if ji_origin inp = [] then ''user'' else ji_origin inp) \<and> jb_payload j = ji_payload inp \<and>
      jb_type j = ji_type inp \<and> jb_status j = Job_Pending)"
proof (cases "\<exists>e. r = Inl e")
  case True
  with assms show ?thesis
    by (auto simp: submit_job_def with_audit_transaction_def split: service_config.splits if_splits option.splits prod.splits sum.splits)
next
  case False
  then obtain j where r: "r = Inr j" by (cases r) auto
  with assms obtain d where c: "faulty (ax_env x) ''create job'' (create_ai_job (ax_now x) (ax_fresh x ''job'') (inp\<lparr>ji_status := Some Job_Pending\<rparr>)) db = (Inr j, d)"
    and e: "faulty (ax_env x) ''submit event'' (insert_audit_event (ax_now x) (ax_fresh x ''submit event'') (submit_event x j)) d = (Inr (), db')"
    by (auto simp: submit_job_def with_audit_transaction_def and_then_def
        split: service_config.splits if_splits option.splits prod.splits sum.splits)
  from e have same: "sd_jobs db' = sd_jobs d" "sd_posts db' = sd_posts d" "sd_templates db' = sd_templates d" "sd_skips db' = sd_skips d"
    by (auto simp: faulty_def insert_audit_event_def Let_def split: option.splits if_splits)
  from c create_ai_job_rows [of "ax_now x" "ax_fresh x ''job''" "inp\<lparr>ji_status := Some Job_Pending\<rparr>" db "Inr j" d]
  show ?thesis using r same by (auto simp: faulty_def adds_job_def split: option.splits)
qed

lemma create_automation_post_rows:
  assumes "create_automation_post x team pr inp meta no_follow_up db = (r, db')"
  shows "case r of Inl e \<Rightarrow> db' = db
    | Inr None \<Rightarrow> db' = db \<and> round_taken x inp db = Inr True
    | Inr (Some p) \<Rightarrow> round_taken x inp db = Inr False \<and> adds_post (new_post_row (ax_now x) (ax_fresh x ''post'') team pr inp) db db'"
proof (cases r)
  case (Inl e)
  with assms show ?thesis by (auto simp: create_automation_post_def with_audit_transaction_def split: prod.splits sum.splits)
next
  case (Inr v)
  show ?thesis
  proof (cases v)
    case None
    with assms Inr show ?thesis
      by (auto simp: create_automation_post_def with_audit_transaction_def and_then_def no_follow_up_def
          split: prod.splits sum.splits bool.splits)
  next
    case (Some p)
    with assms Inr obtain d e where t: "round_taken x inp db = Inr False"
      and c: "faulty (ax_env x) ''create post'' (create_scheduled_post (ax_now x) (ax_fresh x ''post'') team pr inp) db = (Inr p, d)"
      and e: "faulty (ax_env x) ''create event'' (insert_audit_event (ax_now x) (ax_fresh x ''create event'') e) d = (Inr (), db')"
      by (auto simp: create_automation_post_def with_audit_transaction_def and_then_def no_follow_up_def
          split: prod.splits sum.splits bool.splits)
    from c have "create_scheduled_post (ax_now x) (ax_fresh x ''post'') team pr inp db = (Inr p, d)"
      by (auto simp: faulty_def split: option.splits)
    from create_scheduled_post_rows [OF this]
    have a: "adds_post (new_post_row (ax_now x) (ax_fresh x ''post'') team pr inp) db d" by simp
    from e have "sd_jobs db' = sd_jobs d" "sd_posts db' = sd_posts d" "sd_templates db' = sd_templates d" "sd_skips db' = sd_skips d"
      by (auto simp: faulty_def insert_audit_event_def Let_def split: option.splits if_splits)
    with a Inr Some t show ?thesis by (simp add: adds_post_def)
  qed
qed

text \<open>Creating the post or the job of a round adds one of the two, or nothing.\<close>

definition fills_round :: "string \<Rightarrow> instant \<Rightarrow> string \<Rightarrow> store_db \<Rightarrow> store_db \<Rightarrow> bool" where
  "fills_round t at role db db' \<longleftrightarrow>
     (\<exists>r. adds_post r db db' \<and> sp_post_template_id (rw_post r) = Some t \<and> sp_template_post_role (rw_post r) = role \<and>
        rw_status r \<noteq> Cancelled \<and> sp_template_occurrence_at (rw_post r) = (if at = zero_time then None else Some at)) \<or>
     (\<exists>j q. adds_job j db db' \<and> jb_origin j = ''automation'' \<and> job_live j \<and> pl_recurring (jb_payload j) = Some q \<and>
        rc_template q = t \<and> rc_occurrence q = Some (at div nanos) \<and> rc_kind q = role \<and> Some (jb_team j) = team_of_template t db)"

lemma whole_div: "whole a \<Longrightarrow> whole b \<Longrightarrow> a div nanos = b div nanos \<Longrightarrow> a = b"
  unfolding whole_def by (metis minus_mod_eq_div_mult add.right_neutral div_mult_mod_eq)

lemma fills_round_kept:
  assumes "fills_round t at role db db'" "round_count t at role db = 0" "whole at" "a_role role" "trim_space t = t"
  shows "rounds_kept db db'"
  using assms(1) unfolding fills_round_def
proof (elim disjE exE conjE)
  fix r assume r: "adds_post r db db'" "sp_post_template_id (rw_post r) = Some t" "sp_template_post_role (rw_post r) = role"
    "sp_template_occurrence_at (rw_post r) = (if at = zero_time then None else Some at)"
  show ?thesis
  proof (rule adds_post_kept [OF r(1)])
    fix t' at' role' assume "round_post t' at' role' r"
    with r assms(2) show "round_count t' at' role' db = 0" by (auto simp: round_post_def split: if_splits)
  qed
next
  fix j q assume j: "adds_job j db db'" "pl_recurring (jb_payload j) = Some q" "rc_template q = t"
    "rc_occurrence q = Some (at div nanos)" "rc_kind q = role" "Some (jb_team j) = team_of_template t db"
  show ?thesis
  proof (rule adds_job_kept [OF j(1)])
    fix team t' at' role' assume "whole at'" "round_job team t' at' role' j"
    with j assms whole_div [of at at'] show "round_count t' at' role' db = 0" by (auto simp: round_job_def a_role_def)
  next
    show "job_shape j db" using j assms(4,5) by (auto simp: job_shape_def team_of_template_keys)
  qed
qed

lemma fills_round_count:
  assumes "fills_round t at role db db'" "at \<noteq> zero_time" "role \<noteq> []"
  shows "round_count t at role db' = round_count t at role db + 1"
  using assms unfolding fills_round_def
  by (auto simp: round_count_def adds_post_def adds_job_def team_of_template_keys template_keys_def count_where_Suc
      round_post_def round_job_def)

lemma template_in_team: "keys_ok db \<Longrightarrow> template_in t db \<Longrightarrow> team_of_template (tp_id t) db = Some (tp_team t)"
  by (simp add: keys_ok_def template_in_def team_of_template_keys)

lemma template_in_plain: "keys_ok db \<Longrightarrow> template_in t db \<Longrightarrow> tp_id t \<noteq> [] \<and> trim_space (tp_id t) = tp_id t"
  unfolding keys_ok_def template_in_def by force

lemma rounds_kept_keys: "rounds_kept db db' \<Longrightarrow> keys_ok db' = keys_ok db \<and> template_in t db' = template_in t db"
  by (simp add: rounds_kept_def keys_ok_def template_in_def)

lemma get_template_in: "get_post_template team i db = Inr t \<Longrightarrow> template_in t db \<and> tp_id t = i \<and> tp_team t = team"
  unfolding get_post_template_def template_in_def template_keys_def
  by (force dest: find_SomeD split: option.splits)

lemma look_Inr: "look x call f db = Inr v \<Longrightarrow> f db = Inr v"
  by (auto simp: look_def faulty_def reading_def split: option.splits)

lemma role_trim [simp]: "a_role role \<Longrightarrow> trim_space role = role" "a_role role \<Longrightarrow> role \<noteq> []"
  "a_role ''main''" "a_role ''announcement''"
  by (auto simp: a_role_def trim_eval)

lemma has_role_count:
  "a_role role \<Longrightarrow> has_post_template_role_materialized t at role db = Inr b \<Longrightarrow> b = (0 < round_count t at role db)"
  by (simp add: has_post_template_role_materialized_def Let_def)

lemma ensure_title_round [simp]:
  "in_post_template_id (ensure_title inp) = in_post_template_id inp"
  "in_template_occurrence_at (ensure_title inp) = in_template_occurrence_at inp"
  "in_template_post_role (ensure_title inp) = in_template_post_role inp"
  "in_draft (ensure_title inp) = in_draft inp"
  by (simp_all add: ensure_title_def)

lemma round_input_simps [simp]:
  "in_post_template_id (round_input t title content at targets draft counter occ role fb) = Some (tp_id t)"
  "in_template_occurrence_at (round_input t title content at targets draft counter occ role fb) = Some occ"
  "in_template_post_role (round_input t title content at targets draft counter occ role fb) = role"
  by (simp_all add: round_input_def)

lemma submit_recurring_rows:
  assumes "submit_recurring_ai_job m x inp db = (r, db')"
  shows "case r of Inl e \<Rightarrow> db' = db
    | Inr _ \<Rightarrow> \<exists>j. adds_job j db db' \<and> jb_team j = ji_team inp \<and> jb_origin j = (if ji_origin inp = [] then ''user'' else ji_origin inp) \<and>
        jb_payload j = ji_payload inp \<and> jb_type j = ji_type inp \<and> jb_status j = Job_Pending"
proof -
  obtain v d where s: "submit_job x (me_config m) (me_context m) inp db = (v, d)" by (metis surj_pair)
  from submit_job_rows [OF s] s assms show ?thesis
    by (auto simp: submit_recurring_ai_job_def split: sum.splits if_splits)
qed

lemma job_or_post_cases:
  assumes "job_or_post m x t enhance job inp occ role db = (r, db')"
  obtains (job) j where "r = Inr ()" "adds_job j db db'" "jb_team j = ji_team job"
      "jb_origin j = (if ji_origin job = [] then ''user'' else ji_origin job)" "jb_payload j = ji_payload job" "jb_status j = Job_Pending"
  | (post) c where "create_automation_post x (tp_team t) (system_principal (tp_author t)) (inp enhance) (round_meta t occ role enhance)
                  no_follow_up db = (c, db')" "r = (case c of Inl e \<Rightarrow> Inl e | Inr _ \<Rightarrow> Inr ())"
proof -
  obtain v d where v: "(if enhance then submit_recurring_ai_job m x job db else (Inl (Refused []), db)) = (v, d)" by (metis surj_pair)
  show thesis
  proof (cases v)
    case (Inr u)
    with v have "submit_recurring_ai_job m x job db = (Inr (), d)" by (auto split: if_splits)
    from submit_recurring_rows [OF this] assms v Inr job show thesis by (auto simp: job_or_post_def)
  next
    case (Inl e)
    then have "d = db" using v submit_recurring_rows [of m x job db v d] by (auto split: if_splits)
    with assms v Inl post show thesis by (auto simp: job_or_post_def split: prod.splits sum.splits)
  qed
qed

lemma job_or_post_fails:
  assumes "job_or_post m x t enhance job inp occ role db = (Inl e, db')"
  shows "db' = db"
  using assms
proof (cases rule: job_or_post_cases)
  case (post c)
  then show ?thesis using create_automation_post_rows [OF post(1)] by (auto split: sum.splits)
qed simp

lemma job_or_post_fills:
  assumes "job_or_post m x t enhance (recurring_job t role content title at draft targets counter occ)
      (round_input t title' content' at' targets' draft' counter' occ role) occ role db = (Inr (), db')"
    and keys: "keys_ok db" "template_in t db" and role: "a_role role" and free: "round_count (tp_id t) occ role db = 0"
  shows "fills_round (tp_id t) occ role db db'"
  using assms(1)
proof (cases rule: job_or_post_cases)
  case (job j)
  then have "adds_job j db db' \<and> jb_origin j = ''automation'' \<and> job_live j \<and> Some (jb_team j) = team_of_template (tp_id t) db \<and>
     (\<exists>q. pl_recurring (jb_payload j) = Some q \<and> rc_template q = tp_id t \<and> rc_occurrence q = Some (occ div nanos) \<and> rc_kind q = role)"
    by (simp add: recurring_job_def job_live_def template_in_team [OF keys])
  then show ?thesis unfolding fills_round_def by blast
next
  case (post c)
  let ?inp = "round_input t title' content' at' targets' draft' counter' occ role enhance"
  have "round_taken x ?inp db \<noteq> Inr True"
    using free role by (auto simp: round_taken_def dest!: look_Inr has_role_count [OF role] split: sum.splits)
  with post create_automation_post_rows [OF post(1)]
  have "adds_post (new_post_row (ax_now x) (ax_fresh x ''post'') (tp_team t) (system_principal (tp_author t)) ?inp) db db'"
    by (auto split: sum.splits option.splits)
  then show ?thesis using role template_in_plain [OF keys]
    unfolding fills_round_def
    by (intro disjI1 exI conjI) (auto simp: new_post_row_simps trimmed_ref_def split: if_splits)
qed

section \<open>Materializing keeps rounds single\<close>

lemma create_main_cases:
  assumes "create_scheduled_post_from_template m t at occ ''main'' db = (Inr (), db')" "keys_ok db" "template_in t db"
  shows "0 < round_count (tp_id t) occ ''main'' db \<and> db' = db \<or>
    round_count (tp_id t) occ ''main'' db = 0 \<and> fills_round (tp_id t) occ ''main'' db db'"
proof -
  let ?x = "for_round ''main'' occ (me_auto m)"
  from assms(1) obtain b where b: "look ?x ''exists'' (has_post_template_role_materialized (tp_id t) occ ''main'') db = Inr b"
    and r: "if b then db' = db else create_scheduled_post_from_template_once m t at occ ''main'' db = (Inr (), db')"
    by (auto simp: create_scheduled_post_from_template_def with_audit_transaction_def Let_def split: prod.splits sum.splits bool.splits)
  have b': "b = (0 < round_count (tp_id t) occ ''main'' db)" by (rule has_role_count [OF _ look_Inr [OF b]]) simp
  show ?thesis
  proof (cases b)
    case True
    with r b' show ?thesis by simp
  next
    case False
    with r b' have "round_count (tp_id t) occ ''main'' db = 0"
      "create_scheduled_post_from_template_once m t at occ ''main'' db = (Inr (), db')" by simp_all
    then show ?thesis
      by (auto simp: create_scheduled_post_from_template_once_def Let_def intro!: job_or_post_fills [OF _ assms(2,3)] split: prod.splits)
  qed
qed

lemma create_main_fails: "create_scheduled_post_from_template m t at occ role db = (Inl e, db') \<Longrightarrow> db' = db"
  by (auto simp: create_scheduled_post_from_template_def with_audit_transaction_def split: prod.splits sum.splits)

lemma count_announcement_same: "count_announcement x t advance db = (r, db') \<Longrightarrow> same_rounds db db'"
  by (auto simp: count_announcement_def faulty_def always_def split: if_splits option.splits)

lemma announcement_cases:
  assumes "materialize_announcement m t main advance db = (Inr (), db')" "keys_ok db" "template_in t db"
  shows "db' = db \<or> (\<exists>d. round_count (tp_id t) main ''announcement'' db = 0 \<and>
    fills_round (tp_id t) main ''announcement'' db d \<and>
    count_announcement (for_round ''announcement'' main (me_auto m)) t advance d = (Inr (), db'))"
proof (cases "db' = db")
  case False
  let ?x = "for_round ''announcement'' main (me_auto m)"
  from assms(1) False have e: "look ?x ''exists'' (has_post_template_role_materialized (tp_id t) main ''announcement'') db = Inr False"
    and a: "announce m ?x t main advance db = (Inr (), db')"
    by (auto simp: materialize_announcement_def Let_def split: if_splits sum.splits bool.splits)
  have free: "round_count (tp_id t) main ''announcement'' db = 0"
    using has_role_count [OF _ look_Inr [OF e]] by simp
  from a obtain d where "fills_round (tp_id t) main ''announcement'' db d" "count_announcement ?x t advance d = (Inr (), db')"
    by (auto simp: announce_def Let_def and_then_Inr dest: job_or_post_fills [OF _ assms(2,3) _ free])
  with free show ?thesis by blast
qed simp

lemma create_main_kept:
  assumes "create_scheduled_post_from_template m t at occ ''main'' db = (Inr (), db')" "keys_ok db" "template_in t db" "whole occ"
  shows "rounds_kept db db'"
  using create_main_cases [OF assms(1-3)] fills_round_kept [OF _ _ assms(4)] template_in_plain [OF assms(2,3)] by auto

lemma announcement_kept:
  assumes "materialize_announcement m t main advance db = (Inr (), db')" "keys_ok db" "template_in t db" "whole main"
  shows "rounds_kept db db'"
  using announcement_cases [OF assms(1-3)]
proof (elim disjE exE conjE)
  fix d
  assume "round_count (tp_id t) main ''announcement'' db = 0" "fills_round (tp_id t) main ''announcement'' db d"
    and c: "count_announcement (for_round ''announcement'' main (me_auto m)) t advance d = (Inr (), db')"
  then have "rounds_kept db d" using fills_round_kept [OF _ _ assms(4)] template_in_plain [OF assms(2,3)] by simp
  from rounds_kept_trans [OF this same_rounds_kept [OF count_announcement_same [OF c]]] show ?thesis .
qed simp

section \<open>Whole seconds\<close>

lemma time_date_whole: "ns mod nanos = 0 \<Longrightarrow> whole (time_date loc y mo d h mi s ns)"
  by (simp add: whole_def time_date_def Let_def)

lemma add_date_whole: "whole t \<Longrightarrow> whole (add_date loc t y m d)"
  by (simp add: add_date_def whole_def time_date_whole [unfolded whole_def] split: prod.splits)

lemma earliest_whole:
  "earliest_occurrence rule ref loc yy mm best os = Some t \<Longrightarrow> (\<And>b. best = Some b \<Longrightarrow> whole b) \<Longrightarrow> whole t"
proof (induction os arbitrary: best)
  case (Cons o1 os)
  show ?case
    by (rule Cons.IH [OF Cons.prems(1) [unfolded earliest_occurrence.simps]])
       (use Cons.prems(2) in \<open>auto simp: Let_def time_date_whole split: option.splits if_splits\<close>)
qed simp

lemma tries_whole:
  "weekly_try rule ref loc day_start d = Some t \<Longrightarrow> whole t"
  "monthly_dom_try rule ref loc y mo i = Some t \<Longrightarrow> whole t"
  "monthly_anchor_try rule ref loc y mo i = Some t \<Longrightarrow> whole t"
  "monthly_ordinal_try rule ref loc y mo i = Some t \<Longrightarrow> whole t"
  by (auto simp: weekly_try_def monthly_dom_try_def monthly_anchor_try_def monthly_ordinal_try_def Let_def time_date_whole
      dest: earliest_whole split: prod.splits if_splits)

lemma next_slot_whole:
  assumes "next_slot m raw after = Some t" "whole after"
  shows "whole t"
proof -
  have "whole (next_weekly rule after loc)" "whole (next_monthly_dom rule after loc)"
    "whole (next_monthly_anchor_offset rule after loc)" "whole (next_monthly_ordinal_weekday rule after loc)" for rule loc
    using assms(2) add_date_whole
    by (auto simp: next_weekly_def next_monthly_dom_def next_monthly_anchor_offset_def Let_def
        next_monthly_ordinal_weekday_def dest!: search_SomeD tries_whole split: prod.splits option.splits)
  with assms(1) show ?thesis
    by (auto simp: next_slot_def next_occurrence_def Let_def split: sum.splits if_splits)
qed

lemma next_slot_later: "next_slot m raw after = Some t \<Longrightarrow> after < t"
  by (auto simp: next_slot_def dest: next_occurrence_after_aux split: sum.splits)

definition single_rounds :: "store_db \<Rightarrow> store_db \<Rightarrow> bool" where
  "single_rounds db db' \<longleftrightarrow> (keys_ok db \<and> instants_ok db \<longrightarrow> rounds_kept db db' \<and> instants_ok db')"

lemma single_rounds_refl [simp]: "single_rounds db db" by (simp add: single_rounds_def)

lemma single_rounds_trans: "single_rounds a b \<Longrightarrow> single_rounds b c \<Longrightarrow> single_rounds a c"
  unfolding single_rounds_def using rounds_kept_trans rounds_kept_keys by blast

lemma single_rounds_transaction:
  assumes "\<And>v db'. body db = (Inr v, db') \<Longrightarrow> single_rounds db db'" "with_audit_transaction body db = (r, db')"
  shows "single_rounds db db'"
  using assms(2) assms(1) by (cases "body db") (auto simp: with_audit_transaction_def split: sum.splits)

definition same_clock :: "store_db \<Rightarrow> store_db \<Rightarrow> bool" where
  "same_clock db db' \<longleftrightarrow> sd_templates db' = sd_templates db \<and> sd_skips db' = sd_skips db \<and> sd_posts db' = sd_posts db"

lemma same_clock_ok: "same_clock db db' \<Longrightarrow> instants_ok db' = instants_ok db"
  by (simp add: same_clock_def instants_ok_def)

lemma on_template_clock:
  assumes "instants_ok db" "\<And>t n. tp_next (f t) = Some n \<Longrightarrow> tp_next t = Some n \<or> whole n"
  shows "instants_ok (on_template i f db)"
  using assms unfolding instants_ok_def on_template_def update_where_def by fastforce

lemma fills_round_clock:
  assumes "fills_round t at role db db'" "instants_ok db" "whole at"
  shows "instants_ok db'"
  using assms(1) unfolding fills_round_def
  using assms(2,3) by (auto simp: adds_post_def adds_job_def instants_ok_def split: if_splits)

lemma advance_schedule_single:
  assumes "advance_schedule m t occ next_at c db = (r, db')" "whole next_at"
  shows "single_rounds db db' \<and> same_rounds db db'"
proof -
  have "instants_ok db \<Longrightarrow> instants_ok (advance_post_template_schedule now i (Some next_at) c db)" for now i
    unfolding advance_post_template_schedule_def using assms(2) by (intro on_template_clock) auto
  with assms(1) show ?thesis
    by (auto simp: advance_schedule_def Let_def faulty_def always_def single_rounds_def same_rounds_kept split: option.splits)
qed

lemma create_main_single:
  assumes "create_scheduled_post_from_template m t at occ ''main'' db = (Inr (), db')" "template_in t db" "whole occ"
  shows "single_rounds db db'"
  unfolding single_rounds_def
proof
  assume ok: "keys_ok db \<and> instants_ok db"
  from create_main_cases [OF assms(1) _ assms(2)] create_main_kept [OF assms(1) _ assms(2,3)] fills_round_clock [OF _ _ assms(3)] ok
  show "rounds_kept db db' \<and> instants_ok db'" by auto
qed

lemma announcement_single:
  assumes "materialize_announcement m t main advance db = (Inr (), db')" "template_in t db" "whole main"
  shows "single_rounds db db'"
  unfolding single_rounds_def
proof
  assume ok: "keys_ok db \<and> instants_ok db"
  have "instants_ok d \<Longrightarrow> instants_ok (advance_post_template_announcement_counter now i c d)" for now i c d
    unfolding advance_post_template_announcement_counter_def by (rule on_template_clock) auto
  then have count: "instants_ok d \<Longrightarrow> count_announcement x t a d = (Inr (), d') \<Longrightarrow> instants_ok d'" for x a d d'
    by (auto simp: count_announcement_def faulty_def always_def split: if_splits option.splits)
  from announcement_cases [OF assms(1) _ assms(2)] ok fills_round_clock [OF _ _ assms(3)] count
  have "instants_ok db'" by blast
  with announcement_kept [OF assms(1) _ assms(2,3)] ok show "rounds_kept db db' \<and> instants_ok db'" by simp
qed

lemma single_rounds_in: "single_rounds db db' \<Longrightarrow> keys_ok db \<Longrightarrow> instants_ok db \<Longrightarrow> template_in t db' = template_in t db"
  by (simp add: single_rounds_def rounds_kept_keys)

text \<open>Templates in the tables stay there, under the same team.\<close>

definition keeps_templates :: "store_db \<Rightarrow> store_db \<Rightarrow> bool" where
  "keeps_templates db db' \<longleftrightarrow> template_keys db' = template_keys db"

lemma materialize_round_D:
  assumes "materialize_round m t occ at next_at db = (Inr b, db')"
  obtains ex d1 d2 where "ex = (0 < round_count (tp_id t) at ''main'' db)"
    "if ex then d1 = db else create_scheduled_post_from_template m t at at ''main'' db = (Inr (), d1)"
    "advance_schedule m t occ next_at (if ex then tp_counter t else tp_counter t + 1) d1 = (Inr (), d2)"
    "materialize_announcement m t at (\<not> ex) d2 = (Inr (), db')" "b"
proof -
  from assms obtain ex where l: "look (for_round ''main'' occ (me_auto m)) ''main exists''
      (has_post_template_role_materialized (tp_id t) at ''main'') db = Inr ex"
    by (auto simp: materialize_round_def Let_def split: sum.splits)
  have e: "ex = (0 < round_count (tp_id t) at ''main'' db)" by (rule has_role_count [OF _ look_Inr [OF l]]) simp
  show thesis
  proof (cases ex)
    case True
    with assms l obtain d2 where "advance_schedule m t occ next_at (tp_counter t) db = (Inr (), d2)"
      "materialize_announcement m t at False d2 = (Inr (), db')" "b"
      by (auto simp: materialize_round_def Let_def and_then_Inr)
    then show thesis by (intro that [of True db d2]) (use e True in simp_all)
  next
    case False
    with assms l obtain d1 d2 where "create_scheduled_post_from_template m t at at ''main'' db = (Inr (), d1)"
      "advance_schedule m t occ next_at (tp_counter t + 1) d1 = (Inr (), d2)"
      "materialize_announcement m t at True d2 = (Inr (), db')" "b"
      by (auto simp: materialize_round_def Let_def and_then_Inr)
    then show thesis by (intro that [of False d1 d2]) (use e False in simp_all)
  qed
qed

lemma materialize_round_single:
  assumes "materialize_round m t occ at next_at db = (Inr b, db')" "template_in t db" "whole at" "whole next_at"
  shows "single_rounds db db'"
  unfolding single_rounds_def
proof
  assume ok: "keys_ok db \<and> instants_ok db"
  from assms(1) obtain ex d1 d2 where
    c: "if ex then d1 = db else create_scheduled_post_from_template m t at at ''main'' db = (Inr (), d1)"
    and a: "advance_schedule m t occ next_at (if ex then tp_counter t else tp_counter t + 1) d1 = (Inr (), d2)"
    and n: "materialize_announcement m t at (\<not> ex) d2 = (Inr (), db')"
    by (elim materialize_round_D)
  have s1: "single_rounds db d1" using c create_main_single [OF _ assms(2,3)] by (cases ex) auto
  have s2: "single_rounds d1 d2" using advance_schedule_single [OF a assms(4)] by simp
  note s12 = single_rounds_trans [OF s1 s2]
  have "template_in t d2" using single_rounds_in [OF s12] ok assms(2) by simp
  from single_rounds_trans [OF s12 announcement_single [OF n this assms(3)]] ok
  show "rounds_kept db db' \<and> instants_ok db'" by (simp add: single_rounds_def)
qed

lemma shift_whole:
  assumes "instants_ok db" "maybe_shift_occurrence m t occ db = Some at"
  shows "whole at"
proof -
  from assms(2) obtain s where "find_skip (tp_id t) occ db = Some s" "sk_shift s = Some at"
    by (auto simp: maybe_shift_occurrence_def get_post_template_shift_to_def dest!: look_Inr split: sum.splits option.splits)
  with assms(1) show ?thesis unfolding find_skip_def instants_ok_def by (blast dest: find_SomeD)
qed

lemma materialize_once_single:
  assumes "materialize_template_occurrence_once m t occ db = (Inr b, db')" "template_in t db" "whole occ"
  shows "single_rounds db db'"
  unfolding single_rounds_def
proof (intro impI)
  assume ok: "keys_ok db \<and> instants_ok db"
  have "single_rounds db db'"
  proof (cases "next_slot m (tp_recurrence t) occ")
    case None
    with assms(1) show ?thesis by (simp add: materialize_template_occurrence_once_def)
  next
    case (Some next_at)
    note w = next_slot_whole [OF Some assms(3)]
    from assms(1) Some consider "materialize_round m t occ occ next_at db = (Inr b, db')"
      | at where "maybe_shift_occurrence m t occ db = Some at" "materialize_round m t occ at next_at db = (Inr b, db')"
      | "advance_schedule m t occ next_at (tp_counter t) db = (Inr (), db')"
      by (auto simp: materialize_template_occurrence_once_def and_then_Inr split: sum.splits bool.splits option.splits)
    then show ?thesis
    proof cases
      case 1
      then show ?thesis by (rule materialize_round_single [OF _ assms(2,3) w])
    next
      case (2 at)
      with ok shift_whole have "whole at" by blast
      with 2 show ?thesis by (blast intro: materialize_round_single [OF _ assms(2) _ w])
    next
      case 3
      then show ?thesis using advance_schedule_single [OF _ w] by simp
    qed
  qed
  with ok show "rounds_kept db db' \<and> instants_ok db'" by (simp add: single_rounds_def)
qed

lemma get_template_clock: "instants_ok db \<Longrightarrow> get_post_template team i db = Inr t \<Longrightarrow> tp_next t = Some n \<Longrightarrow> whole n"
  by (auto simp: get_post_template_def instants_ok_def dest!: find_SomeD split: option.splits)

lemma materialize_occurrence_single:
  assumes "materialize_template_occurrence m t occ db = (r, db')" "whole occ" "template_in t db"
  shows "single_rounds db db'"
  using assms(1) unfolding materialize_template_occurrence_def
proof (rule single_rounds_transaction [rotated])
  fix v d
  assume "(let x = for_round ''main'' occ (me_auto m) in
       case look x ''cursor lock'' (lock_automation_source ''post_template'' (tp_id t)) db of
         Inl e \<Rightarrow> (Inl e, db)
       | Inr _ \<Rightarrow>
           (case look x ''cursor'' (get_post_template (tp_team t) (tp_id t)) db of
              Inl e \<Rightarrow> (Inl e, db)
            | Inr fresh \<Rightarrow>
                if tp_id fresh = [] then materialize_template_occurrence_once m t occ db
                else if tp_next fresh \<noteq> Some occ then (Inr False, db)
                else materialize_template_occurrence_once m fresh occ db)) = (Inr v, d)"
  then consider "d = db" | "materialize_template_occurrence_once m t occ db = (Inr v, d)"
    | fresh where "get_post_template (tp_team t) (tp_id t) db = Inr fresh" "materialize_template_occurrence_once m fresh occ db = (Inr v, d)"
    by (auto simp: Let_def dest!: look_Inr split: sum.splits if_splits)
  then show "single_rounds db d"
  proof cases
    case 2
    then show ?thesis by (rule materialize_once_single [OF _ assms(3,2)])
  next
    case (3 fresh)
    with get_template_in show ?thesis by (blast intro: materialize_once_single [OF _ _ assms(2)])
  qed simp
qed

lemma materialize_loop_single:
  assumes "materialize_loop n m end_at t db = (r, db')" "template_in t db" "\<And>k. tp_next t = Some k \<Longrightarrow> whole k"
  shows "single_rounds db db'"
  using assms
proof (induction n arbitrary: t db)
  case (Suc n)
  show ?case unfolding single_rounds_def
  proof
    assume ok: "keys_ok db \<and> instants_ok db"
    have "single_rounds db db'"
    proof (cases "tp_next t")
      case None
      with Suc.prems(1) show ?thesis by simp
    next
      case (Some occ)
      obtain v d where v: "materialize_template_occurrence m t occ db = (v, d)" by (metis surj_pair)
      from materialize_occurrence_single [OF v _ Suc.prems(2)] Suc.prems(3) Some have s: "single_rounds db d" by simp
      from Suc.prems(1) Some v consider "db' = db" | "db' = d"
        | t' where "get_post_template (tp_team t) (tp_id t) d = Inr t'" "materialize_loop n m end_at t' d = (r, db')"
        by (auto dest!: look_Inr split: if_splits sum.splits bool.splits)
      then show ?thesis
      proof cases
        case (3 t')
        have "instants_ok d" using s ok by (simp add: single_rounds_def)
        from Suc.IH [OF 3(2)] get_template_in [OF 3(1)] get_template_clock [OF this 3(1)] have "single_rounds d db'" by blast
        with s show ?thesis by (rule single_rounds_trans)
      qed (use s in simp_all)
    qed
    with ok show "rounds_kept db db' \<and> instants_ok db'" by (simp add: single_rounds_def)
  qed
qed simp

section \<open>Changes keep rounds single\<close>

lemma count_update_le: "(\<And>x. q x \<Longrightarrow> p (f x) \<Longrightarrow> p x) \<Longrightarrow> count_where p (update_where q f rows) \<le> count_where p rows"
  by (induction rows) (auto simp: count_where_def update_where_def)

lemma count_delete_le: "count_where p (delete_where q rows) \<le> count_where p rows"
  by (induction rows) (auto simp: count_where_def delete_where_def)

lemma claim_single:
  assumes "claim_ai_job_completion now i status result err db = (r, db')"
  shows "single_rounds db db'"
proof -
  have "rounds_kept db db'"
    by (rule rounds_keptI) (use assms in \<open>auto simp: claim_ai_job_completion_def Let_def template_keys_def round_job_def
        job_live_def job_final_def job_shapes_def map_update_where_key split: if_splits intro!: count_update_le\<close>)
  moreover have "same_clock db db'"
    using assms by (auto simp: claim_ai_job_completion_def Let_def same_clock_def split: if_splits)
  ultimately show ?thesis by (simp add: single_rounds_def same_clock_ok)
qed

lemma event_single: "insert_audit_event now fresh e db = (r, db') \<Longrightarrow> single_rounds db db' \<and> same_clock db db'"
  by (auto simp: insert_audit_event_def Let_def single_rounds_def same_clock_def instants_ok_def
      split: if_splits intro!: rounds_keptI simp: template_keys_def job_shapes_def)

lemma faulty_single:
  assumes "faulty e call f db = (r, db')" "\<And>v d. f db = (v, d) \<Longrightarrow> single_rounds db d"
  shows "single_rounds db db'"
  using assms by (auto elim: faulty_cases)

lemma cancel_each_single: "cancel_each x team t js db = (r, db') \<Longrightarrow> single_rounds db db'"
proof (induction js arbitrary: db)
  case (Cons j js)
  obtain v d where v: "faulty (ax_env x) (''claim '' @ jb_id j) (claim_ai_job_completion (ax_now x) (jb_id j) Job_Failed [] ''cancelled'') db = (v, d)"
    by (metis surj_pair)
  then have s1: "single_rounds db d" by (rule faulty_single) (rule claim_single)
  obtain u d2 where u: "faulty (ax_env x) (''cancel event '' @ jb_id j) (insert_audit_event (ax_now x) (ax_fresh x (''cancel '' @ jb_id j))
                  (recurring_cancel_event x team t j)) d = (u, d2)" by (metis surj_pair)
  then have s2: "single_rounds d d2" by (rule faulty_single) (simp add: event_single)
  from Cons.prems v u consider "db' = d" | "cancel_each x team t js d = (r, db')" | "db' = d2" | "cancel_each x team t js d2 = (r, db')"
    by (auto split: sum.splits bool.splits)
  then show ?case using s1 s2 Cons.IH single_rounds_trans by cases blast+
qed simp

lemma cancel_matching_single:
  "cancel_pending_recurring_ai_jobs_matching x team t match db = (r, db') \<Longrightarrow> single_rounds db db'"
  by (auto simp: cancel_pending_recurring_ai_jobs_matching_def intro: cancel_each_single split: sum.splits)

lemma delete_rows_single: "single_rounds db (delete_post_rows p db)"
proof -
  have "rounds_kept db (delete_post_rows p db)"
    by (rule rounds_keptI) (simp_all add: delete_post_rows_def Let_def template_keys_def count_delete_le job_shapes_def)
  moreover have "instants_ok db \<Longrightarrow> instants_ok (delete_post_rows p db)"
    by (auto simp: instants_ok_def delete_post_rows_def Let_def)
  ultimately show ?thesis by (simp add: single_rounds_def)
qed

lemma delete_linked_rows_single: "delete_post_template_linked_posts team t ids db = (n, db') \<Longrightarrow> single_rounds db db'"
proof (induction ids arbitrary: db n)
  case (Cons i ids)
  then show ?case using delete_rows_single single_rounds_trans
    by (fastforce simp: Let_def split: prod.splits)
qed simp

lemma delete_linked_single: "delete_linked_posts x team t ps db = (r, db') \<Longrightarrow> single_rounds db db'"
  unfolding delete_linked_posts_def
  by (erule faulty_single) (auto dest: delete_linked_rows_single split: prod.splits)

lemma rematerialize_single:
  assumes "rematerialize_occurrence m t occ main ann db = (Inr u, db')" "template_in t db" "whole occ"
  shows "single_rounds db db'"
  unfolding single_rounds_def
proof
  assume ok: "keys_ok db \<and> instants_ok db"
  let ?t = "t\<lparr>tp_counter := main, tp_ann_counter := ann\<rparr>"
  let ?at = "case maybe_shift_occurrence m ?t occ db of None \<Rightarrow> occ | Some s \<Rightarrow> s"
  have at: "whole ?at" using assms(3) ok shift_whole by (auto split: option.split)
  from assms(1) obtain d where c: "create_scheduled_post_from_template m ?t ?at occ ''main'' db = (Inr (), d)"
    and a: "materialize_announcement m ?t ?at False d = (Inr (), db')"
    by (auto simp: rematerialize_occurrence_def Let_def and_then_Inr)
  have i: "template_in ?t db" using assms(2) by (simp add: template_in_def)
  from create_main_single [OF c i assms(3)] have s: "single_rounds db d" .
  have "template_in ?t d" using single_rounds_in [OF s] ok i by simp
  from single_rounds_trans [OF s announcement_single [OF a this at]] ok show "rounds_kept db db' \<and> instants_ok db'"
    by (simp add: single_rounds_def)
qed

lemma rewind_D:
  assumes "rewind_and_walk m team i again match start main ann db = (Inr n, db')"
  obtains d1 d2 d3 fresh where "cancel_pending_recurring_ai_jobs_matching (me_auto m) team i match db = (Inr (), d1)"
    "delete_linked_posts (me_auto m) team i again d1 = (Inr n, d2)"
    "faulty (ax_env (me_auto m)) ''rewind''
       (always (set_post_template_materialization_state (ax_now (me_auto m)) i (Some start) main ann)) d2 = (Inr (), d3)"
    "get_post_template team i d3 = Inr fresh" "materialize_template_horizon m fresh (ax_now (me_auto m)) d3 = (Inr (), db')"
  using assms
  by (auto simp: rewind_and_walk_def Let_def and_then_def dest!: look_Inr split: prod.splits sum.splits)

lemma rewind_single:
  assumes "rewind_and_walk m team i again match start main ann db = (Inr n, db')" "whole start"
  shows "single_rounds db db'"
  unfolding single_rounds_def
proof
  assume ok: "keys_ok db \<and> instants_ok db"
  let ?x = "me_auto m"
  from assms(1) obtain d1 d2 d3 fresh where
    c: "cancel_pending_recurring_ai_jobs_matching ?x team i match db = (Inr (), d1)"
    and d: "delete_linked_posts ?x team i again d1 = (Inr n, d2)"
    and s: "faulty (ax_env ?x) ''rewind'' (always (set_post_template_materialization_state (ax_now ?x) i (Some start) main ann)) d2 = (Inr (), d3)"
    and f: "get_post_template team i d3 = Inr fresh"
    and w: "materialize_template_horizon m fresh (ax_now ?x) d3 = (Inr (), db')"
    by (elim rewind_D)
  have "instants_ok e \<Longrightarrow> instants_ok (set_post_template_materialization_state now i (Some start) main ann e)" for now e
    unfolding set_post_template_materialization_state_def using assms(2) by (intro on_template_clock) auto
  then have "single_rounds d2 d3"
    using s by (auto simp: faulty_def always_def single_rounds_def same_rounds_kept split: option.splits)
  with cancel_matching_single [OF c] delete_linked_single [OF d] have s3: "single_rounds db d3" using single_rounds_trans by blast
  then have "instants_ok d3" using ok by (simp add: single_rounds_def)
  from materialize_loop_single [OF w [unfolded materialize_template_horizon_def]] get_template_in [OF f] get_template_clock [OF this f]
  have "single_rounds d3 db'" by blast
  from single_rounds_trans [OF s3 this] ok show "rounds_kept db db' \<and> instants_ok db'" by (simp add: single_rounds_def)
qed

lemma mutate_single:
  assumes "mutate_post_template x t body db = (r, db')" "\<And>v d. body db = (Inr v, d) \<Longrightarrow> single_rounds db d"
  shows "single_rounds db db'"
  using assms(1) unfolding mutate_post_template_def
  by (rule single_rounds_transaction [rotated]) (use assms(2) in \<open>auto split: sum.splits\<close>)

lemma linked_post_row:
  assumes "p \<in> set (list_post_template_linked_posts team t db)"
  shows "\<exists>r \<in> set (sd_posts db). rw_id r = lp_id p \<and> rw_status r = lp_status p \<and> rw_team r = team \<and>
    sp_post_template_id (rw_post r) = Some t \<and> sp_template_occurrence_at (rw_post r) = Some (lp_at p) \<and> rw_status r \<noteq> Cancelled"
  using assms by (auto simp: list_post_template_linked_posts_def)

lemma linked_whole: "instants_ok db \<Longrightarrow> p \<in> set (list_post_template_linked_posts team t db) \<Longrightarrow> whole (lp_at p)"
  unfolding instants_ok_def using linked_post_row by fastforce

lemma regenerate_occurrence_D:
  assumes "regenerate_occurrence_body m team i occ db = (Inr v, db')"
  obtains t main ann d1 d2 n where "get_post_template team i db = Inr t"
    "filter_linked_posts_for_occurrence (list_post_template_linked_posts team i db) occ \<noteq> []"
    "blocked_linked_posts (filter_linked_posts_for_occurrence (list_post_template_linked_posts team i db) occ) = []"
    "cancel_pending_recurring_ai_jobs_matching (me_auto m) team i (\<lambda>at. at = Some occ) db = (Inr (), d1)"
    "delete_linked_posts (me_auto m) team i
       (regenerable_linked_posts (filter_linked_posts_for_occurrence (list_post_template_linked_posts team i db) occ)) d1 = (Inr n, d2)"
    "rematerialize_occurrence m t occ main ann d2 = (Inr (), db')"
proof -
  from assms obtain t linked where t: "look (me_auto m) ''template'' (get_post_template team i) db = Inr t"
    and l: "look (me_auto m) ''linked'' (\<lambda>db. Inr (list_post_template_linked_posts team i db)) db = Inr linked"
    by (auto simp: regenerate_occurrence_body_def Let_def split: sum.splits)
  have l': "linked = list_post_template_linked_posts team i db" using look_Inr [OF l] by simp
  let ?scope = "filter_linked_posts_for_occurrence linked occ"
  obtain main ann where c: "(case counters_for_occurrence ?scope occ of
     Some c \<Rightarrow> c | None \<Rightarrow> (at_least_one (tp_counter t), at_least_one (tp_ann_counter t))) = (main, ann)" by (metis surj_pair)
  from assms t l c obtain d1 n d2 where "?scope \<noteq> []" "blocked_linked_posts ?scope = []"
    "cancel_pending_recurring_ai_jobs_matching (me_auto m) team i (\<lambda>at. at = Some occ) db = (Inr (), d1)"
    "delete_linked_posts (me_auto m) team i (regenerable_linked_posts ?scope) d1 = (Inr n, d2)"
    "rematerialize_occurrence m t occ main ann d2 = (Inr (), db')"
    by (auto simp: regenerate_occurrence_body_def Let_def and_then_Inr split: if_splits)
  then show thesis using l' that look_Inr [OF t] by blast
qed

lemma regenerate_occurrence_single:
  assumes "regenerate_post_template_occurrence m team i occ db = (r, db')"
  shows "single_rounds db db'"
  using assms unfolding regenerate_post_template_occurrence_def
proof (rule mutate_single)
  fix v d assume b: "regenerate_occurrence_body m team i occ db = (Inr v, d)"
  show "single_rounds db d" unfolding single_rounds_def
  proof
    assume ok: "keys_ok db \<and> instants_ok db"
    from b obtain t main ann d1 d2 n where t: "get_post_template team i db = Inr t"
      and s: "filter_linked_posts_for_occurrence (list_post_template_linked_posts team i db) occ \<noteq> []"
      and c: "cancel_pending_recurring_ai_jobs_matching (me_auto m) team i (\<lambda>at. at = Some occ) db = (Inr (), d1)"
      and e: "delete_linked_posts (me_auto m) team i
       (regenerable_linked_posts (filter_linked_posts_for_occurrence (list_post_template_linked_posts team i db) occ)) d1 = (Inr n, d2)"
      and m: "rematerialize_occurrence m t occ main ann d2 = (Inr (), d)"
      by (elim regenerate_occurrence_D)
    have w: "whole occ" using s linked_whole ok by (force simp: filter_linked_posts_for_occurrence_def filter_empty_conv)
    have s2: "single_rounds db d2"
      using cancel_matching_single [OF c] delete_linked_single [OF e] single_rounds_trans by blast
    then have "template_in t d2" using single_rounds_in [OF s2] ok get_template_in [OF t] by simp
    from single_rounds_trans [OF s2 rematerialize_single [OF m this w]] ok show "rounds_kept db d \<and> instants_ok d"
      by (simp add: single_rounds_def)
  qed
qed

lemma regenerate_horizon_D:
  assumes "regenerate_horizon_body m team i db = (Inr v, db')"
  obtains t end_at main ann n where "get_post_template team i db = Inr t"
    "regenerable_linked_posts (filter_linked_posts_for_horizon (list_post_template_linked_posts team i db) (ax_now (me_auto m)) end_at) \<noteq> []"
    "blocked_linked_posts (filter_linked_posts_for_horizon (list_post_template_linked_posts team i db) (ax_now (me_auto m)) end_at) = []"
    "rewind_and_walk m team i
       (regenerable_linked_posts (filter_linked_posts_for_horizon (list_post_template_linked_posts team i db) (ax_now (me_auto m)) end_at)) (\<lambda>_. True)
       (hd (unique_occurrences (regenerable_linked_posts
          (filter_linked_posts_for_horizon (list_post_template_linked_posts team i db) (ax_now (me_auto m)) end_at)))) main ann db = (Inr n, db')"
proof -
  let ?now = "ax_now (me_auto m)"
  from assms obtain t linked where t: "look (me_auto m) ''template'' (get_post_template team i) db = Inr t"
    and l: "look (me_auto m) ''linked'' (\<lambda>db. Inr (list_post_template_linked_posts team i db)) db = Inr linked"
    by (auto simp: regenerate_horizon_body_def Let_def split: sum.splits)
  have l': "linked = list_post_template_linked_posts team i db" using look_Inr [OF l] by simp
  define end_at where "end_at = (if tp_horizon_days t \<le> 0 then ?now + 366 * 24 * 3600 * nanos else materialize_horizon_end ?now (tp_horizon_days t))"
  let ?scope = "filter_linked_posts_for_horizon linked ?now end_at"
  from assms t l obtain main ann n where "blocked_linked_posts ?scope = []" "regenerable_linked_posts ?scope \<noteq> []"
    "rewind_and_walk m team i (regenerable_linked_posts ?scope) (\<lambda>_. True) (hd (unique_occurrences (regenerable_linked_posts ?scope))) main ann db = (Inr n, db')"
    unfolding end_at_def
    by (auto simp: regenerate_horizon_body_def Let_def and_then_Inr simp del: materialize_horizon_end_def split: if_splits option.splits prod.splits)
  then show thesis using l' that look_Inr [OF t] by blast
qed

lemma hd_occurrence:
  assumes "ps \<noteq> []"
  shows "hd (unique_occurrences ps) \<in> lp_at ` set ps"
proof -
  have s: "set (unique_occurrences ps) = lp_at ` set ps" by (simp add: unique_occurrences_def)
  have "unique_occurrences ps \<noteq> []"
  proof
    assume "unique_occurrences ps = []"
    with s assms show False by simp
  qed
  with s show ?thesis by (metis hd_in_set)
qed

lemma regenerate_horizon_single:
  assumes "regenerate_post_template_horizon m team i db = (r, db')"
  shows "single_rounds db db'"
  using assms unfolding regenerate_post_template_horizon_def
proof (rule mutate_single)
  fix v d assume b: "regenerate_horizon_body m team i db = (Inr v, d)"
  show "single_rounds db d" unfolding single_rounds_def
  proof
    assume ok: "keys_ok db \<and> instants_ok db"
    from b obtain end_at main ann n where
      s: "regenerable_linked_posts (filter_linked_posts_for_horizon (list_post_template_linked_posts team i db) (ax_now (me_auto m)) end_at) \<noteq> []"
      and w: "rewind_and_walk m team i
       (regenerable_linked_posts (filter_linked_posts_for_horizon (list_post_template_linked_posts team i db) (ax_now (me_auto m)) end_at)) (\<lambda>_. True)
       (hd (unique_occurrences (regenerable_linked_posts
          (filter_linked_posts_for_horizon (list_post_template_linked_posts team i db) (ax_now (me_auto m)) end_at)))) main ann db = (Inr n, d)"
      by (elim regenerate_horizon_D)
    from hd_occurrence [OF s] have "whole (hd (unique_occurrences (regenerable_linked_posts
          (filter_linked_posts_for_horizon (list_post_template_linked_posts team i db) (ax_now (me_auto m)) end_at))))"
      using linked_whole ok by (auto simp: regenerable_linked_posts_def filter_linked_posts_for_horizon_def)
    from rewind_single [OF w this] ok show "rounds_kept db d \<and> instants_ok d" by (simp add: single_rounds_def)
  qed
qed

lemma record_skip_single:
  assumes "record_skip team i occ shift db = (r, db')" "\<And>s. shift = Some s \<Longrightarrow> whole s"
  shows "single_rounds db db'"
proof -
  have "same_rounds db db'"
    using assms(1) by (auto simp: record_skip_def add_post_template_skip_def shift_post_template_occurrence_def upsert_skip_def
        same_rounds_def template_keys_def split: option.splits if_splits)
  moreover have "instants_ok db \<Longrightarrow> instants_ok db'"
    using assms by (auto simp: record_skip_def add_post_template_skip_def shift_post_template_occurrence_def upsert_skip_def
        instants_ok_def update_where_def split: option.splits if_splits)
  ultimately show ?thesis by (simp add: single_rounds_def same_rounds_kept)
qed

lemma skip_pending_single:
  assumes "skip_pending_round m team i t occ shift db = (Inr v, db')" "template_in t db" "whole occ"
  shows "single_rounds db db'"
  unfolding single_rounds_def
proof
  assume ok: "keys_ok db \<and> instants_ok db"
  from assms(1) consider "db' = db"
    | "cancel_pending_recurring_ai_jobs_matching (me_auto m) team i (\<lambda>at. at = Some occ) db = (Inr (), db')"
    | d main ann where "cancel_pending_recurring_ai_jobs_matching (me_auto m) team i (\<lambda>at. at = Some occ) db = (Inr (), d)"
      "rematerialize_occurrence m t occ main ann d = (Inr (), db')"
    by (auto simp: skip_pending_round_def Let_def and_then_Inr split: sum.splits if_splits)
  then have "single_rounds db db'"
  proof cases
    case 2
    then show ?thesis by (rule cancel_matching_single)
  next
    case (3 d)
    note s = cancel_matching_single [OF 3(1)]
    have "template_in t d" using single_rounds_in [OF s] ok assms(2) by simp
    from s rematerialize_single [OF 3(2) this assms(3)] show ?thesis by (rule single_rounds_trans)
  qed simp
  with ok show "rounds_kept db db' \<and> instants_ok db'" by (simp add: single_rounds_def)
qed

lemma skip_D:
  assumes "skip_occurrence_body m team i occ shift db = (Inr v, db')"
  obtains t d main ann where "get_post_template team i db = Inr t"
    "blocked_linked_posts (filter_linked_posts_from_occurrence (list_post_template_linked_posts team i db) occ) = []"
    "faulty (ax_env (me_auto m)) ''record skip'' (record_skip team i occ shift) db = (Inr (), d)"
    "skip_pending_round m team i t occ shift d = (Inr v, db') \<or>
     (\<exists>n match. rewind_and_walk m team i (regenerable_linked_posts (filter_linked_posts_from_occurrence
        (list_post_template_linked_posts team i db) occ)) match occ main ann d = (Inr n, db'))"
proof -
  from assms obtain t linked where t: "look (me_auto m) ''template'' (get_post_template team i) db = Inr t"
    and l: "look (me_auto m) ''linked'' (\<lambda>db. Inr (list_post_template_linked_posts team i db)) db = Inr linked"
    by (auto simp: skip_occurrence_body_def Let_def split: sum.splits)
  have l': "linked = list_post_template_linked_posts team i db" using look_Inr [OF l] by simp
  let ?scope = "filter_linked_posts_from_occurrence linked occ"
  obtain main ann where c: "(case counters_for_occurrence ?scope occ of
     Some c \<Rightarrow> c | None \<Rightarrow> (tp_counter t, tp_ann_counter t)) = (main, ann)" by (metis surj_pair)
  from assms t l c obtain d where "blocked_linked_posts ?scope = []"
    "faulty (ax_env (me_auto m)) ''record skip'' (record_skip team i occ shift) db = (Inr (), d)"
    "skip_pending_round m team i t occ shift d = (Inr v, db') \<or>
     (\<exists>n match. rewind_and_walk m team i (regenerable_linked_posts ?scope) match occ (at_least_one main) (at_least_one ann) d = (Inr n, db'))"
    by (auto simp: skip_occurrence_body_def Let_def and_then_Inr split: if_splits)
  then show thesis using l' that look_Inr [OF t] by blast
qed

lemma skip_single:
  assumes "skip_post_template_occurrence m team i occ shift db = (r, db')" "whole occ" "\<And>s. shift = Some s \<Longrightarrow> whole s"
  shows "single_rounds db db'"
  using assms(1) unfolding skip_post_template_occurrence_def
proof (rule mutate_single)
  fix v d assume b: "skip_occurrence_body m team i occ shift db = (Inr v, d)"
  show "single_rounds db d" unfolding single_rounds_def
  proof
    assume ok: "keys_ok db \<and> instants_ok db"
    from b obtain t e main ann again where t: "get_post_template team i db = Inr t"
      and k: "faulty (ax_env (me_auto m)) ''record skip'' (record_skip team i occ shift) db = (Inr (), e)"
      and w: "skip_pending_round m team i t occ shift e = (Inr v, d) \<or>
         (\<exists>n match. rewind_and_walk m team i again match occ main ann e = (Inr n, d))"
      by (elim skip_D)
    from k have s: "single_rounds db e" by (rule faulty_single) (rule record_skip_single [OF _ assms(3)])
    have "template_in t e" using single_rounds_in [OF s] ok get_template_in [OF t] by simp
    with w have "single_rounds e d" using skip_pending_single [OF _ _ assms(2)] rewind_single [OF _ assms(2)] by blast
    from single_rounds_trans [OF s this] ok show "rounds_kept db d \<and> instants_ok d" by (simp add: single_rounds_def)
  qed
qed

lemma tick_single:
  assumes "materialize_post_templates m db = (r, db')"
  shows "single_rounds db db'"
  unfolding single_rounds_def
proof
  assume ok: "keys_ok db \<and> instants_ok db"
  let ?walk = "\<lambda>t db. snd (materialize_template_horizon m t (ax_now (me_auto m)) db)"
  have walk: "single_rounds d (fold ?walk ts d)"
    if "keys_ok d \<and> instants_ok d" "\<And>t. t \<in> set ts \<Longrightarrow> template_in t d \<and> (\<forall>k. tp_next t = Some k \<longrightarrow> whole k)" for ts d
    using that
  proof (induction ts arbitrary: d)
    case (Cons t ts)
    obtain v e where v: "materialize_template_horizon m t (ax_now (me_auto m)) d = (v, e)" by (metis surj_pair)
    from materialize_loop_single [OF v [unfolded materialize_template_horizon_def]] Cons.prems(2) [of t]
    have s: "single_rounds d e" by simp
    then have e: "keys_ok e \<and> instants_ok e" "\<And>t. template_in t e = template_in t d"
      using Cons.prems(1) by (auto simp: single_rounds_def rounds_kept_keys)
    have "single_rounds e (fold ?walk ts e)" by (rule Cons.IH [OF e(1)]) (use Cons.prems(2) e(2) in auto)
    with s v show ?case by (simp add: single_rounds_trans)
  qed simp
  have "template_in t db \<and> (\<forall>k. tp_next t = Some k \<longrightarrow> whole k)" if "t \<in> set (list_enabled_post_templates 100 db)" for t
  proof -
    from that obtain s where "s \<in> set (sd_templates db)" "t = scan_post_template s"
      by (auto simp: list_enabled_post_templates_def dest!: in_set_takeD)
    with ok show ?thesis by (auto simp: scan_post_template_def template_in_def template_keys_def instants_ok_def image_iff)
  qed
  from walk [OF ok this] assms ok show "rounds_kept db db' \<and> instants_ok db'"
    by (auto simp: materialize_post_templates_def single_rounds_def dest!: look_Inr split: sum.splits)
qed

end
