(* ===== verification/Job_Rounds.thy ===== *)
theory Job_Rounds
  imports Template_Rounds
begin

text \<open>
  The jobs' part in the rounds of templates: completing a job turns the round it holds into a post, cancelling it
  gives the round up, and no other effect of a job touches a round. With it the system of everything that happens
  to templates: every round is materialized at most once.
\<close>

section \<open>Jobs of rounds\<close>

text \<open>The posts a completion of the job may create: posts of no round, or of the job's own when \<open>own\<close> holds.\<close>

definition own_round :: "bool \<Rightarrow> job_row \<Rightarrow> string option \<Rightarrow> instant option \<Rightarrow> string \<Rightarrow> bool" where
  "own_round own job t at role \<longleftrightarrow> (case at of None \<Rightarrow> True | Some a \<Rightarrow> own \<and> whole a \<and> jb_origin job = ''automation'' \<and>
     (case pl_recurring (jb_payload job) of
        None \<Rightarrow> False
      | Some q \<Rightarrow> t = Some (rc_template q) \<and> rc_occurrence q = Some (a div nanos) \<and> rc_kind q = role))"

definition job_rounds :: "bool \<Rightarrow> job_row \<Rightarrow> nat \<Rightarrow> store_db \<Rightarrow> store_db \<Rightarrow> bool" where
  "job_rounds own job n db db' \<longleftrightarrow>
     (\<exists>ps. sd_posts db' = sd_posts db @ ps \<and> length ps \<le> n \<and>
        (\<forall>r \<in> set ps. own_round own job (sp_post_template_id (rw_post r)) (sp_template_occurrence_at (rw_post r))
           (sp_template_post_role (rw_post r)))) \<and>
     sd_templates db' = sd_templates db \<and> sd_skips db' = sd_skips db \<and> job_shapes db' = job_shapes db \<and>
     (\<forall>team t at role. count_where (round_job team t at role) (sd_jobs db') \<le> count_where (round_job team t at role) (sd_jobs db))"

lemma job_rounds_refl [simp]: "job_rounds own job n db db"
  by (simp add: job_rounds_def)

lemma job_roundsD:
  assumes "job_rounds own job n db db'"
  obtains ps where "sd_posts db' = sd_posts db @ ps" "length ps \<le> n"
    "\<And>r. r \<in> set ps \<Longrightarrow> own_round own job (sp_post_template_id (rw_post r)) (sp_template_occurrence_at (rw_post r))
       (sp_template_post_role (rw_post r))"
    "sd_templates db' = sd_templates db" "sd_skips db' = sd_skips db" "job_shapes db' = job_shapes db"
    "\<And>team t at role. count_where (round_job team t at role) (sd_jobs db') \<le> count_where (round_job team t at role) (sd_jobs db)"
  using assms unfolding job_rounds_def by blast

lemma job_roundsI:
  assumes "sd_posts db' = sd_posts db @ ps" "length ps \<le> n"
    "\<And>r. r \<in> set ps \<Longrightarrow> own_round own job (sp_post_template_id (rw_post r)) (sp_template_occurrence_at (rw_post r))
       (sp_template_post_role (rw_post r))"
    "sd_templates db' = sd_templates db" "sd_skips db' = sd_skips db" "job_shapes db' = job_shapes db"
    "\<And>team t at role. count_where (round_job team t at role) (sd_jobs db') \<le> count_where (round_job team t at role) (sd_jobs db)"
  shows "job_rounds own job n db db'"
  unfolding job_rounds_def using assms by blast

lemma job_rounds_trans:
  assumes "job_rounds own job n a b" "job_rounds own job k b c"
  shows "job_rounds own job (n + k) a c"
  using assms
proof (elim job_roundsD)
  fix ps qs
  assume "sd_posts b = sd_posts a @ ps" "sd_posts c = sd_posts b @ qs" "length ps \<le> n" "length qs \<le> k"
    "job_shapes b = job_shapes a" "job_shapes c = job_shapes b" "sd_templates b = sd_templates a" "sd_templates c = sd_templates b" "sd_skips b = sd_skips a" "sd_skips c = sd_skips b"
    and own: "\<And>r. r \<in> set ps \<Longrightarrow> own_round own job (sp_post_template_id (rw_post r)) (sp_template_occurrence_at (rw_post r))
       (sp_template_post_role (rw_post r))"
      "\<And>r. r \<in> set qs \<Longrightarrow> own_round own job (sp_post_template_id (rw_post r)) (sp_template_occurrence_at (rw_post r))
       (sp_template_post_role (rw_post r))"
    and le: "\<And>team t at role. count_where (round_job team t at role) (sd_jobs b) \<le> count_where (round_job team t at role) (sd_jobs a)"
      "\<And>team t at role. count_where (round_job team t at role) (sd_jobs c) \<le> count_where (round_job team t at role) (sd_jobs b)"
  then show ?thesis
    by (intro job_roundsI [where ps = "ps @ qs"]) (auto intro: own order_trans [OF le(2) le(1)])
qed

lemma job_rounds_mono: "job_rounds own job n a b \<Longrightarrow> n \<le> k \<Longrightarrow> job_rounds own job k a b"
  by (elim job_roundsD, rule job_roundsI) auto

lemma job_rounds_same:
  assumes "sd_posts db' = sd_posts db" "sd_templates db' = sd_templates db" "sd_skips db' = sd_skips db" "sd_jobs db' = sd_jobs db"
  shows "job_rounds own job n db db'"
  using assms by (simp add: job_rounds_def job_shapes_def)

interpretation jr: effect_contract "\<lambda>n. job_rounds own job n" for own job
  by unfold_locales (simp, erule (1) job_rounds_trans, erule (1) job_rounds_mono)

definition allowed_input :: "bool \<Rightarrow> job_row \<Rightarrow> create_post_input \<Rightarrow> bool" where
  "allowed_input own job inp \<longleftrightarrow>
     own_round own job (trimmed_ref (in_post_template_id inp)) (in_template_occurrence_at inp) (trim_space (in_template_post_role inp))"

definition own_meta :: "bool \<Rightarrow> job_row \<Rightarrow> recurring_meta \<Rightarrow> bool" where
  "own_meta own job m \<longleftrightarrow> own \<and> jb_origin job = ''automation'' \<and> (\<exists>now. parse_recurring_meta now (jb_payload job) = Some m) \<and>
     (\<exists>db. job_shape job db)"

lemma normalize_input_round [simp]:
  "in_post_template_id (normalize_input inp) = in_post_template_id inp"
  "in_template_occurrence_at (normalize_input inp) = in_template_occurrence_at inp"
  "in_template_post_role (normalize_input inp) = in_template_post_role inp"
  by (simp_all add: normalize_input_def Let_def)

lemma prepare_round:
  "prepare_automation x team inp limits db = Some inp' \<Longrightarrow> allowed_input own job inp' = allowed_input own job inp"
proof -
  assume "prepare_automation x team inp limits db = Some inp'"
  then have "inp' = normalize_input inp"
    by (auto simp: prepare_automation_def prepare_def Let_def split: sum.splits if_splits prod.splits)
  then show ?thesis by (simp add: allowed_input_def)
qed

lemma recurring_allowed:
  assumes "own_meta own job m"
  shows "allowed_input own job (recurring_input x job m content res targets reason t)"
proof -
  from assms obtain q now db where q: "pl_recurring (jb_payload job) = Some q" "trim_space (rc_template q) = rc_template q"
      "rc_template q \<noteq> []" "a_role (rc_kind q)" "own" "jb_origin job = ''automation''"
    and m: "rm_template m = rc_template q" "rm_occurrence m = map_option instant_of_seconds (rc_occurrence q)"
      "rm_kind m = rc_kind q"
    by (auto simp: own_meta_def job_shape_def parse_recurring_meta_def Let_def split: option.splits if_splits)
  have nz: "nanos \<noteq> 0" using nanos_pos by simp
  have role: "trim_space (if rc_kind q = ''announcement'' then ''announcement'' else ''main'') = rc_kind q"
    using q(4) by (auto simp: a_role_def)
  show ?thesis
    using q m nz role
    by (auto simp: allowed_input_def own_round_def recurring_input_def Let_def trimmed_ref_def whole_def instant_of_seconds_def
        empty_input_def split: option.split)
qed

lemma post_kept_rounds:
  assumes "allowed_input own job inp"
  shows "own_round own job (sp_post_template_id (rw_post (new_post_row now fresh team pr inp)))
    (sp_template_occurrence_at (rw_post (new_post_row now fresh team pr inp)))
    (sp_template_post_role (rw_post (new_post_row now fresh team pr inp)))"
  using assms by (auto simp: allowed_input_def own_round_def new_post_row_simps split: option.splits)

lemma adds_post_job_rounds:
  assumes "adds_post (new_post_row now fresh team pr inp) db db'" "allowed_input own job inp"
  shows "job_rounds own job 1 db db'"
  using assms post_kept_rounds
  by (intro job_roundsI [where ps = "[new_post_row now fresh team pr inp]"]) (auto simp: adds_post_def job_shapes_def)

lemma insert_event_job_rounds: "insert_audit_event now fresh e db = (r, db') \<Longrightarrow> job_rounds own job n db db'"
  by (auto simp: insert_audit_event_def Let_def intro!: job_rounds_same split: if_splits)

lemma create_job_rounds:
  assumes "allowed_input own job inp"
  shows "effect_contract.keeps (\<lambda>n. job_rounds own job n) (create_job_automation_post x job inp meta)"
proof (rule jr.keepsI)
  fix db r db' assume r: "create_job_automation_post x job inp meta db = (r, db')"
  obtain c d where c: "faulty (ax_env x) ''create post'' (create_scheduled_post (ax_now x) (ax_fresh x ''post'') (jb_team job)
             (system_principal (jb_author job)) inp) db = (c, d)" by (metis surj_pair)
  have cr: "if (\<exists>e. c = Inl e) then d = db else job_rounds own job 1 db d"
    using c
  proof (cases rule: faulty_cases)
    case 2
    from create_scheduled_post_rows [OF 2] adds_post_job_rounds [OF _ assms]
    show ?thesis by auto
  qed simp
  show "effect_contract.outcome (\<lambda>n. job_rounds own job n) r db db'"
  proof (cases c)
    case (Inl e)
    with r c cr show ?thesis by (auto simp: create_job_automation_post_def jr.outcome_def)
  next
    case (Inr post)
    let ?ev = "job_audit_event x (ax_fresh x ''create event'') job ''post.automation_create'' ''post'' (sp_id post)
                     ((''post_id'', sp_id post) # meta)"
    obtain ic d2 where ic: "faulty (ax_env x) ''create event'' (insert_audit_event (ax_now x) (ax_fresh x ''create event'') ?ev) d = (ic, d2)"
      by (metis surj_pair)
    then have "job_rounds own job 0 d d2" by (elim faulty_cases) (auto intro: insert_event_job_rounds)
    with cr Inr job_rounds_trans [of own job 1 db d 0 d2] have "job_rounds own job 1 db d2" by simp
    moreover have "d2 = db' \<and> (case ic of Inl _ \<Rightarrow> r = Inl [Audit_Failed] | Inr _ \<Rightarrow> r = Inr post)"
      using r c Inr ic by (auto simp: create_job_automation_post_def split: sum.splits)
    ultimately show ?thesis by (auto simp: jr.outcome_def split: sum.splits)
  qed
qed

lemma status_job_rounds:
  assumes "job_final s"
  shows "job_rounds own job 0 db (update_ai_job_status now i s result err db)"
  using assms
  by (intro job_roundsI [where ps = "[]"])
     (auto simp: update_ai_job_status_def round_job_def job_live_not_final job_shapes_def map_update_where_key intro!: count_update_le)

lemma plain_inputs_allowed:
  "allowed_input own job (rss_input x job' m content res targets reason)"
  "allowed_input own job (auto_input x job' res)"
  by (simp_all add: allowed_input_def own_round_def rss_input_def auto_input_def Let_def empty_input_def)

text \<open>The contract of a completion, instantiated for rounds.\<close>

interpretation jc_rounds: completion_contract "\<lambda>n. job_rounds own job n" x job "allowed_input own job" "own_meta own job" for own x job
proof unfold_locales
  show "allowed_input own job inp' " if "prepare_automation x team inp limits db = Some inp'" "allowed_input own job inp"
    for team inp limits db inp' using prepare_round [OF that(1)] that(2) by simp
qed (simp_all add: create_job_rounds status_job_rounds recurring_allowed plain_inputs_allowed)


section \<open>Completing a job\<close>

lemma finish_event_rounds: "finish_event x r action outcome db = (v, db') \<Longrightarrow> job_rounds own job 0 db db'"
proof -
  assume f: "finish_event x r action outcome db = (v, db')"
  then obtain u where "faulty (ax_env x) ''event'' (insert_audit_event (ax_now x) (ax_fresh x ''event'')
             (job_audit_event x (ax_fresh x ''event'') (jr_job r) action ''ai_job'' (jb_id (jr_job r))
                (completion_meta r outcome))) db = (u, db')"
    by (auto simp: finish_event_def split: prod.splits sum.splits)
  then show ?thesis by (elim faulty_cases) (auto intro: insert_event_job_rounds)
qed

lemma release_rounds: "job_rounds own job 0 db (release_item_of x r es db)"
proof -
  have "job_rounds own job 0 db (snd (release_rss_item_attempt team feed key db))" for team feed key
    by (rule job_rounds_same) (auto simp: release_rss_item_attempt_def Let_def split: option.split)
  then show ?thesis unfolding release_item_of_def faulty_def by (auto split: option.splits)
qed

lemma after_claim_rounds:
  assumes "after_claim x r source_gone status result err db = (Inr v, db')" "jr_job r = job"
    "\<And>m. \<not> source_gone \<Longrightarrow> jr_automation r \<Longrightarrow> jr_rss r = None \<Longrightarrow> jr_recurring r = Some m \<Longrightarrow> own_meta own job m"
  shows "job_rounds own job 1 db db'"
proof -
  obtain c d where n: "nested_effect (completion_effect x r source_gone status result err) db = (c, d)" by (metis surj_pair)
  have t: "job_rounds own job 1 db d"
    using jr.nested_effect_keeps [OF jc_rounds.completion_effect_keeps [OF assms(2)], of source_gone own db x status result err] assms(3)
    by (simp add: n)
  have "job_rounds own job 0 d db'"
  proof (cases c)
    case (Inr u)
    with assms(1) n show ?thesis by (auto simp: after_claim_def split: if_splits dest: finish_event_rounds [where own = own and job = job])
  next
    case (Inl es)
    let ?d1 = "release_item_of x r es d"
    obtain u d2 where u: "faulty (ax_env x) ''status''
        (always (update_ai_job_status (ax_now x) (jb_id (jr_job r)) Job_Failed result (failure_message r es))) ?d1 = (u, d2)" by (metis surj_pair)
    have "job_rounds own job 0 ?d1 d2"
      using u by (elim faulty_cases) (auto simp: always_def job_final_def intro: status_job_rounds)
    from job_rounds_trans [OF release_rounds this] have d2: "job_rounds own job 0 d d2" by simp
    have "job_rounds own job 0 d2 db'"
      using assms(1) n Inl u
      by (auto simp: after_claim_def Let_def split: if_splits sum.splits dest: finish_event_rounds [where own = own and job = job])
    with d2 show ?thesis using job_rounds_trans by force
  qed
  with t show ?thesis using job_rounds_trans by force
qed

text \<open>Winning the claim takes the job's own round from the count.\<close>

lemma claim_rows:
  assumes "claim_ai_job_completion now i status result err db = (Inr True, d)"
  obtains f where "d = db\<lparr>sd_jobs := update_where (\<lambda>j. jb_id j = i \<and> job_live j) f (sd_jobs db)\<rparr>"
    "\<exists>j \<in> set (sd_jobs db). jb_id j = i \<and> job_live j"
    "\<And>j. \<not> job_live (f j)" "\<And>j. jb_id (f j) = jb_id j \<and> jb_team (f j) = jb_team j \<and> jb_origin (f j) = jb_origin j \<and> jb_payload (f j) = jb_payload j"
  using assms
  by (auto simp: claim_ai_job_completion_def Let_def count_where_pos job_live_def job_final_def split: if_splits)

lemma count_update_less:
  assumes "x \<in> set rows" "q x" "p x" "\<And>y. \<not> p (f y)"
  shows "count_where p (update_where q f rows) < count_where p rows"
proof -
  obtain a b where "rows = a @ x # b" using assms(1) by (metis split_list)
  moreover have "count_where p (update_where q f r) \<le> count_where p r" for r
    by (rule count_update_le) (use assms(4) in blast)
  ultimately show ?thesis using assms(2,3,4) by (simp add: count_where_def update_where_def add_le_less_mono less_Suc_eq_le add_mono)
qed

lemma complete_ai_job_cases:
  assumes "complete_ai_job x i status result err db = (r, db')"
  obtains (same) "db' = db"
  | (lost) status' err' where "claim_ai_job_completion (ax_now x) i status' result err' db = (Inr False, db')"
  | (won) job status' err' d v where "find_job i db = Some job"
      "claim_ai_job_completion (ax_now x) i status' result err' db = (Inr True, d)"
      "after_claim x (read_job x job) (lock_job_source x (read_job x job) db \<noteq> Inr ()) status' result err' d = (Inr v, db')"
proof (cases "db' = db")
  case False
  let ?body = "\<lambda>db. case fst (faulty (ax_env x) ''job'' (reading (get_ai_job_by_id_global i)) db) of
           Inl e \<Rightarrow> (Inl e, db)
         | Inr job \<Rightarrow>
             (let r = read_job x job;
                  status' = (if jr_legacy r then Job_Failed else status);
                  err' = (if jr_legacy r then legacy_message else err);
                  source = lock_job_source x r db
              in if source \<noteq> Inr () \<and> source \<noteq> Inl No_Rows then (Inl (Backend ''source''), db)
                 else (case faulty (ax_env x) ''claim'' (claim_ai_job_completion (ax_now x) i status' result err') db of
                         (Inl e, d) \<Rightarrow> (Inl e, d)
                       | (Inr False, d) \<Rightarrow> (Inr None, d)
                       | (Inr True, d) \<Rightarrow> after_claim x r (source \<noteq> Inr ()) status' result err' d))"
  from False assms obtain v where b: "?body db = (Inr v, db')"
    by (cases "?body db") (auto simp: complete_ai_job_def with_audit_transaction_def split: if_splits sum.splits)
  then obtain job where j: "fst (faulty (ax_env x) ''job'' (reading (get_ai_job_by_id_global i)) db) = Inr job"
    by (auto split: sum.splits)
  then have job: "find_job i db = Some job"
    by (auto simp: faulty_def reading_def get_ai_job_by_id_global_def split: option.splits)
  let ?s = "if jr_legacy (read_job x job) then Job_Failed else status" and ?e = "if jr_legacy (read_job x job) then legacy_message else err"
  obtain c d where c: "faulty (ax_env x) ''claim'' (claim_ai_job_completion (ax_now x) i ?s result ?e) db = (c, d)" by (metis surj_pair)
  from b j c obtain won where w: "c = Inr won"
    and a: "if won then after_claim x (read_job x job) (lock_job_source x (read_job x job) db \<noteq> Inr ()) ?s result ?e d = (Inr v, db')
       else db' = d"
    by (cases c) (auto simp: Let_def split: if_splits bool.splits)
  from c w have cl: "claim_ai_job_completion (ax_now x) i ?s result ?e db = (Inr won, d)" by (auto simp: faulty_def split: option.splits)
  show thesis
  proof (cases won)
    case True
    with a cl job show thesis by (intro won) simp_all
  next
    case False
    with a cl show thesis by (intro lost) simp_all
  qed
qed (rule same)

lemma source_locked:
  assumes "lock_job_source x r db = Inr ()" "jr_automation r" "jr_rss r = None" "jr_recurring r = Some m"
  shows "\<exists>team. map_of (template_keys db) (rm_template m) = Some team"
proof -
  from assms have "lock_automation_source ''post_template'' (rm_template m) db = Inr ()"
    by (auto simp: lock_job_source_def faulty_def reading_def split: option.splits if_splits)
  then have "rm_template m \<in> tp_id ` set (sd_templates db)"
    by (auto simp: lock_automation_source_def list_ex_iff intro: rev_image_eqI split: if_splits)
  then show ?thesis by (force simp: template_keys_def map_of_eq_None_iff image_image simp flip: not_None_eq)
qed

lemma parse_recurring_template: "parse_recurring_meta now p = Some m \<Longrightarrow> \<exists>q. pl_recurring p = Some q \<and> rm_template m = rc_template q"
  by (auto simp: parse_recurring_meta_def Let_def split: option.splits if_splits)

lemma own_round_clock: "own_round own job t (Some at) role \<Longrightarrow> whole at"
  by (simp add: own_round_def)

lemma complete_ai_job_single:
  assumes "complete_ai_job x i status result err db = (r, db')" "jobs_ok db"
  shows "single_rounds db db'"
  using assms(1)
proof (cases rule: complete_ai_job_cases)
  case (lost s e)
  then show ?thesis by (rule claim_single)
next
  case (won job s e d v)
  let ?r = "read_job x job" and ?ok = "lock_job_source x (read_job x job) db = Inr ()"
  let ?own = "?ok \<and> jr_automation ?r \<and> jr_rss ?r = None \<and> jr_recurring ?r \<noteq> None"
  have job: "job \<in> set (sd_jobs db)" "jb_id job = i" using won(1) by (auto simp: find_job_def dest: find_SomeD)
  then have shape: "job_shape job db" "distinct (job_ids db)" using assms(2) by (auto simp: jobs_ok_def)
  from claim_rows [OF won(2)] obtain f where d: "d = db\<lparr>sd_jobs := update_where (\<lambda>j. jb_id j = i \<and> job_live j) f (sd_jobs db)\<rparr>"
    and live: "\<exists>j \<in> set (sd_jobs db). jb_id j = i \<and> job_live j" and f: "\<And>j. \<not> job_live (f j)"
    "\<And>j. jb_id (f j) = jb_id j \<and> jb_team (f j) = jb_team j \<and> jb_origin (f j) = jb_origin j \<and> jb_payload (f j) = jb_payload j"
    by blast
  have "job_live job" proof -
    from live obtain j where j: "j \<in> set (sd_jobs db)" "jb_id j = i" "job_live j" by blast
    from find_job_live_row [OF shape(2) j(1,2)] won(1) j(3) show ?thesis by simp
  qed
  have "own_meta ?own job m" if "?ok" "jr_automation ?r" "jr_rss ?r = None" "jr_recurring ?r = Some m" for m
  proof -
    from that(4) have "jb_origin job = ''automation''" "parse_recurring_meta (ax_now x) (jb_payload job) = Some m"
      by (auto simp: read_job_def Let_def split: if_splits)
    with that shape(1) show ?thesis unfolding own_meta_def by blast
  qed
  with after_claim_rounds [OF won(3), of job ?own] have t: "job_rounds ?own job 1 d db'" by (simp add: read_job_def Let_def)
  from t obtain ps where ps: "sd_posts db' = sd_posts db @ ps" "length ps \<le> 1"
    "\<And>r. r \<in> set ps \<Longrightarrow> own_round ?own job (sp_post_template_id (rw_post r)) (sp_template_occurrence_at (rw_post r))
       (sp_template_post_role (rw_post r))"
    and t2: "sd_templates db' = sd_templates db" "sd_skips db' = sd_skips db" "job_shapes db' = job_shapes d"
      "\<And>team t at role. count_where (round_job team t at role) (sd_jobs db') \<le> count_where (round_job team t at role) (sd_jobs d)"
    by (elim job_roundsD) (simp add: d)
  have keys: "template_keys db' = template_keys db" by (simp add: template_keys_def t2(1))
  have dead: "\<not> round_job team t at role (f j)" for team t at role j using f(1) by (simp add: round_job_def)
  have jobs: "count_where (round_job team t at role) (sd_jobs d) \<le> count_where (round_job team t at role) (sd_jobs db)" for team t at role
    by (simp add: d, rule count_update_le) (simp add: dead)
  have less: "round_count t at role db' \<le> max 1 (round_count t at role db)" if w: "whole at" for t at role
  proof (cases "\<exists>r \<in> set ps. round_post t at role r")
    case False
    then have "count_where (round_post t at role) ps = 0" by (simp add: count_where_0)
    then show ?thesis using t2(4) [of "team_of_template t db" t at role] jobs [of "team_of_template t db" t at role]
      by (simp add: round_count_def ps(1) count_where_append team_of_template_keys keys)
  next
    case True
    then obtain r where r: "r \<in> set ps" "round_post t at role r" by blast
    from ps(3) [OF r(1)] r(2) obtain q where own: "?own" and o: "jb_origin job = ''automation''"
      and q: "pl_recurring (jb_payload job) = Some q" "t = rc_template q" "rc_occurrence q = Some (at div nanos)" "rc_kind q = role"
      by (auto simp: own_round_def round_post_def split: option.splits)
    from own obtain m where m: "jr_recurring ?r = Some m" by blast
    then have "rm_template m = t" using q parse_recurring_template
      by (fastforce simp: read_job_def Let_def split: if_splits)
    with source_locked [OF _ _ _ m] own obtain team where team: "map_of (template_keys db) t = Some team" by (auto simp: read_job_def)
    with shape(1) o q have "jb_team job = team" by (simp add: job_shape_def)
    then have rj: "round_job (team_of_template t db) t at role job"
      using o q \<open>job_live job\<close> team shape(1) by (auto simp: round_job_def team_of_template_keys job_shape_def a_role_def)
    have "count_where (round_job (team_of_template t db) t at role) (sd_jobs d)
        < count_where (round_job (team_of_template t db) t at role) (sd_jobs db)"
      by (simp add: d, rule count_update_less [OF job(1)]) (simp_all add: job(2) \<open>job_live job\<close> rj dead)
    moreover have "count_where (round_post t at role) ps \<le> 1"
      unfolding count_where_def by (rule order_trans [OF length_filter_le ps(2)])
    ultimately show ?thesis using t2(4) [of "team_of_template t db" t at role]
      by (simp add: round_count_def ps(1) count_where_append team_of_template_keys keys)
  qed
  have "jobs_ok db'" using jobs_ok_shapes [OF _ keys assms(2)] t2(3) f(2)
    by (simp add: d job_shapes_def update_where_def)
  with less keys have "rounds_kept db db'" by (simp add: rounds_kept_def)
  moreover have "instants_ok db'" if "instants_ok db"
    using that ps(1,3) t2(1,2) own_round_clock by (fastforce simp: instants_ok_def)
  ultimately show ?thesis by (simp add: single_rounds_def)
qed simp

end
