(* ===== verification/Template_System.thy ===== *)
theory Template_System
  imports Job_Rounds
begin

text \<open>
  Everything that happens to the rounds of templates as one step relation: the scheduler's ticks, regenerations,
  skips and shifts, edits of templates, jobs submitted, marked, completed and cancelled, and what the rest of the
  program does to posts. A round is materialized at most once in every state it reaches.
\<close>

section \<open>The remaining operations\<close>

lemma same_tables_single:
  assumes "sd_posts db' = sd_posts db" "sd_jobs db' = sd_jobs db" "sd_templates db' = sd_templates db" "sd_skips db' = sd_skips db"
  shows "single_rounds db db'"
  using assms by (auto simp: single_rounds_def instants_ok_def same_rounds_def template_keys_def intro!: same_rounds_kept)

lemma status_change_single:
  assumes "db' = db\<lparr>sd_jobs := update_where p f (sd_jobs db)\<rparr>" "\<And>j. p j \<Longrightarrow> job_live (f j) \<Longrightarrow> job_live j"
    "\<And>j. jb_id (f j) = jb_id j \<and> jb_team (f j) = jb_team j \<and> jb_origin (f j) = jb_origin j \<and> jb_payload (f j) = jb_payload j"
  shows "single_rounds db db'"
proof -
  have "rounds_kept db db'"
    by (rule rounds_keptI) (use assms in \<open>auto simp: template_keys_def round_job_def job_shapes_def update_where_def
        split: option.splits intro!: count_update_le [unfolded update_where_def]\<close>)
  moreover have "instants_ok db \<Longrightarrow> instants_ok db'" by (simp add: assms(1) instants_ok_def)
  ultimately show ?thesis by (simp add: single_rounds_def)
qed

lemma mark_single: "mark_ai_job_processing now i db = (moved, db') \<Longrightarrow> single_rounds db db'"
  by (rule status_change_single [where p = "\<lambda>j. jb_id j = i \<and> jb_status j = Job_Pending" and
        f = "\<lambda>j. j\<lparr>jb_status := Job_Processing, jb_updated := now\<rparr>"])
     (auto simp: mark_ai_job_processing_def Let_def job_live_def)

lemma persist_completion_single: "persist_completion x i status result err db = (r, db') \<Longrightarrow> single_rounds db db'"
  unfolding persist_completion_def
proof (erule single_rounds_transaction [rotated])
  fix v d
  assume "(case faulty (ax_env x) ''claim'' (claim_ai_job_completion (ax_now x) i status result err) db of
          (Inl e, d) \<Rightarrow> (Inl e, d)
        | (Inr False, d) \<Rightarrow> (Inr (), d)
        | (Inr True, d) \<Rightarrow>
            (case fst (faulty (ax_env x) ''job'' (reading (get_ai_job_by_id_global i)) d) of
               Inl e \<Rightarrow> (Inl e, d)
             | Inr job \<Rightarrow> faulty (ax_env x) ''event'' (insert_audit_event (ax_now x) (ax_fresh x ''event'')
                            (completion_event x job status)) d)) = (Inr v, d)"
  then obtain w e u where w: "faulty (ax_env x) ''claim'' (claim_ai_job_completion (ax_now x) i status result err) db = (w, e)"
    and e: "e = d \<or> faulty (ax_env x) ''event'' (insert_audit_event (ax_now x) (ax_fresh x ''event'') u) e = (Inr v, d)"
    by (auto split: prod.splits sum.splits bool.splits)
  have "single_rounds db e" using w by (rule faulty_single) (rule claim_single)
  moreover have "single_rounds e d" using e by (auto elim!: faulty_cases simp: event_single)
  ultimately show "single_rounds db d" by (rule single_rounds_trans)
qed

lemma finish_job_single: "jobs_ok db \<Longrightarrow> single_rounds db (finish_job x completer i status result err db)"
  unfolding finish_job_def using complete_ai_job_single persist_completion_single
  by (metis (full_types) prod.collapse)

lemma cancel_job_single:
  assumes "audited_handler (handle_cancel_ai_job x rq team i) db = (answer, db')"
  shows "single_rounds db db'"
proof -
  have audit: "single_rounds a (snd (record_audit e fresh rq team action ty target summary details a))"
    for a e fresh action ty target summary details
    by (cases "faulty e ''audit'' (insert_audit_event (en_now e) fresh
          (api_event rq (the (aq_principal rq)) team action ty target summary details)) a")
       (auto simp: record_audit_def event_single elim!: faulty_cases split: option.splits prod.splits sum.splits)
  have release: "single_rounds a (release_cancelled x job a)" for job a
    by (rule same_tables_single)
       (auto simp: release_cancelled_def faulty_def release_rss_item_attempt_def Let_def split: option.split)
  obtain status body failed d where h: "handle_cancel_ai_job x rq team i db = ((status, body), failed, d)" by (metis surj_pair)
  with assms have "db' = db \<or> db' = d" by (auto simp: audited_handler_def split: if_splits)
  moreover have "single_rounds db d"
  proof (cases "fst (faulty (ax_env x) ''job'' (reading (get_ai_job_by_id team i)) db)")
    case (Inr job)
    obtain c e where c: "faulty (ax_env x) ''claim'' (claim_ai_job_completion (ax_now x) (jb_id job) Job_Failed [] cancelled_message) db = (c, e)"
      by (metis surj_pair)
    then have s: "single_rounds db e" by (rule faulty_single) (rule claim_single)
    have "d = e \<or> d = snd (record_audit (ax_env x) (ax_fresh x ''event'') rq team ''ai_job.cancel'' ''ai_job'' (Some i)
                        ''Cancelled AI job'' [(''job_id'', i)] (release_cancelled x job e))"
      using h Inr c by (auto simp: handle_cancel_ai_job_def split: sum.splits bool.splits prod.splits if_splits)
    then show ?thesis
    proof (elim disjE)
      assume "d = e"
      with s show ?thesis by simp
    qed (simp only: single_rounds_trans [OF single_rounds_trans [OF s release] audit])
  qed (use h in \<open>auto simp: handle_cancel_ai_job_def\<close>)
  ultimately show ?thesis by auto
qed

text \<open>Jobs of other origins, and automation jobs of no template, hold no round.\<close>

lemma submit_single:
  assumes "submit_job x config ctx inp db = (r, db')" "ji_origin inp = ''automation'' \<Longrightarrow> pl_recurring (ji_payload inp) = None"
  shows "single_rounds db db'"
  using submit_job_rows [OF assms(1)]
proof (elim disjE exE conjE)
  fix j assume j: "adds_job j db db'" "jb_origin j = (if ji_origin inp = [] then ''user'' else ji_origin inp)" "jb_payload j = ji_payload inp"
  have "rounds_kept db db'"
  proof (rule adds_job_kept [OF j(1)])
    show "job_shape j db" using j(2,3) assms(2) by (auto simp: job_shape_def split: option.split)
  qed (use j(2,3) assms(2) in \<open>auto simp: round_job_def split: option.splits if_splits\<close>)
  then show ?thesis using j(1) by (auto simp: single_rounds_def instants_ok_def adds_job_def)
qed simp

lemma update_template_single:
  assumes "update_post_template m team i p db = (r, db')"
    "\<And>t n. t \<in> set (sd_templates db) \<Longrightarrow> next_after_update m (scan_post_template t) p = Inr (Some n) \<Longrightarrow> whole n"
  shows "single_rounds db db'"
proof (cases "db' = db")
  case False
  with assms(1) obtain t nx where t: "get_post_template team i db = Inr t" and n: "next_after_update m t p = Inr nx"
    and db': "db' = db\<lparr>sd_templates := update_where (\<lambda>r. tp_team r = team \<and> tp_id r = i)
                      (\<lambda>_. patched_template (ax_now (me_auto m)) t p nx) (sd_templates db)\<rparr>"
    by (auto simp: update_post_template_def Let_def split: sum.splits)
  from t obtain t0 where t0: "t0 \<in> set (sd_templates db)" "t = scan_post_template t0" "tp_id t0 = i" "tp_team t0 = team"
    by (auto simp: get_post_template_def scan_post_template_def dest!: find_SomeD split: option.splits)
  then have "same_rounds db db'"
    by (auto simp: db' same_rounds_def template_keys_def update_where_def patched_template_def scan_post_template_def)
  moreover have "instants_ok db'" if "instants_ok db"
    using that assms(2) [OF t0(1)] n by (auto simp: t0(2) instants_ok_def db' patched_template_def)
  ultimately show ?thesis by (simp add: single_rounds_def same_rounds_kept)
qed simp

section \<open>The system\<close>

text \<open>The rest of the program neither adds a round nor touches jobs, templates and skips.\<close>

definition post_neutral :: "store_db \<Rightarrow> store_db \<Rightarrow> bool" where
  "post_neutral db db' \<longleftrightarrow> sd_jobs db' = sd_jobs db \<and> sd_templates db' = sd_templates db \<and> sd_skips db' = sd_skips db \<and>
     (\<forall>t at role. count_where (round_post t at role) (sd_posts db') \<le> count_where (round_post t at role) (sd_posts db)) \<and>
     (\<forall>r \<in> set (sd_posts db'). sp_template_occurrence_at (rw_post r) = None \<or>
        sp_template_occurrence_at (rw_post r) \<in> (\<lambda>r. sp_template_occurrence_at (rw_post r)) ` set (sd_posts db))"

text \<open>An id that nothing carries.\<close>

definition unused_template :: "string \<Rightarrow> store_db \<Rightarrow> bool" where
  "unused_template i db \<longleftrightarrow> i \<noteq> [] \<and> trim_space i = i \<and>
     list_all (\<lambda>r. sp_post_template_id (rw_post r) \<noteq> Some i) (sd_posts db) \<and>
     list_all (\<lambda>j. case pl_recurring (jb_payload j) of None \<Rightarrow> True | Some q \<Rightarrow> rc_template q \<noteq> i) (sd_jobs db)"

inductive template_step :: "store_db \<Rightarrow> store_db \<Rightarrow> bool" where
  t_tick: "materialize_post_templates m db = (r, db') \<Longrightarrow> template_step db db'"
| t_regenerate: "regenerate_post_template_occurrence m team i occ db = (r, db') \<Longrightarrow> template_step db db'"
| t_regenerate_horizon: "regenerate_post_template_horizon m team i db = (r, db') \<Longrightarrow> template_step db db'"
| t_skip: "skip_post_template_occurrence m team i occ shift db = (r, db') \<Longrightarrow> whole occ \<Longrightarrow>
    (\<And>s. shift = Some s \<Longrightarrow> whole s) \<Longrightarrow> template_step db db'"
| t_announcement_skip: "add_post_template_announcement_skip team i occ db = (r, db') \<Longrightarrow> template_step db db'"
| t_create: "create_post_template m fresh team pr inp db = (r, db') \<Longrightarrow> unused_template fresh db \<Longrightarrow>
    (\<And>n. next_slot m (trim_space (ti_recurrence inp)) (ax_now (me_auto m)) = Some n \<Longrightarrow> whole n) \<Longrightarrow> template_step db db'"
| t_update: "update_post_template m team i p db = (r, db') \<Longrightarrow>
    (\<And>t n. t \<in> set (sd_templates db) \<Longrightarrow> next_after_update m (scan_post_template t) p = Inr (Some n) \<Longrightarrow> whole n) \<Longrightarrow>
    template_step db db'"
| t_delete: "delete_post_template team i db = (r, db') \<Longrightarrow> template_step db db'"
| t_submit: "submit_job x config ctx ji db = (rj, db') \<Longrightarrow>
    (ji_origin ji = ''automation'' \<Longrightarrow> pl_recurring (ji_payload ji) = None) \<Longrightarrow> template_step db db'"
| t_mark: "mark_ai_job_processing now i db = (moved, db') \<Longrightarrow> template_step db db'"
| t_finish: "template_step db (finish_job x completer i status result err db)"
| t_cancel: "audited_handler (handle_cancel_ai_job x rq team i) db = (answer, db') \<Longrightarrow> template_step db db'"
| t_other: "post_neutral db db' \<Longrightarrow> template_step db db'"

inductive_simps template_step_iff: "template_step db db'"

definition rounds_ok :: "store_db \<Rightarrow> bool" where
  "rounds_ok db \<longleftrightarrow> keys_ok db \<and> instants_ok db \<and> jobs_ok db \<and> (\<forall>t at role. whole at \<longrightarrow> round_count t at role db \<le> 1)"

lemma single_rounds_ok: "single_rounds db db' \<Longrightarrow> rounds_ok db \<Longrightarrow> rounds_ok db'"
  by (auto simp: rounds_ok_def single_rounds_def rounds_kept_def keys_ok_def dest!: spec)

lemma announcement_skip_single: "add_post_template_announcement_skip team i occ db = (r, db') \<Longrightarrow> single_rounds db db'"
  by (auto simp: add_post_template_announcement_skip_def upsert_skip_def single_rounds_def same_rounds_def template_keys_def
      instants_ok_def update_where_def split: if_splits intro!: same_rounds_kept)

lemma neutral_single: "post_neutral db db' \<Longrightarrow> single_rounds db db'"
proof -
  assume n: "post_neutral db db'"
  have "rounds_kept db db'"
    by (rule rounds_keptI) (use n in \<open>simp_all add: post_neutral_def template_keys_def job_shapes_def\<close>)
  moreover have "instants_ok db \<Longrightarrow> instants_ok db'" using n by (fastforce simp: post_neutral_def instants_ok_def)
  ultimately show ?thesis by (simp add: single_rounds_def)
qed

lemma create_template_ok:
  assumes "create_post_template m fresh team pr inp db = (r, db')" "unused_template fresh db"
    "\<And>n. next_slot m (trim_space (ti_recurrence inp)) (ax_now (me_auto m)) = Some n \<Longrightarrow> whole n" "rounds_ok db"
  shows "rounds_ok db'"
proof (cases "db' = db")
  case False
  with assms(1) obtain n where n: "next_slot m (trim_space (ti_recurrence inp)) (ax_now (me_auto m)) = Some n"
    and new: "fresh \<notin> tp_id ` set (sd_templates db)"
    and db': "db' = db\<lparr>sd_templates := sd_templates db @ [new_template (ax_now (me_auto m)) fresh team pr inp n]\<rparr>"
    by (auto simp: create_post_template_def Let_def split: option.splits if_splits)
  have keys: "template_keys db' = template_keys db @ [(fresh, team)]" by (simp add: template_keys_def db' new_template_def)
  have none: "map_of (template_keys db) fresh = None"
    using new by (force simp: map_of_eq_None_iff template_keys_def)
  have keys_ok: "keys_ok db'"
    using assms(2,4) new unfolding rounds_ok_def keys_ok_def keys
    by (auto simp: unused_template_def template_keys_def)
  have clock: "instants_ok db'" using assms(3) [OF n] assms(4) by (auto simp: rounds_ok_def instants_ok_def db' new_template_def)
  have of: "map_of (template_keys db') t = map_of (template_keys db) t" if "t \<noteq> fresh" for t
    using that by (simp add: keys map_add_def split: option.split)
  have unused: "rc_template q \<noteq> fresh" if "j \<in> set (sd_jobs db)" "pl_recurring (jb_payload j) = Some q" for j q
    using assms(2) that by (auto simp: unused_template_def list_all_iff split: option.splits)
  have jobs: "jobs_ok db'"
    using assms(4) unused of unfolding rounds_ok_def jobs_ok_def job_shape_def
    by (fastforce simp: db' job_ids_def split: option.splits)
  have "round_count t at role db' \<le> 1" if w: "whole at" for t at role
  proof (cases "t = fresh")
    case True
    have "count_where (round_post fresh at role) (sd_posts db) = 0"
      using assms(2) by (auto simp: count_where_0 unused_template_def list_all_iff round_post_def)
    moreover have "count_where (round_job (Some team) fresh at role) (sd_jobs db) = 0"
      using unused by (auto simp: count_where_0 round_job_def split: option.splits)
    ultimately show ?thesis using True none
      by (simp add: round_count_def db' team_of_template_keys keys [unfolded db'] map_add_def)
  next
    case False
    then have "round_count t at role db' = round_count t at role db"
      by (simp add: round_count_def team_of_template_keys of) (simp add: db')
    then show ?thesis using assms(4) w by (simp add: rounds_ok_def)
  qed
  with keys_ok clock jobs show ?thesis by (simp add: rounds_ok_def)
qed (use assms(4) in simp)

lemma delete_template_ok:
  assumes "delete_post_template team i db = (r, db')" "rounds_ok db"
  shows "rounds_ok db'"
proof (cases "db' = db")
  case False
  let ?p = "\<lambda>t. tp_team t = team \<and> tp_id t = i"
  from False assms(1) have db': "db' = db\<lparr>sd_templates := delete_where ?p (sd_templates db),
                      sd_skips := delete_where (\<lambda>s. sk_template s = i) (sd_skips db)\<rparr>"
    by (auto simp: delete_post_template_def Let_def split: if_splits)
  have keys: "template_keys db' = filter (\<lambda>k. k \<noteq> (i, team)) (template_keys db)"
    by (auto simp: template_keys_def db' delete_where_def filter_map comp_def intro!: arg_cong [where f = "map _"] filter_cong)
  have dist: "distinct (map fst (template_keys db))" using assms(2) by (simp add: rounds_ok_def keys_ok_def)
  then have dist': "distinct (map fst (template_keys db'))" unfolding keys by (rule distinct_map_filter)
  have of: "map_of (template_keys db') t = Some k \<Longrightarrow> map_of (template_keys db) t = Some k" for t k
    using map_of_eq_Some_iff [OF dist] map_of_eq_Some_iff [OF dist'] by (simp add: keys)
  have "keys_ok db'" using assms(2) dist' by (auto simp: rounds_ok_def keys_ok_def keys)
  moreover have "instants_ok db'" using assms(2) by (auto simp: rounds_ok_def instants_ok_def db')
  moreover have "jobs_ok db'"
    using assms(2) of unfolding rounds_ok_def jobs_ok_def job_shape_def
    by (fastforce simp: db' job_ids_def split: option.splits)
  moreover have "round_count t at role db' \<le> round_count t at role db" for t at role
  proof (cases "map_of (template_keys db') t")
    case None
    have "count_where (round_job None t at role) (sd_jobs db) = 0" by (simp add: count_where_0 round_job_def)
    with None show ?thesis by (simp add: round_count_def team_of_template_keys) (simp add: db')
  next
    case (Some k)
    with of [OF Some] show ?thesis by (simp add: round_count_def team_of_template_keys) (simp add: db')
  qed
  ultimately show ?thesis using assms(2) order_trans unfolding rounds_ok_def by blast
qed (use assms(2) in simp)

lemma template_step_ok: "template_step db db' \<Longrightarrow> rounds_ok db \<Longrightarrow> rounds_ok db'"
proof (induction rule: template_step.induct)
  case (t_create m fresh team pr inp db r db')
  then show ?case by (blast intro: create_template_ok)
next
  case (t_delete team i db r db')
  then show ?case by (blast intro: delete_template_ok)
next
  case (t_finish db x completer i status result err)
  then have "jobs_ok db" by (simp add: rounds_ok_def)
  from single_rounds_ok [OF finish_job_single [OF this] t_finish] show ?case .
qed (blast intro: single_rounds_ok tick_single regenerate_occurrence_single regenerate_horizon_single skip_single
      announcement_skip_single update_template_single submit_single mark_single cancel_job_single neutral_single)+

lemma template_steps_ok: "template_step\<^sup>*\<^sup>* db db' \<Longrightarrow> rounds_ok db \<Longrightarrow> rounds_ok db'"
  by (induction rule: rtranclp_induct) (auto intro: template_step_ok)

end
