(* ===== verification/Template_Progress.thy ===== *)
theory Template_Progress
  imports Template_System
begin

text \<open>
  What the walk over a template's calendar achieves: one step materializes the slot the cursor stands on and moves
  the cursor to the next one, and a walk without errors leaves no slot of the horizon open. Rounds that users ask to
  replace give way only while their posts are still theirs to change.
\<close>

section \<open>One slot\<close>

definition cursor_of :: "string \<Rightarrow> store_db \<Rightarrow> (instant option \<times> int) option" where
  "cursor_of i db = map_option (\<lambda>t. (tp_next t, tp_counter t)) (find (\<lambda>t. tp_id t = i) (sd_templates db))"

lemma cursor_on_template:
  assumes "\<And>t. tp_id (f t) = tp_id t"
  shows "cursor_of i (on_template k f db) = (if i = k then map_option (\<lambda>t. (tp_next (f t), tp_counter (f t))) (find (\<lambda>t. tp_id t = i) (sd_templates db))
    else cursor_of i db)"
  using assms
  by (simp add: cursor_of_def on_template_def find_update_where_key [where key = tp_id] option.map_comp comp_def)
     (auto dest: find_SomeD simp: map_option_case split: option.splits)

definition rule_of :: "string \<Rightarrow> store_db \<Rightarrow> string option" where
  "rule_of i db = map_option tp_recurrence (find (\<lambda>t. tp_id t = i) (sd_templates db))"

lemma rule_on_template:
  "(\<And>t. tp_id (f t) = tp_id t \<and> tp_recurrence (f t) = tp_recurrence t) \<Longrightarrow> rule_of i (on_template k f db) = rule_of i db"
  by (simp add: rule_of_def on_template_def find_update_where_key [where key = tp_id] option.map_comp comp_def if_distrib cong: if_cong)

lemma fills_round_templates: "fills_round t at role db db' \<Longrightarrow> sd_templates db' = sd_templates db \<and> sd_skips db' = sd_skips db"
  by (auto simp: fills_round_def adds_post_def adds_job_def)

lemma fills_round_mono: "fills_round t at role db db' \<Longrightarrow> round_count t' at' role' db \<le> round_count t' at' role' db'"
  by (auto simp: fills_round_def adds_post_def adds_job_def round_count_def team_of_template_keys template_keys_def count_where_Suc)

lemma count_announcement_effect:
  assumes "count_announcement x t advance db = (Inr (), db')"
  shows "cursor_of i db' = cursor_of i db \<and> rule_of i db' = rule_of i db \<and> sd_skips db' = sd_skips db"
proof -
  have "rule_of i (advance_post_template_announcement_counter now k c db) = rule_of i db" for now k c
    by (simp add: advance_post_template_announcement_counter_def rule_on_template)
  moreover
  have "cursor_of i (advance_post_template_announcement_counter now k c db) = cursor_of i db" for now k c
    by (simp add: advance_post_template_announcement_counter_def cursor_on_template) (simp add: cursor_of_def)
  moreover have "sd_skips (advance_post_template_announcement_counter now k c db) = sd_skips db" for now k c
    by (simp add: advance_post_template_announcement_counter_def on_template_def)
  ultimately show ?thesis using assms
    by (auto simp: count_announcement_def faulty_def always_def split: if_splits option.splits)
qed

lemma announcement_effect:
  assumes "materialize_announcement m t main advance db = (Inr (), db')" "keys_ok db" "template_in t db"
  shows "cursor_of i db' = cursor_of i db \<and> rule_of i db' = rule_of i db \<and> sd_skips db' = sd_skips db \<and> round_count t' at role db \<le> round_count t' at role db'"
  using announcement_cases [OF assms]
proof (elim disjE exE conjE)
  fix d
  assume f: "fills_round (tp_id t) main ''announcement'' db d"
    and c: "count_announcement (for_round ''announcement'' main (me_auto m)) t advance d = (Inr (), db')"
  from fills_round_templates [OF f] fills_round_mono [OF f] count_announcement_effect [OF c] same_rounds_count [OF count_announcement_same [OF c]]
  show ?thesis by (simp add: cursor_of_def rule_of_def)
qed simp

lemma advance_effect:
  assumes "advance_schedule m t occ nx c db = (Inr (), db')" "template_in t db"
  shows "cursor_of (tp_id t) db' = Some (Some nx, c) \<and> rule_of i db' = rule_of i db \<and> same_rounds db db' \<and> sd_skips db' = sd_skips db"
proof -
  from assms(1) have db': "db' = advance_post_template_schedule (ax_now (for_round ''main'' occ (me_auto m))) (tp_id t) (Some nx) c db"
    by (auto simp: advance_schedule_def Let_def faulty_def always_def split: option.splits)
  from assms(2) have "find (\<lambda>r. tp_id r = tp_id t) (sd_templates db) \<noteq> None"
    by (auto simp: template_in_def template_keys_def find_None_iff)
  then have "cursor_of (tp_id t) db' = Some (Some nx, c)"
    by (auto simp: db' advance_post_template_schedule_def cursor_on_template)
  moreover have "sd_skips db' = sd_skips db" by (simp add: db' advance_post_template_schedule_def on_template_def)
  moreover have "rule_of i db' = rule_of i db" by (simp add: db' advance_post_template_schedule_def rule_on_template)
  ultimately show ?thesis by (simp add: db')
qed

lemma round_effect:
  assumes "materialize_round m t occ at nx db = (Inr b, db')" "keys_ok db" "template_in t db"
  shows "b \<and> cursor_of (tp_id t) db' = Some (Some nx, tp_counter t + (if 0 < round_count (tp_id t) at ''main'' db then 0 else 1)) \<and>
    (at \<noteq> zero_time \<longrightarrow> 0 < round_count (tp_id t) at ''main'' db') \<and> sd_skips db' = sd_skips db \<and>
    rule_of i db' = rule_of i db \<and> template_keys db' = template_keys db \<and>
    (\<forall>t' at role. round_count t' at role db \<le> round_count t' at role db')"
proof -
  from assms(1) obtain ex d1 d2 where ex: "ex = (0 < round_count (tp_id t) at ''main'' db)"
    and c: "if ex then d1 = db else create_scheduled_post_from_template m t at at ''main'' db = (Inr (), d1)"
    and a: "advance_schedule m t occ nx (if ex then tp_counter t else tp_counter t + 1) d1 = (Inr (), d2)"
    and n: "materialize_announcement m t at (\<not> ex) d2 = (Inr (), db')" and b: "b"
    by (elim materialize_round_D)
  have d1: "template_keys d1 = template_keys db \<and> sd_skips d1 = sd_skips db \<and> rule_of i d1 = rule_of i db \<and> (at \<noteq> zero_time \<longrightarrow> 0 < round_count (tp_id t) at ''main'' d1) \<and>
      (\<forall>t' at role. round_count t' at role db \<le> round_count t' at role d1)"
  proof (cases ex)
    case False
    with c create_main_cases [OF _ assms(2,3)] ex have f: "fills_round (tp_id t) at ''main'' db d1" by fastforce
    from fills_round_count [OF f] fills_round_mono [OF f] fills_round_templates [OF f] show ?thesis by (simp add: template_keys_def rule_of_def)
  qed (use c ex in simp)
  then have t1: "template_in t d1" "keys_ok d1" using assms(2,3) by (simp_all add: template_in_def keys_ok_def)
  from advance_effect [OF a t1(1)] have d2: "cursor_of (tp_id t) d2 = Some (Some nx, if ex then tp_counter t else tp_counter t + 1)"
    "same_rounds d1 d2" "sd_skips d2 = sd_skips d1" "rule_of i d2 = rule_of i d1" by simp_all
  then have t2: "template_in t d2" "keys_ok d2" using t1 by (simp_all add: same_rounds_def template_in_def keys_ok_def)
  have mono: "round_count t' at role d1 \<le> round_count t' at role db'" for t' at role
    using announcement_effect [OF n t2(2,1), of "tp_id t" t' at role] same_rounds_count [OF d2(2)] by simp
  from announcement_effect [OF n t2(2,1)] have "cursor_of (tp_id t) db' = cursor_of (tp_id t) d2" "sd_skips db' = sd_skips d2"
    "rule_of i db' = rule_of i d2" by blast+
  moreover have "template_keys db' = template_keys d2"
    using announcement_cases [OF n t2(2,1)] same_rounds_def count_announcement_same
    by (auto simp: fills_round_def adds_post_def adds_job_def template_keys_def)
  moreover have "template_keys d2 = template_keys d1" using d2(2) by (simp add: same_rounds_def)
  ultimately show ?thesis using d1 d2 b ex by (auto intro: order_trans [OF _ mono] less_le_trans [OF _ mono])
qed


text \<open>The slot the walk uses for the round of \<open>occ\<close>: none when it is skipped, another when it is shifted.\<close>

definition walk_slot :: "mat_env \<Rightarrow> template_row \<Rightarrow> instant \<Rightarrow> store_db \<Rightarrow> instant option" where
  "walk_slot m t occ db =
     (if is_post_template_occurrence_skipped (tp_id t) occ db then maybe_shift_occurrence m t occ db else Some occ)"

lemma get_template_row:
  assumes "keys_ok db" "get_post_template team i db = Inr t"
  shows "cursor_of i db = Some (tp_next t, tp_counter t) \<and> rule_of i db = Some (tp_recurrence t)"
proof -
  from assms(2) obtain r where r: "r \<in> set (sd_templates db)" "tp_id r = i" "t = scan_post_template r"
    by (auto simp: get_post_template_def scan_post_template_def dest!: find_SomeD split: option.splits)
  moreover have "distinct (map tp_id (sd_templates db))"
    using assms(1) by (simp add: keys_ok_def template_keys_def comp_def)
  ultimately have "find (\<lambda>t. tp_id t = i) (sd_templates db) = Some r" by (simp add: find_unique [where key = tp_id])
  with r(3) show ?thesis by (simp add: cursor_of_def rule_of_def scan_post_template_def)
qed

lemma occurrence_effect:
  assumes "materialize_template_occurrence_once m t occ db = (Inr b, db')" "keys_ok db" "template_in t db"
  shows "if b then \<exists>nx. next_slot m (tp_recurrence t) occ = Some nx \<and> template_keys db' = template_keys db \<and> sd_skips db' = sd_skips db \<and>
      rule_of i db' = rule_of i db \<and> (\<forall>t' at role. round_count t' at role db \<le> round_count t' at role db') \<and>
      (case walk_slot m t occ db of
         None \<Rightarrow> cursor_of (tp_id t) db' = Some (Some nx, tp_counter t) \<and> sd_posts db' = sd_posts db \<and> sd_jobs db' = sd_jobs db
       | Some at \<Rightarrow> cursor_of (tp_id t) db' = Some (Some nx, tp_counter t + (if 0 < round_count (tp_id t) at ''main'' db then 0 else 1)) \<and>
           (at \<noteq> zero_time \<longrightarrow> 0 < round_count (tp_id t) at ''main'' db'))
    else db' = db \<and> next_slot m (tp_recurrence t) occ = None"
proof (cases "next_slot m (tp_recurrence t) occ")
  case None
  with assms(1) show ?thesis by (simp add: materialize_template_occurrence_once_def)
next
  case (Some nx)
  with assms(1) obtain skipped where s: "skipped = is_post_template_occurrence_skipped (tp_id t) occ db"
    and r: "if skipped then (case maybe_shift_occurrence m t occ db of Some at \<Rightarrow> materialize_round m t occ at nx db
        | None \<Rightarrow> and_then (advance_schedule m t occ nx (tp_counter t)) (\<lambda>_ db. (Inr True, db)) db) = (Inr b, db')
      else materialize_round m t occ occ nx db = (Inr b, db')"
    by (auto simp: materialize_template_occurrence_once_def dest!: look_Inr split: sum.splits bool.splits)
  show ?thesis
  proof (cases "walk_slot m t occ db")
    case None
    with r s have "advance_schedule m t occ nx (tp_counter t) db = (Inr (), db')" "b"
      by (auto simp: walk_slot_def and_then_Inr split: if_splits)
    from advance_effect [OF this(1) assms(3), of i] this(2) None Some show ?thesis
      by (auto simp: same_rounds_def round_count_def team_of_template_keys)
  next
    case (Some at)
    with r s have "materialize_round m t occ at nx db = (Inr b, db')"
      by (auto simp: walk_slot_def split: if_splits)
    from round_effect [OF this assms(2,3), of i] Some \<open>next_slot m (tp_recurrence t) occ = Some nx\<close> show ?thesis by auto
  qed
qed

lemma occurrence_cases:
  assumes "materialize_template_occurrence m t occ db = (r, db')" "get_post_template (tp_team t) (tp_id t) db = Inr fresh"
    "keys_ok db"
  shows "(\<exists>e. r = Inl e) \<and> db' = db \<or> r = Inr False \<and> db' = db \<and> tp_next fresh \<noteq> Some occ \<or>
    (\<exists>b. r = Inr b \<and> tp_next fresh = Some occ \<and> materialize_template_occurrence_once m fresh occ db = (Inr b, db'))"
proof -
  let ?x = "for_round ''main'' occ (me_auto m)"
  have id: "tp_id fresh \<noteq> []" using template_in_plain [OF assms(3)] get_template_in [OF assms(2)] by blast
  show ?thesis
  proof (cases r)
    case (Inl e)
    with assms(1) show ?thesis
      by (auto simp: materialize_template_occurrence_def with_audit_transaction_def split: prod.splits sum.splits)
  next
    case (Inr b)
    with assms(1) obtain u f where l: "look ?x ''cursor lock'' (lock_automation_source ''post_template'' (tp_id t)) db = Inr u"
      and f: "look ?x ''cursor'' (get_post_template (tp_team t) (tp_id t)) db = Inr f"
      by (auto simp: materialize_template_occurrence_def with_audit_transaction_def Let_def split: sum.splits)
    from look_Inr [OF f] assms(2) have "f = fresh" by simp
    with assms(1) l f Inr id show ?thesis
      by (auto simp: materialize_template_occurrence_def with_audit_transaction_def Let_def split: prod.splits sum.splits if_splits)
  qed
qed


section \<open>The walk\<close>

text \<open>The slots of a walk from \<open>occ\<close>: those of the rule up to the horizon, at most \<open>n\<close>.\<close>

fun slots_until :: "nat \<Rightarrow> mat_env \<Rightarrow> string \<Rightarrow> instant \<Rightarrow> instant \<Rightarrow> instant list" where
  "slots_until 0 m raw end_at occ = []"
| "slots_until (Suc n) m raw end_at occ =
     (if end_at < occ then [] else
        (case next_slot m raw occ of None \<Rightarrow> [] | Some nx \<Rightarrow> occ # slots_until n m raw end_at nx))"

lemma skipped_eq: "sd_skips db' = sd_skips db \<Longrightarrow> is_post_template_occurrence_skipped i s db' = is_post_template_occurrence_skipped i s db"
  by (simp add: is_post_template_occurrence_skipped_def)

lemma keys_ok_keys: "template_keys db' = template_keys db \<Longrightarrow> keys_ok db' = keys_ok db"
  by (simp add: keys_ok_def)

lemma walk_covers:
  assumes "materialize_loop n m end_at t db = (Inr (), db')" "keys_ok db" "get_post_template team i db = Inr t" "tp_next t = Some occ"
  shows "(\<forall>t' at role. round_count t' at role db \<le> round_count t' at role db') \<and> sd_skips db' = sd_skips db \<and>
    (\<forall>s \<in> set (slots_until n m (tp_recurrence t) end_at occ).
       \<not> is_post_template_occurrence_skipped i s db \<and> s \<noteq> zero_time \<longrightarrow> 0 < round_count i s ''main'' db')"
  using assms
proof (induction n arbitrary: t db occ)
  case (Suc n)
  from get_template_in [OF Suc.prems(3)] have t: "template_in t db" "tp_id t = i" "tp_team t = team" by simp_all
  show ?case
  proof (cases "end_at < occ")
    case True
    with Suc.prems(1,4) show ?thesis by simp
  next
    case False
    obtain r d where r: "materialize_template_occurrence m t occ db = (r, d)" by (metis surj_pair)
    from Suc.prems(1,4) False r have "\<not> (\<exists>e. r = Inl e)" by auto
    with occurrence_cases [OF r _ Suc.prems(2), of t] t Suc.prems(3,4) obtain b where b: "r = Inr b"
      and once: "materialize_template_occurrence_once m t occ db = (Inr b, d)" by auto
    note e = occurrence_effect [OF once Suc.prems(2) t(1), of i]
    show ?thesis
    proof (cases b)
      case False
      with e Suc.prems(1,4) \<open>\<not> end_at < occ\<close> r b show ?thesis by simp
    next
      case True
      with e obtain nx where nx: "next_slot m (tp_recurrence t) occ = Some nx" and keys: "template_keys d = template_keys db"
        and skips: "sd_skips d = sd_skips db" and rule: "rule_of i d = rule_of i db"
        and mono: "\<And>t' at role. round_count t' at role db \<le> round_count t' at role d"
        and cur: "\<exists>c. cursor_of i d = Some (Some nx, c)"
        and main: "\<And>at. walk_slot m t occ db = Some at \<Longrightarrow> at \<noteq> zero_time \<Longrightarrow> 0 < round_count i at ''main'' d"
        using t(2) by (auto split: option.splits)
      from Suc.prems(1,4) False True r b obtain t' where t': "get_post_template team i d = Inr t'"
        and loop: "materialize_loop n m end_at t' d = (Inr (), db')"
        using \<open>\<not> end_at < occ\<close> t by (auto dest!: look_Inr split: sum.splits)
      have keys_ok: "keys_ok d" using keys_ok_keys [OF keys] Suc.prems(2) by simp
      from get_template_row [OF keys_ok t'] cur rule get_template_row [OF Suc.prems(2,3)]
      have fresh: "tp_next t' = Some nx" "tp_recurrence t' = tp_recurrence t" by auto
      note IH = Suc.IH [OF loop keys_ok t' fresh(1)]
      have "0 < round_count i occ ''main'' db'" if "\<not> is_post_template_occurrence_skipped i occ db" "occ \<noteq> zero_time"
      proof -
        from that(1) t(2) have "walk_slot m t occ db = Some occ" by (simp add: walk_slot_def)
        from main [OF this that(2)] IH show ?thesis by (meson less_le_trans)
      qed
      moreover have "round_count t' at role db \<le> round_count t' at role db'" for t' at role
        using mono [of t' at role] IH by (meson le_trans)
      ultimately show ?thesis using IH skips nx fresh(2) \<open>\<not> end_at < occ\<close> by (auto simp: skipped_eq [OF skips])
    qed
  qed
qed simp

section \<open>A store to run on\<close>

definition demo_template :: template_row where
  "demo_template = \<lparr>tp_id = ''tpl'', tp_team = ''t1'', tp_author = ''u1'', tp_title = [], tp_content = ''C'',
     tp_recurrence = ''r'', tp_visibility = ''public'', tp_media_ids = [], tp_media_exclude = [], tp_targets = [],
     tp_enabled = True, tp_ai_enhance = False, tp_ai_enhance_ann = False, tp_output_mode = ''scheduled'',
     tp_prompt_hint = [], tp_title_hint = [], tp_tonality = [], tp_horizon_days = 0, tp_next = Some 0, tp_counter = 1,
     tp_ann_enabled = False, tp_ann_title = [], tp_ann_content = [], tp_ann_days_before = 0, tp_ann_counter = 1,
     tp_ann_targets = [], tp_created = 0, tp_updated = 0\<rparr>"

lemma demo_fields:
  "tp_id demo_template = ''tpl''" "tp_team demo_template = ''t1''" "tp_author demo_template = ''u1''" "tp_title demo_template = []"
  "tp_content demo_template = ''C''" "tp_targets demo_template = []" "tp_ai_enhance demo_template = False"
  "tp_output_mode demo_template = ''scheduled''" "tp_counter demo_template = 1" "tp_next demo_template = Some 0"
  "tp_recurrence demo_template = ''r''" "tp_horizon_days demo_template = 0" "tp_ann_enabled demo_template = False"
  "tp_enabled demo_template"
  by (simp_all add: demo_template_def)

definition round_store :: store_db where
  "round_store = ann_store\<lparr>sd_templates := [demo_template]\<rparr>"

definition round_env :: mat_env where
  "round_env = \<lparr>me_auto = job_env, me_rule = (\<lambda>_. Some tuesdays_fridays), me_zones = (\<lambda>_. Some (fixed_zone 0)),
     me_manager = False, me_config = Config_Missing [], me_context = None\<rparr>"

lemma round_store_ok: "rounds_ok round_store"
  by (simp add: rounds_ok_def round_store_def ann_store_def empty_store_def keys_ok_def template_keys_def demo_template_def trim_eval
      instants_ok_def whole_def jobs_ok_def job_ids_def round_count_def count_where_def)

lemma demo_next: "\<exists>n. next_slot round_env ''r'' 0 = Some n \<and> 0 < n"
proof -
  have v: "validate_recurrence_rule (\<lambda>_. Some (fixed_zone 0)) tuesdays_fridays = Inr ()"
    by (simp add: validate_recurrence_rule_def tuesdays_fridays_def weekday_ok_def)
  have p: "parse_recurrence_json (\<lambda>_. Some tuesdays_fridays) (\<lambda>_. Some (fixed_zone 0)) ''r'' = Inr tuesdays_fridays"
    by (simp add: parse_recurrence_json_def Let_def v trim_eval)
  obtain t where "next_occurrence (\<lambda>_. Some (fixed_zone 0)) (Some tuesdays_fridays) 0 = Inr t"
    using v by (auto simp: next_occurrence_def Let_def tuesdays_fridays_def)
  then have "next_slot round_env ''r'' 0 = Some t" by (simp add: next_slot_def round_env_def p)
  with next_slot_later [OF this] show ?thesis by blast
qed

lemma scheduled_mode: "normalize_automation_output_mode ''scheduled'' = ''scheduled''"
  by (simp add: normalize_automation_output_mode_def trim_eval to_lower_def replace_all_def lower_char_def
      bytes_u0130_def bytes_u212A_def of_char_def)

lemma create_post_succeeds:
  assumes "fresh \<notin> rw_id ` set (sd_posts db)" "team_exists team db" "user_exists (u_id (p_user pr)) db"
    "in_override inp = []" "in_target_accounts inp = []" "in_rss_feed_id inp = None" "in_source inp = source_automation"
    "in_author_user_id inp = None \<or> in_author_user_id inp = Some (u_id (p_user pr))" "trim_space (u_id (p_user pr)) = u_id (p_user pr)"
  shows "\<exists>p d. create_scheduled_post now fresh team pr inp db = (Inr p, d) \<and> sd_identity d = sd_identity db"
proof -
  have source: "trim_space source_automation = source_automation" "source_automation \<noteq> []"
    by (simp_all add: trim_eval)
  have row: "sp_id (rw_post (new_post_row now fresh team pr inp)) = fresh" "sp_team_id (rw_post (new_post_row now fresh team pr inp)) = team"
    "sp_author (rw_post (new_post_row now fresh team pr inp)) = u_id (p_user pr)"
    "sp_source (rw_post (new_post_row now fresh team pr inp)) = source_automation"
    "sp_rss_feed_id (rw_post (new_post_row now fresh team pr inp)) = None"
    "rw_team (new_post_row now fresh team pr inp) = team" "rw_id (new_post_row now fresh team pr inp) = fresh"
    using assms source by (auto simp: new_post_row_def resolve_post_insert_def Let_def trimmed_ref_def split: if_splits)
  have "find (\<lambda>r. rw_team r = team \<and> rw_id r = fresh) (sd_posts db @ [new_post_row now fresh team pr inp]) \<noteq> None"
    using row by (auto simp: find_None_iff)
  then show ?thesis
    using assms row by (auto simp: create_scheduled_post_def with_audit_transaction_def and_then_def insert_post_def insert_versions_def
      insert_targets_def Let_def get_scheduled_post_def list_ex_iff)
qed

lemma demo_round: "fst (create_scheduled_post_from_template round_env demo_template 0 0 ''main'' round_store) = Inr ()"
proof -
  let ?x = "for_round ''main'' 0 (me_auto round_env)"
  let ?inp = "round_input demo_template [] ''C'' 0 [] False 1 0 ''main'' False"
  have calm: "faulty (ax_env ?x) c f db = f db" for c and f :: "'a store_op" and db
    by (simp add: faulty_def for_round_def round_env_def job_env_def quiet_env_def)
  have look: "look ?x c f db = f db" for c and f :: "store_db \<Rightarrow> store_error + 'a" and db
    by (simp add: look_def faulty_def reading_def for_round_def round_env_def job_env_def quiet_env_def)
  have free: "has_post_template_role_materialized ''tpl'' 0 ''main'' round_store = Inr False"
    by (simp add: has_post_template_role_materialized_def round_count_def round_store_def ann_store_def empty_store_def count_where_def)
  have lock: "lock_automation_source ''post_template'' ''tpl'' round_store = Inr ()"
    by (simp add: lock_automation_source_def round_store_def demo_template_def)
  have taken: "round_taken ?x ?inp round_store = Inr False"
    using free lock by (simp add: round_taken_def look demo_template_def)
  obtain p d where p: "create_scheduled_post (ax_now ?x) (ax_fresh ?x ''post'') ''t1'' (system_principal ''u1'') ?inp round_store = (Inr p, d)"
    and d: "sd_identity d = sd_identity round_store"
    using create_post_succeeds [of "ax_fresh ?x ''post''" round_store "''t1''" "system_principal ''u1''" ?inp "ax_now ?x"]
    by (auto simp: round_store_def ann_store_def empty_store_def team_exists_def user_exists_def one_user_db_def
        empty_identity_db_def system_principal_def round_input_def ensure_title_def empty_input_def demo_template_def trim_eval)
  have event: "\<exists>e. insert_audit_event now fresh (automation_event i ''t1'' a b c m) d = (Inr (), e)" for now fresh i a b c m
    using d by (auto simp: insert_audit_event_def Let_def fill_event_def automation_event_def team_exists_def round_store_def ann_store_def)
  have post: "\<exists>e. create_automation_post ?x ''t1'' (system_principal ''u1'') ?inp m no_follow_up round_store = (Inr (Some p), e)" for m
  proof -
    obtain e where "insert_audit_event (ax_now ?x) (ax_fresh ?x ''create event'') (automation_event (ax_fresh ?x ''create event'') ''t1''
        ''post.automation_create'' ''post'' (sp_id p) ((''post_id'', sp_id p) # (case in_author_user_id ?inp of None \<Rightarrow> []
          | Some a \<Rightarrow> [(''author_user_id'', a)]) @ initiator_meta ?x @ m)) d = (Inr (), e)"
      using event by blast
    with p taken show ?thesis
      by (simp add: create_automation_post_def with_audit_transaction_def calm and_then_def no_follow_up_def)
  qed
  have title: "expand_post_template_title [] a c n k = []" for a c n k
    by (simp add: expand_post_template_title_def expand_dynamic_variables_def)
  note mode = scheduled_mode
  obtain e where "create_automation_post ?x ''t1'' (system_principal ''u1'') ?inp (round_meta demo_template 0 ''main'' False)
      no_follow_up round_store = (Inr (Some p), e)" using post by blast
  with lock free show ?thesis
    by (simp add: create_scheduled_post_from_template_def with_audit_transaction_def Let_def look
        create_scheduled_post_from_template_once_def should_enhance_recurring_def job_or_post_def title mode demo_fields)
qed

lemma demo_calm:
  "look (for_round role at (me_auto round_env)) c f db = f db"
  "faulty (ax_env (for_round role at (me_auto round_env))) c g db = g db"
  by (simp_all add: look_def faulty_def reading_def for_round_def round_env_def job_env_def quiet_env_def)

lemma demo_occurrence:
  "\<exists>d nx. materialize_template_occurrence round_env demo_template 0 round_store = (Inr True, d) \<and> 0 < nx \<and>
     sd_templates d = [demo_template\<lparr>tp_next := Some nx, tp_counter := 2, tp_updated := ax_now (for_round ''main'' 0 (me_auto round_env))\<rparr>]"
proof -
  let ?x = "for_round ''main'' 0 (me_auto round_env)"
  obtain nx where nx: "next_slot round_env ''r'' 0 = Some nx" "0 < nx" using demo_next by blast
  obtain d where d: "create_scheduled_post_from_template round_env demo_template 0 0 ''main'' round_store = (Inr (), d)"
    using demo_round by (metis prod.collapse)
  have ok: "keys_ok round_store" using round_store_ok by (simp add: rounds_ok_def)
  have get: "get_post_template ''t1'' ''tpl'' round_store = Inr demo_template"
    by (simp add: get_post_template_def round_store_def demo_fields scheduled_mode)
  have free: "has_post_template_role_materialized ''tpl'' 0 ''main'' round_store = Inr False"
    by (simp add: has_post_template_role_materialized_def round_count_def round_store_def ann_store_def empty_store_def count_where_def)
  have lock: "lock_automation_source ''post_template'' ''tpl'' round_store = Inr ()"
    by (simp add: lock_automation_source_def round_store_def demo_fields)
  have skip: "\<not> is_post_template_occurrence_skipped ''tpl'' 0 round_store"
    by (simp add: is_post_template_occurrence_skipped_def round_store_def ann_store_def empty_store_def)
  let ?d = "advance_post_template_schedule (ax_now ?x) ''tpl'' (Some nx) 2 d"
  have r: "materialize_round round_env demo_template 0 0 nx round_store = (Inr True, ?d)"
    using d free by (simp add: materialize_round_def Let_def demo_calm demo_fields and_then_def advance_schedule_def always_def
        materialize_announcement_def)
  have occ: "materialize_template_occurrence round_env demo_template 0 round_store = (Inr True, ?d)"
    using r lock get skip nx
    by (simp add: materialize_template_occurrence_def with_audit_transaction_def Let_def demo_calm demo_fields
        materialize_template_occurrence_once_def)
  have in_d: "template_in demo_template round_store" using get_template_in [OF get] by simp
  have td: "sd_templates d = [demo_template]"
    using create_main_cases [OF d ok in_d] fills_round_templates by (fastforce simp: round_store_def)
  let ?t = "demo_template\<lparr>tp_next := Some nx, tp_counter := 2, tp_updated := ax_now ?x\<rparr>"
  have t2: "sd_templates ?d = [?t]"
    using td by (simp add: advance_post_template_schedule_def on_template_def update_where_def demo_fields)
  with occ nx show ?thesis by blast
qed

lemma demo_walk:
  "\<exists>d. materialize_template_horizon round_env demo_template 0 round_store = (Inr (), d) \<and> sd_templates d \<noteq> []"
proof -
  obtain d nx where occ: "materialize_template_occurrence round_env demo_template 0 round_store = (Inr True, d)" and nx: "0 < nx"
    and d: "sd_templates d = [demo_template\<lparr>tp_next := Some nx, tp_counter := 2, tp_updated := ax_now (for_round ''main'' 0 (me_auto round_env))\<rparr>]"
    using demo_occurrence by blast
  then have "get_post_template ''t1'' ''tpl'' d = Inr (demo_template\<lparr>tp_next := Some nx, tp_counter := 2,
      tp_updated := ax_now (for_round ''main'' 0 (me_auto round_env))\<rparr>)"
    by (simp add: get_post_template_def demo_fields scheduled_mode)
  then have "materialize_loop 64 round_env 0 demo_template round_store = (Inr (), d)"
    using occ nx by (simp add: numeral_eq_Suc demo_fields demo_calm)
  then show ?thesis using d by (simp add: materialize_template_horizon_def materialize_horizon_end_def demo_fields)
qed

lemma demo_get: "get_post_template ''t1'' ''tpl'' round_store = Inr demo_template"
  by (simp add: get_post_template_def round_store_def demo_fields scheduled_mode)

lemma demo_slots: "0 \<in> set (slots_until 64 round_env (tp_recurrence demo_template) (materialize_horizon_end 0 (tp_horizon_days demo_template)) 0)"
  using demo_next by (auto simp: numeral_eq_Suc demo_fields materialize_horizon_end_def)

lemma demo_not_skipped: "\<not> is_post_template_occurrence_skipped ''tpl'' 0 round_store"
  by (simp add: is_post_template_occurrence_skipped_def round_store_def ann_store_def empty_store_def)

lemma demo_keys: "keys_ok round_store"
  using round_store_ok by (simp add: rounds_ok_def)

lemma demo_tick: "0 < round_count ''tpl'' 0 ''main'' (snd (materialize_post_templates round_env round_store))"
proof -
  obtain d where d: "materialize_template_horizon round_env demo_template 0 round_store = (Inr (), d)" using demo_walk by blast
  have "list_enabled_post_templates 100 round_store = [demo_template]"
    by (simp add: list_enabled_post_templates_def round_store_def demo_fields scan_post_template_def scheduled_mode)
  moreover have "ax_now (me_auto round_env) = 0" "look (me_auto round_env) c f db = f db" for c and f :: "store_db \<Rightarrow> store_error + template_row list" and db
    by (simp_all add: round_env_def job_env_def quiet_env_def look_def faulty_def reading_def)
  ultimately have "materialize_post_templates round_env round_store = (Inr (), d)"
    using d by (simp add: materialize_post_templates_def)
  with walk_covers [OF d [unfolded materialize_template_horizon_def] demo_keys demo_get, of 0] demo_slots demo_not_skipped show ?thesis
    by (simp add: demo_fields zero_time_def nanos_def)
qed

section \<open>Properties\<close>




text \<open>C16: a walk that reports no error has materialized every slot of the template's rule from the cursor to the end of
  its horizon (the first 64 of them), except those that are skipped, and touched no skip.\<close>
theorem horizon_covered:
  assumes "keys_ok db" "get_post_template team i db = Inr t" "tp_next t = Some occ"
    "materialize_template_horizon m t now db = (Inr (), db')"
    "s \<in> set (slots_until 64 m (tp_recurrence t) (materialize_horizon_end now (tp_horizon_days t)) occ)"
    "\<not> is_post_template_occurrence_skipped i s db" "s \<noteq> zero_time"
  shows "0 < round_count i s ''main'' db' \<and> sd_skips db' = sd_skips db"
  using walk_covers [OF assms(4) [unfolded materialize_template_horizon_def] assms(1-3)] assms(5-7) by blast

theorem horizon_covered_witness:
  "0 < round_count ''tpl'' 0 ''main'' (snd (materialize_template_horizon round_env demo_template 0 round_store))"
proof -
  obtain d where d: "materialize_template_horizon round_env demo_template 0 round_store = (Inr (), d)" using demo_walk by blast
  have "0 < round_count ''tpl'' 0 ''main'' d"
    using horizon_covered [OF demo_keys demo_get _ d demo_slots demo_not_skipped] by (simp add: demo_fields zero_time_def nanos_def)
  with d show ?thesis by simp
qed

text \<open>C17: one step of the walk, when the cursor of the template stands on \<open>occ\<close>: the cursor moves to the next
  occurrence of the rule; the slot (the shifted one, when it is shifted) holds its main round afterwards and the
  edition number advances exactly when the round was created; a skipped slot only moves the cursor. A step that fails
  changes nothing, and one that finds the cursor moved by another process does nothing.\<close>
theorem materialized_occurrence:
  assumes "keys_ok db" "get_post_template team i db = Inr t" "tp_id u = i" "tp_team u = team"
    "materialize_template_occurrence m u occ db = (r, db')"
  shows "case r of Inl e \<Rightarrow> db' = db
    | Inr False \<Rightarrow> db' = db \<and> (tp_next t \<noteq> Some occ \<or> next_slot m (tp_recurrence t) occ = None)
    | Inr True \<Rightarrow> \<exists>nx. tp_next t = Some occ \<and> next_slot m (tp_recurrence t) occ = Some nx \<and> occ < nx \<and>
        (case walk_slot m t occ db of
           None \<Rightarrow> cursor_of i db' = Some (Some nx, tp_counter t) \<and> sd_posts db' = sd_posts db \<and> sd_jobs db' = sd_jobs db
         | Some at \<Rightarrow> cursor_of i db' = Some (Some nx, tp_counter t + (if 0 < round_count i at ''main'' db then 0 else 1)) \<and>
             (at \<noteq> zero_time \<longrightarrow> 0 < round_count i at ''main'' db'))"
proof -
  from get_template_in [OF assms(2)] have t: "template_in t db" "tp_id t = i" by simp_all
  from occurrence_cases [OF assms(5) _ assms(1), of t] assms(2-4) consider e where "r = Inl e" "db' = db"
    | "r = Inr False" "db' = db" "tp_next t \<noteq> Some occ"
    | b where "r = Inr b" "tp_next t = Some occ" "materialize_template_occurrence_once m t occ db = (Inr b, db')" by auto
  then show ?thesis
  proof cases
    case (3 b)
    note e = occurrence_effect [OF 3(3) assms(1) t(1), of i, unfolded t(2)]
    show ?thesis
    proof (cases b)
      case True
      with e 3(1,2) show ?thesis by (simp only: if_True sum.case bool.case) (blast intro: next_slot_later)
    next
      case False
      with e 3(1) show ?thesis by simp
    qed
  qed simp_all
qed


theorem materialized_occurrence_witness:
  "\<exists>nx d. materialize_template_occurrence round_env demo_template 0 round_store = (Inr True, d) \<and> 0 < nx \<and>
     cursor_of ''tpl'' d = Some (Some nx, 2) \<and> 0 < round_count ''tpl'' 0 ''main'' d"
proof -
  obtain d where d: "materialize_template_occurrence round_env demo_template 0 round_store = (Inr True, d)" using demo_occurrence by blast
  have w: "walk_slot round_env demo_template 0 round_store = Some 0" using demo_not_skipped by (simp add: walk_slot_def demo_fields)
  have "round_count ''tpl'' 0 ''main'' round_store = 0"
    by (simp add: round_count_def round_store_def ann_store_def empty_store_def count_where_def)
  with materialized_occurrence [OF demo_keys demo_get _ _ d] w d show ?thesis
    by (auto simp: demo_fields zero_time_def nanos_def)
qed

end
