(* ===== verification/Rss_Import.thy ===== *)
theory Rss_Import
  imports Job_Rounds
begin

text \<open>
  The RSS importer: \<open>internal/scheduler/rss_import.go\<close> and \<open>rss_ai.go\<close> (polling a feed, its first fetch, the import
  of one item as a job or a post), \<open>internal/rss\<close> (what becomes of a parsed entry, the expansion of the feed's
  templates). One poll reads one clock.
\<close>

section \<open>Entries of a feed\<close>

text \<open>An entry as the third-party parser returns it, with the instants it could read.\<close>

record feed_entry =
  fe_guid :: string
  fe_link :: string
  fe_title :: string
  fe_content :: string
  fe_description :: string
  fe_published :: "instant option"
  fe_updated :: "instant option"

record feed_item =
  fi_guid :: string
  fi_link :: string
  fi_title :: string
  fi_content :: string
  fi_published :: instant

definition map_item :: "instant \<Rightarrow> feed_entry \<Rightarrow> feed_item" where
  "map_item now en =
     (let guid = trim_space (fe_guid en) in
      \<lparr>fi_guid = (if guid = [] then trim_space (fe_link en) else guid), fi_link = trim_space (fe_link en),
       fi_title = trim_space (fe_title en),
       fi_content = (if fe_content en \<noteq> [] then fe_content en else fe_description en),
       fi_published = (case fe_published en of Some p \<Rightarrow> p
          | None \<Rightarrow> (case fe_updated en of Some u \<Rightarrow> u | None \<Rightarrow> now))\<rparr>)"

definition feed_item_key :: "feed_item \<Rightarrow> string" where
  "feed_item_key i = (if trim_space (fi_guid i) \<noteq> [] then trim_space (fi_guid i) else trim_space (fi_link i))"

section \<open>The surroundings\<close>

text \<open>Beside those of the scheduler: the feed parser, the page fetcher (\<open>None\<close> when it fails), the reader of HTML,
  \<open>html.UnescapeString\<close>, the hash of audit details, the order in which Go ranges over the map of replacements and
  the order an unstable sort leaves equal elements in.\<close>

record import_env =
  ie_mat :: mat_env
  ie_parse :: "string \<Rightarrow> string + feed_entry list"
  ie_page :: "string \<Rightarrow> string option"
  ie_readable :: "string \<Rightarrow> string"
  ie_unescape :: "string \<Rightarrow> string"
  ie_hash :: "string \<Rightarrow> string"
  ie_order :: "string \<Rightarrow> (string \<times> string) list \<Rightarrow> (string \<times> string) list"
  ie_ties :: "feed_item list \<Rightarrow> feed_item list"

abbreviation ie_now :: "import_env \<Rightarrow> instant" where "ie_now ie \<equiv> ax_now (me_auto (ie_mat ie))"

text \<open>The calls made for one item have errors and ids of their own.\<close>

definition for_item :: "string \<Rightarrow> string \<Rightarrow> mat_env \<Rightarrow> mat_env" where
  "for_item feed key m =
     (let tag = (\<lambda>n. n @ '' '' @ feed @ '' '' @ key); x = me_auto m in
      m\<lparr>me_auto := x\<lparr>ax_env := (ax_env x)\<lparr>en_fail := (\<lambda>n. en_fail (ax_env x) (tag n))\<rparr>, ax_fresh := (\<lambda>n. ax_fresh x (tag n))\<rparr>\<rparr>)"

definition parser_fetch :: "import_env \<Rightarrow> string \<Rightarrow> string + feed_item list" where
  "parser_fetch ie url =
     (let u = trim_space url in
      if u = [] then Inl ''feed url is required''
      else (case ie_parse ie u of Inl e \<Rightarrow> Inl e | Inr es \<Rightarrow> Inr (map (map_item (ie_now ie)) es)))"

section \<open>Templates\<close>

definition default_rss_content_template :: string where
  "default_rss_content_template = var ''title'' @ [CHR 0x0A, CHR 0x0A] @ var ''link''"

definition default_rss_title_template :: string where
  "default_rss_title_template = var ''title''"

definition normalized_content_template :: "feed_row \<Rightarrow> string" where
  "normalized_content_template f =
     (if trim_space (fd_content_template f) = [] then default_rss_content_template else fd_content_template f)"

definition normalized_title_template :: "feed_row \<Rightarrow> string" where
  "normalized_title_template f =
     (if trim_space (fd_title_template f) = [] then default_rss_title_template else fd_title_template f)"

definition normalized_max_posts_per_day :: "feed_row \<Rightarrow> int" where
  "normalized_max_posts_per_day f = (if fd_max_per_day f \<le> 0 then 10 else fd_max_per_day f)"

text \<open>The matches of \<open><[^>]+>\<close>, each replaced by a blank.\<close>

function strip_tags :: "string \<Rightarrow> string" where
  "strip_tags s =
     (case s of [] \<Rightarrow> []
      | c # t \<Rightarrow>
          (let body = takeWhile (\<lambda>d. d \<noteq> CHR ''>'') t; rest = dropWhile (\<lambda>d. d \<noteq> CHR ''>'') t in
           if c = CHR ''<'' \<and> body \<noteq> [] \<and> rest \<noteq> [] then CHR '' '' # strip_tags (tl rest) else c # strip_tags t))"
  by pat_completeness auto
termination
proof (relation "measure length", goal_cases)
  case (2 s c t body rest)
  have "length rest \<le> length t" unfolding 2 by (rule length_dropWhile_le)
  with 2 show ?case by simp
qed simp_all

declare strip_tags.simps [simp del]

text \<open>\<open>strings.Fields\<close>: the runs between white space.\<close>

function go_fields :: "string \<Rightarrow> string \<Rightarrow> string list" where
  "go_fields acc s =
     (case s of [] \<Rightarrow> (if acc = [] then [] else [acc])
      | c # t \<Rightarrow>
          (let n = code_prefix_len space_codes s in
           if n = 0 then go_fields (acc @ [c]) t
           else (if acc = [] then [] else [acc]) @ go_fields [] (drop n s)))"
  by pat_completeness auto
termination
  by (relation "measure (\<lambda>(_, s). length s)") auto

declare go_fields.simps [simp del]

definition strip_html :: "import_env \<Rightarrow> string \<Rightarrow> string" where
  "strip_html ie v = join_with '' '' (go_fields [] (ie_unescape ie (strip_tags v)))"

record item_fields =
  fl_title :: string
  fl_link :: string
  fl_summary :: string
  fl_feed_name :: string
  fl_published :: instant
  fl_counter :: int

definition time_text :: "instant \<Rightarrow> string" where
  "time_text t = (case clock_of utc t of (h, mi, s) \<Rightarrow> pad_zeros 2 (itoa h) @ '':'' @ pad_zeros 2 (itoa mi))"

definition expand_content :: "import_env \<Rightarrow> string \<Rightarrow> string \<Rightarrow> item_fields \<Rightarrow> string" where
  "expand_content ie call template fl =
     (let t = trim_space template; t' = (if t = [] then default_rss_content_template else t);
          repl = [(var ''title'', trim_space (fl_title fl)), (var ''link'', trim_space (fl_link fl)),
                  (var ''summary'', strip_html ie (fl_summary fl)), (var ''feed_name'', trim_space (fl_feed_name fl)),
                  (var ''published_date'', day_text (fl_published fl)), (var ''published_time'', time_text (fl_published fl))]
      in expand_dynamic_variables (replace_each (ie_order ie call repl) t') (fl_published fl) (Some (fl_counter fl)) None None)"


section \<open>The article behind an item\<close>

text \<open>The text of the article and whether fetching it failed.\<close>

type_synonym material = "string \<times> bool"

definition rss_thin_text_chars :: nat where "rss_thin_text_chars = 280"

definition rss_article_source :: "import_env \<Rightarrow> feed_row \<Rightarrow> feed_item \<Rightarrow> material" where
  "rss_article_source ie feed item =
     (let text' = ie_readable ie (trim_space (fi_content item)) in
      if \<not> fd_enrichment feed \<or> trim_space (fi_link item) = [] \<or> rune_count text' \<ge> rss_thin_text_chars then (text', False)
      else (case ie_page ie (fi_link item) of
              None \<Rightarrow> (text', True)
            | Some article \<Rightarrow> if trim_space article = [] then (text', True) else (article, False)))"

section \<open>Errors of an import\<close>

datatype import_error =
    Import_Store store_error | Keyless | Blank_Content | No_Owner
  | Item_Reserved | Item_Claim store_error | Job_Refused
  | Post_Missing store_error | Attempt_Released store_error

text \<open>\<open>errors.Is(err, domain.ErrRSSDailyLimit)\<close>, through the wrapping.\<close>

fun is_daily_limit :: "import_error \<Rightarrow> bool" where
  "is_daily_limit (Import_Store e) = (e = err_daily_limit)"
| "is_daily_limit (Item_Claim e) = (e = err_daily_limit)"
| "is_daily_limit (Post_Missing e) = (e = err_daily_limit)"
| "is_daily_limit (Attempt_Released e) = (e = err_daily_limit)"
| "is_daily_limit _ = False"

type_synonym 'a import_op = "store_db \<Rightarrow> (import_error + 'a) \<times> store_db"

definition from_store :: "(store_error \<Rightarrow> import_error) \<Rightarrow> (store_error + 'a) \<Rightarrow> import_error + 'a" where
  "from_store f r = (case r of Inl e \<Rightarrow> Inl (f e) | Inr v \<Rightarrow> Inr v)"

definition import_transaction :: "'a import_op \<Rightarrow> 'a import_op" where
  "import_transaction body db = (case body db of (Inl e, _) \<Rightarrow> (Inl e, db) | (Inr v, db') \<Rightarrow> (Inr v, db'))"

section \<open>Reads\<close>

definition list_team_members :: "string \<Rightarrow> store_db \<Rightarrow> membership_row list" where
  "list_team_members team db = filter (\<lambda>b. mb_team b = team) (id_members (sd_identity db))"

definition team_owner_user_id :: "auto_env \<Rightarrow> string \<Rightarrow> store_db \<Rightarrow> import_error + string" where
  "team_owner_user_id x team db =
     (case look x ''members'' (\<lambda>db. Inr (list_team_members team db)) db of
        Inl e \<Rightarrow> Inl (Import_Store e)
      | Inr ms \<Rightarrow> (case find (\<lambda>b. mb_role b = Owner) ms of None \<Rightarrow> Inl No_Owner | Some b \<Rightarrow> Inr (mb_user b)))"

definition should_enhance_rss :: "mat_env \<Rightarrow> string \<Rightarrow> feed_row \<Rightarrow> store_db \<Rightarrow> bool" where
  "should_enhance_rss m call feed db \<longleftrightarrow> fd_ai_enhance feed \<and> me_manager m \<and>
     (case look (me_auto m) call (\<lambda>db. get_team_by_id (fd_team feed) (sd_identity db)) db of
        Inl _ \<Rightarrow> False | Inr team \<Rightarrow> tm_ai_enabled team)"

text \<open>The checks made before the page is fetched: whether the item is known, and the day's budget.\<close>

definition prepare_rss_article ::
  "import_env \<Rightarrow> mat_env \<Rightarrow> feed_row \<Rightarrow> feed_item \<Rightarrow> store_db \<Rightarrow> import_error + (material \<times> bool)" where
  "prepare_rss_article ie m feed item db =
     (let key = feed_item_key item; x = me_auto m in
      if key = [] then Inl Keyless
      else (case look x ''known'' (\<lambda>db. Inr (rss_item_already_imported (ax_now x) (fd_id feed) key db)) db of
              Inl e \<Rightarrow> Inl (Import_Store e)
            | Inr True \<Rightarrow> Inr (([], False), True)
            | Inr False \<Rightarrow>
                (case look x ''budget'' (\<lambda>db. Inr (count_rss_feed_posts_today (ax_now x) (fd_id feed) db)) db of
                   Inl e \<Rightarrow> Inl (Import_Store e)
                 | Inr used \<Rightarrow>
                     if int used \<ge> normalized_max_posts_per_day feed then Inl (Import_Store err_daily_limit)
                     else Inr (rss_article_source ie feed item, False))))"


section \<open>Importing one item\<close>

definition rss_job ::
  "feed_row \<Rightarrow> string \<Rightarrow> string \<Rightarrow> string \<Rightarrow> instant \<Rightarrow> bool \<Rightarrow> string \<Rightarrow> material \<Rightarrow> job_input" where
  "rss_job feed key content title at draft owner mat =
     \<lparr>ji_id = [], ji_team = fd_team feed, ji_author = owner, ji_type = ''voice_engine'', ji_status = None,
      ji_origin = ''automation'',
      ji_payload = \<lparr>pl_recurring = None,
        pl_rss = Some \<lparr>rs_feed = fd_id feed, rs_key = key, rs_output_mode = fd_output_mode feed,
          rs_scheduled = Some (at div nanos), rs_draft = draft, rs_title = title, rs_fallback = content,
          rs_fetch_failed = snd mat\<rparr>,
        pl_targets = fd_targets feed, pl_no_publish = False, pl_can_schedule = False, pl_source = content\<rparr>\<rparr>"

text \<open>The item is reserved before the job is submitted.\<close>

definition submit_rss_ai_enhancement ::
  "mat_env \<Rightarrow> feed_row \<Rightarrow> string \<Rightarrow> string \<Rightarrow> string \<Rightarrow> instant \<Rightarrow> bool \<Rightarrow> string \<Rightarrow> material \<Rightarrow> unit import_op" where
  "submit_rss_ai_enhancement m feed key content title at draft owner mat db =
     (let x = me_auto m in
      case faulty (ax_env x) ''claim'' (claim_rss_item_attempt (ax_now x) (fd_team feed) (fd_id feed) key) db of
        (Inl e, db') \<Rightarrow> (Inl (Item_Claim e), db')
      | (Inr False, db') \<Rightarrow> (Inl Item_Reserved, db')
      | (Inr True, db') \<Rightarrow>
          (case submit_job x (me_config m) (me_context m) (rss_job feed key content title at draft owner mat) db' of
             (Inl e, d) \<Rightarrow> (Inl Job_Refused, d)
           | (Inr job, d) \<Rightarrow> if jb_status job = Job_Failed then (Inl Job_Refused, d) else (Inr (), d)))"

definition rss_post_input ::
  "feed_row \<Rightarrow> string \<Rightarrow> string \<Rightarrow> string \<Rightarrow> instant \<Rightarrow> bool \<Rightarrow> string \<Rightarrow> bool \<Rightarrow> create_post_input" where
  "rss_post_input feed key content title at draft owner fallback =
     ensure_title (empty_input\<lparr>
       in_title := title, in_content := content, in_scheduled_at := at, in_target_accounts := fd_targets feed,
       in_draft := draft, in_author_user_id := Some owner, in_source := source_automation,
       in_rss_feed_id := Some (fd_id feed), in_rss_item_key := key,
       in_ai_fallback_reason := (if fallback then Some ''dispatch_failed'' else None)\<rparr>)"

definition create_rss_post_direct_once ::
  "import_env \<Rightarrow> mat_env \<Rightarrow> feed_row \<Rightarrow> string \<Rightarrow> string \<Rightarrow> string \<Rightarrow> instant \<Rightarrow> bool \<Rightarrow> string \<Rightarrow> bool \<Rightarrow> unit import_op" where
  "create_rss_post_direct_once ie m feed key content title at draft owner fallback db =
     (case create_automation_post (me_auto m) (fd_team feed) (system_principal owner)
             (rss_post_input feed key content title at draft owner fallback)
             ([(''feed_id'', fd_id feed), (''item_key_hash'', ie_hash ie key)] @
              (if fallback then [(''outcome'', ''fallback''), (''error_code'', ''ai_submission_failed'')] else []))
             no_follow_up db of
        (Inl e, db') \<Rightarrow> (Inl (Post_Missing e), db') | (Inr _, db') \<Rightarrow> (Inr (), db'))"

text \<open>A post without a job before it reserves the item itself. Losing the reservation is no error.\<close>

definition create_rss_post_direct ::
  "import_env \<Rightarrow> mat_env \<Rightarrow> feed_row \<Rightarrow> string \<Rightarrow> string \<Rightarrow> string \<Rightarrow> instant \<Rightarrow> bool \<Rightarrow> string \<Rightarrow> bool \<Rightarrow> unit import_op" where
  "create_rss_post_direct ie m feed key content title at draft owner fallback =
     import_transaction (\<lambda>db.
       let x = me_auto m; create = create_rss_post_direct_once ie m feed key content title at draft owner fallback in
       case look x ''post lock'' (lock_automation_source ''rss_feed'' (fd_id feed)) db of
         Inl e \<Rightarrow> (Inl (Import_Store e), db)
       | Inr _ \<Rightarrow>
           if fallback then create db
           else (case faulty (ax_env x) ''claim'' (claim_rss_item_attempt (ax_now x) (fd_team feed) (fd_id feed) key) db of
                   (Inl e, db') \<Rightarrow> (Inl (Import_Store e), db')
                 | (Inr False, db') \<Rightarrow> (Inr (), db')
                 | (Inr True, db') \<Rightarrow> create db'))"

text \<open>The template's own text as a post. When it stands in for a job and the post cannot be created, the attempt is
  released, and that is kept.\<close>

definition post_or_release ::
  "import_env \<Rightarrow> mat_env \<Rightarrow> feed_row \<Rightarrow> string \<Rightarrow> string \<Rightarrow> string \<Rightarrow> instant \<Rightarrow> bool \<Rightarrow> string \<Rightarrow> bool \<Rightarrow> bool import_op" where
  "post_or_release ie m feed key content title at draft owner fallback db =
     (case create_rss_post_direct ie m feed key content title at draft owner fallback db of
        (Inr _, db') \<Rightarrow> (Inr True, db')
      | (Inl (Post_Missing e), db') \<Rightarrow>
          if \<not> fallback then (Inl (Post_Missing e), db')
          else (case faulty (ax_env (me_auto m)) ''release'' (release_rss_item_attempt (fd_team feed) (fd_id feed) key) db' of
                  (Inl _, d) \<Rightarrow> (Inl (Post_Missing e), d) | (Inr _, d) \<Rightarrow> (Inl (Attempt_Released e), d))
      | (Inl e, db') \<Rightarrow> (Inl e, db'))"

definition create_post_from_rss_item_once ::
  "import_env \<Rightarrow> mat_env \<Rightarrow> feed_row \<Rightarrow> feed_item \<Rightarrow> material \<Rightarrow> bool import_op" where
  "create_post_from_rss_item_once ie m feed item mat db =
     (let key = feed_item_key item; x = me_auto m in
      if key = [] then (Inl Keyless, db)
      else (case look x ''imported'' (\<lambda>db. Inr (rss_item_already_imported (ax_now x) (fd_id feed) key db)) db of
         Inl e \<Rightarrow> (Inl (Import_Store e), db)
       | Inr True \<Rightarrow> (Inr False, db)
       | Inr False \<Rightarrow>
      (case team_owner_user_id x (fd_team feed) db of
         Inl e \<Rightarrow> (Inl e, db)
       | Inr owner \<Rightarrow>
      (let fl = \<lparr>fl_title = fi_title item, fl_link = fi_link item, fl_summary = fi_content item, fl_feed_name = fd_name feed,
                 fl_published = fi_published item, fl_counter = fd_counter feed\<rparr>;
           content = trim_space (expand_content ie ''content'' (normalized_content_template feed) fl);
           (at, draft) = rss_output_schedule (ax_now x) (fd_output_mode feed) (fi_published item);
           t1 = trim_space (expand_content ie ''title'' (normalized_title_template feed) fl);
           t2 = (if t1 = [] then trim_space (fi_title item) else t1);
           title = (if t2 = [] then fd_name feed else t2)
       in if content = [] then (Inl Blank_Content, db)
          else if should_enhance_rss m ''team'' feed db
          then (case submit_rss_ai_enhancement m feed key content title at draft owner mat db of
                  (Inr _, d) \<Rightarrow> (Inr True, d)
                | (Inl Item_Reserved, d) \<Rightarrow> (Inr False, d)
                | (Inl (Item_Claim e), d) \<Rightarrow> (Inl (Item_Claim e), d)
                | (Inl _, d) \<Rightarrow> post_or_release ie m feed key content title at draft owner True d)
          else post_or_release ie m feed key content title at draft owner False db))))"

text \<open>One item: the page is fetched outside the transaction, whose body looks everything up again. The released
  attempt is committed although the import failed.\<close>

definition import_item_locked ::
  "import_env \<Rightarrow> mat_env \<Rightarrow> feed_row \<Rightarrow> feed_item \<Rightarrow> material \<Rightarrow> (bool \<times> import_error option) import_op" where
  "import_item_locked ie m feed item mat =
     import_transaction (\<lambda>db.
       case look (me_auto m) ''lock'' (lock_automation_source ''rss_feed'' (fd_id feed)) db of
         Inl e \<Rightarrow> (Inl (Import_Store e), db)
       | Inr _ \<Rightarrow>
           (case create_post_from_rss_item_once ie m feed item mat db of
              (Inl (Attempt_Released e), d) \<Rightarrow> (Inr (False, Some (Attempt_Released e)), d)
            | (Inl e, d) \<Rightarrow> (Inl e, d)
            | (Inr created, d) \<Rightarrow> (Inr (created, None), d)))"

definition create_post_from_rss_item :: "import_env \<Rightarrow> feed_row \<Rightarrow> feed_item \<Rightarrow> bool import_op" where
  "create_post_from_rss_item ie feed item db =
     (let m = for_item (fd_id feed) (feed_item_key item) (ie_mat ie);
          plain = (ie_readable ie (trim_space (fi_content item)), False)
      in case (if fd_enrichment feed \<and> should_enhance_rss m ''enrich team'' feed db
               then prepare_rss_article ie m feed item db else Inr (plain, False)) of
           Inl e \<Rightarrow> (Inl e, db)
         | Inr (_, True) \<Rightarrow> (Inr False, db)
         | Inr (mat, False) \<Rightarrow>
             (case import_item_locked ie m feed item mat db of
                (Inl e, d) \<Rightarrow> (Inl e, d)
              | (Inr (_, Some e), d) \<Rightarrow> (Inl e, d)
              | (Inr (created, None), d) \<Rightarrow> (Inr created, d)))"

section \<open>Polling\<close>

text \<open>The summary that is logged.\<close>

record poll_summary =
  ps_created :: nat
  ps_known :: nat
  ps_limited :: nat
  ps_failed :: nat

definition count_result :: "import_error + bool \<Rightarrow> poll_summary \<Rightarrow> poll_summary" where
  "count_result r p =
     (case r of
        Inl e \<Rightarrow> if is_daily_limit e then p\<lparr>ps_limited := ps_limited p + 1\<rparr> else p\<lparr>ps_failed := ps_failed p + 1\<rparr>
      | Inr created \<Rightarrow> if created then p\<lparr>ps_created := ps_created p + 1\<rparr> else p\<lparr>ps_known := ps_known p + 1\<rparr>)"

fun import_items :: "import_env \<Rightarrow> feed_row \<Rightarrow> feed_item list \<Rightarrow> poll_summary \<Rightarrow> store_db \<Rightarrow> poll_summary \<times> store_db" where
  "import_items ie feed [] p db = (p, db)"
| "import_items ie feed (i # rest) p db =
     (case create_post_from_rss_item ie feed i db of (r, d) \<Rightarrow> import_items ie feed rest (count_result r p) d)"

definition rss_import_lookback :: int where "rss_import_lookback = 7 * 24 * 3600 * nanos"

definition filter_rss_items_since :: "feed_item list \<Rightarrow> instant \<Rightarrow> feed_item list" where
  "filter_rss_items_since is since = filter (\<lambda>i. since < fi_published i) is"

definition feed_candidates :: "import_env \<Rightarrow> feed_item list \<Rightarrow> instant \<Rightarrow> feed_item list" where
  "feed_candidates ie is fetched = sort_key fi_published (ie_ties ie (filter_rss_items_since is (fetched - rss_import_lookback)))"

definition touch_feed :: "import_env \<Rightarrow> feed_row \<Rightarrow> store_db \<Rightarrow> store_db" where
  "touch_feed ie feed db =
     (let x = me_auto (for_item (fd_id feed) [] (ie_mat ie)) in
      snd (faulty (ax_env x) ''fetched'' (update_rss_feed_last_fetched (fd_id feed) (ax_now x)) db))"

definition latest_item :: "feed_item \<Rightarrow> feed_item list \<Rightarrow> feed_item" where
  "latest_item i is = fold (\<lambda>j l. if fi_published l < fi_published j then j else l) is i"

fun baseline_items :: "import_env \<Rightarrow> feed_row \<Rightarrow> string \<Rightarrow> feed_item list \<Rightarrow> store_db \<Rightarrow> store_db" where
  "baseline_items ie feed published [] db = db"
| "baseline_items ie feed published (i # rest) db =
     (let key = feed_item_key i; x = me_auto (for_item (fd_id feed) key (ie_mat ie)) in
      baseline_items ie feed published rest
        (if key = [] \<or> key = published then db
         else snd (faulty (ax_env x) ''record'' (record_rss_imported_item (ax_now x) (fd_id feed) key []) db)))"

definition handle_rss_first_fetch :: "import_env \<Rightarrow> feed_row \<Rightarrow> feed_item list \<Rightarrow> store_db \<Rightarrow> store_db" where
  "handle_rss_first_fetch ie feed is db =
     (let publish = (fd_sync_mode feed = ''publish_latest'' \<and> is \<noteq> []); latest = latest_item (hd is) (tl is);
          db1 = (if publish then snd (create_post_from_rss_item ie feed latest db) else db)
      in touch_feed ie feed (baseline_items ie feed (if publish then feed_item_key latest else []) is db1))"

definition import_rss_feed :: "import_env \<Rightarrow> feed_row \<Rightarrow> store_db \<Rightarrow> poll_summary \<times> store_db" where
  "import_rss_feed ie feed db =
     (let none = \<lparr>ps_created = 0, ps_known = 0, ps_limited = 0, ps_failed = 0\<rparr> in
      if fd_targets feed = [] then (none, db)
      else (case parser_fetch ie (fd_url feed) of
              Inl _ \<Rightarrow> (none, db)
            | Inr is \<Rightarrow>
                (case fd_last_fetched feed of
                   None \<Rightarrow> (none, handle_rss_first_fetch ie feed is db)
                 | Some fetched \<Rightarrow>
                     (case import_items ie feed (feed_candidates ie is fetched) none db of
                        (p, d) \<Rightarrow> (p, touch_feed ie feed d)))))"

definition rss_import_job :: "import_env \<Rightarrow> store_db \<Rightarrow> store_db" where
  "rss_import_job ie db =
     (case look (me_auto (ie_mat ie)) ''feeds'' (\<lambda>db. Inr (list_active_rss_feed_configs 200 db)) db of
        Inl _ \<Rightarrow> db
      | Inr fs \<Rightarrow> fold (\<lambda>f d. snd (import_rss_feed ie f d)) fs db)"

end
