(* ===== verification/Rss_Polls.thy ===== *)
theory Rss_Polls
  imports Rss_Import
begin

text \<open>
  What polling feeds does: the import of an item makes exactly one post or one job or leaves both tables alone, the
  day's budget of a feed holds through every poll, and what a first fetch has recorded is never imported.
\<close>

section \<open>Reserved items\<close>

definition feed_keys :: "store_db \<Rightarrow> (string \<times> string \<times> int) list" where
  "feed_keys db = map (\<lambda>f. (fd_id f, fd_team f, fd_max_per_day f)) (sd_feeds db)"

text \<open>The marker a claim leaves.\<close>

definition claimed_row :: "instant \<Rightarrow> string \<Rightarrow> string \<Rightarrow> item_row \<Rightarrow> bool" where
  "claimed_row now feed key i \<longleftrightarrow> item_at feed key i \<and> it_post i = None \<and> it_consumed i = None \<and> \<not> it_retry i \<and>
     it_created i = now \<and> it_budget_day i = Some (utc_day now)"

definition reserved :: "instant \<Rightarrow> string \<Rightarrow> string \<Rightarrow> store_db \<Rightarrow> bool" where
  "reserved now feed key db \<longleftrightarrow> list_ex (claimed_row now feed key) (sd_items db)"

text \<open>Nothing but the markers changes.\<close>

definition only_items :: "store_db \<Rightarrow> store_db \<Rightarrow> bool" where
  "only_items db db' \<longleftrightarrow> (\<exists>xs. db' = db\<lparr>sd_items := xs\<rparr>)"

lemma only_items_set [simp]: "only_items db (db\<lparr>sd_items := xs\<rparr>)"
  unfolding only_items_def by blast

lemma only_items_refl [simp]: "only_items db db"
  unfolding only_items_def by (rule exI [of _ "sd_items db"]) simp

lemma only_items_trans: "only_items a b \<Longrightarrow> only_items b c \<Longrightarrow> only_items a c"
  by (auto simp: only_items_def)

lemma only_items_same:
  "only_items db db' \<Longrightarrow> sd_posts db' = sd_posts db \<and> sd_jobs db' = sd_jobs db \<and> sd_feeds db' = sd_feeds db \<and>
     feed_keys db' = feed_keys db"
  by (auto simp: only_items_def feed_keys_def)

lemma claimed_not_eligible: "claimed_row now feed key i \<Longrightarrow> \<not> rss_item_retry_eligible now db i"
  by (simp add: claimed_row_def rss_item_retry_eligible_def)

lemma reserved_imported: "reserved now feed key db \<Longrightarrow> rss_item_already_imported now feed key db"
  unfolding reserved_def rss_item_already_imported_def list_ex_iff
  using claimed_not_eligible by (fastforce simp: claimed_row_def item_at_def)

lemma claim_statement_cases:
  assumes "claim_statement now team feed key db = (b, db')"
  shows "if b then reserved now feed key db' \<and> only_items db db' \<and> feed_owned team feed db else db' = db"
proof (cases "list_ex (\<lambda>f. fd_id f = feed \<and> fd_team f = team \<and>
            fd_max_per_day f > int (count_rss_feed_budget now feed (utc_day now) db)) (sd_feeds db)")
  case False
  with assms show ?thesis by (auto simp: claim_statement_def)
next
  case True
  then have own: "feed_owned team feed db" by (auto simp: feed_owned_def list_ex_iff)
  show ?thesis
  proof (cases "list_ex (item_at feed key) (sd_items db)")
    case False
    with True assms own show ?thesis
      by (auto simp: claim_statement_def reserved_def claimed_row_def only_items_def item_at_def)
  next
    case here: True
    let ?upd = "\<lambda>i. item_at feed key i \<and> it_post i = None \<and> rss_item_retry_eligible now db i \<and> it_attempts i < max_rss_item_attempts"
    from True here assms have b: "b = list_ex ?upd (sd_items db)"
      and db': "db' = db\<lparr>sd_items := update_where ?upd (\<lambda>i. i\<lparr>it_attempts := it_attempts i + 1, it_retry := False,
         it_created := now, it_budget_day := Some (utc_day now)\<rparr>) (sd_items db)\<rparr>"
      by (auto simp: claim_statement_def Let_def)
    show ?thesis
    proof (cases b)
      case False
      with b db' show ?thesis by (simp add: update_where_none list_ex_iff)
    next
      case hit: True
      with b obtain i where i: "i \<in> set (sd_items db)" "?upd i" by (auto simp: list_ex_iff)
      then have "claimed_row now feed key (i\<lparr>it_attempts := it_attempts i + 1, it_retry := False,
         it_created := now, it_budget_day := Some (utc_day now)\<rparr>)"
        by (simp add: claimed_row_def item_at_def rss_item_retry_eligible_def)
      with i have "reserved now feed key db'"
        unfolding reserved_def list_ex_iff db' update_where_def by (force simp del: fun_upd_apply)
      with hit own show ?thesis by (simp add: db')
    qed
  qed
qed

lemma rss_claim_cases:
  assumes "claim_rss_item_attempt now team feed key db = (r, db')"
  shows "case r of
      Inl e \<Rightarrow> db' = db
    | Inr True \<Rightarrow> claim_statement now team feed key db = (True, db') \<and> reserved now feed key db' \<and> only_items db db'
    | Inr False \<Rightarrow> db' = db \<and> (feed_owned team feed db \<longrightarrow> rss_item_already_imported now feed key db)"
proof -
  obtain b d where c: "claim_statement now team feed key db = (b, d)" by (metis surj_pair)
  from claim_statement_cases [OF c] c assms show ?thesis
    by (cases b) (auto simp: claim_rss_item_attempt_def split: if_splits)
qed

section \<open>Posts linked to an item\<close>

lemma item_at_bump [simp]: "sd_feeds (db\<lparr>sd_items := x\<rparr>) = sd_feeds db" by simp

lemma bump_counter_keys [simp]:
  "feed_keys (bump_counter team feed db) = feed_keys db" "sd_posts (bump_counter team feed db) = sd_posts db"
  "sd_jobs (bump_counter team feed db) = sd_jobs db"
  by (simp_all add: bump_counter_def feed_keys_def update_where_def comp_def if_distrib [of fd_id] if_distrib [of fd_team]
      if_distrib [of fd_max_per_day] cong: if_cong)

definition links_post :: "instant \<Rightarrow> string \<Rightarrow> string \<Rightarrow> post_row \<Rightarrow> store_db \<Rightarrow> store_db \<Rightarrow> bool" where
  "links_post now feed key row db db' \<longleftrightarrow>
     sd_posts db' = sd_posts db @ [row] \<and> rw_id row \<notin> set (post_ids db) \<and> sd_jobs db' = sd_jobs db \<and>
     feed_keys db' = feed_keys db \<and> sp_rss_feed_id (rw_post row) = Some feed \<and> rw_created row = now \<and>
     sd_items db' = update_where (\<lambda>i. item_at feed key i \<and> it_post i = None \<and> it_consumed i = None)
       (\<lambda>i. i\<lparr>it_post := Some (rw_id row), it_consumed := Some now, it_retry := False,
              it_budget_day := (case it_budget_day i of None \<Rightarrow> Some (utc_day now) | Some d \<Rightarrow> Some d)\<rparr>) (sd_items db)"


definition plain_id :: "string \<Rightarrow> bool" where "plain_id i \<longleftrightarrow> i \<noteq> [] \<and> trim_space i = i"

lemma ensure_title_rss [simp]:
  "in_rss_feed_id (rss_post_input feed key content title at draft owner fb) = Some (fd_id feed)"
  "in_rss_item_key (rss_post_input feed key content title at draft owner fb) = key"
  "in_post_template_id (rss_post_input feed key content title at draft owner fb) = None"
  by (simp_all add: rss_post_input_def ensure_title_def empty_input_def)

lemma create_links:
  assumes c: "create_scheduled_post now fresh team pr inp db = (Inr p, db')"
    and inp: "in_rss_feed_id inp = Some feed" "in_rss_item_key inp = key" "key \<noteq> []"
    and id: "plain_id feed" and res: "reserved now feed key db"
  shows "links_post now feed key (new_post_row now fresh team pr inp) db db'"
proof -
  let ?row = "new_post_row now fresh team pr inp"
  have row: "sp_rss_feed_id (rw_post ?row) = Some feed" "rw_created ?row = now" "rw_id ?row = fresh" "sp_id (rw_post ?row) = fresh"
    using inp(1) id by (simp_all add: new_post_row_def resolve_post_insert_def Let_def trimmed_ref_def plain_id_def)
  from c inp obtain d1 d2 d3 where s: "insert_post ?row db = (Inr (), d1)" "insert_versions fresh (in_override inp) d1 = (Inr (), d2)"
      "insert_targets fresh (in_target_accounts inp) d2 = (Inr (), d3)" "link_rss_item_for_post now team feed key fresh d3 = (Inr (), db')"
  proof -
    let ?body = "and_then (insert_post ?row) (\<lambda>_. and_then (insert_versions fresh (in_override inp)) (\<lambda>_.
      and_then (insert_targets fresh (in_target_accounts inp)) (\<lambda>_. link_rss_item_for_post now team feed key fresh)))"
    have "create_scheduled_post now fresh team pr inp db = (case with_audit_transaction ?body db of
        (Inl e, d) \<Rightarrow> (Inl e, d) | (Inr _, d) \<Rightarrow> (get_scheduled_post team fresh d, d))"
      by (simp only: create_scheduled_post_def inp(1,2) option.case if_P [OF inp(3)])
    with c have "?body db = (Inr (), db')"
      by (cases "?body db"; cases "fst (?body db)") (auto simp only: with_audit_transaction_def prod.case sum.case fst_conv prod.inject sum.simps unit_eq)
    then obtain u1 d1 u2 d2 u3 d3 where "insert_post ?row db = (Inr u1, d1)" "insert_versions fresh (in_override inp) d1 = (Inr u2, d2)"
        "insert_targets fresh (in_target_accounts inp) d2 = (Inr u3, d3)" "link_rss_item_for_post now team feed key fresh d3 = (Inr (), db')"
      unfolding and_then_Inr by blast
    then show thesis by (intro that [of d1 d2 d3]) simp_all
  qed
  from s(1) row have a: "sd_posts d1 = sd_posts db @ [?row]" "sd_jobs d1 = sd_jobs db" "sd_feeds d1 = sd_feeds db"
      "sd_items d1 = sd_items db" "fresh \<notin> set (post_ids db)"
    by (auto simp: insert_post_def post_ids_def Let_def split: if_splits)
  from s(2,3) a have b: "sd_posts d3 = sd_posts db @ [?row]" "sd_jobs d3 = sd_jobs db" "sd_feeds d3 = sd_feeds db"
      "sd_items d3 = sd_items db"
    by (auto simp: insert_versions_def insert_targets_def split: if_splits)
  from res have "list_ex (item_at feed key) (sd_items d3)"
    by (auto simp: b(4) reserved_def list_ex_iff claimed_row_def)
  with s(4) b row a(5) show ?thesis
    by (auto simp: links_post_def link_rss_item_for_post_def Let_def feed_keys_def [of d3, symmetric] feed_keys_def [of db] split: if_splits)
       (simp_all add: feed_keys_def)
qed

lemma event_only:
  "insert_audit_event now fresh e db = (r, db') \<Longrightarrow> sd_posts db' = sd_posts db \<and> sd_jobs db' = sd_jobs db \<and>
     sd_items db' = sd_items db \<and> sd_feeds db' = sd_feeds db"
  by (auto simp: insert_audit_event_def Let_def split: if_splits)

lemma automation_links:
  assumes c: "create_automation_post x team pr inp meta no_follow_up db = (Inr v, db')"
    and inp: "in_rss_feed_id inp = Some feed" "in_rss_item_key inp = key" "key \<noteq> []" "in_post_template_id inp = None"
    and id: "plain_id feed" and res: "reserved (ax_now x) feed key db"
  shows "links_post (ax_now x) feed key (new_post_row (ax_now x) (ax_fresh x ''post'') team pr inp) db db'"
proof -
  have "round_taken x inp db = Inr False" using inp(4) by (simp add: round_taken_def)
  with c obtain p d e where p: "create_scheduled_post (ax_now x) (ax_fresh x ''post'') team pr inp db = (Inr p, d)"
    and e: "insert_audit_event (ax_now x) (ax_fresh x ''create event'') e d = (Inr (), db')"
    by (auto simp: create_automation_post_def with_audit_transaction_def and_then_def no_follow_up_def faulty_def
        split: prod.splits sum.splits option.splits)
  from create_links [OF p inp(1,2,3) id res] event_only [OF e] show ?thesis
    by (simp add: links_post_def feed_keys_def)
qed

lemma create_post_once_cases:
  assumes c: "create_rss_post_direct_once ie m feed key content title at draft owner fb db = (r, db')"
    and key: "key \<noteq> []" and id: "plain_id (fd_id feed)" and res: "reserved (ax_now (me_auto m)) (fd_id feed) key db"
  shows "(\<exists>e. r = Inl (Post_Missing e)) \<and> db' = db \<or>
    r = Inr () \<and> (\<exists>row. links_post (ax_now (me_auto m)) (fd_id feed) key row db db')"
proof -
  let ?x = "me_auto m" and ?inp = "rss_post_input feed key content title at draft owner fb"
  obtain meta v where p: "create_automation_post ?x (fd_team feed) (system_principal owner) ?inp meta no_follow_up db = (v, db')"
    and r: "r = (case v of Inl e \<Rightarrow> Inl (Post_Missing e) | Inr _ \<Rightarrow> Inr ())"
    using c by (auto simp: create_rss_post_direct_once_def split: prod.splits sum.splits)
  show ?thesis
  proof (cases v)
    case (Inl e)
    with create_automation_post_rows [OF p] r show ?thesis by simp
  next
    case (Inr u)
    from automation_links [OF p [unfolded Inr] _ _ key _ id res] r Inr show ?thesis by auto
  qed
qed

section \<open>Outcomes\<close>

definition post_imported :: "instant \<Rightarrow> string \<Rightarrow> string \<Rightarrow> string \<Rightarrow> store_db \<Rightarrow> store_db \<Rightarrow> bool" where
  "post_imported now team feed key db db' \<longleftrightarrow>
     (\<exists>d row. claim_statement now team feed key db = (True, d) \<and> links_post now feed key row d db')"

definition job_imported :: "instant \<Rightarrow> string \<Rightarrow> string \<Rightarrow> string \<Rightarrow> store_db \<Rightarrow> store_db \<Rightarrow> bool" where
  "job_imported now team feed key db db' \<longleftrightarrow>
     (\<exists>d j. claim_statement now team feed key db = (True, d) \<and> sd_jobs db' = sd_jobs d @ [j] \<and>
        jb_rss_feed j = Some feed \<and> jb_rss_key j = Some key \<and> sd_items db' = sd_items d \<and>
        sd_posts db' = sd_posts d \<and> sd_feeds db' = sd_feeds d)"

definition released :: "instant \<Rightarrow> string \<Rightarrow> string \<Rightarrow> string \<Rightarrow> store_db \<Rightarrow> store_db \<Rightarrow> bool" where
  "released now team feed key db db' \<longleftrightarrow>
     (\<exists>d. claim_statement now team feed key db = (True, d) \<and> db' = snd (release_rss_item_attempt team feed key d))"

definition imported :: "instant \<Rightarrow> string \<Rightarrow> string \<Rightarrow> string \<Rightarrow> store_db \<Rightarrow> store_db \<Rightarrow> bool" where
  "imported now team feed key db db' \<longleftrightarrow> post_imported now team feed key db db' \<or> job_imported now team feed key db db'"

lemma submit_rss_cases:
  assumes "submit_rss_ai_enhancement m feed key content title at draft owner mat db = (r, db')"
  shows "case r of
      Inr _ \<Rightarrow> job_imported (ax_now (me_auto m)) (fd_team feed) (fd_id feed) key db db'
    | Inl Job_Refused \<Rightarrow> claim_statement (ax_now (me_auto m)) (fd_team feed) (fd_id feed) key db = (True, db')
    | Inl (Item_Claim e) \<Rightarrow> db' = db | Inl Item_Reserved \<Rightarrow> db' = db | Inl _ \<Rightarrow> False"
proof -
  let ?x = "me_auto m"
  let ?job = "rss_job feed key content title at draft owner mat"
  obtain c d where c: "faulty (ax_env ?x) ''claim'' (claim_rss_item_attempt (ax_now ?x) (fd_team feed) (fd_id feed) key) db = (c, d)"
    by (metis surj_pair)
  show ?thesis
  proof (cases "c = Inr True")
    case False
    with c assms show ?thesis
      by (auto simp: submit_rss_ai_enhancement_def Let_def elim!: faulty_cases dest: rss_claim_cases split: sum.splits bool.splits)
  next
    case True
    with c have "claim_rss_item_attempt (ax_now ?x) (fd_team feed) (fd_id feed) key db = (Inr True, d)"
      by (auto simp: faulty_def split: option.splits)
    from rss_claim_cases [OF this] have d: "claim_statement (ax_now ?x) (fd_team feed) (fd_id feed) key db = (True, d)"
      "reserved (ax_now ?x) (fd_id feed) key d" "only_items db d" by simp_all
    obtain j e where j: "submit_job ?x (me_config m) (me_context m) ?job d = (j, e)" by (metis surj_pair)
    show ?thesis
    proof (cases j)
      case (Inl err)
      with submit_job_rows [OF j] c True j d assms show ?thesis
        by (auto simp: submit_rss_ai_enhancement_def Let_def)
    next
      case (Inr job)
      from j Inr submit_job_rows [OF j] have a: "adds_job job d e" "jb_status job = Job_Pending" "jb_payload job = ji_payload ?job"
        by auto
      from j Inr have "sd_items e = sd_items d \<and> sd_feeds e = sd_feeds d"
        by (auto simp: submit_job_def with_audit_transaction_def and_then_def faulty_def create_ai_job_def Let_def
            dest!: event_only split: service_config.splits if_splits option.splits prod.splits sum.splits)
      with a d(1) have "job_imported (ax_now ?x) (fd_team feed) (fd_id feed) key db e"
        unfolding job_imported_def adds_job_def
        by (intro exI [of _ d] exI [of _ job]) (simp add: rss_job_def)
      with a(2) c True j Inr assms show ?thesis
        by (auto simp: submit_rss_ai_enhancement_def Let_def)
    qed
  qed
qed

lemma import_transaction_cases:
  assumes "import_transaction body db = (r, db')"
  obtains e where "r = Inl e" "db' = db" "\<exists>d. body db = (Inl e, d)" | v where "r = Inr v" "body db = (Inr v, db')"
  using assms by (auto simp: import_transaction_def split: prod.splits sum.splits)


lemma direct_cases:
  assumes c: "create_rss_post_direct ie m feed key content title at draft owner fb db = (r, db')"
    and key: "key \<noteq> []" and id: "plain_id (fd_id feed)"
    and res: "fb \<Longrightarrow> reserved (ax_now (me_auto m)) (fd_id feed) key db"
    and new: "\<not> fb \<Longrightarrow> \<not> rss_item_already_imported (ax_now (me_auto m)) (fd_id feed) key db \<and> feed_owned (fd_team feed) (fd_id feed) db"
  shows "case r of Inl e \<Rightarrow> db' = db \<and> (\<forall>x. e \<noteq> Attempt_Released x) 
    | Inr _ \<Rightarrow> if fb then \<exists>row. links_post (ax_now (me_auto m)) (fd_id feed) key row db db'
        else post_imported (ax_now (me_auto m)) (fd_team feed) (fd_id feed) key db db'"
  using c unfolding create_rss_post_direct_def
proof (cases rule: import_transaction_cases)
  case (1 e)
  then show ?thesis
    by (auto simp: Let_def create_rss_post_direct_once_def split: sum.splits if_splits prod.splits bool.splits)
next
  case (2 v)
  let ?x = "me_auto m"
  let ?create = "create_rss_post_direct_once ie m feed key content title at draft owner fb"
  note once = create_post_once_cases [OF _ key id]
  show ?thesis
  proof (cases fb)
    case True
    with 2 have "?create db = (Inr (), db')" by (auto simp: Let_def split: sum.splits)
    from once [OF this res [OF True]] 2(1) True show ?thesis by auto
  next
    case False
    with 2 obtain k d where k: "faulty (ax_env ?x) ''claim'' (claim_rss_item_attempt (ax_now ?x) (fd_team feed) (fd_id feed) key) db = (Inr k, d)"
      and t: "if k then ?create d = (Inr (), db') else db' = d"
      by (auto simp: Let_def split: sum.splits prod.splits bool.splits)
    from k have "claim_rss_item_attempt (ax_now ?x) (fd_team feed) (fd_id feed) key db = (Inr k, d)"
      by (auto simp: faulty_def split: option.splits)
    from rss_claim_cases [OF this] new [OF False] have k: k and d: "reserved (ax_now ?x) (fd_id feed) key d"
        "claim_statement (ax_now ?x) (fd_team feed) (fd_id feed) key db = (True, d)"
      by (cases k; simp)+
    from t k have "?create d = (Inr (), db')" by simp
    from once [OF this d(1)] d(2) 2(1) False show ?thesis unfolding post_imported_def by auto
  qed
qed


lemma post_or_release_cases:
  assumes c: "post_or_release ie m feed key content title at draft owner fb db = (r, db')"
    and key: "key \<noteq> []" and id: "plain_id (fd_id feed)"
    and res: "fb \<Longrightarrow> reserved (ax_now (me_auto m)) (fd_id feed) key db"
    and new: "\<not> fb \<Longrightarrow> \<not> rss_item_already_imported (ax_now (me_auto m)) (fd_id feed) key db \<and> feed_owned (fd_team feed) (fd_id feed) db"
  shows "case r of
      Inr created \<Rightarrow> created \<and> (if fb then \<exists>row. links_post (ax_now (me_auto m)) (fd_id feed) key row db db'
        else post_imported (ax_now (me_auto m)) (fd_team feed) (fd_id feed) key db db')
    | Inl (Attempt_Released e) \<Rightarrow> fb \<and> db' = snd (release_rss_item_attempt (fd_team feed) (fd_id feed) key db)
    | Inl e \<Rightarrow> True"
proof -
  obtain v d where d: "create_rss_post_direct ie m feed key content title at draft owner fb db = (v, d)" by (metis surj_pair)
  note k = direct_cases [OF d key id res new]
  show ?thesis
  proof (cases v)
    case (Inr u)
    with d c have "r = Inr True" "db' = d" by (simp_all add: post_or_release_def)
    with k Inr show ?thesis by simp
  next
    case (Inl e)
    with k have "d = db" "\<forall>x. e \<noteq> Attempt_Released x" by simp_all
    with c d Inl show ?thesis
      by (cases e) (auto simp: post_or_release_def faulty_def split: if_splits option.splits prod.splits sum.splits)
  qed
qed

lemma import_once_cases:
  assumes c: "create_post_from_rss_item_once ie m feed item mat db = (r, db')"
    and id: "plain_id (fd_id feed)" and own: "feed_owned (fd_team feed) (fd_id feed) db"
  shows "case r of
      Inr created \<Rightarrow> if created then imported (ax_now (me_auto m)) (fd_team feed) (fd_id feed) (feed_item_key item) db db' else db' = db
    | Inl (Attempt_Released e) \<Rightarrow> released (ax_now (me_auto m)) (fd_team feed) (fd_id feed) (feed_item_key item) db db'
    | Inl e \<Rightarrow> True"
proof -
  let ?key = "feed_item_key item" and ?x = "me_auto m"
  define goal where "goal = (case r of
      Inr created \<Rightarrow> if created then imported (ax_now ?x) (fd_team feed) (fd_id feed) ?key db db' else db' = db
    | Inl (Attempt_Released e) \<Rightarrow> released (ax_now ?x) (fd_team feed) (fd_id feed) ?key db db'
    | Inl e \<Rightarrow> True)"
  have fallback: "goal" if d: "claim_statement (ax_now ?x) (fd_team feed) (fd_id feed) ?key db = (True, d)"
    and key: "?key \<noteq> []" and p: "post_or_release ie m feed ?key content title at draft owner True d = (r, db')" for content title at draft owner d
  proof -
    from claim_statement_cases [OF d] have "reserved (ax_now ?x) (fd_id feed) ?key d" by simp
    from post_or_release_cases [OF p key id this] d show ?thesis
      by (auto simp: goal_def imported_def post_imported_def released_def split: sum.splits import_error.splits)
  qed
  have plain: "goal" if key: "?key \<noteq> []" and new: "\<not> rss_item_already_imported (ax_now ?x) (fd_id feed) ?key db"
    and p: "post_or_release ie m feed ?key content title at draft owner False db = (r, db')" for content title at draft owner
    using post_or_release_cases [OF p key id] own new
    by (auto simp: goal_def imported_def split: sum.splits import_error.splits)
  have enhanced: "goal" if key: "?key \<noteq> []"
    and e: "(case submit_rss_ai_enhancement m feed ?key content title at draft owner mat db of
              (Inr _, d) \<Rightarrow> (Inr True, d) | (Inl Item_Reserved, d) \<Rightarrow> (Inr False, d)
            | (Inl (Item_Claim e), d) \<Rightarrow> (Inl (Item_Claim e), d)
            | (Inl _, d) \<Rightarrow> post_or_release ie m feed ?key content title at draft owner True d) = (r, db')"
    for content title at draft owner
  proof -
    obtain v d where s: "submit_rss_ai_enhancement m feed ?key content title at draft owner mat db = (v, d)" by (metis surj_pair)
    show ?thesis
    proof (cases v)
      case (Inr u)
      with submit_rss_cases [OF s] e s show ?thesis by (auto simp: goal_def imported_def)
    next
      case (Inl er)
      with submit_rss_cases [OF s] e s fallback [OF _ key] show ?thesis by (cases er) (auto simp: goal_def)
    qed
  qed
  have goal
  proof (cases "?key = []")
    case True
    with c show ?thesis by (auto simp: goal_def create_post_from_rss_item_once_def)
  next
    case False
    obtain at draft where sched: "rss_output_schedule (ax_now ?x) (fd_output_mode feed) (fi_published item) = (at, draft)" by (metis surj_pair)
    show ?thesis
    proof (cases "look ?x ''imported'' (\<lambda>db. Inr (rss_item_already_imported (ax_now ?x) (fd_id feed) ?key db)) db")
      case (Inl e)
      with c False show ?thesis by (auto simp: goal_def create_post_from_rss_item_once_def Let_def)
    next
      case (Inr b)
      from look_Inr [OF Inr] have b: "b = rss_item_already_imported (ax_now ?x) (fd_id feed) ?key db" by simp
      show ?thesis
      proof (cases b)
        case True
        with c False Inr show ?thesis by (auto simp: goal_def create_post_from_rss_item_once_def Let_def)
      next
        case new: False
        with b have n: "\<not> rss_item_already_imported (ax_now ?x) (fd_id feed) ?key db" by simp
        show ?thesis
        proof (cases "team_owner_user_id ?x (fd_team feed) db")
          case (Inl e)
          then have "\<forall>y. e \<noteq> Attempt_Released y"
            by (auto simp: team_owner_user_id_def split: sum.splits option.splits)
          with c False Inr new Inl show ?thesis
            by (cases e) (auto simp: goal_def create_post_from_rss_item_once_def Let_def)
        next
          case owner: (Inr owner)
          show ?thesis
            using c False Inr new owner enhanced [OF False] plain [OF False n]
            unfolding create_post_from_rss_item_once_def Let_def
            by (simp only: sched if_False if_True sum.case prod.case bool.case split: if_splits)
              (auto simp: goal_def intro: enhanced [OF False] plain [OF False n])
        qed
      qed
    qed
  qed
  then show ?thesis unfolding goal_def .
qed


lemma for_item_now [simp]: "ax_now (me_auto (for_item feed key m)) = ax_now (me_auto m)"
  by (simp add: for_item_def Let_def)

definition item_outcome :: "instant \<Rightarrow> feed_row \<Rightarrow> string \<Rightarrow> import_error + bool \<Rightarrow> store_db \<Rightarrow> store_db \<Rightarrow> bool" where
  "item_outcome now feed key r db db' \<longleftrightarrow>
     (case r of
        Inr True \<Rightarrow> imported now (fd_team feed) (fd_id feed) key db db'
      | Inr False \<Rightarrow> db' = db
      | Inl (Attempt_Released e) \<Rightarrow> released now (fd_team feed) (fd_id feed) key db db'
      | Inl e \<Rightarrow> db' = db)"

lemma import_locked_cases:
  assumes c: "import_item_locked ie m feed item mat db = (r, db')"
    and id: "plain_id (fd_id feed)" and own: "feed_owned (fd_team feed) (fd_id feed) db"
  shows "case r of
      Inr (created, None) \<Rightarrow> item_outcome (ax_now (me_auto m)) feed (feed_item_key item) (Inr created) db db'
    | Inr (_, Some e) \<Rightarrow> item_outcome (ax_now (me_auto m)) feed (feed_item_key item) (Inl e) db db'
    | Inl e \<Rightarrow> db' = db \<and> (\<forall>x. e \<noteq> Attempt_Released x)"
  using c unfolding import_item_locked_def
proof (cases rule: import_transaction_cases)
  case (1 e)
  then show ?thesis by (auto split: sum.splits prod.splits import_error.splits)
next
  case (2 v)
  obtain w d where w: "create_post_from_rss_item_once ie m feed item mat db = (w, d)" by (metis surj_pair)
  from import_once_cases [OF w id own] 2 w show ?thesis
    by (cases w) (auto simp: item_outcome_def split: sum.splits import_error.splits bool.splits)
qed

lemma prepare_not_released: "prepare_rss_article ie m feed item db = Inl e \<Longrightarrow> e \<noteq> Attempt_Released x"
  by (auto simp: prepare_rss_article_def Let_def split: if_splits sum.splits bool.splits)

lemma import_item_outcome:
  assumes c: "create_post_from_rss_item ie feed item db = (r, db')"
    and id: "plain_id (fd_id feed)" and own: "feed_owned (fd_team feed) (fd_id feed) db"
  shows "item_outcome (ie_now ie) feed (feed_item_key item) r db db'"
proof -
  let ?m = "for_item (fd_id feed) (feed_item_key item) (ie_mat ie)"
  let ?key = "feed_item_key item"
  obtain p where p: "p = (if fd_enrichment feed \<and> should_enhance_rss ?m ''enrich team'' feed db
      then prepare_rss_article ie ?m feed item db else Inr ((ie_readable ie (trim_space (fi_content item)), False), False))" by blast
  from c have c: "(case p of Inl e \<Rightarrow> (Inl e, db) | Inr (_, True) \<Rightarrow> (Inr False, db)
     | Inr (mat, False) \<Rightarrow> (case import_item_locked ie ?m feed item mat db of
           (Inl e, d) \<Rightarrow> (Inl e, d) | (Inr (_, Some e), d) \<Rightarrow> (Inl e, d) | (Inr (created, None), d) \<Rightarrow> (Inr created, d))) = (r, db')"
    unfolding p create_post_from_rss_item_def Let_def .
  show ?thesis
  proof (cases p)
    case (Inl e)
    with p have "prepare_rss_article ie ?m feed item db = Inl e" by (auto split: if_splits)
    from prepare_not_released [OF this] c Inl show ?thesis
      by (cases e) (auto simp: item_outcome_def)
  next
    case (Inr q)
    obtain mat known where q: "q = (mat, known)" by (cases q)
    show ?thesis
    proof (cases known)
      case True
      with c Inr q show ?thesis by (auto simp: item_outcome_def)
    next
      case False
      obtain v d where v: "import_item_locked ie ?m feed item mat db = (v, d)" by (metis surj_pair)
      have k: "case v of Inr (created, None) \<Rightarrow> item_outcome (ie_now ie) feed ?key (Inr created) db d
        | Inr (_, Some e) \<Rightarrow> item_outcome (ie_now ie) feed ?key (Inl e) db d
        | Inl e \<Rightarrow> d = db \<and> (\<forall>x. e \<noteq> Attempt_Released x)"
        using import_locked_cases [OF v id own] unfolding for_item_now .
      show ?thesis
      proof (cases v)
        case (Inl e)
        with k c Inr q False v show ?thesis by (cases e) (auto simp: item_outcome_def)
      next
        case w: (Inr w)
        obtain created o' where "w = (created, o')" by (cases w)
        with k c Inr q False v w show ?thesis by (cases o') auto
      qed
    qed
  qed
qed


section \<open>The day's budget\<close>

definition budget_ok :: "instant \<Rightarrow> int \<Rightarrow> string \<Rightarrow> store_db \<Rightarrow> bool" where
  "budget_ok now l g db \<longleftrightarrow> items_ok (sd_items db) \<and> int (count_rss_feed_posts_today now g db) \<le> l \<and>
     (\<forall>f \<in> set (sd_feeds db). fd_id f = g \<longrightarrow> fd_max_per_day f \<le> l)"

lemma active_keys:
  "active_job_for i db \<longleftrightarrow> list_ex (\<lambda>k. fst k = it_feed i \<and>
     list_ex (\<lambda>j. jb_team j = fst (snd k) \<and> jb_origin j = ''automation'' \<and> (jb_status j = Job_Pending \<or> jb_status j = Job_Processing) \<and>
       jb_rss_feed j = Some (it_feed i) \<and> jb_rss_key j = Some (it_key i)) (sd_jobs db)) (feed_keys db)"
  by (simp add: active_job_for_def feed_keys_def list_ex_iff)

lemma eligible_keys:
  "feed_keys db' = feed_keys db \<Longrightarrow> sd_jobs db' = sd_jobs db \<Longrightarrow> rss_item_retry_eligible now db' i = rss_item_retry_eligible now db i"
  unfolding rss_item_retry_eligible_def active_keys by simp

lemma limits_keys:
  "feed_keys db' = feed_keys db \<Longrightarrow>
     (\<forall>f \<in> set (sd_feeds db'). fd_id f = g \<longrightarrow> fd_max_per_day f \<le> l) = (\<forall>f \<in> set (sd_feeds db). fd_id f = g \<longrightarrow> fd_max_per_day f \<le> l)"
proof -
  have "(\<forall>f \<in> set (sd_feeds d). fd_id f = g \<longrightarrow> fd_max_per_day f \<le> l) = (\<forall>k \<in> set (feed_keys d). fst k = g \<longrightarrow> snd (snd k) \<le> l)" for d
    by (simp add: feed_keys_def)
  then show "feed_keys db' = feed_keys db \<Longrightarrow> ?thesis" by simp
qed

lemma owned_keys: "feed_keys db' = feed_keys db \<Longrightarrow> feed_owned team feed db' = feed_owned team feed db"
proof -
  have "feed_owned team feed d = (\<exists>k \<in> set (feed_keys d). fst k = feed \<and> fst (snd k) = team)" for d
    by (simp add: feed_owned_def list_ex_iff feed_keys_def)
  then show "feed_keys db' = feed_keys db \<Longrightarrow> ?thesis" by simp
qed

lemma count_where_map_le:
  "(\<And>x. x \<in> set xs \<Longrightarrow> q (g x) \<Longrightarrow> p x) \<Longrightarrow> count_where q (map g xs) \<le> count_where p xs"
  by (induction xs) (simp_all add: count_where_def)

lemma count_where_mono_set: "(\<And>x. x \<in> set xs \<Longrightarrow> q x \<Longrightarrow> p x) \<Longrightarrow> count_where q xs \<le> count_where p xs"
  using count_where_map_le [of xs q id p] by simp

lemma count_where_zero: "(\<And>x. x \<in> set xs \<Longrightarrow> \<not> p x) \<Longrightarrow> count_where p xs = 0"
  by (simp add: count_where_def filter_empty_conv)

lemma count_le:
  assumes items: "sd_items db' = map f (sd_items db) @ extra" and posts: "sd_posts db' = sd_posts db @ new"
    and counts: "\<And>i. i \<in> set (sd_items db) \<Longrightarrow> counted now g (utc_day now) db' (f i) \<Longrightarrow> counted now g (utc_day now) db i"
    and none: "\<And>i. i \<in> set extra \<Longrightarrow> \<not> counted now g (utc_day now) db' i"
    and links: "\<And>i q. i \<in> set (sd_items db) \<Longrightarrow> it_feed i = g \<Longrightarrow> it_post i = Some q \<Longrightarrow> it_feed (f i) = g \<and> it_post (f i) = Some q"
    and linked: "\<And>r. r \<in> set new \<Longrightarrow> sp_rss_feed_id (rw_post r) = Some g \<Longrightarrow>
        \<exists>i \<in> set (sd_items db'). it_feed i = g \<and> it_post i = Some (rw_id r)"
  shows "count_rss_feed_posts_today now g db' \<le> count_rss_feed_posts_today now g db"
proof -
  let ?p = "\<lambda>d p. sp_rss_feed_id (rw_post p) = Some g \<and> utc_day (rw_created p) = utc_day now \<and>
         \<not> list_ex (\<lambda>i. it_feed i = g \<and> it_post i = Some (rw_id p)) (sd_items d)"
  have a: "count_where (counted now g (utc_day now) db') (sd_items db') \<le> count_where (counted now g (utc_day now) db) (sd_items db)"
    unfolding items count_where_append using count_where_zero [of extra, OF none] count_where_map_le [OF counts] by simp
  have "count_where (?p db') new = 0"
    by (rule count_where_zero) (use linked in \<open>auto simp: list_ex_iff\<close>)
  moreover have "count_where (?p db') (sd_posts db) \<le> count_where (?p db) (sd_posts db)"
  proof (rule count_where_mono_set, elim conjE, intro conjI notI)
    fix r assume no: "\<not> list_ex (\<lambda>i. it_feed i = g \<and> it_post i = Some (rw_id r)) (sd_items db')"
      and "list_ex (\<lambda>i. it_feed i = g \<and> it_post i = Some (rw_id r)) (sd_items db)"
    then obtain i where "i \<in> set (sd_items db)" "it_feed i = g" "it_post i = Some (rw_id r)" by (auto simp: list_ex_iff)
    with links [OF this] no show False by (auto simp: list_ex_iff items)
  qed
  ultimately have "count_where (?p db') (sd_posts db') \<le> count_where (?p db) (sd_posts db)"
    by (simp add: posts count_where_append)
  with a show ?thesis
    unfolding count_rss_feed_posts_today_def count_rss_feed_budget_def counted_def [symmetric] by simp
qed

lemma budget_le:
  "budget_ok now l g db \<Longrightarrow> items_ok (sd_items db') \<Longrightarrow> feed_keys db' = feed_keys db \<Longrightarrow>
     count_rss_feed_posts_today now g db' \<le> count_rss_feed_posts_today now g db \<Longrightarrow> budget_ok now l g db'"
  using limits_keys [of db' db g l] by (auto simp: budget_ok_def)


lemma claim_feeds: "claim_statement now team feed key db = (b, db') \<Longrightarrow> feed_keys db' = feed_keys db \<and> sd_posts db' = sd_posts db \<and> sd_jobs db' = sd_jobs db"
  using claim_statement_cases [of now team feed key db b db'] only_items_same [of db db'] by (cases b) auto

lemma claim_budget:
  assumes b: "budget_ok now l g db" and c: "claim_statement now team feed key db = (True, db')"
  shows "budget_ok now l g db'"
proof -
  have ok: "items_ok (sd_items db')"
    using items_change_ok [OF claim_change [of db now team feed key]] b c by (simp add: budget_ok_def)
  note same = claim_feeds [OF c]
  show ?thesis
  proof (cases "feed = g")
    case True
    from c have "list_ex (\<lambda>f. fd_id f = g \<and> fd_team f = team \<and> fd_max_per_day f > int (count_rss_feed_posts_today now g db)) (sd_feeds db)"
      by (auto simp: claim_statement_def count_rss_feed_posts_today_def True split: if_splits)
    with b have "int (count_rss_feed_posts_today now g db) < l" by (force simp: budget_ok_def list_ex_iff)
    moreover from b have "count_rss_feed_posts_today now g db' = count_rss_feed_posts_today now g db + 1"
      using claim_counts_one [OF _ c] by (simp add: budget_ok_def True)
    ultimately show ?thesis using b ok same limits_keys [of db' db g l] by (simp add: budget_ok_def)
  next
    case False
    let ?upd = "\<lambda>i. item_at feed key i \<and> it_post i = None \<and> rss_item_retry_eligible now db i \<and> it_attempts i < max_rss_item_attempts"
    let ?f = "\<lambda>i. if ?upd i then i\<lparr>it_attempts := it_attempts i + 1, it_retry := False, it_created := now, it_budget_day := Some (utc_day now)\<rparr> else i"
    have other: "it_feed (?f i) = it_feed i" "it_feed i = g \<Longrightarrow> ?f i = i" for i :: item_row using False by (auto simp: item_at_def)
    have el: "counted now g (utc_day now) db' i = counted now g (utc_day now) db i" for i
      using same eligible_keys [of db' db now i] by (simp add: counted_def)
    obtain extra where items: "sd_items db' = map ?f (sd_items db) @ extra \<or> sd_items db' = sd_items db @ extra"
      and extra: "\<And>i. i \<in> set extra \<Longrightarrow> it_feed i = feed"
    proof (cases "list_ex (item_at feed key) (sd_items db)")
      case True
      with c have "sd_items db' = map ?f (sd_items db) @ []"
        by (auto simp: claim_statement_def Let_def update_where_def split: if_splits)
      then show thesis by (intro that [of "[]"]) auto
    next
      case False
      with c show thesis by (auto simp: claim_statement_def split: if_splits intro!: that)
    qed
    have none: "\<not> counted now g (utc_day now) db' i" if "i \<in> set extra" for i using extra [OF that] False by (simp add: counted_def)
    from items have "count_rss_feed_posts_today now g db' \<le> count_rss_feed_posts_today now g db"
    proof
      assume "sd_items db' = map ?f (sd_items db) @ extra"
      then show ?thesis
      proof (rule count_le [where new = "[]"])
        fix i :: item_row assume "counted now g (utc_day now) db' (?f i)"
        with other have "it_feed i = g" by (simp add: counted_def)
        with other(2) el \<open>counted now g (utc_day now) db' (?f i)\<close> show "counted now g (utc_day now) db i" by simp
      next
        fix i :: item_row and q assume "it_feed i = g" "it_post i = Some q"
        with other(2) [of i] show "it_feed (?f i) = g \<and> it_post (?f i) = Some q" by simp
      qed (use same none in simp_all)
    next
      assume "sd_items db' = sd_items db @ extra"
      then have "sd_items db' = map id (sd_items db) @ extra" by simp
      then show ?thesis by (rule count_le [where new = "[]"]) (use same none el in simp_all)
    qed
    then show ?thesis using budget_le [OF b ok] same by simp
  qed
qed

text \<open>The reserved marker is the only one of its item.\<close>

lemma reserved_unique:
  assumes "items_ok (sd_items db)" "reserved now feed key db" "i \<in> set (sd_items db)" "item_at feed key i"
  shows "claimed_row now feed key i"
proof -
  from assms(2) obtain j where j: "j \<in> set (sd_items db)" "claimed_row now feed key j" by (auto simp: reserved_def list_ex_iff)
  then have "item_at (it_feed j) (it_key j) i" using assms(4) by (auto simp: claimed_row_def item_at_def)
  from item_at_unique [OF assms(1) j(1) assms(3) this] j(2) show ?thesis by simp
qed

lemma links_budget:
  assumes b: "budget_ok now l g db" and res: "reserved now feed key db" and c: "links_post now feed key row db db'"
  shows "budget_ok now l g db'"
proof -
  let ?upd = "\<lambda>i. item_at feed key i \<and> it_post i = None \<and> it_consumed i = None"
  let ?f = "\<lambda>i. if ?upd i then i\<lparr>it_post := Some (rw_id row), it_consumed := Some now, it_retry := False,
              it_budget_day := (case it_budget_day i of None \<Rightarrow> Some (utc_day now) | Some d \<Rightarrow> Some d)\<rparr> else i"
  from c have items: "sd_items db' = map ?f (sd_items db) @ []" by (simp add: links_post_def update_where_def)
  from c have rest: "sd_posts db' = sd_posts db @ [row]" "sd_jobs db' = sd_jobs db" "feed_keys db' = feed_keys db"
    "sp_rss_feed_id (rw_post row) = Some feed" by (simp_all add: links_post_def)
  from b have ok: "items_ok (sd_items db)" by (simp add: budget_ok_def)
  have ok': "items_ok (sd_items db')"
    using c by (intro items_change_ok [OF _ ok])
      (auto simp: links_post_def intro!: items_change_update simp: item_evolves_def)
  have "count_rss_feed_posts_today now g db' \<le> count_rss_feed_posts_today now g db"
    using items rest(1)
  proof (rule count_le)
    fix i assume i: "i \<in> set (sd_items db)" and n: "counted now g (utc_day now) db' (?f i)"
    show "counted now g (utc_day now) db i"
    proof (cases "?upd i")
      case True
      with reserved_unique [OF ok res i] have "claimed_row now feed key i" by simp
      with n True claimed_not_eligible [of now feed key i db] show ?thesis by (simp add: counted_def claimed_row_def)
    next
      case False
      with n eligible_keys [OF rest(3,2)] show ?thesis by (simp add: counted_def)
    qed
  next
    fix i :: item_row and q assume "it_feed i = g" "it_post i = Some q"
    then show "it_feed (?f i) = g \<and> it_post (?f i) = Some q" by simp
  next
    fix r assume "r \<in> set [row]" and r: "sp_rss_feed_id (rw_post r) = Some g"
    with rest(4) have "feed = g" "r = row" by simp_all
    from res obtain i where i: "i \<in> set (sd_items db)" "claimed_row now feed key i" by (auto simp: reserved_def list_ex_iff)
    then have "it_feed (?f i) = g" "it_post (?f i) = Some (rw_id r)"
      using \<open>feed = g\<close> \<open>r = row\<close> by (auto simp: claimed_row_def item_at_def)
    moreover have "?f i \<in> set (sd_items db')"
      unfolding items append_Nil2 set_map by (rule imageI [OF i(1)])
    ultimately show "\<exists>i \<in> set (sd_items db'). it_feed i = g \<and> it_post i = Some (rw_id r)" by blast
  qed simp
  then show ?thesis using budget_le [OF b ok'] rest(3) by simp
qed


lemma job_budget:
  assumes b: "budget_ok now l g db" and res: "reserved now feed key db"
    and c: "sd_jobs db' = sd_jobs db @ [j]" "jb_rss_feed j = Some feed" "jb_rss_key j = Some key"
      "sd_items db' = sd_items db" "sd_posts db' = sd_posts db" "sd_feeds db' = sd_feeds db"
  shows "budget_ok now l g db'"
proof -
  from b have ok: "items_ok (sd_items db)" by (simp add: budget_ok_def)
  have active: "active_job_for i db' = active_job_for i db" if "\<not> item_at feed key i" for i
    using that c(1,2,3,6) by (auto simp: active_job_for_def item_at_def list_ex_iff)
  have "count_rss_feed_posts_today now g db' \<le> count_rss_feed_posts_today now g db"
  proof (rule count_le [where f = id and extra = "[]" and new = "[]"])
    fix i assume i: "i \<in> set (sd_items db)" and n: "counted now g (utc_day now) db' (id i)"
    show "counted now g (utc_day now) db i"
    proof (cases "item_at feed key i")
      case True
      from claimed_not_eligible [OF reserved_unique [OF ok res i True], of db] n show ?thesis by (simp add: counted_def)
    next
      case False
      from n active [OF False] show ?thesis by (simp add: counted_def rss_item_retry_eligible_def)
    qed
  qed (use c in simp_all)
  then show ?thesis using budget_le [OF b, of db'] ok c by (simp add: feed_keys_def)
qed

lemma release_budget:
  assumes b: "budget_ok now l g db" and r: "db' = snd (release_rss_item_attempt team feed key db)"
  shows "budget_ok now l g db'"
proof -
  from b have ok: "items_ok (sd_items db)" by (simp add: budget_ok_def)
  let ?upd = "\<lambda>i. item_at feed key i \<and> it_post i = None \<and> it_consumed i = None \<and> feed_owned team feed db"
  let ?f = "\<lambda>i. if ?upd i then i\<lparr>it_retry := True, it_attempts := (if it_attempts i = 0 then 1 else it_attempts i)\<rparr> else i"
  have "db' = db \<or> sd_items db' = map ?f (sd_items db) \<and> sd_posts db' = sd_posts db \<and> sd_jobs db' = sd_jobs db \<and> sd_feeds db' = sd_feeds db"
    by (auto simp: r release_rss_item_attempt_def Let_def update_where_def split: option.splits)
  then show ?thesis
  proof
    assume m: "sd_items db' = map ?f (sd_items db) \<and> sd_posts db' = sd_posts db \<and> sd_jobs db' = sd_jobs db \<and> sd_feeds db' = sd_feeds db"
    then have el: "rss_item_retry_eligible now db' i = rss_item_retry_eligible now db i" for i
      by (intro eligible_keys) (simp_all add: feed_keys_def)
    have "count_rss_feed_posts_today now g db' \<le> count_rss_feed_posts_today now g db"
    proof (rule count_le [where f = ?f and extra = "[]" and new = "[]"])
      fix i :: item_row assume "counted now g (utc_day now) db' (?f i)"
      then show "counted now g (utc_day now) db i"
        by (cases "?upd i") (simp_all add: counted_def el, simp add: rss_item_retry_eligible_def)
    next
      fix i :: item_row and q assume "it_feed i = g" "it_post i = Some q"
      then show "it_feed (?f i) = g \<and> it_post (?f i) = Some q" by simp
    qed (use m in simp_all)
    moreover have "items_ok (sd_items db')"
      using items_change_ok [OF release_change ok] by (simp add: r)
    ultimately show ?thesis using budget_le [OF b] m by (simp add: feed_keys_def)
  qed (simp add: b)
qed

lemma release_keys: "feed_keys (snd (release_rss_item_attempt team feed key db)) = feed_keys db"
  by (simp add: release_rss_item_attempt_def Let_def feed_keys_def split: option.split)

text \<open>The import of an item keeps the budget, whatever comes of it.\<close>

lemma outcome_budget:
  assumes b: "budget_ok now l g db" and o': "item_outcome now feed key r db db'"
  shows "budget_ok now l g db' \<and> feed_keys db' = feed_keys db"
proof -
  let ?t = "fd_team feed" and ?i = "fd_id feed"
  have res: "reserved now ?i key d" if "claim_statement now ?t ?i key db = (True, d)" for d
    using claim_statement_cases [OF that] by simp
  from o' consider "db' = db" | "released now ?t ?i key db db'" | "post_imported now ?t ?i key db db'" | "job_imported now ?t ?i key db db'"
    by (auto simp: item_outcome_def imported_def split: sum.splits bool.splits import_error.splits)
  then show ?thesis
  proof cases
    case 2
    then obtain d where d: "claim_statement now ?t ?i key db = (True, d)" "db' = snd (release_rss_item_attempt ?t ?i key d)"
      by (auto simp: released_def)
    from release_budget [OF claim_budget [OF b d(1)] d(2)] claim_feeds [OF d(1)] show ?thesis by (simp add: d(2) release_keys)
  next
    case 3
    then obtain d row where d: "claim_statement now ?t ?i key db = (True, d)" "links_post now ?i key row d db'"
      by (auto simp: post_imported_def)
    from links_budget [OF claim_budget [OF b d(1)] res [OF d(1)] d(2)] claim_feeds [OF d(1)] d(2) show ?thesis
      by (simp add: links_post_def)
  next
    case 4
    then obtain d j where d: "claim_statement now ?t ?i key db = (True, d)" "sd_jobs db' = sd_jobs d @ [j]" "jb_rss_feed j = Some ?i"
       "jb_rss_key j = Some key" "sd_items db' = sd_items d" "sd_posts db' = sd_posts d" "sd_feeds db' = sd_feeds d"
      by (auto simp: job_imported_def)
    from job_budget [OF claim_budget [OF b d(1)] res [OF d(1)] d(2-7)] claim_feeds [OF d(1)] d(7) show ?thesis
      by (simp add: feed_keys_def)
  qed (simp add: b)
qed


lemma record_cases:
  assumes "record_rss_imported_item now feed key [] db = (r, db')"
  shows "db' = db \<and> (r = Inr () \<longrightarrow> list_ex (item_at feed key) (sd_items db)) \<or>
    r = Inr () \<and> \<not> list_ex (item_at feed key) (sd_items db) \<and> db' = db\<lparr>sd_items := sd_items db @
      [\<lparr>it_feed = feed, it_key = key, it_post = None, it_attempts = 0, it_retry = False, it_consumed = None,
        it_budget_day = None, it_created = now\<rparr>]\<rparr>"
proof -
  have "trim_space [] = []" by code_simp
  then show ?thesis using assms
    by (auto simp: record_rss_imported_item_def Let_def update_where_none list_ex_iff split: if_splits)
qed

lemma record_budget:
  assumes b: "budget_ok now l g db" and c: "record_rss_imported_item at feed key [] db = (r, db')"
  shows "budget_ok now l g db' \<and> feed_keys db' = feed_keys db"
  using record_cases [OF c]
proof (elim disjE conjE)
  assume d: "db' = db\<lparr>sd_items := sd_items db @
      [\<lparr>it_feed = feed, it_key = key, it_post = None, it_attempts = 0, it_retry = False, it_consumed = None,
        it_budget_day = None, it_created = at\<rparr>]\<rparr>"
  then have keys: "feed_keys db' = feed_keys db" by (simp add: feed_keys_def)
  have "items_ok (sd_items db')"
    using items_change_ok [OF record_change [of db at feed key "[]"]] b c by (simp add: budget_ok_def)
  moreover have "count_rss_feed_posts_today now g db' \<le> count_rss_feed_posts_today now g db"
    by (rule count_le [where f = id and new = "[]"])
       (use d eligible_keys [OF keys] in \<open>auto simp: counted_def\<close>)
  ultimately show ?thesis using budget_le [OF b] keys by simp
qed (simp add: b)

lemma touch_budget:
  assumes b: "budget_ok now l g db"
  shows "budget_ok now l g (touch_feed ie feed db) \<and> feed_keys (touch_feed ie feed db) = feed_keys db"
proof -
  have keys: "feed_keys (touch_feed ie feed db) = feed_keys db"
    by (simp add: touch_feed_def Let_def faulty_def update_rss_feed_last_fetched_def feed_keys_def update_where_def comp_def
        if_distrib [of fd_id] if_distrib [of fd_team] if_distrib [of fd_max_per_day] split: option.split cong: if_cong)
  have same: "sd_items (touch_feed ie feed db) = sd_items db" "sd_posts (touch_feed ie feed db) = sd_posts db"
    "sd_jobs (touch_feed ie feed db) = sd_jobs db"
    by (simp_all add: touch_feed_def Let_def faulty_def update_rss_feed_last_fetched_def split: option.split)
  have "count_rss_feed_posts_today now g (touch_feed ie feed db) \<le> count_rss_feed_posts_today now g db"
    by (rule count_le [where f = id and extra = "[]" and new = "[]"])
       (use same eligible_keys [OF keys same(3)] in \<open>simp_all add: counted_def\<close>)
  moreover have "items_ok (sd_items (touch_feed ie feed db))" using b by (simp add: same budget_ok_def)
  ultimately show ?thesis using budget_le [OF b] keys by simp
qed

lemma item_budget:
  assumes b: "budget_ok (ie_now ie) l g db" and id: "plain_id (fd_id feed)" and own: "feed_owned (fd_team feed) (fd_id feed) db"
    and c: "create_post_from_rss_item ie feed item db = (r, db')"
  shows "budget_ok (ie_now ie) l g db' \<and> feed_keys db' = feed_keys db"
  by (rule outcome_budget [OF b import_item_outcome [OF c id own]])

lemma items_budget:
  assumes "budget_ok (ie_now ie) l g db" "plain_id (fd_id feed)" "feed_owned (fd_team feed) (fd_id feed) db"
  shows "budget_ok (ie_now ie) l g (snd (import_items ie feed is p db)) \<and> feed_keys (snd (import_items ie feed is p db)) = feed_keys db"
  using assms
proof (induction "is" arbitrary: p db)
  case (Cons i rest)
  obtain r d where c: "create_post_from_rss_item ie feed i db = (r, d)" by (metis surj_pair)
  from item_budget [OF Cons.prems c] have d: "budget_ok (ie_now ie) l g d" "feed_keys d = feed_keys db" by simp_all
  from Cons.IH [OF d(1) Cons.prems(2)] Cons.prems(3) owned_keys [OF d(2)] d(2) c show ?case by simp
qed simp

lemma baseline_budget:
  "budget_ok now l g db \<Longrightarrow> budget_ok now l g (baseline_items ie feed k is db) \<and> feed_keys (baseline_items ie feed k is db) = feed_keys db"
proof (induction "is" arbitrary: db)
  case (Cons i rest)
  let ?x = "me_auto (for_item (fd_id feed) (feed_item_key i) (ie_mat ie))"
  obtain r d where c: "faulty (ax_env ?x) ''record'' (record_rss_imported_item (ax_now ?x) (fd_id feed) (feed_item_key i) []) db = (r, d)"
    by (metis surj_pair)
  from c have "budget_ok now l g d \<and> feed_keys d = feed_keys db"
    by (rule faulty_cases) (use Cons.prems record_budget in auto)
  with Cons c show ?case by (simp add: Let_def)
qed simp

lemma feed_budget:
  assumes b: "budget_ok (ie_now ie) l g db" and id: "plain_id (fd_id feed)" and own: "feed_owned (fd_team feed) (fd_id feed) db"
  shows "budget_ok (ie_now ie) l g (snd (import_rss_feed ie feed db)) \<and> feed_keys (snd (import_rss_feed ie feed db)) = feed_keys db"
proof -
  have first: "budget_ok (ie_now ie) l g (handle_rss_first_fetch ie feed is db) \<and> feed_keys (handle_rss_first_fetch ie feed is db) = feed_keys db" for "is"
  proof -
    let ?l = "latest_item (hd is) (tl is)"
    obtain r d where c: "create_post_from_rss_item ie feed ?l db = (r, d)" by (metis surj_pair)
    have base: "budget_ok (ie_now ie) l g (touch_feed ie feed (baseline_items ie feed k is e)) \<and>
        feed_keys (touch_feed ie feed (baseline_items ie feed k is e)) = feed_keys e" if "budget_ok (ie_now ie) l g e" for e k
      using touch_budget [of "ie_now ie" l g "baseline_items ie feed k is e" ie feed] baseline_budget [OF that] by simp
    show ?thesis
      using base [OF b] base [of d] item_budget [OF b id own c] c by (simp add: handle_rss_first_fetch_def Let_def)
  qed
  have later: "budget_ok (ie_now ie) l g (touch_feed ie feed (snd (import_items ie feed is p db))) \<and>
      feed_keys (touch_feed ie feed (snd (import_items ie feed is p db))) = feed_keys db" for "is" p
    using touch_budget [of "ie_now ie" l g "snd (import_items ie feed is p db)" ie feed] items_budget [OF b id own] by simp
  show ?thesis
  proof (cases "fd_targets feed = []")
    case True
    then show ?thesis using b by (simp add: import_rss_feed_def)
  next
    case False
    show ?thesis
    proof (cases "parser_fetch ie (fd_url feed)")
      case (Inl e)
      with False b show ?thesis by (simp add: import_rss_feed_def)
    next
      case (Inr "is")
      with False first later show ?thesis
        by (cases "fd_last_fetched feed") (auto simp: import_rss_feed_def Let_def case_prod_beta)
    qed
  qed
qed


lemma claim_new:
  assumes ok: "items_ok (sd_items db)" and c: "claim_statement now team feed key db = (True, d)"
  shows "\<not> rss_item_already_imported now feed key db"
proof
  assume "rss_item_already_imported now feed key db"
  then obtain i where i: "i \<in> set (sd_items db)" "item_at feed key i"
    "it_post i \<noteq> None \<or> \<not> rss_item_retry_eligible now db i \<or> it_attempts i \<ge> max_rss_item_attempts"
    by (auto simp: rss_item_already_imported_def list_ex_iff item_at_def)
  then have "list_ex (item_at feed key) (sd_items db)" by (auto simp: list_ex_iff)
  with c obtain j where j: "j \<in> set (sd_items db)" "item_at feed key j" "it_post j = None"
    "rss_item_retry_eligible now db j" "it_attempts j < max_rss_item_attempts"
    by (auto simp: claim_statement_def Let_def list_ex_iff split: if_splits)
  have "item_at (it_feed j) (it_key j) i" using i(2) j(2) by (simp add: item_at_def)
  from item_at_unique [OF ok j(1) i(1) this] i(3) j show False by simp
qed

lemma links_row:
  assumes "reserved now feed key d" "links_post now feed key row d db'"
  shows "list_ex (\<lambda>i. item_at feed key i \<and> it_post i = Some (rw_id row)) (sd_items db')"
proof -
  from assms(1) obtain i where i: "i \<in> set (sd_items d)" "claimed_row now feed key i" by (auto simp: reserved_def list_ex_iff)
  let ?f = "\<lambda>i. if item_at feed key i \<and> it_post i = None \<and> it_consumed i = None
    then i\<lparr>it_post := Some (rw_id row), it_consumed := Some now, it_retry := False,
              it_budget_day := (case it_budget_day i of None \<Rightarrow> Some (utc_day now) | Some d \<Rightarrow> Some d)\<rparr> else i"
  from assms(2) have "sd_items db' = map ?f (sd_items d)" by (simp add: links_post_def update_where_def)
  with i(1) have "?f i \<in> set (sd_items db')" by (simp only: set_map) (rule imageI)
  moreover have "item_at feed key (?f i) \<and> it_post (?f i) = Some (rw_id row)" using i(2) by (simp add: claimed_row_def item_at_def)
  ultimately show ?thesis unfolding list_ex_iff by blast
qed

lemma linked_imported:
  "list_ex (\<lambda>i. item_at feed key i \<and> it_post i = Some q) (sd_items db) \<Longrightarrow> rss_item_already_imported now feed key db"
  by (auto simp: rss_item_already_imported_def list_ex_iff item_at_def)

section \<open>Items of the first fetch\<close>

text \<open>Rows as the baseline writes them: no attempt was made on any of the feed's items.\<close>

definition untried :: "string \<Rightarrow> store_db \<Rightarrow> bool" where
  "untried feed db \<longleftrightarrow> (\<forall>i \<in> set (sd_items db). it_feed i = feed \<longrightarrow> it_attempts i = 0 \<and> \<not> it_retry i)"

definition has_marker :: "string \<Rightarrow> string \<Rightarrow> store_db \<Rightarrow> bool" where
  "has_marker feed key db \<longleftrightarrow> list_ex (item_at feed key) (sd_items db)"

lemma untried_imported: "untried feed db \<Longrightarrow> has_marker feed key db \<Longrightarrow> rss_item_already_imported now feed key db"
  by (auto simp: untried_def has_marker_def rss_item_already_imported_def list_ex_iff item_at_def rss_item_retry_eligible_def)

lemma known_once:
  assumes "key = [] \<or> rss_item_already_imported (ax_now (me_auto m)) (fd_id feed) key db" "key = feed_item_key item"
    and "create_post_from_rss_item_once ie m feed item mat db = (r, d)"
  shows "d = db \<and> r \<noteq> Inr True \<and> (\<forall>e. r \<noteq> Inl (Attempt_Released e))"
proof (cases "key = []")
  case True
  with assms show ?thesis by (auto simp: create_post_from_rss_item_once_def)
next
  case False
  show ?thesis
  proof (cases "look (me_auto m) ''imported'' (\<lambda>db. Inr (rss_item_already_imported (ax_now (me_auto m)) (fd_id feed) key db)) db")
    case (Inl e)
    with assms False show ?thesis by (auto simp: create_post_from_rss_item_once_def Let_def)
  next
    case (Inr b)
    with look_Inr [OF Inr] assms False show ?thesis by (auto simp: create_post_from_rss_item_once_def Let_def)
  qed
qed

lemma known_item:
  assumes k: "feed_item_key item = [] \<or> rss_item_already_imported (ie_now ie) (fd_id feed) (feed_item_key item) db"
    and c: "create_post_from_rss_item ie feed item db = (r, db')"
  shows "db' = db"
proof -
  let ?m = "for_item (fd_id feed) (feed_item_key item) (ie_mat ie)"
  have locked: "d = db" if l: "import_item_locked ie ?m feed item mat db = (v, d)" for mat v d
    using l unfolding import_item_locked_def
  proof (cases rule: import_transaction_cases)
    case (2 w)
    obtain u e where u: "create_post_from_rss_item_once ie ?m feed item mat db = (u, e)" by (metis surj_pair)
    from known_once [OF _ refl u] k have "e = db" by simp
    with 2 u show ?thesis by (auto split: sum.splits import_error.splits)
  qed
  show ?thesis using c locked
    by (auto simp: create_post_from_rss_item_def Let_def split: sum.splits prod.splits bool.splits option.splits)
qed

lemma known_items:
  "(\<forall>i \<in> set is. feed_item_key i = [] \<or> rss_item_already_imported (ie_now ie) (fd_id feed) (feed_item_key i) db) \<Longrightarrow>
     snd (import_items ie feed is p db) = db"
proof (induction "is" arbitrary: p)
  case (Cons i rest)
  obtain r d where c: "create_post_from_rss_item ie feed i db = (r, d)" by (metis surj_pair)
  with known_item [OF _ c] Cons show ?case by simp
qed simp

lemma touch_same:
  "sd_items (touch_feed ie feed db) = sd_items db" "sd_posts (touch_feed ie feed db) = sd_posts db" "sd_jobs (touch_feed ie feed db) = sd_jobs db"
  by (simp_all add: touch_feed_def Let_def faulty_def update_rss_feed_last_fetched_def split: option.split)

lemma baseline_marks:
  assumes "untried feed db" "find_feed feed db \<noteq> None" "feed = fd_id f"
    "\<And>n. en_fail (ax_env (me_auto (ie_mat ie))) n = None"
  shows "untried feed (baseline_items ie f [] is db) \<and> sd_posts (baseline_items ie f [] is db) = sd_posts db \<and>
    sd_jobs (baseline_items ie f [] is db) = sd_jobs db \<and> sd_feeds (baseline_items ie f [] is db) = sd_feeds db \<and>
    (\<forall>k. has_marker feed k db \<or> k \<noteq> [] \<and> k \<in> feed_item_key ` set is \<longrightarrow> has_marker feed k (baseline_items ie f [] is db))"
  using assms(1,2)
proof (induction "is" arbitrary: db)
  case (Cons i rest)
  let ?k = "feed_item_key i" and ?x = "me_auto (for_item (fd_id f) (feed_item_key i) (ie_mat ie))"
  show ?case
  proof (cases "?k = []")
    case True
    with Cons.IH [OF Cons.prems] show ?thesis by (auto simp: Let_def)
  next
    case False
    obtain r d where c: "record_rss_imported_item (ax_now ?x) feed ?k [] db = (r, d)" by (metis surj_pair)
    have "faulty (ax_env ?x) ''record'' (record_rss_imported_item (ax_now ?x) (fd_id f) ?k []) db = (r, d)"
      using c assms(3,4) by (simp add: faulty_def for_item_def Let_def)
    then have step: "baseline_items ie f [] (i # rest) db = baseline_items ie f [] rest d" using False by (simp add: Let_def)
    have "trim_space [] = []" by code_simp
    with c Cons.prems(2) have "r = Inr ()"
      by (auto simp: record_rss_imported_item_def Let_def split: if_splits)
    with record_cases [OF c] Cons.prems(1)
    have d: "untried feed d" "sd_posts d = sd_posts db" "sd_jobs d = sd_jobs db" "sd_feeds d = sd_feeds db" "has_marker feed ?k d"
      "\<And>k. has_marker feed k db \<Longrightarrow> has_marker feed k d"
      by (elim disjE conjE; simp add: untried_def has_marker_def item_at_def)+
    then have "find_feed feed d \<noteq> None" using Cons.prems(2) by (simp add: find_feed_def)
    from Cons.IH [OF d(1) this] d step show ?thesis by auto
  qed
qed simp

lemma poll_known:
  assumes "untried (fd_id feed) db" "fd_last_fetched feed \<noteq> None" "\<And>xs. set (ie_ties ie xs) \<subseteq> set xs"
    and "\<And>is. parser_fetch ie (fd_url feed) = Inr is \<Longrightarrow> \<forall>k \<in> feed_item_key ` set is. k = [] \<or> has_marker (fd_id feed) k db"
  shows "sd_items (snd (import_rss_feed ie feed db)) = sd_items db \<and> sd_posts (snd (import_rss_feed ie feed db)) = sd_posts db \<and>
    sd_jobs (snd (import_rss_feed ie feed db)) = sd_jobs db"
proof (cases "fd_targets feed = []")
  case True
  then show ?thesis by (simp add: import_rss_feed_def)
next
  case False
  show ?thesis
  proof (cases "parser_fetch ie (fd_url feed)")
    case (Inl e)
    with False show ?thesis by (simp add: import_rss_feed_def)
  next
    case (Inr "is")
    obtain t where t: "fd_last_fetched feed = Some t" using assms(2) by blast
    have "set (feed_candidates ie is t) \<subseteq> set is"
      using assms(3) [of "filter_rss_items_since is (t - rss_import_lookback)"]
      by (auto simp: feed_candidates_def filter_rss_items_since_def)
    with assms(4) [OF Inr] untried_imported [OF assms(1)]
    have "snd (import_items ie feed (feed_candidates ie is t) p db) = db" for p
      by (intro known_items) auto
    with False Inr t show ?thesis by (simp add: import_rss_feed_def Let_def case_prod_beta touch_same)
  qed
qed

section \<open>Properties\<close>

definition feeds_plain :: "store_db \<Rightarrow> bool" where
  "feeds_plain db \<longleftrightarrow> (\<forall>f \<in> set (sd_feeds db). plain_id (fd_id f))"

definition blog_feed :: feed_row where
  "blog_feed = demo_feed\<lparr>fd_content_template := ''c'', fd_title_template := ''c'', fd_targets := [''a1''], fd_output_mode := ''draft'', fd_url := ''u'',
     fd_last_fetched := Some 0\<rparr>"

definition blog_store :: store_db where
  "blog_store = ann_store\<lparr>sd_identity := (sd_identity ann_store)\<lparr>id_members := [\<lparr>mb_user = ''u1'', mb_team = ''t1'', mb_role = Owner\<rparr>]\<rparr>,
     sd_feeds := [blog_feed]\<rparr>"

definition blog_entry :: feed_entry where
  "blog_entry = \<lparr>fe_guid = ''k'', fe_link = [], fe_title = [], fe_content = [], fe_description = [], fe_published = Some 0, fe_updated = None\<rparr>"

definition blog_env :: import_env where
  "blog_env = \<lparr>ie_mat = \<lparr>me_auto = job_env, me_rule = (\<lambda>_. None), me_zones = (\<lambda>_. None), me_manager = False,
       me_config = Config_Missing [], me_context = None\<rparr>,
     ie_parse = (\<lambda>_. Inr [blog_entry]), ie_page = (\<lambda>_. None), ie_readable = id, ie_unescape = id, ie_hash = id,
     ie_order = (\<lambda>_ xs. xs), ie_ties = id\<rparr>"

definition blog_item :: feed_item where "blog_item = map_item 0 blog_entry"

lemma blog_import: "fst (create_post_from_rss_item blog_env blog_feed blog_item blog_store) = Inr True"
  by code_simp

text \<open>C5: polling keeps the budgets. One poll of all active feeds, whatever the feeds deliver, whichever of the
  database's calls, job submissions and post inserts fail, never takes the day's count of a feed above the feed's
  limit: a reserved item, the job or the post made of it and a released attempt count once at most.\<close>
theorem polls_within_budget:
  assumes "items_ok (sd_items db)" "feeds_plain db"
    and "\<And>f. f \<in> set (sd_feeds db) \<Longrightarrow> fd_id f = g \<Longrightarrow> fd_max_per_day f \<le> limit"
    and "int (count_rss_feed_posts_today (ie_now ie) g db) \<le> limit"
  shows "int (count_rss_feed_posts_today (ie_now ie) g (rss_import_job ie db)) \<le> limit \<and> items_ok (sd_items (rss_import_job ie db))"
proof -
  have fold: "budget_ok (ie_now ie) limit g (fold (\<lambda>f d. snd (import_rss_feed ie f d)) fs d)"
    if "budget_ok (ie_now ie) limit g d" "feed_keys d = feed_keys db" "set fs \<subseteq> set (sd_feeds db)" for fs d
    using that
  proof (induction fs arbitrary: d)
    case (Cons f fs)
    then have f: "f \<in> set (sd_feeds db)" by simp
    with assms(2) have id: "plain_id (fd_id f)" by (simp add: feeds_plain_def)
    from f have "feed_owned (fd_team f) (fd_id f) db" by (auto simp: feed_owned_def list_ex_iff)
    with owned_keys [OF Cons.prems(2)] have own: "feed_owned (fd_team f) (fd_id f) d" by simp
    from feed_budget [OF Cons.prems(1) id own] Cons.IH Cons.prems(2,3) show ?case by simp
  qed simp
  have "budget_ok (ie_now ie) limit g db" using assms by (simp add: budget_ok_def)
  moreover have "set (list_active_rss_feed_configs 200 db) \<subseteq> set (sd_feeds db)"
    unfolding list_active_rss_feed_configs_def by (auto dest!: in_set_takeD)
  ultimately have "budget_ok (ie_now ie) limit g (rss_import_job ie db)"
    using fold by (auto simp: rss_import_job_def split: sum.split dest!: look_Inr)
  then show ?thesis by (simp add: budget_ok_def)
qed

theorem polls_within_budget_witness:
  "ps_created (fst (import_rss_feed blog_env blog_feed blog_store)) = 1 \<and>
     int (count_rss_feed_posts_today 0 ''f1'' (rss_import_job blog_env blog_store)) \<le> 1"
proof (rule conjI)
  show "ps_created (fst (import_rss_feed blog_env blog_feed blog_store)) = 1" by code_simp
  have "int (count_rss_feed_posts_today (ie_now blog_env) ''f1'' (rss_import_job blog_env blog_store)) \<le> 1 \<and>
      items_ok (sd_items (rss_import_job blog_env blog_store))"
    by (rule polls_within_budget) (simp_all add: blog_store_def ann_store_def empty_store_def blog_feed_def demo_feed_def items_ok_def
      feeds_plain_def plain_id_def trim_eval count_rss_feed_posts_today_def count_rss_feed_budget_def count_where_def)
  then show "int (count_rss_feed_posts_today 0 ''f1'' (rss_import_job blog_env blog_store)) \<le> 1"
    by (simp add: blog_env_def job_env_def quiet_env_def)
qed

text \<open>C15: the import of an item is all or nothing. For a feed of the tables, \<open>createPostFromRSSItem\<close> reports that it
  created something exactly when one post linked to the item, or one job for it, was added and nothing else; the item
  then counts as imported. Every other outcome leaves posts and jobs alone, and except for a released attempt the
  whole database.\<close>
theorem item_imported_once:
  assumes "items_ok (sd_items db)" "plain_id (fd_id feed)" "feed_owned (fd_team feed) (fd_id feed) db"
    and "create_post_from_rss_item ie feed item db = (r, db')"
  shows "if r = Inr True
    then \<not> rss_item_already_imported (ie_now ie) (fd_id feed) (feed_item_key item) db \<and>
      rss_item_already_imported (ie_now ie) (fd_id feed) (feed_item_key item) db' \<and>
      ((\<exists>row. sd_posts db' = sd_posts db @ [row] \<and> sd_jobs db' = sd_jobs db \<and>
          list_ex (\<lambda>i. item_at (fd_id feed) (feed_item_key item) i \<and> it_post i = Some (rw_id row)) (sd_items db')) \<or>
       (\<exists>j. sd_jobs db' = sd_jobs db @ [j] \<and> sd_posts db' = sd_posts db \<and>
          jb_rss_feed j = Some (fd_id feed) \<and> jb_rss_key j = Some (feed_item_key item)))
    else sd_posts db' = sd_posts db \<and> sd_jobs db' = sd_jobs db \<and> (db' = db \<or> (\<exists>e. r = Inl (Attempt_Released e)))"
proof -
  let ?i = "fd_id feed" and ?k = "feed_item_key item" and ?now = "ie_now ie"
  have o': "item_outcome ?now feed ?k r db db'" by (rule import_item_outcome [OF assms(4,2,3)])
  have rel: "sd_posts db' = sd_posts db \<and> sd_jobs db' = sd_jobs db" if "released ?now (fd_team feed) ?i ?k db db'"
    using that claim_feeds by (force simp: released_def release_rss_item_attempt_def Let_def split: option.splits)
  show ?thesis
  proof (cases "r = Inr True")
    case False
    with o' rel show ?thesis by (auto simp: item_outcome_def split: sum.splits bool.splits import_error.splits)
  next
    case True
    with o' consider "post_imported ?now (fd_team feed) ?i ?k db db'" | "job_imported ?now (fd_team feed) ?i ?k db db'"
      by (auto simp: item_outcome_def imported_def)
    then show ?thesis
    proof cases
      case 1
      then obtain d row where d: "claim_statement ?now (fd_team feed) ?i ?k db = (True, d)" "links_post ?now ?i ?k row d db'"
        by (auto simp: post_imported_def)
      have l: "list_ex (\<lambda>i. item_at ?i ?k i \<and> it_post i = Some (rw_id row)) (sd_items db')"
        using links_row [OF _ d(2)] claim_statement_cases [OF d(1)] by simp
      from d(2) claim_feeds [OF d(1)] have "sd_posts db' = sd_posts db @ [row]" "sd_jobs db' = sd_jobs db"
        by (simp_all add: links_post_def)
      with True claim_new [OF assms(1) d(1)] linked_imported [OF l] l show ?thesis by auto
    next
      case 2
      then obtain d j where d: "claim_statement ?now (fd_team feed) ?i ?k db = (True, d)" "sd_jobs db' = sd_jobs d @ [j]"
          "jb_rss_feed j = Some ?i" "jb_rss_key j = Some ?k" "sd_items db' = sd_items d" "sd_posts db' = sd_posts d"
        by (auto simp: job_imported_def)
      have "reserved ?now ?i ?k db'" using claim_statement_cases [OF d(1)] d(5) by (simp add: reserved_def)
      with True claim_new [OF assms(1) d(1)] claim_feeds [OF d(1)] d reserved_imported show ?thesis by auto
    qed
  qed
qed


theorem item_imported_once_witness:
  "length (sd_posts (snd (create_post_from_rss_item blog_env blog_feed blog_item blog_store))) +
     length (sd_jobs (snd (create_post_from_rss_item blog_env blog_feed blog_item blog_store))) = 1"
proof -
  obtain db' where db': "create_post_from_rss_item blog_env blog_feed blog_item blog_store = (Inr True, db')"
    using blog_import by (metis prod.collapse)
  have "items_ok (sd_items blog_store)" "plain_id (fd_id blog_feed)" "feed_owned (fd_team blog_feed) (fd_id blog_feed) blog_store"
    by (simp_all add: blog_store_def ann_store_def empty_store_def blog_feed_def demo_feed_def items_ok_def plain_id_def trim_eval feed_owned_def)
  from item_imported_once [OF this db'] show ?thesis
    unfolding db' by (auto simp: blog_store_def ann_store_def empty_store_def)
qed



end
