(* ===== verification/External_Import.thy ===== *)
theory External_Import
  imports Rss_Import
begin

text \<open>
  Posts published elsewhere: \<open>internal/scheduler/external_post_import.go\<close>, its settings and deduplication in
  \<open>internal/store/sqlite/external_post_monitor.go\<close>, the identifiers of a remote post
  (\<open>internal/provider/author_post_ids.go\<close>) and the choice of redundant imports (\<open>internal/postdedup\<close>).
\<close>

section \<open>Surroundings\<close>

record author_post =
  ap_remote :: string
  ap_url :: string
  ap_content :: string
  ap_published :: instant
  ap_metadata :: "(string \<times> string) list"

text \<open>The providers' author feeds (\<open>None\<close> for a provider without one), the class \<open>Nd\<close> of Unicode and the path
  \<open>url.Parse\<close> finds in a URL.\<close>

type_synonym author_feed = "social_account \<Rightarrow> publish_auth \<Rightarrow> instant \<Rightarrow> int \<Rightarrow> string + author_post list"

record monitor_env =
  xe_auto :: auto_env
  xe_feed :: "string \<Rightarrow> author_feed option"
  xe_digit :: "nat \<Rightarrow> bool"
  xe_path :: "string \<Rightarrow> string option"

abbreviation xe_env :: "monitor_env \<Rightarrow> env" where "xe_env e \<equiv> ax_env (xe_auto e)"
abbreviation xe_now :: "monitor_env \<Rightarrow> instant" where "xe_now e \<equiv> en_now (xe_env e)"

text \<open>The calls made for one remote post have errors and ids of their own.\<close>

definition for_remote :: "string \<Rightarrow> author_post \<Rightarrow> monitor_env \<Rightarrow> monitor_env" where
  "for_remote account ap e =
     (let tag = (\<lambda>n. n @ '' '' @ account @ '' '' @ ap_remote ap @ '' '' @ ap_url ap); x = xe_auto e in
      e\<lparr>xe_auto := x\<lparr>ax_env := (ax_env x)\<lparr>en_fail := (\<lambda>n. en_fail (ax_env x) (tag n))\<rparr>, ax_fresh := (\<lambda>n. ax_fresh x (tag n))\<rparr>\<rparr>)"

section \<open>Identifiers of a remote post\<close>

definition is_all_digits :: "monitor_env \<Rightarrow> string \<Rightarrow> bool" where
  "is_all_digits e v \<longleftrightarrow> v \<noteq> [] \<and> list_all (xe_digit e) (runes v)"

text \<open>What follows the first occurrence of a text.\<close>

fun after_first :: "string \<Rightarrow> string \<Rightarrow> string option" where
  "after_first pat s = (if has_prefix s pat then Some (drop (length pat) s)
     else (case s of [] \<Rightarrow> None | _ # t \<Rightarrow> after_first pat t))"

declare after_first.simps [simp del]

text \<open>\<open>strings.Trim(s, "/")\<close>.\<close>

definition trim_slashes :: "string \<Rightarrow> string" where
  "trim_slashes s = rev (dropWhile (\<lambda>c. c = CHR ''/'') (rev (dropWhile (\<lambda>c. c = CHR ''/'') s)))"

definition statuses_part :: string where "statuses_part = ''/statuses/''"

definition mastodon_status_id_from_reference :: "monitor_env \<Rightarrow> string \<Rightarrow> string" where
  "mastodon_status_id_from_reference e ref0 =
     (let ref = trim_space ref0;
          in_path = (case xe_path e ref of
             None \<Rightarrow> []
           | Some p \<Rightarrow> (let l = last (split_on (CHR ''/'') (trim_slashes p)) in if is_all_digits e l then l else []))
      in if ref = [] then []
         else if is_all_digits e ref then ref
         else (case after_first statuses_part ref of
                 None \<Rightarrow> in_path
               | Some r \<Rightarrow> (let i = fst (cut_at (CHR ''/'') r) in if is_all_digits e i then i else in_path)))"

definition expand_author_post_reference :: "monitor_env \<Rightarrow> string \<Rightarrow> string list" where
  "expand_author_post_reference e v0 =
     (let v = trim_space v0 in
      if v = [] then []
      else if is_all_digits e v then [v]
      else (let i = mastodon_status_id_from_reference e v in if i \<noteq> [] then [v, i] else [v]))"

text \<open>The set of identifiers, as a list.\<close>

definition collect_author_post_identifiers :: "monitor_env \<Rightarrow> string \<Rightarrow> string \<Rightarrow> (string \<times> string) list \<Rightarrow> string list" where
  "collect_author_post_identifiers e remote url meta =
     filter (\<lambda>i. i \<noteq> []) (map trim_space (concat (map (expand_author_post_reference e) [remote, url, metadata_get meta ''uri''])))"

definition author_post_identifiers_overlap ::
  "monitor_env \<Rightarrow> string \<times> string \<times> (string \<times> string) list \<Rightarrow> string \<times> string \<times> (string \<times> string) list \<Rightarrow> bool" where
  "author_post_identifiers_overlap e a b =
     (case a of (r, u, m) \<Rightarrow> case b of (r', u', m') \<Rightarrow>
        list_ex (\<lambda>i. i \<in> set (collect_author_post_identifiers e r' u' m')) (collect_author_post_identifiers e r u m))"

section \<open>The store\<close>

record monitor_row =
  mo_id :: string
  mo_team :: string
  mo_enabled :: bool
  mo_backfill :: "instant option"
  mo_last_sync :: "instant option"
  mo_created :: instant
  mo_updated :: instant

text \<open>Settings of a team; without a row they have an empty id.\<close>

definition get_external_post_monitor_settings :: "string \<Rightarrow> monitor_row list \<Rightarrow> monitor_row" where
  "get_external_post_monitor_settings team ms =
     (case find (\<lambda>m. mo_team m = team) ms of
        Some m \<Rightarrow> m
      | None \<Rightarrow> \<lparr>mo_id = [], mo_team = team, mo_enabled = False, mo_backfill = None, mo_last_sync = None,
                  mo_created = zero_time, mo_updated = zero_time\<rparr>)"

definition upsert_external_post_monitor_settings ::
  "instant \<Rightarrow> string \<Rightarrow> string \<Rightarrow> bool \<Rightarrow> monitor_row list \<times> store_db \<Rightarrow> (store_error + monitor_row) \<times> monitor_row list" where
  "upsert_external_post_monitor_settings now fresh team enabled st =
     (case st of (ms, db) \<Rightarrow>
        (let old = get_external_post_monitor_settings team ms in
         if mo_id old = []
         then (if mo_team old \<in> mo_team ` set ms \<or> fresh \<in> mo_id ` set ms \<or> \<not> team_exists team db then (Inl Constraint, ms)
               else (let ms' = ms @ [\<lparr>mo_id = fresh, mo_team = team, mo_enabled = enabled, mo_backfill = None, mo_last_sync = None,
                                      mo_created = now, mo_updated = now\<rparr>]
                     in (Inr (get_external_post_monitor_settings team ms'), ms')))
         else (let backfill = (if enabled \<and> \<not> mo_enabled old then None else mo_backfill old);
                   ms' = update_where (\<lambda>m. mo_team m = team)
                     (\<lambda>m. m\<lparr>mo_enabled := enabled, mo_backfill := backfill, mo_last_sync := mo_last_sync old, mo_updated := now\<rparr>) ms
               in (Inr (get_external_post_monitor_settings team ms'), ms'))))"

text \<open>Teams never synchronised come first.\<close>

definition list_teams_with_external_post_monitor_enabled :: "int \<Rightarrow> monitor_row list \<Rightarrow> monitor_row list" where
  "list_teams_with_external_post_monitor_enabled limit ms =
     (let on = filter mo_enabled ms in
      take (nat (if limit \<le> 0 then 200 else limit))
        (filter (\<lambda>m. mo_last_sync m = None) on @ sort_key (\<lambda>m. the (mo_last_sync m)) (filter (\<lambda>m. mo_last_sync m \<noteq> None) on)))"

definition update_external_post_monitor_sync_state :: "instant \<Rightarrow> string \<Rightarrow> instant \<Rightarrow> bool \<Rightarrow> monitor_row list \<Rightarrow> monitor_row list" where
  "update_external_post_monitor_sync_state now team last_sync backfill_completed ms =
     (let old = get_external_post_monitor_settings team ms;
          backfill = (if backfill_completed then (case mo_backfill old of None \<Rightarrow> Some last_sync | Some b \<Rightarrow> Some b) else mo_backfill old)
      in if mo_id old = [] then ms
         else update_where (\<lambda>m. mo_team m = team)
           (\<lambda>m. m\<lparr>mo_last_sync := Some last_sync, mo_backfill := backfill, mo_updated := now\<rparr>) ms)"

definition target_identifiers :: "monitor_env \<Rightarrow> target_row \<Rightarrow> string list" where
  "target_identifiers e t = collect_author_post_identifiers e (tg_remote t) (tg_url t) (tg_metadata t)"

definition author_post_already_tracked ::
  "monitor_env \<Rightarrow> string \<Rightarrow> string \<Rightarrow> string \<Rightarrow> (string \<times> string) list \<Rightarrow> store_db \<Rightarrow> bool" where
  "author_post_already_tracked e account remote url meta db \<longleftrightarrow>
     (let ids = collect_author_post_identifiers e remote url meta in
      ids \<noteq> [] \<and> list_ex (\<lambda>t. tg_account t = account \<and> tg_status t = Posted \<and>
        list_ex (\<lambda>i. i \<in> set ids) (target_identifiers e t)) (sd_targets db))"


section \<open>Redundant imports\<close>

record posted_ref =
  dr_post :: string
  dr_source :: string
  dr_account :: string
  dr_remote :: string
  dr_url :: string
  dr_metadata :: "(string \<times> string) list"

definition ref_ids :: "posted_ref \<Rightarrow> string \<times> string \<times> (string \<times> string) list" where
  "ref_ids r = (dr_remote r, dr_url r, dr_metadata r)"

text \<open>The imported posts that duplicate one published from here. The last target seen stands for an imported post.\<close>

definition redundant_imported_post_ids :: "monitor_env \<Rightarrow> posted_ref list \<Rightarrow> string list" where
  "redundant_imported_post_ids e refs =
     (let imported = filter (\<lambda>r. dr_source r = source_imported) refs; own = filter (\<lambda>r. dr_source r \<noteq> source_imported) refs;
          ids = remdups (map dr_post imported)
      in filter (\<lambda>i. case find (\<lambda>r. dr_post r = i) (rev imported) of None \<Rightarrow> False
           | Some r \<Rightarrow> list_ex (\<lambda>c. dr_account c = dr_account r \<and> author_post_identifiers_overlap e (ref_ids r) (ref_ids c)) own) ids)"

definition posted_refs :: "string \<Rightarrow> store_db \<Rightarrow> posted_ref list" where
  "posted_refs team db =
     concat (map (\<lambda>p. map (\<lambda>t. \<lparr>dr_post = rw_id p, dr_source = sp_source (rw_post p), dr_account = tg_account t,
           dr_remote = tg_remote t, dr_url = tg_url t, dr_metadata = tg_metadata t\<rparr>)
         (filter (\<lambda>t. tg_post t = rw_id p \<and> tg_status t = Posted) (sd_targets db)))
       (filter (\<lambda>p. rw_team p = team \<and> rw_status p = Posted) (sd_posts db)))"

definition delete_redundant_imported_posts :: "monitor_env \<Rightarrow> string \<Rightarrow> nat store_op" where
  "delete_redundant_imported_posts e team db =
     (let ids = redundant_imported_post_ids e (posted_refs team db)
      in (Inr (length ids), fold (delete_scheduled_post team) ids db))"

section \<open>Importing\<close>

definition imported_row :: "instant \<Rightarrow> string \<Rightarrow> string \<Rightarrow> string \<Rightarrow> author_post \<Rightarrow> post_row" where
  "imported_row now fresh team owner ap =
     \<lparr>rw_post = \<lparr>sp_id = fresh, sp_team_id = team, sp_author = owner, sp_title = [], sp_content = ap_content ap,
        sp_scheduled_at = ap_published ap, sp_status = Posted, sp_source = source_imported, sp_attempt_count = 0,
        sp_last_error = [], sp_visibility = ''public'', sp_media_ids = [], sp_media_exclude = [], sp_targets = [],
        sp_post_template_id = None, sp_template_counter = None, sp_template_occurrence_at = None,
        sp_template_post_role = [], sp_rss_feed_id = None, sp_ai_job_id = None, sp_ai_fallback_reason = None\<rparr>,
      rw_ack = None, rw_created = now, rw_updated = now\<rparr>"

definition imported_target :: "string \<Rightarrow> string \<Rightarrow> author_post \<Rightarrow> target_row" where
  "imported_target fresh account ap =
     (new_target fresh account)\<lparr>tg_status := Posted, tg_url := trim_space (ap_url ap), tg_metadata := ap_metadata ap,
        tg_remote := trim_space (ap_remote ap)\<rparr>"

definition insert_imported_target :: "string \<Rightarrow> string \<Rightarrow> author_post \<Rightarrow> unit store_op" where
  "insert_imported_target fresh account ap db =
     (if account_exists account db \<and> \<not> list_ex (\<lambda>t. tg_post t = fresh \<and> tg_account t = account) (sd_targets db)
      then (Inr (), db\<lparr>sd_targets := sd_targets db @ [imported_target fresh account ap]\<rparr>) else (Inl Constraint, db))"

definition create_imported_post :: "instant \<Rightarrow> string \<Rightarrow> string \<Rightarrow> string \<Rightarrow> string \<Rightarrow> author_post \<Rightarrow> scheduled_post store_op" where
  "create_imported_post now fresh team owner account ap db =
     (case with_audit_transaction (and_then (insert_post (imported_row now fresh team owner ap))
             (\<lambda>_. insert_imported_target fresh account ap)) db of
        (Inl e, db') \<Rightarrow> (Inl e, db') | (Inr _, db') \<Rightarrow> (get_scheduled_post team fresh db', db'))"

text \<open>The metrics of a new import are read at once when it has an address.\<close>

definition sync_imported :: "monitor_env \<Rightarrow> social_account \<Rightarrow> author_post \<Rightarrow> scheduled_post \<Rightarrow> store_db \<Rightarrow> store_db" where
  "sync_imported e account ap post db =
     (if trim_space (ap_url ap) \<noteq> [] \<or> ap_metadata ap \<noteq> []
      then sync_one_post_target_metrics (xe_env e)
        \<lparr>mr_post = sp_id post, mr_url = ap_url ap, mr_metadata = ap_metadata ap, mr_account = account\<rparr>
        (day_text (sp_scheduled_at post)) (day_text (sp_scheduled_at post)) db
      else db)"

text \<open>\<open>audited\<close> tells the monitor, which records an event with each post, from the manual import.\<close>

definition create_and_record ::
  "bool \<Rightarrow> monitor_env \<Rightarrow> string \<Rightarrow> string \<Rightarrow> string \<Rightarrow> author_post \<Rightarrow> scheduled_post store_op" where
  "create_and_record audited e team owner account ap =
     (let x = xe_auto e;
          create = faulty (ax_env x) ''create import'' (create_imported_post (ax_now x) (ax_fresh x ''post'') team owner account ap) in
      if \<not> audited then create
      else with_audit_transaction (and_then create (\<lambda>post.
             and_then (faulty (ax_env x) ''event'' (insert_audit_event (ax_now x) (ax_fresh x ''event'')
               (automation_event (ax_fresh x ''event'') team ''account.import'' ''account'' account
                 ([(''account_id'', account), (''post_id'', sp_id post)] @
                  (case ax_initiator x of None \<Rightarrow> [] | Some p \<Rightarrow> [(''initiator_user_id'', u_id (p_user p))])))))
               (\<lambda>_ db. (Inr post, db)))))"

definition import_author_post ::
  "bool \<Rightarrow> monitor_env \<Rightarrow> string \<Rightarrow> string \<Rightarrow> social_account \<Rightarrow> author_post \<Rightarrow> store_db \<Rightarrow> bool \<times> store_db" where
  "import_author_post audited e0 team owner account ap db =
     (let e = for_remote (sa_id account) ap e0 in
      case look (xe_auto e) ''tracked'' (\<lambda>db. Inr (author_post_already_tracked e (sa_id account) (ap_remote ap) (ap_url ap) (ap_metadata ap) db)) db of
        Inl _ \<Rightarrow> (False, db)
      | Inr True \<Rightarrow> (False, db)
      | Inr False \<Rightarrow>
          (case create_and_record audited e team owner (sa_id account) ap db of
             (Inl _, d) \<Rightarrow> (False, d)
           | (Inr post, d) \<Rightarrow> (True, sync_imported e account ap post d)))"

fun import_author_posts ::
  "bool \<Rightarrow> monitor_env \<Rightarrow> string \<Rightarrow> string \<Rightarrow> social_account \<Rightarrow> author_post list \<Rightarrow> store_db \<Rightarrow> nat \<times> store_db" where
  "import_author_posts audited e team owner account [] db = (0, db)"
| "import_author_posts audited e team owner account (ap # aps) db =
     (case import_author_post audited e team owner account ap db of (made, d) \<Rightarrow>
        (case import_author_posts audited e team owner account aps d of (n, d') \<Rightarrow> ((if made then 1 else 0) + n, d')))"

text \<open>What both imports do before they ask the provider: the feed, the account with a fresh token, its secrets. \<open>None\<close>
  is any of the errors.\<close>

definition open_author_feed ::
  "monitor_env \<Rightarrow> social_account \<Rightarrow> store_db \<Rightarrow> (author_feed \<times> social_account \<times> publish_auth) option \<times> store_db" where
  "open_author_feed e account db =
     (if registry_get (xe_env e) (sa_provider account) = None then (None, db)
      else (case xe_feed e (to_lower (sa_provider account)) of
         None \<Rightarrow> (None, db)
       | Some feed \<Rightarrow>
           (case ensure_mastodon_fresh (xe_env e) account db of
              (Inl _, d) \<Rightarrow> (None, d)
            | (Inr acc, d) \<Rightarrow>
                (case account_auth (xe_env e) acc of
                   Inl _ \<Rightarrow> (None, d)
                 | Inr auth \<Rightarrow> if trim_space (sa_remote_id acc) = [] then (None, d) else (Some (feed, acc, auth), d)))))"

definition import_external_posts_for_account ::
  "monitor_env \<Rightarrow> string \<Rightarrow> string \<Rightarrow> social_account \<Rightarrow> instant \<Rightarrow> store_db \<Rightarrow> nat option \<times> store_db" where
  "import_external_posts_for_account e team owner account since db =
     (case open_author_feed e account db of
        (None, d) \<Rightarrow> (None, d)
      | (Some (feed, acc, auth), d) \<Rightarrow>
          (case feed acc auth since 40 of
             Inl _ \<Rightarrow> (None, d)
           | Inr aps \<Rightarrow> (case import_author_posts True e team owner acc aps d of (n, d') \<Rightarrow> (Some n, d'))))"


section \<open>The monitor\<close>

definition list_team_accounts :: "string \<Rightarrow> store_db \<Rightarrow> social_account list" where
  "list_team_accounts team db = rev (filter (\<lambda>a. sa_team_id a = team) (sd_accounts db))"

definition external_post_backfill_days :: int where "external_post_backfill_days = 30"

text \<open>Accounts one after the other; the error of one is logged.\<close>

fun import_accounts ::
  "(social_account \<Rightarrow> store_db \<Rightarrow> nat option \<times> store_db) \<Rightarrow> social_account list \<Rightarrow> store_db \<Rightarrow> nat \<times> store_db" where
  "import_accounts f [] db = (0, db)"
| "import_accounts f (a # as) db =
     (case f a db of (n, d) \<Rightarrow>
        (case import_accounts f as d of (k, d') \<Rightarrow> ((case n of None \<Rightarrow> 0 | Some i \<Rightarrow> i) + k, d')))"

definition for_team :: "string \<Rightarrow> monitor_env \<Rightarrow> monitor_env" where
  "for_team team e =
     (let tag = (\<lambda>n. n @ '' '' @ team); x = xe_auto e in
      e\<lparr>xe_auto := x\<lparr>ax_env := (ax_env x)\<lparr>en_fail := (\<lambda>n. en_fail (ax_env x) (tag n))\<rparr>, ax_fresh := (\<lambda>n. ax_fresh x (tag n))\<rparr>\<rparr>)"

definition cleanup_imported :: "monitor_env \<Rightarrow> string \<Rightarrow> store_db \<Rightarrow> store_db" where
  "cleanup_imported e team db =
     (let x = xe_auto e in
      snd (with_audit_transaction (and_then (faulty (ax_env x) ''cleanup'' (delete_redundant_imported_posts e team)) (\<lambda>n.
        if n = 0 then (\<lambda>db. (Inr (), db))
        else faulty (ax_env x) ''cleanup event'' (insert_audit_event (ax_now x) (ax_fresh x ''cleanup event'')
          (automation_event (ax_fresh x ''cleanup event'') team ''post.cleanup'' ''team'' team [(''removed_count'', itoa (int n))])))) db))"

definition import_external_posts_for_team :: "monitor_env \<Rightarrow> monitor_row \<Rightarrow> monitor_row list \<times> store_db \<Rightarrow> monitor_row list \<times> store_db" where
  "import_external_posts_for_team e0 settings st =
     (let team = mo_team settings; e = for_team team e0; x = xe_auto e; ms = fst st; db1 = cleanup_imported e team (snd st);
          since = (if mo_backfill settings \<noteq> None \<and> mo_last_sync settings \<noteq> None then the (mo_last_sync settings)
                   else xe_now e - external_post_backfill_days * 24 * 3600 * nanos)
      in case team_owner_user_id x team db1 of
           Inl _ \<Rightarrow> (ms, db1)
         | Inr owner \<Rightarrow>
             (case look x ''accounts'' (\<lambda>db. Inr (list_team_accounts team db)) db1 of
                Inl _ \<Rightarrow> (ms, db1)
              | Inr accounts \<Rightarrow>
                  (case import_accounts (\<lambda>a. import_external_posts_for_account e team owner a since) accounts db1 of
                     (n, db2) \<Rightarrow>
                       ((if en_fail (ax_env x) ''sync state'' \<noteq> None then ms
                         else update_external_post_monitor_sync_state (xe_now e) team (xe_now e) (mo_backfill settings = None) ms), db2))))"

definition external_post_import_job :: "monitor_env \<Rightarrow> monitor_row list \<times> store_db \<Rightarrow> monitor_row list \<times> store_db" where
  "external_post_import_job e st =
     (if en_fail (xe_env e) ''teams'' \<noteq> None then st
      else fold (import_external_posts_for_team e) (list_teams_with_external_post_monitor_enabled 200 (fst st)) st)"

section \<open>The manual import\<close>

record import_request =
  iq_accounts :: "string list"
  iq_limit :: int
  iq_until :: string

text \<open>\<open>time.Parse("2006-01-02", s)\<close>.\<close>

definition parse_day :: "string \<Rightarrow> instant option" where
  "parse_day s =
     (if length s \<noteq> 10 \<or> s ! 4 \<noteq> CHR ''-'' \<or> s ! 7 \<noteq> CHR ''-'' then None
      else (case (digits_val 0 (take 4 s), digits_val 0 (take 2 (drop 5 s)), digits_val 0 (take 2 (drop 8 s))) of
              (Some y, Some m, Some d) \<Rightarrow>
                if valid_date (int y) (int m) (int d) then Some (time_date utc (int y) (int m) (int d) 0 0 0 0) else None
            | _ \<Rightarrow> None))"

definition page_size :: int where "page_size = 80"

text \<open>The oldest instant of a page; the zero instant counts as unset.\<close>

definition oldest_published :: "author_post list \<Rightarrow> instant" where
  "oldest_published aps = fold (\<lambda>ap t. if t = zero_time \<or> ap_published ap < t then ap_published ap else t) aps zero_time"

text \<open>The pages of one account. A page that imports nothing ends the loop, so each further page adds to the total.\<close>

function import_pages ::
  "monitor_env \<Rightarrow> string \<Rightarrow> string \<Rightarrow> social_account \<Rightarrow> (instant \<Rightarrow> int \<Rightarrow> string + author_post list) \<Rightarrow> int \<Rightarrow> int \<Rightarrow> instant \<Rightarrow>
   store_db \<Rightarrow> (string + int) \<times> store_db" where
  "import_pages e team owner acc feed limit got since db =
     (if got \<ge> limit then (Inr got, db)
      else (let fetch = min page_size (limit - got) in
        case feed since fetch of
          Inl err \<Rightarrow> (Inl err, db)
        | Inr aps \<Rightarrow>
            if aps = [] then (Inr got, db)
            else (case import_author_posts False e team owner acc aps db of (n, d) \<Rightarrow>
                    if int (length aps) < fetch \<or> n = 0 \<or> oldest_published aps = zero_time then (Inr (got + int n), d)
                    else import_pages e team owner acc feed limit (got + int n) (oldest_published aps - nanos) d)))"
  by pat_completeness auto
termination
  by (relation "measure (\<lambda>(e, team, owner, acc, feed, limit, got, since, db). nat (limit - got))") auto

declare import_pages.simps [simp del]

definition import_old_posts_for_account ::
  "monitor_env \<Rightarrow> string \<Rightarrow> string \<Rightarrow> instant \<Rightarrow> int \<Rightarrow> social_account \<Rightarrow> store_db \<Rightarrow> nat option \<times> store_db" where
  "import_old_posts_for_account e team owner since limit account db =
     (case open_author_feed e account db of
        (None, d) \<Rightarrow> (None, d)
      | (Some (feed, acc, auth), d) \<Rightarrow>
          (case import_pages e team owner acc (feed acc auth) limit 0 since d of
             (Inl _, d') \<Rightarrow> (None, d') | (Inr n, d') \<Rightarrow> (Some (nat n), d')))"

definition clamp_limit :: "int \<Rightarrow> int" where
  "clamp_limit n = (let k = (if n \<le> 0 then 100 else n) in if k > 500 then 500 else k)"

definition import_old_posts :: "monitor_env \<Rightarrow> string \<Rightarrow> import_request \<Rightarrow> store_db \<Rightarrow> (string + nat) \<times> store_db" where
  "import_old_posts e0 team rq db =
     (let e = for_team team e0; x = xe_auto e in
      case team_owner_user_id x team db of
        Inl _ \<Rightarrow> (Inl ''no team owner'', db)
      | Inr owner \<Rightarrow>
          (case look x ''accounts'' (\<lambda>db. Inr (list_team_accounts team db)) db of
             Inl _ \<Rightarrow> (Inl ''list accounts'', db)
           | Inr accounts \<Rightarrow>
               (let chosen = filter (\<lambda>a. iq_accounts rq = [] \<or> sa_id a \<in> set (iq_accounts rq)) accounts;
                    since = (if iq_until rq = [] then Some (add_date utc (xe_now e) (- 1) 0 0) else parse_day (iq_until rq))
                in case since of
                     None \<Rightarrow> (Inl ''invalid until_date'', db)
                   | Some t \<Rightarrow>
                       (case import_accounts (import_old_posts_for_account e team owner t (clamp_limit (iq_limit rq))) chosen db of
                          (n, d) \<Rightarrow> (Inr n, d)))))"

end
