(* ===== verification/External_Once.thy ===== *)
theory External_Once
  imports External_Import
begin

text \<open>
  What the imports of remote posts achieve: a remote post is imported at most once per account however polls, manual
  imports and cleanups follow each other, and the cleanup removes exactly the imports that duplicate a post published
  from here.
\<close>

section \<open>What identifies a target\<close>

type_synonym core = "string \<times> string \<times> post_status \<times> string \<times> string \<times> (string \<times> string) list"

definition core_of :: "target_row \<Rightarrow> core" where
  "core_of t = (tg_post t, tg_account t, tg_status t, tg_remote t, tg_url t, tg_metadata t)"

definition cores :: "store_db \<Rightarrow> core list" where "cores db = map core_of (sd_targets db)"

definition core_ids :: "monitor_env \<Rightarrow> core \<Rightarrow> string list" where
  "core_ids e c = (case c of (p, a, s, r, u, m) \<Rightarrow> collect_author_post_identifiers e r u m)"

definition same_posts :: "store_db \<Rightarrow> store_db \<Rightarrow> bool" where
  "same_posts db db' \<longleftrightarrow> sd_posts db' = sd_posts db \<and> cores db' = cores db"

lemma same_posts_refl [simp]: "same_posts db db" by (simp add: same_posts_def)

lemma same_posts_trans: "same_posts a b \<Longrightarrow> same_posts b c \<Longrightarrow> same_posts a c" by (simp add: same_posts_def)

lemma same_posts_event: "insert_audit_event now fresh ev db = (r, d) \<Longrightarrow> same_posts db d"
  by (auto simp: insert_audit_event_def Let_def same_posts_def cores_def split: if_splits)

lemma same_posts_tokens: "same_posts db (snd (update_social_account_tokens enc account access refresh ex db))"
  by (simp add: update_social_account_tokens_def Let_def same_posts_def cores_def split: sum.split)

lemma loop_posts: "sd_posts (upsert_metrics_loop post account day ms db) = sd_posts db"
  by (induction post account day ms db rule: upsert_metrics_loop.induct) (simp_all add: Let_def)

lemma same_posts_metrics: "same_posts db (snd (upsert_post_metrics today post account ms day db))"
  by (simp add: upsert_post_metrics_def same_posts_def cores_def loop_posts metrics_loop_targets)

lemma same_posts_synced: "same_posts db (mark_target_metrics_synced now post account day db)"
  by (simp add: mark_target_metrics_synced_def same_posts_def cores_def update_where_def core_of_def)

lemma checked_same: "(\<And>d. same_posts d (snd (f d))) \<Longrightarrow> same_posts db (snd (checked e call f db))"
  by (auto simp: checked_def split: option.split prod.split sum.split) (metis snd_conv)+

lemma fresh_same: "same_posts db (snd (ensure_mastodon_fresh e a db))"
proof -
  have t: "same_posts db d" if "checked e ''tokens'' (update_social_account_tokens enc i ac re ex) db = (r, d)" for enc i ac re ex r d
    using checked_same [of "update_social_account_tokens enc i ac re ex" db e "''tokens''"] same_posts_tokens that by (metis snd_conv)
  show ?thesis
    unfolding ensure_mastodon_fresh_def by (auto split: option.splits sum.splits prod.splits if_splits dest: t)
qed

lemma metrics_same_posts: "same_posts db (sync_one_post_target_metrics e row day recorded db)"
proof -
  have up: "same_posts d d'" if "checked e ''metrics'' (upsert_post_metrics today p a ms rec) d = (r, d')" for today p a ms rec d r d'
    using checked_same [of "upsert_post_metrics today p a ms rec" d e "''metrics''"] same_posts_metrics that by (metis snd_conv)
  have sy: "same_posts d (snd (checked e ''synced'' (always (mark_target_metrics_synced now p a day)) d))" for now p a d
    by (rule checked_same) (simp add: always_def same_posts_synced)
  have fr: "same_posts d d'" if "fresh_or_same e a d = (a', d')" for a d a' d'
    using fresh_same [of d e a] that
    by (cases "ensure_mastodon_fresh e a d") (auto simp: fresh_or_same_def split: sum.splits)
  show ?thesis
    unfolding sync_one_post_target_metrics_def
    by (auto split: option.split prod.split sum.split dest!: fr up intro: same_posts_trans sy)
qed


section \<open>One import\<close>

definition adds_import :: "string \<Rightarrow> author_post \<Rightarrow> post_row \<Rightarrow> store_db \<Rightarrow> store_db \<Rightarrow> bool" where
  "adds_import account ap row db db' \<longleftrightarrow>
     sd_posts db' = sd_posts db @ [row] \<and> rw_id row \<notin> set (post_ids db) \<and> rw_status row = Posted \<and>
     sp_source (rw_post row) = source_imported \<and>
     cores db' = cores db @ [(rw_id row, account, Posted, trim_space (ap_remote ap), trim_space (ap_url ap), ap_metadata ap)]"

lemma create_imported_rows:
  assumes "create_imported_post now fresh team owner account ap db = (r, db')"
  shows "case r of Inl _ \<Rightarrow> db' = db | Inr _ \<Rightarrow> adds_import account ap (imported_row now fresh team owner ap) db db'"
proof -
  let ?row = "imported_row now fresh team owner ap"
  obtain v d where v: "and_then (insert_post ?row) (\<lambda>_. insert_imported_target fresh account ap) db = (v, d)" by (metis surj_pair)
  show ?thesis
  proof (cases v)
    case (Inl e)
    with v assms show ?thesis by (auto simp: create_imported_post_def with_audit_transaction_def)
  next
    case (Inr u)
    with v have "adds_import account ap ?row db d"
      by (auto simp: and_then_Inr insert_post_def insert_imported_target_def adds_import_def cores_def core_of_def Let_def
          imported_row_def imported_target_def new_target_def post_ids_def split: if_splits)
    moreover have "\<exists>p. get_scheduled_post team fresh d = Inr p"
    proof -
      have "rw_team ?row = team" "rw_id ?row = fresh" by (simp_all add: imported_row_def)
      with calculation have "find (\<lambda>r. rw_team r = team \<and> rw_id r = fresh) (sd_posts d) \<noteq> None"
        by (auto simp: adds_import_def find_None_iff)
      then show ?thesis by (auto simp: get_scheduled_post_def)
    qed
    ultimately show ?thesis using v Inr assms by (auto simp: create_imported_post_def with_audit_transaction_def)
  qed
qed

lemma adds_same: "adds_import account ap row a b \<Longrightarrow> same_posts b c \<Longrightarrow> adds_import account ap row a c"
  by (simp add: adds_import_def same_posts_def)

lemma create_and_record_rows:
  assumes "create_and_record audited e team owner account ap db = (r, db')"
  shows "case r of Inl _ \<Rightarrow> db' = db | Inr _ \<Rightarrow> \<exists>row. adds_import account ap row db db'"
proof -
  let ?x = "xe_auto e"
  let ?c = "faulty (ax_env ?x) ''create import'' (create_imported_post (ax_now ?x) (ax_fresh ?x ''post'') team owner account ap)"
  have c: "case v of Inl _ \<Rightarrow> d = db | Inr _ \<Rightarrow> \<exists>row. adds_import account ap row db d" if "?c db = (v, d)" for v d
    using that by (rule faulty_cases) (use create_imported_rows [of "ax_now ?x" "ax_fresh ?x ''post''" team owner account ap db v d] in \<open>auto split: sum.splits\<close>)
  show ?thesis
  proof (cases audited)
    case False
    with assms c show ?thesis by (simp add: create_and_record_def Let_def)
  next
    case True
    show ?thesis
    proof (cases r)
      case (Inl err)
      with assms True show ?thesis
        by (auto simp: create_and_record_def with_audit_transaction_def Let_def split: prod.splits sum.splits)
    next
      case (Inr p)
      with assms True obtain q d ev where q: "?c db = (Inr q, d)"
        and ev: "faulty (ax_env ?x) ''event'' (insert_audit_event (ax_now ?x) (ax_fresh ?x ''event'') ev) d = (Inr (), db')"
        by (auto simp: create_and_record_def with_audit_transaction_def and_then_def Let_def split: prod.splits sum.splits)
      from ev have "same_posts d db'" by (auto simp: faulty_def dest: same_posts_event split: option.splits)
      with c [OF q] obtain row where "adds_import account ap row db d" by auto
      from adds_same [OF this \<open>same_posts d db'\<close>] show ?thesis using Inr by auto
    qed
  qed
qed

lemma import_author_post_rows:
  assumes "import_author_post audited e0 team owner acc ap db = (made, db')"
  shows "if made then \<not> author_post_already_tracked (for_remote (sa_id acc) ap e0) (sa_id acc) (ap_remote ap) (ap_url ap) (ap_metadata ap) db \<and>
      (\<exists>row. adds_import (sa_id acc) ap row db db') else db' = db"
proof -
  let ?e = "for_remote (sa_id acc) ap e0"
  have sync: "same_posts d (sync_imported ?e acc ap post d)" for post d
    by (simp add: sync_imported_def metrics_same_posts)
  show ?thesis
  proof (cases "look (xe_auto ?e) ''tracked'' (\<lambda>db. Inr (author_post_already_tracked ?e (sa_id acc) (ap_remote ap) (ap_url ap) (ap_metadata ap) db)) db")
    case (Inl e)
    with assms show ?thesis by (auto simp: import_author_post_def Let_def)
  next
    case (Inr b)
    note t = look_Inr [OF Inr]
    obtain v d where v: "create_and_record audited ?e team owner (sa_id acc) ap db = (v, d)" by (metis surj_pair)
    show ?thesis
    proof (cases b)
      case True
      with assms Inr show ?thesis by (auto simp: import_author_post_def Let_def)
    next
      case False
      with assms Inr v have e: "db' = (case v of Inl _ \<Rightarrow> d | Inr post \<Rightarrow> sync_imported ?e acc ap post d) \<and> made = (\<exists>q. v = Inr q)"
        by (cases v) (auto simp: import_author_post_def Let_def)
      show ?thesis
      proof (cases v)
        case (Inr q)
        with create_and_record_rows [OF v] obtain row where "adds_import (sa_id acc) ap row db d" by auto
        from adds_same [OF this sync] False t e Inr show ?thesis by auto
      qed (use create_and_record_rows [OF v] e in auto)
    qed
  qed
qed

section \<open>The invariant\<close>

definition imported_post :: "string \<Rightarrow> store_db \<Rightarrow> bool" where
  "imported_post i db \<longleftrightarrow> list_ex (\<lambda>p. rw_id p = i \<and> sp_source (rw_post p) = source_imported) (sd_posts db)"

text \<open>The posted targets of imported posts.\<close>

definition import_cores :: "store_db \<Rightarrow> core set" where
  "import_cores db = {c \<in> set (cores db). imported_post (fst c) db \<and> fst (snd (snd c)) = Posted}"

definition targets_linked :: "store_db \<Rightarrow> bool" where
  "targets_linked db \<longleftrightarrow> fst ` set (cores db) \<subseteq> set (post_ids db)"

definition imports_distinct :: "monitor_env \<Rightarrow> store_db \<Rightarrow> bool" where
  "imports_distinct e db \<longleftrightarrow> targets_linked db \<and>
     (\<forall>c \<in> import_cores db. \<forall>c' \<in> import_cores db. fst (snd c) = fst (snd c') \<and> fst c \<noteq> fst c' \<longrightarrow>
        set (core_ids e c) \<inter> set (core_ids e c') = {})"

lemma same_posts_imports: "same_posts db db' \<Longrightarrow> import_cores db' = import_cores db \<and> targets_linked db' = targets_linked db"
  by (simp add: same_posts_def import_cores_def imported_post_def targets_linked_def post_ids_def)

lemma fewer_imports: "import_cores db' \<subseteq> import_cores db \<Longrightarrow> targets_linked db' \<Longrightarrow> imports_distinct e db \<Longrightarrow> imports_distinct e db'"
  unfolding imports_distinct_def by blast

lemma same_distinct: "same_posts db db' \<Longrightarrow> imports_distinct e db \<Longrightarrow> imports_distinct e db'"
  using same_posts_imports by (auto intro: fewer_imports simp: imports_distinct_def)

text \<open>Identifiers do not depend on surrounding blanks.\<close>

lemma expand_trim: "expand_author_post_reference e (trim_space v) = expand_author_post_reference e v"
  by (simp add: expand_author_post_reference_def)

lemma collect_trim: "collect_author_post_identifiers e (trim_space r) (trim_space u) m = collect_author_post_identifiers e r u m"
  by (simp add: collect_author_post_identifiers_def expand_trim)

text \<open>The identifiers depend on the two classifiers alone.\<close>

definition same_reading :: "monitor_env \<Rightarrow> monitor_env \<Rightarrow> bool" where
  "same_reading e e' \<longleftrightarrow> xe_digit e' = xe_digit e \<and> xe_path e' = xe_path e"

lemma collect_reading: "same_reading e e' \<Longrightarrow> collect_author_post_identifiers e' = collect_author_post_identifiers e"
proof -
  assume s: "same_reading e e'"
  then have d: "is_all_digits e' = is_all_digits e" by (intro ext) (simp add: same_reading_def is_all_digits_def)
  with s have "mastodon_status_id_from_reference e' = mastodon_status_id_from_reference e"
    by (intro ext) (simp only: mastodon_status_id_from_reference_def d same_reading_def)
  note m = this
  have "expand_author_post_reference e' = expand_author_post_reference e"
    by (intro ext) (simp only: expand_author_post_reference_def d m)
  then show ?thesis by (intro ext) (simp add: collect_author_post_identifiers_def)
qed


lemma for_remote_reading [simp]: "same_reading e (for_remote a ap e)" by (simp add: for_remote_def same_reading_def Let_def)

lemma for_team_reading: "same_reading e e' \<Longrightarrow> same_reading e (for_team t e')" by (simp add: for_team_def same_reading_def Let_def)

lemma tracked_reading: "same_reading e e' \<Longrightarrow> author_post_already_tracked e' = author_post_already_tracked e"
  by (intro ext) (simp add: author_post_already_tracked_def target_identifiers_def collect_reading)

text \<open>A post that is not tracked shares no identifier with the posted targets of its account.\<close>

lemma untracked_disjoint:
  assumes "\<not> author_post_already_tracked e account remote url meta db" "c \<in> set (cores db)"
    "fst (snd c) = account" "fst (snd (snd c)) = Posted"
  shows "set (core_ids e c) \<inter> set (collect_author_post_identifiers e remote url meta) = {}"
proof -
  from assms(2) obtain t where t: "t \<in> set (sd_targets db)" "c = core_of t" by (auto simp: cores_def)
  with assms(3,4) have "tg_account t = account" "tg_status t = Posted" by (simp_all add: core_of_def)
  with assms(1) t(1) have "collect_author_post_identifiers e remote url meta = [] \<or>
     \<not> list_ex (\<lambda>i. i \<in> set (collect_author_post_identifiers e remote url meta)) (target_identifiers e t)"
    by (auto simp: author_post_already_tracked_def list_ex_iff Let_def)
  then show ?thesis
    by (auto simp: t(2) core_ids_def core_of_def target_identifiers_def list_ex_iff)
qed

lemma adds_distinct:
  assumes inv: "imports_distinct e db" and a: "adds_import account ap row db db'"
    and new: "\<not> author_post_already_tracked e account (ap_remote ap) (ap_url ap) (ap_metadata ap) db"
  shows "imports_distinct e db'"
proof -
  let ?new = "(rw_id row, account, Posted, trim_space (ap_remote ap), trim_space (ap_url ap), ap_metadata ap) :: core"
  from inv have linked: "fst ` set (cores db) \<subseteq> set (post_ids db)" by (simp add: imports_distinct_def targets_linked_def)
  from a have posts: "sd_posts db' = sd_posts db @ [row]" and fresh: "rw_id row \<notin> set (post_ids db)"
    and cs: "cores db' = cores db @ [?new]" by (simp_all add: adds_import_def)
  have linked': "targets_linked db'" using linked by (auto simp: targets_linked_def cs post_ids_def posts)
  have sub: "import_cores db' \<subseteq> insert ?new (import_cores db)"
  proof
    fix c assume c: "c \<in> import_cores db'"
    show "c \<in> insert ?new (import_cores db)"
    proof (cases "c = ?new")
      case False
      with c have old: "c \<in> set (cores db)" by (auto simp: import_cores_def cs)
      with linked fresh have "fst c \<noteq> rw_id row" by auto
      with c old show ?thesis by (auto simp: import_cores_def imported_post_def posts)
    qed simp
  qed
  have ids: "set (core_ids e ?new) = set (collect_author_post_identifiers e (ap_remote ap) (ap_url ap) (ap_metadata ap))"
    by (simp add: core_ids_def collect_trim)
  have dis: "set (core_ids e c) \<inter> set (core_ids e ?new) = {}" if "c \<in> import_cores db" "fst (snd c) = account" for c
    unfolding ids using that by (intro untracked_disjoint [OF new]) (simp_all add: import_cores_def)
  show ?thesis
    unfolding imports_distinct_def
  proof (intro conjI ballI impI)
    fix c c' assume m: "c \<in> import_cores db'" "c' \<in> import_cores db'" and d: "fst (snd c) = fst (snd c') \<and> fst c \<noteq> fst c'"
    then consider "c \<in> import_cores db" "c' \<in> import_cores db" | "c = ?new" "c' \<in> import_cores db" | "c' = ?new" "c \<in> import_cores db"
      | "c = ?new" "c' = ?new" using sub by blast
    then show "set (core_ids e c) \<inter> set (core_ids e c') = {}"
    proof cases
      case 1
      with inv d show ?thesis by (simp add: imports_distinct_def)
    next
      case 2
      with dis [of c'] d show ?thesis by (simp add: Int_commute)
    next
      case 3
      with dis [of c] d show ?thesis by simp
    qed (use d in simp)
  qed (rule linked')
qed

lemma import_one_distinct:
  assumes "same_reading e e0" "imports_distinct e db" "import_author_post audited e0 team owner acc ap db = (made, db')"
  shows "imports_distinct e db'"
proof -
  have "same_reading e (for_remote (sa_id acc) ap e0)" using assms(1) by (simp add: for_remote_def same_reading_def Let_def)
  note t = tracked_reading [OF this]
  from import_author_post_rows [OF assms(3)] assms(2) adds_distinct [OF assms(2)] show ?thesis
    unfolding t by (auto split: if_splits)
qed

lemma import_posts_distinct:
  "same_reading e e0 \<Longrightarrow> imports_distinct e db \<Longrightarrow> imports_distinct e (snd (import_author_posts audited e0 team owner acc aps db))"
proof (induction aps arbitrary: db)
  case (Cons ap aps)
  obtain m d where "import_author_post audited e0 team owner acc ap db = (m, d)" by (metis surj_pair)
  with import_one_distinct [OF Cons.prems this] Cons.IH [OF Cons.prems(1)] show ?case
    by (simp add: case_prod_beta)
qed simp


lemma open_feed_same: "same_posts db (snd (open_author_feed e account db))"
  using fresh_same [of db "xe_env e" account]
  by (auto simp: open_author_feed_def split: option.split sum.split prod.split)

lemma import_account_distinct:
  assumes "same_reading e e0" "imports_distinct e db"
  shows "imports_distinct e (snd (import_external_posts_for_account e0 team owner account since db))"
proof -
  obtain v d where v: "open_author_feed e0 account db = (v, d)" by (metis surj_pair)
  have d: "imports_distinct e d" using open_feed_same [of db e0 account] v assms(2) same_distinct by auto
  show ?thesis
    using d import_posts_distinct [OF assms(1) d]
    by (auto simp: import_external_posts_for_account_def v case_prod_beta split: option.split sum.split)
qed

lemma import_pages_distinct:
  "same_reading e e0 \<Longrightarrow> imports_distinct e db \<Longrightarrow> imports_distinct e (snd (import_pages e0 team owner acc feed limit got since db))"
proof (induction e0 team owner acc feed limit got since db rule: import_pages.induct)
  case (1 e0 team owner acc feed limit got since db)
  show ?case
  proof (cases "got \<ge> limit")
    case True
    with 1 show ?thesis by (subst import_pages.simps) simp
  next
    case False
    let ?n = "min page_size (limit - got)"
    show ?thesis
    proof (cases "feed since ?n")
      case (Inl err)
      with False 1 show ?thesis by (subst import_pages.simps) simp
    next
      case (Inr aps)
      obtain n d where p: "import_author_posts False e0 team owner acc aps db = (n, d)" by (metis surj_pair)
      have d: "imports_distinct e d" using import_posts_distinct [OF "1.prems", of False team owner acc aps] p by simp
      show ?thesis
      proof (cases "aps = [] \<or> int (length aps) < ?n \<or> n = 0 \<or> oldest_published aps = zero_time")
        case True
        with False Inr p d "1.prems" show ?thesis by (subst import_pages.simps) (auto simp: Let_def)
      next
        case more: False
        have "imports_distinct e (snd (import_pages e0 team owner acc feed limit (got + int n) (oldest_published aps - nanos) d))"
          by (rule "1.IH" [OF False refl Inr _ p [symmetric] _ "1.prems"(1) d]) (use more in auto)
        with False Inr p d more show ?thesis by (subst import_pages.simps) (simp add: Let_def)
      qed
    qed
  qed
qed

lemma import_old_account_distinct:
  assumes "same_reading e e0" "imports_distinct e db"
  shows "imports_distinct e (snd (import_old_posts_for_account e0 team owner since limit account db))"
proof -
  obtain v d where v: "open_author_feed e0 account db = (v, d)" by (metis surj_pair)
  have d: "imports_distinct e d" using open_feed_same [of db e0 account] v assms(2) same_distinct by auto
  have "imports_distinct e d'" if "import_pages e0 team owner acc feed limit 0 since d = (r, d')" for acc feed r d'
    using import_pages_distinct [OF assms(1) d, of team owner acc feed limit 0 since] that by simp
  with d show ?thesis
    by (auto simp: import_old_posts_for_account_def v split: option.split sum.split prod.split)
qed

lemma import_accounts_distinct:
  "(\<And>a db. imports_distinct e db \<Longrightarrow> imports_distinct e (snd (f a db))) \<Longrightarrow> imports_distinct e db \<Longrightarrow>
     imports_distinct e (snd (import_accounts f as db))"
  by (induction as arbitrary: db) (simp_all add: case_prod_beta)

text \<open>Deleting posts leaves fewer imports.\<close>

lemma delete_posts_cores:
  "cores (delete_post_rows p db) = filter (\<lambda>c. fst c \<notin> rw_id ` {r \<in> set (sd_posts db). p r}) (cores db)"
  by (simp add: cores_def delete_post_rows_def Let_def delete_where_def filter_map comp_def core_of_def)

lemma delete_posts_distinct:
  assumes "imports_distinct e db"
  shows "imports_distinct e (delete_post_rows p db)"
proof (rule fewer_imports [OF _ _ assms])
  have posts: "sd_posts (delete_post_rows p db) = filter (\<lambda>r. \<not> p r) (sd_posts db)"
    by (simp add: delete_post_rows_def Let_def delete_where_def)
  show "import_cores (delete_post_rows p db) \<subseteq> import_cores db"
    by (auto simp: import_cores_def delete_posts_cores imported_post_def posts list_ex_iff)
  show "targets_linked (delete_post_rows p db)"
    unfolding targets_linked_def
  proof
    fix i assume "i \<in> fst ` set (cores (delete_post_rows p db))"
    then have "i \<in> fst ` set (cores db)" and kept: "i \<notin> rw_id ` {r \<in> set (sd_posts db). p r}" by (auto simp: delete_posts_cores)
    with assms have "i \<in> rw_id ` set (sd_posts db)" by (auto simp: imports_distinct_def targets_linked_def post_ids_def)
    with kept show "i \<in> set (post_ids (delete_post_rows p db))" by (auto simp: post_ids_def posts)
  qed
qed

lemma cleanup_distinct:
  assumes "imports_distinct e db"
  shows "imports_distinct e (cleanup_imported e0 team db)"
proof -
  have fold: "imports_distinct e (fold (delete_scheduled_post team) ids d)" if "imports_distinct e d" for ids d
    using that by (induction ids arbitrary: d) (simp_all add: delete_scheduled_post_def delete_posts_distinct)
  have ev: "imports_distinct e d'" if "imports_distinct e d" "insert_audit_event now fresh ev d = (r, d')" for now fresh ev d r d'
    using same_distinct [OF same_posts_event [OF that(2)] that(1)] .
  have "\<forall>r d. (and_then (faulty (xe_env e0) ''cleanup'' (delete_redundant_imported_posts e0 team)) (\<lambda>n.
        if n = 0 then (\<lambda>db. (Inr (), db))
        else faulty (xe_env e0) ''cleanup event'' (insert_audit_event (ax_now (xe_auto e0)) (ax_fresh (xe_auto e0) ''cleanup event'')
          (automation_event (ax_fresh (xe_auto e0) ''cleanup event'') team ''post.cleanup'' ''team'' team [(''removed_count'', itoa (int n))]))) db)
      = (r, d) \<longrightarrow> imports_distinct e d"
    using assms by (auto simp: and_then_def faulty_def delete_redundant_imported_posts_def Let_def dest!: ev [OF fold [OF assms]]
        intro: fold split: option.splits prod.splits sum.splits if_splits)
  then show ?thesis
    using assms unfolding cleanup_imported_def with_audit_transaction_def Let_def
    by (auto split: prod.split sum.split)
qed


lemma import_team_distinct:
  assumes "same_reading e e0" "imports_distinct e (snd st)"
  shows "imports_distinct e (snd (import_external_posts_for_team e0 m st))"
proof -
  let ?e = "for_team (mo_team m) e0"
  have c: "imports_distinct e (cleanup_imported ?e (mo_team m) (snd st))" by (rule cleanup_distinct [OF assms(2)])
  have "imports_distinct e (snd (import_accounts (\<lambda>a. import_external_posts_for_account ?e (mo_team m) owner a since) as
      (cleanup_imported ?e (mo_team m) (snd st))))" for owner since as
    by (rule import_accounts_distinct [OF import_account_distinct [OF for_team_reading [OF assms(1)]] c])
  with c show ?thesis
    by (auto simp: import_external_posts_for_team_def Let_def case_prod_beta split: sum.split)
qed

lemma monitor_job_distinct:
  assumes "same_reading e e0" "imports_distinct e (snd st)"
  shows "imports_distinct e (snd (external_post_import_job e0 st))"
proof -
  have "imports_distinct e (snd (fold (import_external_posts_for_team e0) ms st'))" if "imports_distinct e (snd st')" for ms st'
    using that by (induction ms arbitrary: st') (simp_all add: import_team_distinct [OF assms(1)])
  with assms(2) show ?thesis by (simp add: external_post_import_job_def)
qed

lemma manual_distinct:
  assumes "same_reading e e0" "imports_distinct e db"
  shows "imports_distinct e (snd (import_old_posts e0 team rq db))"
proof -
  have "imports_distinct e (snd (import_accounts (import_old_posts_for_account (for_team team e0) team owner t k) as db))" for owner t k as
    by (rule import_accounts_distinct [OF import_old_account_distinct [OF for_team_reading [OF assms(1)]] assms(2)])
  with assms(2) show ?thesis
    by (auto simp: import_old_posts_def Let_def case_prod_beta split: sum.split option.split)
qed

text \<open>Everything that happens to imported posts. The rest of the program (deletions, account removal, publication,
  metrics) never adds a posted target of an imported post and keeps targets linked to posts.\<close>

inductive monitor_step :: "monitor_env \<Rightarrow> monitor_row list \<times> store_db \<Rightarrow> monitor_row list \<times> store_db \<Rightarrow> bool" for e where
  ms_poll: "same_reading e e' \<Longrightarrow> monitor_step e st (external_post_import_job e' st)"
| ms_manual: "same_reading e e' \<Longrightarrow> monitor_step e (ms, db) (ms, snd (import_old_posts e' team rq db))"
| ms_settings: "monitor_step e (ms, db) (snd (upsert_external_post_monitor_settings now fresh team enabled (ms, db)), db)"
| ms_elsewhere: "import_cores db' \<subseteq> import_cores db \<Longrightarrow> targets_linked db' \<Longrightarrow> monitor_step e (ms, db) (ms', db')"

lemma monitor_steps_distinct:
  "(monitor_step e)\<^sup>*\<^sup>* st st' \<Longrightarrow> imports_distinct e (snd st) \<Longrightarrow> imports_distinct e (snd st')"
proof (induction rule: rtranclp_induct)
  case (step b c)
  from step.hyps(2) step.IH [OF step.prems] show ?case
    by cases (auto intro: monitor_job_distinct manual_distinct fewer_imports)
qed

section \<open>The cleanup\<close>

text \<open>The reference: an imported post of the team that is posted and has the same remote post as a target published
  from here for the same account.\<close>

definition posted_at :: "string \<Rightarrow> post_row \<Rightarrow> target_row \<Rightarrow> store_db \<Rightarrow> bool" where
  "posted_at team p t db \<longleftrightarrow> p \<in> set (sd_posts db) \<and> t \<in> set (sd_targets db) \<and> tg_post t = rw_id p \<and> tg_status t = Posted \<and>
     rw_team p = team \<and> rw_status p = Posted"

definition duplicates_own :: "monitor_env \<Rightarrow> string \<Rightarrow> store_db \<Rightarrow> post_row \<Rightarrow> bool" where
  "duplicates_own e team db p \<longleftrightarrow> sp_source (rw_post p) = source_imported \<and>
     (\<exists>t q u. posted_at team p t db \<and> posted_at team q u db \<and> sp_source (rw_post q) \<noteq> source_imported \<and>
        tg_account u = tg_account t \<and> set (target_identifiers e t) \<inter> set (target_identifiers e u) \<noteq> {})"

text \<open>An imported post has one target, the one it was imported with.\<close>

definition single_import_targets :: "store_db \<Rightarrow> bool" where
  "single_import_targets db \<longleftrightarrow> distinct (post_ids db) \<and>
     (\<forall>p \<in> set (sd_posts db). sp_source (rw_post p) = source_imported \<longrightarrow>
        (\<forall>t \<in> set (sd_targets db). \<forall>u \<in> set (sd_targets db). tg_post t = rw_id p \<longrightarrow> tg_post u = rw_id p \<longrightarrow> t = u))"

definition ref_of :: "post_row \<Rightarrow> target_row \<Rightarrow> posted_ref" where
  "ref_of p t = \<lparr>dr_post = rw_id p, dr_source = sp_source (rw_post p), dr_account = tg_account t,
     dr_remote = tg_remote t, dr_url = tg_url t, dr_metadata = tg_metadata t\<rparr>"

lemma posted_refs_iff: "r \<in> set (posted_refs team db) \<longleftrightarrow> (\<exists>p t. posted_at team p t db \<and> r = ref_of p t)"
  by (auto simp: posted_refs_def posted_at_def ref_of_def)

lemma overlap_iff:
  "author_post_identifiers_overlap e (ref_ids (ref_of p t)) (ref_ids (ref_of q u)) \<longleftrightarrow>
     set (target_identifiers e t) \<inter> set (target_identifiers e u) \<noteq> {}"
  by (auto simp: author_post_identifiers_overlap_def ref_ids_def ref_of_def target_identifiers_def list_ex_iff)

lemma single_ref:
  assumes ok: "single_import_targets db" and p: "posted_at team p t db" "sp_source (rw_post p) = source_imported"
  shows "find (\<lambda>r. dr_post r = rw_id p) (rev (filter (\<lambda>r. dr_source r = source_imported) (posted_refs team db))) = Some (ref_of p t)"
proof -
  let ?refs = "rev (filter (\<lambda>r. dr_source r = source_imported) (posted_refs team db))"
  have only: "r = ref_of p t" if r: "r \<in> set ?refs" "dr_post r = rw_id p" for r
  proof -
    from r(1) obtain q u where q: "posted_at team q u db" "r = ref_of q u" by (auto simp: posted_refs_iff)
    with r(2) have "rw_id q = rw_id p" by (simp add: ref_of_def)
    with q(1) p(1) ok have "q = p"
      by (auto simp: posted_at_def single_import_targets_def post_ids_def intro: distinct_key_unique [of rw_id])
    moreover from q(1) p \<open>rw_id q = rw_id p\<close> ok have "u = t" by (auto simp: posted_at_def single_import_targets_def)
    ultimately show ?thesis using q(2) by simp
  qed
  have "ref_of p t \<in> set ?refs" using p by (auto simp: posted_refs_iff) (auto simp: ref_of_def)
  moreover have "dr_post (ref_of p t) = rw_id p" by (simp add: ref_of_def)
  ultimately have "find (\<lambda>r. dr_post r = rw_id p) ?refs \<noteq> None" unfolding find_None_iff by blast
  then obtain r where "find (\<lambda>r. dr_post r = rw_id p) ?refs = Some r" by blast
  with only [of r] find_SomeD [OF this] show ?thesis by simp
qed

lemma redundant_set:
  "i \<in> set (redundant_imported_post_ids e refs) \<longleftrightarrow> i \<in> dr_post ` set (filter (\<lambda>r. dr_source r = source_imported) refs) \<and>
     (case find (\<lambda>r. dr_post r = i) (rev (filter (\<lambda>r. dr_source r = source_imported) refs)) of None \<Rightarrow> False
      | Some r \<Rightarrow> list_ex (\<lambda>c. dr_account c = dr_account r \<and> author_post_identifiers_overlap e (ref_ids r) (ref_ids c))
          (filter (\<lambda>r. dr_source r \<noteq> source_imported) refs))"
  by (simp add: redundant_imported_post_ids_def Let_def)

lemma redundant_iff:
  assumes ok: "single_import_targets db" and p: "p \<in> set (sd_posts db)"
  shows "rw_id p \<in> set (redundant_imported_post_ids e (posted_refs team db)) \<longleftrightarrow> duplicates_own e team db p"
proof -
  let ?refs = "posted_refs team db"
  let ?imp = "filter (\<lambda>r. dr_source r = source_imported) ?refs"
  have uniq: "q = p" if "posted_at team q u db" "rw_id q = rw_id p" for q u
    using that p ok by (auto simp: posted_at_def single_import_targets_def post_ids_def intro: distinct_key_unique [of rw_id])
  have mem: "rw_id p \<in> dr_post ` set ?imp \<longleftrightarrow> (\<exists>t. posted_at team p t db) \<and> sp_source (rw_post p) = source_imported"
  proof
    assume "rw_id p \<in> dr_post ` set ?imp"
    then obtain q u where "posted_at team q u db" "rw_id p = dr_post (ref_of q u)" "dr_source (ref_of q u) = source_imported"
      by (auto simp: posted_refs_iff)
    with uniq [of q u] show "(\<exists>t. posted_at team p t db) \<and> sp_source (rw_post p) = source_imported" by (auto simp: ref_of_def)
  next
    assume "(\<exists>t. posted_at team p t db) \<and> sp_source (rw_post p) = source_imported"
    then obtain t where "posted_at team p t db" "dr_source (ref_of p t) = source_imported" by (auto simp: ref_of_def)
    then have "ref_of p t \<in> set ?imp" by (auto simp: posted_refs_iff)
    then show "rw_id p \<in> dr_post ` set ?imp" by (rule rev_image_eqI) (simp add: ref_of_def)
  qed
  show ?thesis
  proof (cases "(\<exists>t. posted_at team p t db) \<and> sp_source (rw_post p) = source_imported")
    case False
    with mem show ?thesis by (auto simp: redundant_imported_post_ids_def Let_def duplicates_own_def)
  next
    case True
    then obtain t where t: "posted_at team p t db" "sp_source (rw_post p) = source_imported" by blast
    have same: "t' = t" if "posted_at team p t' db" for t' using that t ok by (auto simp: posted_at_def single_import_targets_def)
    have "rw_id p \<in> set (redundant_imported_post_ids e ?refs) \<longleftrightarrow>
        list_ex (\<lambda>c. dr_account c = dr_account (ref_of p t) \<and> author_post_identifiers_overlap e (ref_ids (ref_of p t)) (ref_ids c))
          (filter (\<lambda>r. dr_source r \<noteq> source_imported) ?refs)"
      unfolding redundant_set single_ref [OF ok t] option.case using mem True by simp
    also have "\<dots> \<longleftrightarrow> (\<exists>q u. posted_at team q u db \<and> dr_source (ref_of q u) \<noteq> source_imported \<and>
        dr_account (ref_of q u) = dr_account (ref_of p t) \<and> author_post_identifiers_overlap e (ref_ids (ref_of p t)) (ref_ids (ref_of q u)))"
      unfolding list_ex_iff set_filter by (blast dest: posted_refs_iff [THEN iffD1] intro: posted_refs_iff [THEN iffD2])
    also have "\<dots> \<longleftrightarrow> (\<exists>q u. posted_at team q u db \<and> sp_source (rw_post q) \<noteq> source_imported \<and>
        tg_account u = tg_account t \<and> set (target_identifiers e t) \<inter> set (target_identifiers e u) \<noteq> {})"
      unfolding overlap_iff by (simp add: ref_of_def)
    also have "\<dots> \<longleftrightarrow> duplicates_own e team db p"
      unfolding duplicates_own_def using t same by blast
    finally show ?thesis .
  qed
qed


lemma delete_many_posts:
  "sd_posts (fold (delete_scheduled_post team) ids db) = filter (\<lambda>r. \<not> (rw_id r \<in> set ids \<and> rw_team r = team)) (sd_posts db) \<and>
     sd_identity (fold (delete_scheduled_post team) ids db) = sd_identity db"
proof (induction ids arbitrary: db)
  case (Cons i ids)
  have "sd_posts (delete_scheduled_post team i db) = filter (\<lambda>r. \<not> (rw_id r = i \<and> rw_team r = team)) (sd_posts db)"
    "sd_identity (delete_scheduled_post team i db) = sd_identity db"
    by (simp_all add: delete_scheduled_post_def delete_post_rows_def Let_def delete_where_def)
  with Cons.IH [of "delete_scheduled_post team i db"] show ?case
    by (auto simp: filter_filter intro: filter_cong)
qed simp

definition away_account :: social_account where
  "away_account = demo_account\<lparr>sa_remote_id := ''r1''\<rparr>"

definition away_store :: store_db where
  "away_store = ann_store\<lparr>sd_identity := (sd_identity ann_store)\<lparr>id_members := [\<lparr>mb_user = ''u1'', mb_team = ''t1'', mb_role = Owner\<rparr>]\<rparr>,
     sd_accounts := [away_account]\<rparr>"

text \<open>A provider that lists two statuses, the first one also by its address.\<close>

definition away_posts :: "author_post list" where
  "away_posts =
     [\<lparr>ap_remote = ''109'', ap_url = [], ap_content = ''hi'', ap_published = 0, ap_metadata = []\<rparr>,
      \<lparr>ap_remote = ''110'', ap_url = [], ap_content = ''ho'', ap_published = 0, ap_metadata = []\<rparr>,
      \<lparr>ap_remote = ''h/statuses/109'', ap_url = [], ap_content = ''hi'', ap_published = 0, ap_metadata = []\<rparr>]"

definition away_provider :: provider_impl where
  "away_provider = \<lparr>im_refresh = None, im_upload = (\<lambda>_ _ _ _ _. Err []), im_publish = (\<lambda>_ _ _. Rejected []), im_metrics = (\<lambda>_ _ _. Err []),
     im_account_metrics = (\<lambda>_ _. Err [])\<rparr>"

definition away_env :: monitor_env where
  "away_env = \<lparr>xe_auto = job_env\<lparr>ax_env := quiet_env\<lparr>en_providers := (\<lambda>_. Some away_provider)\<rparr>\<rparr>,
     xe_feed = (\<lambda>_. Some (\<lambda>_ _ _ _. Inr away_posts)), xe_digit = (\<lambda>r. 48 \<le> r \<and> r \<le> 57), xe_path = (\<lambda>_. None)\<rparr>"

definition away_request :: import_request where
  "away_request = \<lparr>iq_accounts = [], iq_limit = 0, iq_until = []\<rparr>"

section \<open>Properties\<close>

definition posted_import :: "post_row \<Rightarrow> target_row \<Rightarrow> store_db \<Rightarrow> bool" where
  "posted_import p t db \<longleftrightarrow> p \<in> set (sd_posts db) \<and> t \<in> set (sd_targets db) \<and> tg_post t = rw_id p \<and> tg_status t = Posted \<and>
     sp_source (rw_post p) = source_imported"



text \<open>C35: the cleanup removes exactly the duplicates. When the database does not fail, the posts left are those that are
  not imported posts of the team with the same remote post as a target published from here for the same account;
  posts published from here are never removed.\<close>
theorem cleanup_exact:
  assumes "single_import_targets db" "team_exists team db" "\<And>n. en_fail (xe_env e) n = None"
  shows "sd_posts (cleanup_imported e team db) = filter (\<lambda>p. \<not> duplicates_own e team db p) (sd_posts db)"
proof -
  let ?ids = "redundant_imported_post_ids e (posted_refs team db)"
  let ?d = "fold (delete_scheduled_post team) ?ids db"
  let ?x = "xe_auto e"
  let ?ev = "automation_event (ax_fresh ?x ''cleanup event'') team ''post.cleanup'' ''team'' team [(''removed_count'', itoa (int (length ?ids)))]"
  let ?r = "insert_audit_event (ax_now ?x) (ax_fresh ?x ''cleanup event'') ?ev ?d"
  have team: "team_exists team ?d" using assms(2) delete_many_posts [of team ?ids db] by (simp add: team_exists_def)
  have "fst ?r = Inr ()" unfolding insert_audit_event_def Let_def by (simp add: fill_event_def automation_event_def team)
  then obtain d' where r: "?r = (Inr (), d')" by (metis prod.collapse)
  have clean: "cleanup_imported e team db = (if length ?ids = 0 then ?d else d')"
    by (simp add: cleanup_imported_def with_audit_transaction_def and_then_def faulty_def assms(3) delete_redundant_imported_posts_def Let_def r)
  have "sd_posts (cleanup_imported e team db) = sd_posts ?d"
    unfolding clean using same_posts_event [OF r] by (simp add: same_posts_def)
  also have "\<dots> = filter (\<lambda>p. \<not> duplicates_own e team db p) (sd_posts db)"
  proof -
    have "rw_id p \<in> set ?ids \<and> rw_team p = team \<longleftrightarrow> duplicates_own e team db p" if "p \<in> set (sd_posts db)" for p
      using redundant_iff [OF assms(1) that, of e team] by (auto simp: duplicates_own_def posted_at_def)
    then show ?thesis using delete_many_posts [of team ?ids db] by (auto intro: filter_cong)
  qed
  finally show ?thesis .
qed


text \<open>A status published from here that an earlier poll imported as well.\<close>

definition copy_row :: post_row where "copy_row = imported_row 0 ''copy'' ''t1'' ''u1'' (hd away_posts)"

definition own_row :: post_row where
  "own_row = (imported_row 0 ''own'' ''t1'' ''u1'' (hd away_posts))\<lparr>rw_post := (rw_post copy_row)\<lparr>sp_id := ''own'', sp_source := source_scheduled\<rparr>\<rparr>"

definition twice_store :: store_db where
  "twice_store = away_store\<lparr>sd_posts := [own_row, copy_row],
     sd_targets := [imported_target ''own'' ''a1'' (hd away_posts), imported_target ''copy'' ''a1'' (hd away_posts)]\<rparr>"

theorem cleanup_exact_witness: "map rw_id (sd_posts (cleanup_imported away_env ''t1'' twice_store)) = [''own'']"
proof -
  let ?own = "imported_target ''own'' ''a1'' (hd away_posts)" and ?copy = "imported_target ''copy'' ''a1'' (hd away_posts)"
  have rows: "rw_id own_row = ''own''" "rw_id copy_row = ''copy''" "sp_source (rw_post own_row) = source_scheduled"
    "sp_source (rw_post copy_row) = source_imported" "rw_team own_row = ''t1''" "rw_team copy_row = ''t1''"
    "rw_status own_row = Posted" "rw_status copy_row = Posted"
    by (simp_all add: own_row_def copy_row_def imported_row_def)
  have targets: "tg_post ?own = ''own''" "tg_post ?copy = ''copy''" "tg_status ?own = Posted" "tg_status ?copy = Posted"
    "tg_account ?own = ''a1''" "tg_account ?copy = ''a1''"
    by (simp_all add: imported_target_def new_target_def)
  have store: "sd_posts twice_store = [own_row, copy_row]" "sd_targets twice_store = [?own, ?copy]"
    by (simp_all add: twice_store_def)
  have ok: "single_import_targets twice_store" "team_exists ''t1'' twice_store"
    by (simp_all add: single_import_targets_def post_ids_def store rows targets)
      (simp add: twice_store_def away_store_def ann_store_def team_exists_def)
  have "''109'' \<in> set (target_identifiers away_env ?copy)" "''109'' \<in> set (target_identifiers away_env ?own)" by code_simp+
  then have "duplicates_own away_env ''t1'' twice_store copy_row"
    unfolding duplicates_own_def posted_at_def
    by (intro conjI exI [of _ ?copy] exI [of _ own_row] exI [of _ ?own]) (auto simp: store rows targets)
  moreover have "\<not> duplicates_own away_env ''t1'' twice_store own_row" by (simp add: duplicates_own_def rows)
  moreover have "sd_posts (cleanup_imported away_env ''t1'' twice_store) =
      filter (\<lambda>p. \<not> duplicates_own away_env ''t1'' twice_store p) (sd_posts twice_store)"
    by (rule cleanup_exact [OF ok]) (simp add: away_env_def quiet_env_def)
  ultimately show ?thesis by (simp add: store rows)
qed

section \<open>Lost windows\<close>

text \<open>The window of the next poll starts at this one although the provider could not be read.\<close>

definition broken_env :: monitor_env where
  "broken_env = away_env\<lparr>xe_auto := (xe_auto away_env)\<lparr>ax_env := (ax_env (xe_auto away_env))\<lparr>en_now := 9\<rparr>\<rparr>,
     xe_feed := (\<lambda>_. Some (\<lambda>_ _ _ _. Inl ''unreachable''))\<rparr>"

definition watched_team :: monitor_row where
  "watched_team = \<lparr>mo_id = ''m1'', mo_team = ''t1'', mo_enabled = True, mo_backfill = Some 1, mo_last_sync = Some 1, mo_created = 0, mo_updated = 0\<rparr>"

lemma failed_account_loses_window:
  "fst (import_external_posts_for_account broken_env ''t1'' ''u1'' away_account 1 away_store) = None \<and>
     map mo_last_sync (fst (external_post_import_job broken_env ([watched_team], away_store))) = [Some 9] \<and>
     sd_posts (snd (external_post_import_job broken_env ([watched_team], away_store))) = []"
  by code_simp

text \<open>The same for the backfill: it counts as completed.\<close>

lemma failed_backfill_completed:
  "map mo_backfill (fst (external_post_import_job broken_env ([watched_team\<lparr>mo_backfill := None\<rparr>], away_store))) = [Some 9]"
  by code_simp

end
