(* ===== verification/Post_Api.thy ===== *)
theory Post_Api
  imports Templates Auth
begin

text \<open>
  The post endpoints of the HTTP API (\<open>api/http.go\<close>, \<open>api/ai_draft.go\<close>, \<open>api/analytics.go\<close>): reading, creating,
  updating, deleting, cancelling and validating posts, their texts per account, and moving an account with its posts
  to another team. A request passes the gate, the guards of its route and, when it changes state, runs in the
  transaction of \<open>auditedHandler\<close>. A handler gets the decoded body, \<open>None\<close> for a body that does not decode.
\<close>

section \<open>Answers\<close>

datatype post_answer =
    Api_Error string
  | Store_Problem store_error
  | Prepare_Problem prepare_error
  | Not_Valid validation_result
  | Validation_Body validation_result
  | Posts_Body "(scheduled_post \<times> (string \<times> string) list) list"
  | Post_Body scheduled_post
  | Versions_Body "post_version list"
  | Account_Body social_account
  | No_Body

type_synonym post_handler = "post_answer handler"

definition refuse :: "nat \<Rightarrow> string \<Rightarrow> post_handler" where
  "refuse status code db = ((status, Api_Error code), False, db)"

definition store_problem :: "nat \<Rightarrow> store_error \<Rightarrow> post_handler" where
  "store_problem status e db = ((status, Store_Problem e), False, db)"

definition prepare_problem :: "prepare_error \<Rightarrow> post_handler" where
  "prepare_problem e =
     (if e = Past_Scheduled_At then refuse 422 ''past_scheduled_at'' else (\<lambda>db. ((400, Prepare_Problem e), False, db)))"

text \<open>The answer after the audit event of a change that succeeded.\<close>

definition recorded ::
  "auto_env \<Rightarrow> audit_request \<Rightarrow> string \<Rightarrow> string \<Rightarrow> string \<Rightarrow> string \<Rightarrow> (string \<times> string) list \<Rightarrow> nat \<times> post_answer \<Rightarrow> post_handler" where
  "recorded x rq team action target summary details answer db =
     (case record_audit (ax_env x) (ax_fresh x ''event'') rq team action ''post'' (Some target) summary details db of
        (failed, d) \<Rightarrow> (answer, failed, d))"

section \<open>Access\<close>

text \<open>An error of the database refuses everyone but administrators, whose roles are not looked up.\<close>

definition team_access :: "auto_env \<Rightarrow> principal \<Rightarrow> string \<Rightarrow> team_role list \<Rightarrow> store_db \<Rightarrow> bool" where
  "team_access x p team roles db \<longleftrightarrow>
     principal_has_team_access (sd_identity db) p team roles \<and>
     (en_fail (ax_env x) ''access'' = None \<or> u_is_admin (p_user p))"

definition post_write_scope :: "post_status \<Rightarrow> string" where
  "post_write_scope status = (if status = Draft then scope_write_draft else scope_write_schedule)"

definition post_delete_scope :: "post_status \<Rightarrow> string" where
  "post_delete_scope status = (if status = Draft then scope_delete_draft else scope_delete_schedule)"

definition prepare_post ::
  "auto_env \<Rightarrow> string \<Rightarrow> create_post_input \<Rightarrow> prepare_options \<Rightarrow> store_db \<Rightarrow> prepare_error + prepare_result" where
  "prepare_post x team inp opts db =
     prepare (ax_clusters x) (ax_registry x)
       (\<lambda>ids. case en_fail (ax_env x) ''accounts'' of Some err \<Rightarrow> Err err | None \<Rightarrow> get_accounts_by_ids_global db ids)
       (ax_now x) team inp opts"

section \<open>Reading\<close>

definition load_published_links_by_post_ids :: "string list \<Rightarrow> store_db \<Rightarrow> (string \<times> (string \<times> string) list) list" where
  "load_published_links_by_post_ids ids db =
     map (\<lambda>i. (i, map (\<lambda>t. (tg_account t, tg_url t)) (filter (\<lambda>t. tg_post t = i \<and> tg_url t \<noteq> []) (sd_targets db)))) ids"

definition attach_published_links ::
  "auto_env \<Rightarrow> scheduled_post list \<Rightarrow> store_db \<Rightarrow> store_error + (scheduled_post \<times> (string \<times> string) list) list" where
  "attach_published_links x posts db =
     (if posts = [] then Inr []
      else (case look x ''links'' (\<lambda>db. Inr (load_published_links_by_post_ids (map sp_id posts) db)) db of
              Inl e \<Rightarrow> Inl e
            | Inr links \<Rightarrow> Inr (map (\<lambda>p. (p, case map_of links (sp_id p) of None \<Rightarrow> [] | Some l \<Rightarrow> l)) posts)))"

definition handle_list_posts :: "auto_env \<Rightarrow> string \<Rightarrow> store_db \<Rightarrow> nat \<times> post_answer" where
  "handle_list_posts x team db =
     (case look x ''posts'' (\<lambda>db. Inr (list_team_posts team db)) db of
        Inl e \<Rightarrow> (500, Store_Problem e)
      | Inr posts \<Rightarrow> (case attach_published_links x posts db of Inl e \<Rightarrow> (500, Store_Problem e) | Inr ps \<Rightarrow> (200, Posts_Body ps)))"

definition handle_get_post :: "auto_env \<Rightarrow> principal \<Rightarrow> string \<Rightarrow> store_db \<Rightarrow> nat \<times> post_answer" where
  "handle_get_post x p post db =
     (case look x ''post'' (get_scheduled_post_by_id post) db of
        Inl _ \<Rightarrow> (404, Api_Error ''not_found'')
      | Inr q \<Rightarrow>
          if \<not> team_access x p (sp_team_id q) [Viewer, Editor, Owner] db then (403, Api_Error ''forbidden'')
          else (case attach_published_links x [q] db of Inl e \<Rightarrow> (500, Store_Problem e) | Inr ps \<Rightarrow> (200, Posts_Body ps)))"

text \<open>The body of a create request sets only the fields that have a JSON name.\<close>

definition client_input :: "create_post_input \<Rightarrow> create_post_input" where
  "client_input inp = inp\<lparr>in_author_user_id := None, in_post_template_id := None, in_template_counter := None,
     in_template_occurrence_at := None, in_template_post_role := [], in_source := [], in_rss_feed_id := None,
     in_rss_item_key := [], in_ai_job_id := None, in_ai_fallback_reason := None\<rparr>"

definition handle_validate_post :: "auto_env \<Rightarrow> principal \<Rightarrow> string \<Rightarrow> create_post_input option \<Rightarrow> store_db \<Rightarrow> nat \<times> post_answer" where
  "handle_validate_post x p team body db =
     (case body of
        None \<Rightarrow> (400, Api_Error ''invalid_json_body'')
      | Some inp \<Rightarrow>
          (case prepare_post x (trim_space team) (client_input inp)
                  \<lparr>po_check_limits = (\<not> in_draft inp), po_require_team = False, po_reject_past = False\<rparr> db of
             Inl e \<Rightarrow> (400, Prepare_Problem e)
           | Inr res \<Rightarrow>
               if \<not> team_access x p (pr_team res) [Viewer, Editor, Owner] db then (403, Api_Error ''forbidden'')
               else (200, Validation_Body (pr_validation res))))"

section \<open>Creating\<close>

definition requested_time :: "instant \<Rightarrow> create_post_input \<Rightarrow> create_post_input" where
  "requested_time now inp =
     (if in_publish_now inp then inp\<lparr>in_scheduled_at := now, in_draft := False\<rparr>
      else if in_scheduled_at inp = zero_time then inp\<lparr>in_scheduled_at := now\<rparr> else inp)"

definition handle_create_post :: "auto_env \<Rightarrow> audit_request \<Rightarrow> principal \<Rightarrow> string \<Rightarrow> create_post_input option \<Rightarrow> post_handler" where
  "handle_create_post x rq p team body db =
     (case body of
        None \<Rightarrow> refuse 400 ''invalid_json_body'' db
      | Some raw \<Rightarrow>
          (let inp = requested_time (ax_now x) (client_input raw) in
           if \<not> principal_allows p (if in_draft inp then scope_write_draft else scope_write_schedule)
           then refuse 403 ''scope_required'' db
           else (case prepare_post x (trim_space team) inp
                        \<lparr>po_check_limits = (\<not> in_draft inp), po_require_team = True, po_reject_past = (\<not> in_publish_now inp)\<rparr> db of
                   Inl e \<Rightarrow> prepare_problem e db
                 | Inr res \<Rightarrow>
                     if \<not> vr_valid (pr_validation res) then ((422, Not_Valid (pr_validation res)), False, db)
                     else if \<not> team_access x p (pr_team res) [Editor, Owner] db then refuse 403 ''forbidden'' db
                     else (case faulty (ax_env x) ''create''
                                  (create_scheduled_post (ax_now x) (ax_fresh x ''post'') (pr_team res) p (pr_input res)) db of
                             (Inl e, d) \<Rightarrow> store_problem 500 e d
                           | (Inr post, d) \<Rightarrow>
                               recorded x rq (pr_team res) ''post.create'' (sp_id post) ''Created post'' [] (201, Post_Body post) d))))"

record draft_request =
  dq_title :: string
  dq_content :: string
  dq_accounts :: "string list"
  dq_override :: "(string \<times> string) list"
  dq_scheduled_at :: "instant option"
  dq_schedule :: bool
  dq_job :: string

text \<open>What the draft endpoint reads beyond the store: whether the team's profile publishes on its own, and
  \<open>uuid.Parse\<close>.\<close>

record api_env =
  api_auto :: auto_env
  api_auto_publish :: "string \<Rightarrow> bool"
  api_uuid :: "string \<Rightarrow> string option"

definition given_time :: "instant option \<Rightarrow> bool" where
  "given_time t = (case t of None \<Rightarrow> False | Some s \<Rightarrow> s \<noteq> zero_time)"

definition draft_post_input :: "instant \<Rightarrow> principal \<Rightarrow> draft_request \<Rightarrow> create_post_input" where
  "draft_post_input now p dq =
     (let inp = ensure_title (normalize_input (empty_input\<lparr>in_title := dq_title dq, in_content := trim_space (dq_content dq),
            in_target_accounts := normalize_media_ids (dq_accounts dq), in_override := dq_override dq,
            in_scheduled_at := now, in_draft := True, in_author_user_id := Some (u_id (p_user p))\<rparr>))
      in inp\<lparr>in_scheduled_at := (if given_time (dq_scheduled_at dq) then the (dq_scheduled_at dq) else in_scheduled_at inp),
             in_draft := \<not> dq_schedule dq\<rparr>)"

definition handle_create_ai_draft :: "api_env \<Rightarrow> audit_request \<Rightarrow> principal \<Rightarrow> string \<Rightarrow> draft_request option \<Rightarrow> post_handler" where
  "handle_create_ai_draft a rq p team body db =
     (let x = api_auto a in
      case body of
        None \<Rightarrow> refuse 400 ''invalid_json_body'' db
      | Some dq \<Rightarrow>
          if trim_space (dq_content dq) = [] then refuse 400 ''content_required'' db
          else (case resolve_targets
                       (\<lambda>ids. case en_fail (ax_env x) ''accounts'' of Some err \<Rightarrow> Err err | None \<Rightarrow> get_accounts_by_ids_global db ids)
                       team (normalize_media_ids (dq_accounts dq))
                       (map fst (filter (\<lambda>(_, c). trim_space c \<noteq> []) (dq_override dq))) of
                  Inl e \<Rightarrow> ((400, Prepare_Problem e), False, db)
                | Inr _ \<Rightarrow>
                    (let inp0 = draft_post_input (ax_now x) p dq;
                         inp = (if api_auto_publish a team \<and> given_time (dq_scheduled_at dq) then inp0\<lparr>in_draft := False\<rparr> else inp0)
                     in if \<not> in_draft inp \<and> \<not> principal_allows p scope_write_schedule then refuse 403 ''scope_required'' db
                        else (case faulty (ax_env x) ''create'' (create_scheduled_post (ax_now x) (ax_fresh x ''post'') team p inp) db of
                                (Inl e, d) \<Rightarrow> store_problem 500 e d
                              | (Inr post, d) \<Rightarrow>
                                  recorded x rq team ''post.create'' (sp_id post) ''Created AI draft''
                                    ((case api_uuid a (dq_job dq) of None \<Rightarrow> [] | Some i \<Rightarrow> [(''job_id'', i)]) @ [(''source'', ''ai_draft'')])
                                    (201, Post_Body post) d))))"

section \<open>Updating\<close>

text \<open>The checks of a review transition, the code of the error if one fails.\<close>

definition review_problem :: "update_post_patch \<Rightarrow> string option" where
  "review_problem patch =
     (if pt_review_complete patch \<noteq> Some True then None
      else if pt_title patch \<noteq> None \<or> pt_content patch \<noteq> None \<or> pt_visibility patch \<noteq> None \<or> pt_media_ids patch \<noteq> None \<or>
              pt_media_exclude patch \<noteq> None \<or> pt_target_accounts patch \<noteq> None \<or> pt_override patch \<noteq> None
      then Some ''review_complete_exclusive''
      else if pt_draft patch = Some True then Some ''review_complete_draft_conflict''
      else (let has_publish_now = (pt_publish_now patch = Some True);
                has_schedule = (pt_scheduled_at patch \<noteq> None \<and> pt_draft patch = Some False)
            in if \<not> has_publish_now \<and> \<not> has_schedule then Some ''review_complete_action_required''
               else if has_publish_now \<and> pt_scheduled_at patch \<noteq> None then Some ''review_complete_conflicting_action''
               else None))"

definition required_write_scope :: "post_status \<Rightarrow> update_post_patch \<Rightarrow> string" where
  "required_write_scope was patch =
     (let target_draft = (case pt_draft patch of None \<Rightarrow> was = Draft | Some d \<Rightarrow> d)
      in if \<not> target_draft \<or> pt_review_complete patch = Some True then scope_write_schedule else post_write_scope was)"

text \<open>\<open>auditChanged\<close> and \<open>auditVersionsChanged\<close>: exclusions and texts per account are maps.\<close>

definition audit_changed :: "scheduled_post \<Rightarrow> scheduled_post \<Rightarrow> bool" where
  "audit_changed before after \<longleftrightarrow>
     before\<lparr>sp_media_exclude := []\<rparr> \<noteq> after\<lparr>sp_media_exclude := []\<rparr> \<or> set (sp_media_exclude before) \<noteq> set (sp_media_exclude after)"

definition audit_versions_changed :: "post_version list \<Rightarrow> post_version list \<Rightarrow> bool" where
  "audit_versions_changed before after \<longleftrightarrow>
     (let texts = (\<lambda>vs. (\<lambda>v. (pv_account_id v, pv_content v)) ` set (filter (\<lambda>v. pv_content v \<noteq> []) vs))
      in texts before \<noteq> texts after)"

text \<open>The patch after the publish-now hint, and what the preparation is asked to check.\<close>

definition publish_patch :: "instant \<Rightarrow> update_post_patch \<Rightarrow> update_post_patch" where
  "publish_patch now patch =
     (if pt_publish_now patch = Some True then patch\<lparr>pt_scheduled_at := Some now, pt_draft := Some False\<rparr> else patch)"

definition merged_input :: "scheduled_post \<Rightarrow> post_version list \<Rightarrow> update_post_patch \<Rightarrow> create_post_input" where
  "merged_input existing versions patch =
     (let m = fst (apply_post_patch existing versions patch)
      in case pt_override patch of None \<Rightarrow> m | Some o' \<Rightarrow> m\<lparr>in_override := o'\<rparr>)"

text \<open>From the versions on: the patched post is prepared like a new one, then stored and recorded.\<close>

definition update_prepared :: "auto_env \<Rightarrow> audit_request \<Rightarrow> scheduled_post \<Rightarrow> string \<Rightarrow> update_post_patch \<Rightarrow> post_handler" where
  "update_prepared x rq existing post patch db =
     (case look x ''versions'' (\<lambda>db. Inr (list_post_versions_for_team_post (sp_team_id existing) (sp_id existing) db)) db of
        Inl e \<Rightarrow> store_problem 500 e db
      | Inr versions \<Rightarrow>
          (let m = merged_input existing versions patch in
           case prepare_post x (sp_team_id existing) m
                  \<lparr>po_check_limits = (\<not> in_draft m), po_require_team = True, po_reject_past = (pt_publish_now patch \<noteq> Some True)\<rparr> db of
             Inl e \<Rightarrow> prepare_problem e db
           | Inr res \<Rightarrow>
               if \<not> vr_valid (pr_validation res) then ((422, Not_Valid (pr_validation res)), False, db)
               else (case faulty (ax_env x) ''patch'' (patch_scheduled_post (ax_now x) (sp_team_id existing) post patch) db of
                       (Inl e, d) \<Rightarrow> if e = review_conflict then refuse 409 ''review_conflict'' d else store_problem 500 e d
                     | (Inr updated, d) \<Rightarrow>
                         (case (if pt_override patch = None then Inr False
                                else (case look x ''versions after'' (\<lambda>db. Inr (list_post_versions_for_team_post (sp_team_id existing) (sp_id existing) db)) d of
                                        Inl e \<Rightarrow> Inl e | Inr after \<Rightarrow> Inr (audit_versions_changed versions after))) of
                            Inl (_ :: store_error) \<Rightarrow> refuse 500 ''internal_error'' d
                          | Inr changed \<Rightarrow>
                              if audit_changed existing updated \<or> changed
                              then recorded x rq (sp_team_id existing) ''post.update'' (sp_id updated) ''Updated post'' [] (200, Post_Body updated) d
                              else ((200, Post_Body updated), False, d)))))"

definition handle_update_post :: "auto_env \<Rightarrow> audit_request \<Rightarrow> principal \<Rightarrow> string \<Rightarrow> update_post_patch option \<Rightarrow> post_handler" where
  "handle_update_post x rq p post body db =
     (case look x ''post'' (get_scheduled_post_by_id post) db of
        Inl e \<Rightarrow> store_problem 404 e db
      | Inr existing \<Rightarrow>
          if sp_source existing = source_imported then refuse 403 ''imported_post_read_only'' db
          else if \<not> team_access x p (sp_team_id existing) [Editor, Owner] db then refuse 403 ''forbidden'' db
          else (case body of
                  None \<Rightarrow> refuse 400 ''invalid_json_body'' db
                | Some raw \<Rightarrow>
                    (case review_problem raw of
                       Some code \<Rightarrow> refuse 400 code db
                     | None \<Rightarrow>
                         if pt_publish_now raw = Some True \<and> sp_status existing \<in> {Posted, Processing, Cancelled}
                         then refuse 409 ''already_published'' db
                         else (let patch = publish_patch (ax_now x) raw in
                               if \<not> principal_allows p (required_write_scope (sp_status existing) patch)
                               then refuse 403 ''scope_required'' db
                               else update_prepared x rq existing post patch db))))"

section \<open>Deleting and cancelling\<close>

text \<open>A deleted round of a template is skipped from then on; errors are ignored.\<close>

definition skip_recurring_occurrence_for_deleted_post :: "auto_env \<Rightarrow> string \<Rightarrow> string \<Rightarrow> store_db \<Rightarrow> store_db" where
  "skip_recurring_occurrence_for_deleted_post x team post db =
     (case look x ''template link'' (get_scheduled_post_template_link team post) db of
        Inl _ \<Rightarrow> db
      | Inr (t, at, role) \<Rightarrow>
          (case at of
             None \<Rightarrow> db
           | Some occ \<Rightarrow>
               if t = [] then db
               else snd (faulty (ax_env x) ''skip''
                      (if role = ''announcement'' then add_post_template_announcement_skip team t occ
                       else add_post_template_skip team t occ) db)))"

definition handle_delete_post :: "auto_env \<Rightarrow> audit_request \<Rightarrow> principal \<Rightarrow> string \<Rightarrow> post_handler" where
  "handle_delete_post x rq p post db =
     (case look x ''post'' (get_scheduled_post_by_id post) db of
        Inl e \<Rightarrow> store_problem 404 e db
      | Inr existing \<Rightarrow>
          if \<not> principal_allows p (post_delete_scope (sp_status existing)) then refuse 403 ''scope_required'' db
          else if \<not> team_access x p (sp_team_id existing) [Editor, Owner] db then refuse 403 ''forbidden'' db
          else (case faulty (ax_env x) ''delete'' (always (delete_scheduled_post (sp_team_id existing) post))
                       (skip_recurring_occurrence_for_deleted_post x (sp_team_id existing) post db) of
                  (Inl e, d) \<Rightarrow> store_problem 500 e d
                | (Inr _, d) \<Rightarrow> recorded x rq (sp_team_id existing) ''post.delete'' post ''Deleted post'' [] (204, No_Body) d))"

definition handle_cancel_post :: "auto_env \<Rightarrow> audit_request \<Rightarrow> principal \<Rightarrow> string \<Rightarrow> post_handler" where
  "handle_cancel_post x rq p post db =
     (case look x ''post'' (get_scheduled_post_by_id post) db of
        Inl e \<Rightarrow> store_problem 404 e db
      | Inr existing \<Rightarrow>
          if \<not> principal_allows p (post_write_scope (sp_status existing)) then refuse 403 ''scope_required'' db
          else if \<not> team_access x p (sp_team_id existing) [Editor, Owner] db then refuse 403 ''forbidden'' db
          else if sp_status existing = Cancelled then ((204, No_Body), False, db)
          else (case faulty (ax_env x) ''cancel'' (always (cancel_scheduled_post (ax_now x) (sp_team_id existing) post)) db of
                  (Inl e, d) \<Rightarrow> store_problem 500 e d
                | (Inr _, d) \<Rightarrow> recorded x rq (sp_team_id existing) ''post.cancel'' post ''Cancelled post'' [] (204, No_Body) d))"

section \<open>Texts per account\<close>

definition put_version :: "string \<Rightarrow> string \<Rightarrow> string \<Rightarrow> store_db \<Rightarrow> store_db" where
  "put_version post account content db =
     (let mine = (\<lambda>v. pv_post_id v = post \<and> pv_account_id v = account) in
      db\<lparr>sd_versions :=
        (if trim_space content = [] then delete_where mine (sd_versions db)
         else if list_ex mine (sd_versions db) then update_where mine (\<lambda>v. v\<lparr>pv_content := content\<rparr>) (sd_versions db)
         else sd_versions db @ [\<lparr>pv_post_id = post, pv_account_id = account, pv_content = content\<rparr>])\<rparr>)"

fun put_versions :: "string \<Rightarrow> (string \<times> string) list \<Rightarrow> unit store_op" where
  "put_versions post [] db = (Inr (), db)"
| "put_versions post ((account, content) # vs) db =
     (let a = trim_space account in
      if a = [] then put_versions post vs db
      else if \<not> list_ex (\<lambda>t. tg_post t = post \<and> tg_account t = a) (sd_targets db)
      then (Inl (Refused ''account not targeted by post''), db)
      else put_versions post vs (put_version post a content db))"

definition apply_post_versions_patch :: "string \<Rightarrow> string \<Rightarrow> (string \<times> string) list \<Rightarrow> unit store_op" where
  "apply_post_versions_patch team post vs =
     with_audit_transaction (\<lambda>db.
       (case find_post post db of
          None \<Rightarrow> (Inl (Refused ''post not found''), db)
        | Some r \<Rightarrow> if rw_team r \<noteq> team then (Inl (Refused ''post not found''), db) else put_versions post vs db))"

definition handle_patch_post_versions :: "auto_env \<Rightarrow> audit_request \<Rightarrow> string \<Rightarrow> string \<Rightarrow> (string \<times> string) list option \<Rightarrow> post_handler" where
  "handle_patch_post_versions x rq team post body db =
     (case look x ''post'' (get_scheduled_post team post) db of
        Inl _ \<Rightarrow> refuse 404 ''not_found'' db
      | Inr _ \<Rightarrow>
          (case body of
             None \<Rightarrow> refuse 400 ''invalid_json_body'' db
           | Some rows \<Rightarrow>
               (case look x ''versions'' (\<lambda>db. Inr (list_post_versions_for_team_post team post db)) db of
                  Inl _ \<Rightarrow> refuse 500 ''internal_error'' db
                | Inr before \<Rightarrow>
                    (case faulty (ax_env x) ''versions patch'' (apply_post_versions_patch team post
                            (map (\<lambda>(a, c). (trim_space a, trim_space c)) (filter (\<lambda>(a, _). trim_space a \<noteq> []) rows))) db of
                       (Inl e, d) \<Rightarrow>
                         if e = Refused ''post not found'' then refuse 404 ''not_found'' d
                         else if e = Refused ''account not targeted by post'' then store_problem 400 e d
                         else store_problem 500 e d
                     | (Inr _, d) \<Rightarrow>
                         (case look x ''versions after'' (\<lambda>db. Inr (list_post_versions_for_team_post team post db)) d of
                            Inl e \<Rightarrow> store_problem 500 e d
                          | Inr items \<Rightarrow>
                              if audit_versions_changed before items
                              then recorded x rq team ''post.versions_update'' post ''Updated account versions''
                                     [(''changed_fields'', ''account_content_override'')] (200, Versions_Body items) d
                              else ((200, Versions_Body items), False, d))))))"

section \<open>Moving an account\<close>

definition record_migration :: "auto_env \<Rightarrow> audit_request \<Rightarrow> string \<Rightarrow> string \<Rightarrow> string \<Rightarrow> store_db \<Rightarrow> bool \<times> store_db" where
  "record_migration x rq account source destination db =
     (let details = [(''correlation_id'', ax_fresh x ''correlation''), (''source_team_id'', source), (''destination_team_id'', destination)] in
      case record_audit (ax_env x) (ax_fresh x ''out'') rq source ''account.migrate_out'' ''account'' (Some account)
             ''Moved account to another team'' details db of
        (f1, d) \<Rightarrow>
          (case record_audit (ax_env x) (ax_fresh x ''in'') rq destination ''account.migrate_in'' ''account'' (Some account)
                  ''Moved account from another team'' details d of
             (f2, d') \<Rightarrow> (f1 \<or> f2, d')))"

definition handle_migrate_account :: "auto_env \<Rightarrow> audit_request \<Rightarrow> principal \<Rightarrow> string \<Rightarrow> string \<Rightarrow> string option \<Rightarrow> post_handler" where
  "handle_migrate_account x rq p team account body db =
     (case body of
        None \<Rightarrow> refuse 400 ''invalid_json_body'' db
      | Some destination \<Rightarrow>
          if trim_space destination = [] then refuse 400 ''target_team_id_required'' db
          else (case look x ''account'' (get_account_by_id account) db of
                  Inl _ \<Rightarrow> refuse 404 ''not_found'' db
                | Inr src \<Rightarrow>
                    if sa_team_id src \<noteq> team then refuse 404 ''not_found'' db
                    else if \<not> list_all (\<lambda>t. team_access x p t [Owner] db) [sa_team_id src, destination]
                    then refuse 403 ''forbidden'' db
                    else (case faulty (ax_env x) ''migrate''
                                 (migrate_account_to_team (ax_now x) (u_id (p_user p)) account destination (u_is_admin (p_user p))) db of
                            (Inl e, d) \<Rightarrow> store_problem (if contains (en_describe (ax_env x) e) ''forbidden'' then 403 else 400) e d
                          | (Inr _, d) \<Rightarrow>
                              (case look x ''account after'' (get_account_by_id account) d of
                                 Inl e \<Rightarrow> store_problem 500 e d
                               | Inr acc \<Rightarrow>
                                   if sa_team_id src = sa_team_id acc then ((200, Account_Body acc), False, d)
                                   else (case record_migration x rq account (sa_team_id src) (sa_team_id acc) d of
                                           (failed, d') \<Rightarrow> ((200, Account_Body acc), failed, d'))))))"

section \<open>Requests\<close>

datatype post_request =
    Create_Post "create_post_input option"
  | Create_Draft "draft_request option"
  | Update_Post string "update_post_patch option"
  | Delete_Post string
  | Cancel_Post string
  | Patch_Versions string "(string \<times> string) list option"
  | Migrate_Account string "string option"

fun post_route :: "post_request \<Rightarrow> string \<times> string" where
  "post_route (Create_Post _) = (''POST'', ''POST /v1/teams/{teamID}/posts'')"
| "post_route (Create_Draft _) = (''POST'', ''POST /v1/teams/{teamID}/posts/draft'')"
| "post_route (Update_Post _ _) = (''PATCH'', ''PATCH /v1/teams/{teamID}/posts/{postID}'')"
| "post_route (Delete_Post _) = (''DELETE'', ''DELETE /v1/teams/{teamID}/posts/{postID}'')"
| "post_route (Cancel_Post _) = (''POST'', ''POST /v1/teams/{teamID}/posts/{postID}/cancel'')"
| "post_route (Patch_Versions _ _) = (''PATCH'', ''PATCH /v1/teams/{teamID}/posts/{postID}/versions'')"
| "post_route (Migrate_Account _ _) = (''POST'', ''POST /v1/teams/{teamID}/accounts/{accountID}/migrate'')"

text \<open>The request as the gate sees it.\<close>

definition routed :: "string \<Rightarrow> post_request \<Rightarrow> http_request" where
  "routed team r = \<lparr>rq_method = fst (post_route r), rq_pattern = snd (post_route r), rq_team_id = team,
     rq_authorization = [], rq_session_cookie = [], rq_csrf_cookie = [], rq_csrf_header = [], rq_query_token = []\<rparr>"

definition and_passed :: "http_outcome \<Rightarrow> http_outcome \<Rightarrow> http_outcome" where
  "and_passed a b = (case a of Passed \<Rightarrow> b | Refused_Request s c \<Rightarrow> Refused_Request s c)"

fun route_guard :: "store_db \<Rightarrow> principal \<Rightarrow> string \<Rightarrow> post_request \<Rightarrow> http_outcome" where
  "route_guard db p team (Create_Draft _) =
     and_passed (require_ai_enabled (sd_identity db) (Some p) team)
       (and_passed (require_token_scope scope_write_draft (Some p)) (require_team_role (sd_identity db) (Some p) team [Editor, Owner]))"
| "route_guard db p team (Patch_Versions _ _) = require_team_role (sd_identity db) (Some p) team [Editor, Owner]"
| "route_guard db p team _ = Passed"

fun post_handler_of :: "api_env \<Rightarrow> audit_request \<Rightarrow> principal \<Rightarrow> string \<Rightarrow> post_request \<Rightarrow> post_handler" where
  "post_handler_of a rq p team (Create_Post body) = handle_create_post (api_auto a) rq p team body"
| "post_handler_of a rq p team (Create_Draft body) = handle_create_ai_draft a rq p team body"
| "post_handler_of a rq p team (Update_Post post body) = handle_update_post (api_auto a) rq p post body"
| "post_handler_of a rq p team (Delete_Post post) = handle_delete_post (api_auto a) rq p post"
| "post_handler_of a rq p team (Cancel_Post post) = handle_cancel_post (api_auto a) rq p post"
| "post_handler_of a rq p team (Patch_Versions post body) = handle_patch_post_versions (api_auto a) rq team post body"
| "post_handler_of a rq p team (Migrate_Account account body) = handle_migrate_account (api_auto a) rq p team account body"

definition serve_post_request ::
  "api_env \<Rightarrow> audit_request \<Rightarrow> string \<Rightarrow> post_request \<Rightarrow> store_db \<Rightarrow> (nat \<times> post_answer) option \<times> store_db" where
  "serve_post_request a rq team r db =
     (case aq_principal rq of
        None \<Rightarrow> (Some (401, Api_Error ''missing principal''), db)
      | Some p \<Rightarrow>
          (case and_passed (api_gate (sd_identity db) p (routed team r)) (route_guard db p team r) of
             Refused_Request status code \<Rightarrow> (Some (status, Api_Error code), db)
           | Passed \<Rightarrow> audited_handler (post_handler_of a rq p team r) db))"

text \<open>Whatever requests principals of a kind make.\<close>

inductive request_by :: "(principal \<Rightarrow> bool) \<Rightarrow> store_db \<Rightarrow> store_db \<Rightarrow> bool" for who where
  request_by_intro: "aq_principal rq = Some p \<Longrightarrow> who p \<Longrightarrow> serve_post_request a rq team r db = (answer, db') \<Longrightarrow> request_by who db db'"

inductive_cases request_byE: "request_by who db db'"

end
