(* ===== verification/Post_Api_Safety.thy ===== *)
theory Post_Api_Safety
  imports Post_Api Template_Rounds
begin

text \<open>
  What the post endpoints can do to posts: an operation touches the rows of one post (\<open>others_same\<close>), which the
  handler has checked; a token without the schedule scope never makes or changes a post that leaves the draft queue,
  and no request touches the posts of a team its principal may not edit.
\<close>

section \<open>Operations on one post\<close>

definition others_same :: "string \<Rightarrow> store_db \<Rightarrow> store_db \<Rightarrow> bool" where
  "others_same i db db' \<longleftrightarrow> sd_identity db' = sd_identity db \<and>
     filter (\<lambda>r. rw_id r \<noteq> i) (sd_posts db') = filter (\<lambda>r. rw_id r \<noteq> i) (sd_posts db) \<and>
     filter (\<lambda>t. tg_post t \<noteq> i) (sd_targets db') = filter (\<lambda>t. tg_post t \<noteq> i) (sd_targets db) \<and>
     filter (\<lambda>v. pv_post_id v \<noteq> i) (sd_versions db') = filter (\<lambda>v. pv_post_id v \<noteq> i) (sd_versions db)"

definition same_rows :: "store_db \<Rightarrow> store_db \<Rightarrow> bool" where
  "same_rows db db' \<longleftrightarrow> sd_identity db' = sd_identity db \<and> sd_posts db' = sd_posts db \<and>
     sd_targets db' = sd_targets db \<and> sd_versions db' = sd_versions db"

lemma same_rows_refl [simp]: "same_rows db db" by (simp add: same_rows_def)
lemma same_rows_trans: "same_rows a b \<Longrightarrow> same_rows b c \<Longrightarrow> same_rows a c" by (simp add: same_rows_def)
lemma others_same_refl [simp]: "others_same i db db" by (simp add: others_same_def)
lemma others_same_trans: "others_same i a b \<Longrightarrow> others_same i b c \<Longrightarrow> others_same i a c" by (simp add: others_same_def)
lemma same_rows_others: "same_rows a b \<Longrightarrow> others_same i a b" by (simp add: same_rows_def others_same_def)

lemma filter_update_where:
  "(\<And>r. p r \<Longrightarrow> key r = i) \<Longrightarrow> (\<And>r. p r \<Longrightarrow> key (f r) = i) \<Longrightarrow>
     filter (\<lambda>r. key r \<noteq> i) (update_where p f rs) = filter (\<lambda>r. key r \<noteq> i) rs"
  by (induction rs) (auto simp: update_where_def)

lemma filter_delete_where:
  "(\<And>r. p r \<Longrightarrow> key r = i) \<Longrightarrow> filter (\<lambda>r. key r \<noteq> i) (delete_where p rs) = filter (\<lambda>r. key r \<noteq> i) rs"
  by (induction rs) (auto simp: delete_where_def)

lemma insert_post_others:
  "insert_post r db = (res, db') \<Longrightarrow> others_same (rw_id r) db db' \<and> (\<forall>q \<in> set (sd_posts db'). q \<in> set (sd_posts db) \<or> q = r)"
  by (auto simp: insert_post_def Let_def others_same_def split: if_splits)

lemma insert_targets_others: "insert_targets post accounts db = (res, db') \<Longrightarrow> others_same post db db' \<and> sd_posts db' = sd_posts db"
  by (auto simp: insert_targets_def others_same_def new_target_def filter_empty_conv split: if_splits)

lemma insert_versions_others: "insert_versions post over db = (res, db') \<Longrightarrow> others_same post db db' \<and> sd_posts db' = sd_posts db"
  by (auto simp: insert_versions_def others_same_def filter_empty_conv split: if_splits)

lemma link_same_rows: "link_rss_item_for_post now team feed key post db = (res, db') \<Longrightarrow> same_rows db db'"
  by (auto simp: link_rss_item_for_post_def bump_counter_def same_rows_def Let_def split: if_splits)

lemma new_row_simps [simp]:
  "rw_id (new_post_row now fresh team pr inp) = fresh" "rw_team (new_post_row now fresh team pr inp) = team"
  "rw_status (new_post_row now fresh team pr inp) = (if in_draft inp then Draft else Pending)"
  by (simp_all add: new_post_row_def Let_def resolve_post_insert_def)

lemma create_others:
  assumes "create_scheduled_post now fresh team pr inp db = (res, db')"
  shows "others_same fresh db db' \<and>
    (\<forall>q \<in> set (sd_posts db'). q \<in> set (sd_posts db) \<or> (rw_team q = team \<and> rw_status q = (if in_draft inp then Draft else Pending)))"
proof -
  define link :: "unit store_op" where "link = (case in_rss_feed_id inp of None \<Rightarrow> (\<lambda>db. (Inr (), db))
    | Some feed \<Rightarrow> if in_rss_item_key inp \<noteq> [] then link_rss_item_for_post now team feed (in_rss_item_key inp) fresh
                   else (\<lambda>db. (Inr (), db)))"
  have link: "link d = (r, d') \<Longrightarrow> same_rows d d'" for d r d'
    by (auto simp: link_def split: option.splits if_splits dest: link_same_rows)
  define body where "body = and_then (insert_post (new_post_row now fresh team pr inp)) (\<lambda>_.
     and_then (insert_versions fresh (in_override inp)) (\<lambda>_. and_then (insert_targets fresh (in_target_accounts inp)) (\<lambda>_. link)))"
  have d: "db' = snd (with_audit_transaction body db)"
    using assms by (auto simp: create_scheduled_post_def body_def link_def split: prod.splits sum.splits)
  show ?thesis
  proof (cases rule: transaction_cases [of body db])
    case (2 x d4)
    from 2(1) obtain d1 d2 d3 where 1: "insert_post (new_post_row now fresh team pr inp) db = (Inr (), d1)"
      and 2: "insert_versions fresh (in_override inp) d1 = (Inr (), d2)"
      and 3: "insert_targets fresh (in_target_accounts inp) d2 = (Inr (), d3)" and 4: "link d3 = (Inr x, d4)"
      by (auto simp: body_def and_then_Inr)
    note i1 = insert_post_others [OF 1] and i2 = insert_versions_others [OF 2] and i3 = insert_targets_others [OF 3] and i4 = link [OF 4]
    have "others_same fresh db d4"
      using others_same_trans [OF others_same_trans [OF others_same_trans]] i1 i2 i3 same_rows_others [OF i4] by (metis new_row_simps(1))
    moreover have "sd_posts d4 = sd_posts d1" using i2 i3 i4 by (simp add: same_rows_def)
    ultimately show ?thesis using i1 d \<open>snd (with_audit_transaction body db) = d4\<close> by auto
  qed (simp add: d)
qed

section \<open>Patches\<close>

text \<open>A patch changes the rows of its post, keeps their team and gives them the resolved status.\<close>

definition row_from :: "post_row list \<Rightarrow> (post_status \<Rightarrow> bool) \<Rightarrow> post_row \<Rightarrow> bool" where
  "row_from rs st q \<longleftrightarrow> q \<in> set rs \<or> (\<exists>r \<in> set rs. rw_id q = rw_id r \<and> rw_team q = rw_team r \<and> st (rw_status q))"

lemma row_from_update:
  "(\<And>r. rw_id (f r) = rw_id r \<and> rw_team (f r) = rw_team r \<and> st (rw_status (f r))) \<Longrightarrow>
     q \<in> set (update_where p f rs) \<Longrightarrow> row_from rs st q"
  by (auto simp: row_from_def)

lemma patch_columns_cases:
  obtains "patch_post_columns now team post existing merged flags db = db"
  | f where "patch_post_columns now team post existing merged flags db =
        db\<lparr>sd_posts := update_where (\<lambda>r. rw_id r = post \<and> rw_team r = team) f (sd_posts db)\<rparr>"
      "\<And>r. rw_id (f r) = rw_id r \<and> rw_team (f r) = rw_team r \<and>
         rw_status (f r) = resolve_post_status_on_update now (sp_status existing) (sp_source existing) merged"
proof -
  let ?st = "resolve_post_status_on_update now (sp_status existing) (sp_source existing) merged"
  define f where "f = on_post (\<lambda>s. s\<lparr>sp_scheduled_at := in_scheduled_at merged, sp_status := ?st\<rparr>) now"
  define g where "g = on_post (\<lambda>s. s\<lparr>sp_title := in_title merged, sp_content := in_content merged,
      sp_scheduled_at := in_scheduled_at merged, sp_visibility := normalize_post_visibility (in_visibility merged),
      sp_media_ids := normalize_media_ids (in_media_ids merged), sp_media_exclude := in_media_exclude merged, sp_status := ?st\<rparr>) now"
  note p = patch_post_columns_def [of now team post existing merged flags db, unfolded Let_def, folded f_def g_def]
  have f: "rw_id (f r) = rw_id r \<and> rw_team (f r) = rw_team r \<and> rw_status (f r) = ?st" for r by (simp add: f_def)
  have g: "rw_id (g r) = rw_id r \<and> rw_team (g r) = rw_team r \<and> rw_status (g r) = ?st" for r by (simp add: g_def)
  have "v = x \<or> v = y \<or> v = z" if "v = (if a then x else if b then y else z)" for a b and v x y z :: store_db
    using that by (auto split: if_splits)
  from this [OF p] that(1) that(2) [OF _ f] that(2) [OF _ g] show thesis by blast
qed

lemma patch_columns_others:
  "others_same post db (patch_post_columns now team post existing merged flags db) \<and>
   (\<forall>q \<in> set (sd_posts (patch_post_columns now team post existing merged flags db)).
      row_from (sd_posts db) (\<lambda>s. s = resolve_post_status_on_update now (sp_status existing) (sp_source existing) merged) q)"
proof (cases rule: patch_columns_cases [of now team post existing merged flags db])
  case 1
  then show ?thesis by (simp add: row_from_def)
next
  case (2 f)
  show ?thesis unfolding 2(1) using 2(2) by (auto simp: others_same_def row_from_def intro!: filter_update_where)
qed

lemma review_others: "others_same post db (snd (complete_review now team post at db))"
  by (auto simp: complete_review_def Let_def others_same_def intro!: filter_update_where)

lemma review_rows: "q \<in> set (sd_posts (snd (complete_review now team post at db))) \<Longrightarrow> row_from (sd_posts db) (\<lambda>s. s = Pending) q"
  by (auto simp: complete_review_def Let_def row_from_def split: if_splits)

lemma drop_others:
  "others_same post db (db\<lparr>sd_versions := delete_where (\<lambda>v. pv_post_id v = post) (sd_versions db)\<rparr>)"
  "others_same post db (db\<lparr>sd_targets := delete_where (\<lambda>t. tg_post t = post) (sd_targets db)\<rparr>)"
  by (simp_all add: others_same_def delete_where_def)

lemma row_from_mono: "row_from rs st q \<Longrightarrow> (\<And>s. st s \<Longrightarrow> st' s) \<Longrightarrow> row_from rs st' q"
  by (auto simp: row_from_def)

lemma patch_others:
  assumes "patch_scheduled_post now team post patch db = (res, db')"
  shows "others_same post db db'"
    and "q \<in> set (sd_posts db') \<Longrightarrow> row_from (sd_posts db) (\<lambda>s. pt_review_complete patch = Some True \<or>
      (\<exists>existing. get_scheduled_post team post db = Inr existing \<and>
         s = resolve_post_status_on_update now (sp_status existing) (sp_source existing)
           (fst (apply_post_patch existing (list_post_versions_for_team_post team post db) patch)))) q"
proof -
  let ?st = "\<lambda>s. pt_review_complete patch = Some True \<or> (\<exists>existing. get_scheduled_post team post db = Inr existing \<and>
         s = resolve_post_status_on_update now (sp_status existing) (sp_source existing)
           (fst (apply_post_patch existing (list_post_versions_for_team_post team post db) patch)))"
  have triv: "others_same post db db \<and> (\<forall>q \<in> set (sd_posts db). row_from (sd_posts db) ?st q)" by (simp add: row_from_def)
  have "others_same post db db' \<and> (\<forall>q \<in> set (sd_posts db'). row_from (sd_posts db) ?st q)"
  proof (cases "get_scheduled_post team post db")
    case (Inl e)
    with assms triv show ?thesis by (simp add: patch_scheduled_post_def)
  next
    case (Inr existing)
    obtain merged flags where m: "apply_post_patch existing (list_post_versions_for_team_post team post db) patch = (merged, flags)"
      by fastforce
    define body :: "unit store_op" where "body = and_then (\<lambda>db. (Inr (), patch_post_columns now team post existing merged flags db)) (\<lambda>_.
     and_then (\<lambda>db. if pf_versions flags then insert_versions post (in_override merged)
                  (db\<lparr>sd_versions := delete_where (\<lambda>v. pv_post_id v = post) (sd_versions db)\<rparr>) else (Inr (), db)) (\<lambda>_ db.
       if pf_target_accounts flags then insert_targets post (in_target_accounts merged)
                  (db\<lparr>sd_targets := delete_where (\<lambda>t. tg_post t = post) (sd_targets db)\<rparr>) else (Inr (), db)))"
    have d: "db' = (if pt_review_complete patch = Some True then snd (complete_review now team post (in_scheduled_at merged) db)
       else if \<not> patch_any flags then db else snd (with_audit_transaction body db))"
      using assms by (auto simp: patch_scheduled_post_def Inr m body_def split: prod.splits sum.splits if_splits)
    have tr: "others_same post db d4 \<and> (\<forall>q \<in> set (sd_posts d4). row_from (sd_posts db) ?st q)" if b: "body db = (Inr x, d4)" for x d4
    proof -
      define d1 where "d1 = patch_post_columns now team post existing merged flags db"
      from b obtain d2 where 2: "(if pf_versions flags then insert_versions post (in_override merged)
          (d1\<lparr>sd_versions := delete_where (\<lambda>v. pv_post_id v = post) (sd_versions d1)\<rparr>) else (Inr (), d1)) = (Inr (), d2)"
        and 3: "(if pf_target_accounts flags then insert_targets post (in_target_accounts merged)
          (d2\<lparr>sd_targets := delete_where (\<lambda>t. tg_post t = post) (sd_targets d2)\<rparr>) else (Inr (), d2)) = (Inr x, d4)"
        unfolding body_def d1_def and_then_Inr by auto
      have 21: "others_same post d1 d2 \<and> sd_posts d2 = sd_posts d1"
        using 2 others_same_trans [OF drop_others(1)] by (auto split: if_splits dest!: insert_versions_others)
      have 32: "others_same post d2 d4 \<and> sd_posts d4 = sd_posts d2"
        using 3 others_same_trans [OF drop_others(2)] by (auto split: if_splits dest!: insert_targets_others)
      have "others_same post db d1" "\<forall>q \<in> set (sd_posts d1). row_from (sd_posts db) ?st q"
        using patch_columns_others [of post db now team existing merged flags] by (auto simp: d1_def Inr m row_from_def)
      with 21 32 show ?thesis by (auto intro: others_same_trans)
    qed
    consider "pt_review_complete patch = Some True" | "pt_review_complete patch \<noteq> Some True" "db' = db"
      | "db' = snd (with_audit_transaction body db)" using d by (auto split: if_splits)
    then show ?thesis
    proof cases
      case 1
      with d have "db' = snd (complete_review now team post (in_scheduled_at merged) db)" by simp
      moreover have "row_from (sd_posts db) ?st q" if "q \<in> set (sd_posts (snd (complete_review now team post (in_scheduled_at merged) db)))" for q
        by (rule row_from_mono [OF review_rows [OF that]]) (simp add: 1)
      ultimately show ?thesis using review_others [of post db now team "in_scheduled_at merged"] by simp
    next
      case 2
      then show ?thesis using triv by simp
    next
      case 3
      then show ?thesis by (cases rule: transaction_cases [of body db]) (use triv tr in auto)
    qed
  qed
  then show "others_same post db db'" "q \<in> set (sd_posts db') \<Longrightarrow> row_from (sd_posts db) ?st q" by auto
qed

section \<open>The other operations\<close>

lemma record_audit_rows:
  assumes "record_audit e fresh rq team action type target summary details db = (failed, db')"
  shows "same_rows db db'" and "store_ok db \<Longrightarrow> store_ok db'"
proof -
  have ev: "same_rows db d \<and> (store_ok db \<longrightarrow> store_ok d)" if "insert_audit_event now fresh ev db = (r, d)" for now ev r d
    using that event_ok(1) [of db now fresh ev] by (auto simp: insert_audit_event_def Let_def same_rows_def split: if_splits)
  have "same_rows db db' \<and> (store_ok db \<longrightarrow> store_ok db')"
    using assms ev by (auto simp: record_audit_def faulty_def split: if_splits option.splits prod.splits sum.splits)
  then show "same_rows db db'" "store_ok db \<Longrightarrow> store_ok db'" by auto
qed

lemma recorded_rows:
  assumes "recorded x rq team action target summary details answer db = (ans, failed, db')"
  shows "ans = answer" "same_rows db db'" "store_ok db \<Longrightarrow> store_ok db'"
  using assms record_audit_rows unfolding recorded_def by (auto split: prod.splits)

lemma cancel_others: "others_same post db (cancel_scheduled_post now team post db)"
  unfolding cancel_scheduled_post_def others_same_def by (simp, rule filter_update_where) auto

lemma cancel_rows:
  assumes "q \<in> set (sd_posts (cancel_scheduled_post now team post db))" "rw_id q = post"
  shows "\<exists>r \<in> set (sd_posts db). rw_id r = post \<and> rw_team q = rw_team r \<and> (rw_team r = team \<longrightarrow> rw_status q = Cancelled)"
proof -
  let ?f = "on_post (\<lambda>s. s\<lparr>sp_status := Cancelled\<rparr>) now"
  have "q \<in> set (update_where (\<lambda>r. rw_id r = post \<and> rw_team r = team) ?f (sd_posts db))"
    using assms(1) by (simp add: cancel_scheduled_post_def)
  then obtain r where r: "r \<in> set (sd_posts db)" "q = (if rw_id r = post \<and> rw_team r = team then ?f r else r)"
    unfolding update_where_def by auto
  from r(2) assms(2) show ?thesis by (intro bexI [OF _ r(1)]) (simp split: if_splits)
qed

lemma filter_delete_gone:
  "filter (\<lambda>t. key t \<noteq> post) (delete_where (\<lambda>t. key t \<in> rw_id ` {r \<in> rs. rw_id r = post \<and> rw_team r = team}) xs) =
     filter (\<lambda>t. key t \<noteq> post) xs"
  by (rule filter_delete_where) auto

lemma delete_others: "others_same post db (delete_scheduled_post team post db)"
  unfolding delete_scheduled_post_def delete_post_rows_def Let_def others_same_def
  using filter_delete_where [of "\<lambda>r. rw_id r = post \<and> rw_team r = team" rw_id post "sd_posts db"]
    filter_delete_gone [of tg_post post "set (sd_posts db)" team "sd_targets db"]
    filter_delete_gone [of pv_post_id post "set (sd_posts db)" team "sd_versions db"]
  by simp

lemma delete_rows:
  "q \<in> set (sd_posts (delete_scheduled_post team post db)) \<Longrightarrow> q \<in> set (sd_posts db) \<and> (rw_id q = post \<longrightarrow> rw_team q \<noteq> team)"
  by (auto simp: delete_scheduled_post_def delete_post_rows_def Let_def)

lemma upsert_skip_rows: "same_rows db (upsert_skip scope t at db) \<and> same_keys db (upsert_skip scope t at db)"
proof -
  have "\<exists>ks. upsert_skip scope t at db = db\<lparr>sd_skips := ks\<rparr>" by (cases "find_skip t at db = None") (auto simp: upsert_skip_def)
  then obtain ks where "upsert_skip scope t at db = db\<lparr>sd_skips := ks\<rparr>" by blast
  then show ?thesis by (simp add: same_rows_def same_keys_def post_ids_def account_ids_def target_keys_def version_keys_def)
qed

lemma skip_rows:
  "same_rows db (skip_recurring_occurrence_for_deleted_post x team post db) \<and>
   same_keys db (skip_recurring_occurrence_for_deleted_post x team post db)"
proof (cases "look x ''template link'' (get_scheduled_post_template_link team post) db")
  case (Inr l)
  obtain t at role where l: "l = (t, at, role)" by (cases l)
  have a: "same_rows db (snd (faulty e call (add_post_template_announcement_skip team t occ) db))"
    "same_keys db (snd (faulty e call (add_post_template_announcement_skip team t occ) db))"
    "same_rows db (snd (faulty e call (add_post_template_skip team t occ) db))"
    "same_keys db (snd (faulty e call (add_post_template_skip team t occ) db))" for e call occ
    using upsert_skip_rows
    by (simp_all add: faulty_def add_post_template_skip_def add_post_template_announcement_skip_def split: option.split)
  show ?thesis
    unfolding skip_recurring_occurrence_for_deleted_post_def Inr l
    by (cases at) (simp_all add: a)
qed (simp add: skip_recurring_occurrence_for_deleted_post_def)

lemma put_version_ok:
  assumes ok: "store_ok db" and t: "list_ex (\<lambda>t. tg_post t = post \<and> tg_account t = a) (sd_targets db)"
  shows "store_ok (put_version post a content db)"
proof -
  let ?mine = "\<lambda>v. pv_post_id v = post \<and> pv_account_id v = a"
  let ?db' = "put_version post a content db"
  have pa: "post \<in> set (post_ids db)" "a \<in> set (account_ids db)"
    using ok t by (auto simp: store_ok_def links_ok_def target_keys_def list_ex_iff image_subset_iff)
  have old: "links_ok db (version_keys db)" using ok by (simp add: store_ok_def)
  consider "trim_space content = []" | "trim_space content \<noteq> []" "list_ex ?mine (sd_versions db)"
    | "trim_space content \<noteq> []" "\<not> list_ex ?mine (sd_versions db)" by blast
  then have "links_ok db (version_keys ?db')"
  proof cases
    case 1
    then show ?thesis using old by (auto simp: put_version_def Let_def links_ok_def version_keys_def intro: distinct_delete_where)
  next
    case 2
    then have "version_keys ?db' = version_keys db"
      by (simp add: put_version_def version_keys_def map_update_where_key)
    with old show ?thesis by simp
  next
    case 3
    then have "version_keys ?db' = version_keys db @ [(post, a)]" "(post, a) \<notin> set (version_keys db)"
      by (auto simp: put_version_def Let_def version_keys_def list_ex_iff)
    with old pa show ?thesis by (simp add: links_ok_def)
  qed
  then have "links_ok ?db' (version_keys ?db')" by (simp add: links_ok_def put_version_def Let_def post_ids_def account_ids_def)
  with ok show ?thesis
    by (simp add: store_ok_def put_version_def Let_def teams_named_def accounts_ok_def logs_ok_def links_ok_def post_ids_def account_ids_def target_keys_def)
qed

lemma put_version_others:
  "others_same post db (put_version post a content db) \<and> sd_posts (put_version post a content db) = sd_posts db"
  by (auto simp: put_version_def Let_def others_same_def intro!: filter_update_where filter_delete_where)

lemma put_versions_rows:
  "put_versions post vs db = (res, db') \<Longrightarrow> others_same post db db' \<and> sd_posts db' = sd_posts db \<and> (store_ok db \<longrightarrow> store_ok db')"
proof (induction post vs db rule: put_versions.induct)
  case (2 post account content vs db)
  show ?case
  proof (cases "trim_space account = [] \<or> \<not> list_ex (\<lambda>t. tg_post t = post \<and> tg_account t = trim_space account) (sd_targets db)")
    case True
    with 2 show ?thesis by (auto simp: Let_def split: if_splits)
  next
    case False
    with 2(3) have "put_versions post vs (put_version post (trim_space account) content db) = (res, db')" by (simp add: Let_def)
    from 2(2) [OF refl _ _ this] False put_version_others [of post db "trim_space account" content] put_version_ok [of db post "trim_space account" content]
    show ?thesis by (auto intro: others_same_trans)
  qed
qed auto

lemma versions_patch_rows:
  assumes "apply_post_versions_patch team post vs db = (res, db')"
  shows "others_same post db db' \<and> sd_posts db' = sd_posts db \<and> (store_ok db \<longrightarrow> store_ok db') \<and>
    (case res of Inl _ \<Rightarrow> True | Inr _ \<Rightarrow> \<exists>r. find_post post db = Some r \<and> rw_team r = team)"
  using assms put_versions_rows [of post vs db]
  by (auto simp: apply_post_versions_patch_def with_audit_transaction_def split: option.splits prod.splits sum.splits if_splits)

section \<open>Handlers\<close>

text \<open>A change of one post the principal may edit, which leaves the post a draft or cancelled unless the principal may
  schedule.\<close>

definition edits_post :: "principal \<Rightarrow> store_db \<Rightarrow> store_db \<Rightarrow> bool" where
  "edits_post p db db' \<longleftrightarrow> (\<exists>i team. others_same i db db' \<and> principal_has_team_access (sd_identity db) p team [Editor, Owner] \<and>
     (\<forall>r \<in> set (sd_posts db). rw_id r = i \<longrightarrow> rw_team r = team) \<and>
     (\<forall>q \<in> set (sd_posts db'). rw_id q = i \<longrightarrow> rw_team q = team \<and>
        (principal_allows p scope_write_schedule \<or> rw_status q = Draft \<or> rw_status q = Cancelled)))"

lemma edits_postI:
  assumes "others_same i db db'" "principal_has_team_access (sd_identity db) p team [Editor, Owner]"
    and "\<And>r. r \<in> set (sd_posts db) \<Longrightarrow> rw_id r = i \<Longrightarrow> rw_team r = team"
    and "\<And>q. q \<in> set (sd_posts db') \<Longrightarrow> rw_id q = i \<Longrightarrow>
      rw_team q = team \<and> (principal_allows p scope_write_schedule \<or> rw_status q = Draft \<or> rw_status q = Cancelled)"
  shows "edits_post p db db'"
  unfolding edits_post_def using assms by blast

definition proper :: "principal \<Rightarrow> store_db \<Rightarrow> store_db \<Rightarrow> bool" where
  "proper p db db' \<longleftrightarrow> (same_rows db db' \<or> edits_post p db db') \<and> store_ok db'"

lemma edits_post_then: "edits_post p db d \<Longrightarrow> same_rows d db' \<Longrightarrow> edits_post p db db'"
  by (simp add: edits_post_def same_rows_def others_same_def)

lemma proper_same: "store_ok db \<Longrightarrow> same_rows db db' \<Longrightarrow> store_ok db' \<Longrightarrow> proper p db db'"
  by (simp add: proper_def)

lemma scan_post_simps [simp]:
  "sp_id (scan_post db r) = rw_id r" "sp_team_id (scan_post db r) = rw_team r" "sp_status (scan_post db r) = rw_status r"
  by (simp_all add: scan_post_def Let_def)

lemma find_post_unique:
  assumes "store_ok db" "find_post post db = Some r"
  shows "r \<in> set (sd_posts db)" "rw_id r = post" "q \<in> set (sd_posts db) \<Longrightarrow> rw_id q = post \<Longrightarrow> q = r"
  using assms distinct_key_unique [of rw_id "sd_posts db"]
  by (auto simp: find_post_def store_ok_def post_ids_def dest!: find_SomeD)

lemma loaded_post:
  assumes "store_ok db" "look x call (get_scheduled_post_by_id post) db = Inr existing"
  obtains r where "r \<in> set (sd_posts db)" "rw_id r = post" "existing = scan_post db r"
    "\<And>q. q \<in> set (sd_posts db) \<Longrightarrow> rw_id q = post \<Longrightarrow> q = r"
proof (cases "find_post post db")
  case None
  then show thesis using look_Inr [OF assms(2)] by (simp add: get_scheduled_post_by_id_def)
next
  case (Some r)
  note u = find_post_unique [OF assms(1) Some]
  have "existing = scan_post db r" using look_Inr [OF assms(2)] Some by (simp add: get_scheduled_post_by_id_def)
  then show thesis by (rule that [OF u(1) u(2) _ u(3)])
qed

lemma team_access_edit:
  "team_access x p team roles db \<Longrightarrow> set roles \<subseteq> {Editor, Owner} \<Longrightarrow> principal_has_team_access (sd_identity db) p team [Editor, Owner]"
  by (cases "find_member (u_id (p_user p)) team (sd_identity db)")
    (auto simp: team_access_def principal_has_team_access_def user_has_any_team_role_def split: if_splits)

lemma create_fresh:
  assumes "create_scheduled_post now fresh team pr inp db = (Inr post, db')"
  shows "fresh \<notin> rw_id ` set (sd_posts db)"
proof (rule ccontr)
  assume "\<not> fresh \<notin> rw_id ` set (sd_posts db)"
  then have "insert_post (new_post_row now fresh team pr inp) db = (Inl Constraint, db)"
    unfolding insert_post_def Let_def by (simp only: new_row_simps) simp
  then have "and_then (insert_post (new_post_row now fresh team pr inp)) k db = (Inl Constraint, db)" for k :: "unit \<Rightarrow> unit store_op"
    by (simp add: and_then_def)
  with assms show False by (simp add: create_scheduled_post_def with_audit_transaction_def)
qed

lemma created_proper:
  assumes ok: "store_ok db" and c: "faulty e call (create_scheduled_post now fresh team pr inp) db = (Inr post, d)"
    and acc: "principal_has_team_access (sd_identity db) p team [Editor, Owner]"
    and sc: "in_draft inp \<or> principal_allows p scope_write_schedule"
    and rec: "same_rows d db'" "store_ok d \<Longrightarrow> store_ok db'"
  shows "proper p db db'"
proof -
  from c have c: "create_scheduled_post now fresh team pr inp db = (Inr post, d)" by (elim faulty_cases) auto
  note f = create_fresh [OF c] and o = create_others [OF c]
  have old: "q \<notin> set (sd_posts db)" if "rw_id q = fresh" for q using f that by blast
  have "edits_post p db d"
    unfolding edits_post_def
    by (intro exI [of _ fresh] exI [of _ team]) (use o acc sc old f in auto)
  moreover have "store_ok d" using create_ok [OF ok, of now fresh team pr inp] c by simp
  ultimately show ?thesis using rec edits_post_then by (auto simp: proper_def)
qed

lemmas refusals = refuse_def store_problem_def prepare_problem_def

lemma prepare_keeps_draft: "prepare_post x team inp opts db = Inr res \<Longrightarrow> in_draft (pr_input res) = in_draft inp"
  by (auto simp: prepare_post_def prepare_def Let_def normalize_input_def split: if_splits sum.splits prod.splits)

lemma create_proper:
  assumes ok: "store_ok db" and h: "handle_create_post x rq p team body db = ((status, ans), False, db')" and "status < 400"
  shows "proper p db db'"
proof -
  from h \<open>status < 400\<close> obtain raw where body: "body = Some raw" by (cases body) (auto simp: handle_create_post_def refusals)
  define inp where "inp = requested_time (ax_now x) (client_input raw)"
  let ?opts = "\<lparr>po_check_limits = (\<not> in_draft inp), po_require_team = True, po_reject_past = (\<not> in_publish_now inp)\<rparr>"
  note h = h [unfolded handle_create_post_def body option.case Let_def, folded inp_def]
  have sc: "principal_allows p (if in_draft inp then scope_write_draft else scope_write_schedule)"
    by (rule ccontr) (use h \<open>status < 400\<close> in \<open>simp add: refusals\<close>)
  show ?thesis
  proof (cases "prepare_post x (trim_space team) inp ?opts db")
    case (Inl e)
    with h sc \<open>status < 400\<close> show ?thesis by (simp add: refusals split: if_splits)
  next
    case (Inr res)
    have acc: "vr_valid (pr_validation res) \<and> team_access x p (pr_team res) [Editor, Owner] db"
      by (rule ccontr) (use h sc Inr \<open>status < 400\<close> in \<open>auto simp: refusals split: if_splits\<close>)
    obtain r d where c: "faulty (ax_env x) ''create''
        (create_scheduled_post (ax_now x) (ax_fresh x ''post'') (pr_team res) p (pr_input res)) db = (r, d)" by (metis surj_pair)
    from h sc Inr acc c \<open>status < 400\<close> obtain post where r: "r = Inr post"
      and rec: "recorded x rq (pr_team res) ''post.create'' (sp_id post) ''Created post'' [] (201, Post_Body post) d = ((status, ans), False, db')"
      by (cases r) (simp_all add: refusals)
    show ?thesis
      by (rule created_proper [OF ok c [unfolded r] team_access_edit _ recorded_rows(2) [OF rec] recorded_rows(3) [OF rec]])
        (use acc sc prepare_keeps_draft [OF Inr] in \<open>auto split: if_splits\<close>)
  qed
qed

lemma draft_proper:
  assumes ok: "store_ok db" and h: "handle_create_ai_draft a rq p team body db = ((status, ans), False, db')" and "status < 400"
    and acc: "principal_has_team_access (sd_identity db) p team [Editor, Owner]"
  shows "proper p db db'"
proof -
  from h \<open>status < 400\<close> obtain dq where body: "body = Some dq" by (cases body) (auto simp: handle_create_ai_draft_def refusals)
  let ?x = "api_auto a" and ?inp0 = "draft_post_input (ax_now (api_auto a)) p dq"
  define inp where "inp = (if api_auto_publish a team \<and> given_time (dq_scheduled_at dq) then ?inp0\<lparr>in_draft := False\<rparr> else ?inp0)"
  note h = h [unfolded handle_create_ai_draft_def body option.case Let_def, folded inp_def]
  let ?load = "\<lambda>ids. case en_fail (ax_env ?x) ''accounts'' of Some err \<Rightarrow> Err err | None \<Rightarrow> get_accounts_by_ids_global db ids"
  have c0: "trim_space (dq_content dq) \<noteq> []" by (rule ccontr) (use h \<open>status < 400\<close> in \<open>simp add: refusals\<close>)
  from h c0 \<open>status < 400\<close> obtain ts where t: "resolve_targets ?load team (normalize_media_ids (dq_accounts dq))
      (map fst (filter (\<lambda>(_, c). trim_space c \<noteq> []) (dq_override dq))) = Inr ts"
    by (cases "resolve_targets ?load team (normalize_media_ids (dq_accounts dq))
      (map fst (filter (\<lambda>(_, c). trim_space c \<noteq> []) (dq_override dq)))") (simp_all add: refusals)
  have sc: "in_draft inp \<or> principal_allows p scope_write_schedule"
    by (rule ccontr) (use h c0 t \<open>status < 400\<close> in \<open>simp add: refusals\<close>)
  obtain r d where c: "faulty (ax_env ?x) ''create'' (create_scheduled_post (ax_now ?x) (ax_fresh ?x ''post'') team p inp) db = (r, d)"
    by (metis surj_pair)
  have "\<not> (\<not> in_draft inp \<and> \<not> principal_allows p scope_write_schedule)" using sc by blast
  with h c0 t c \<open>status < 400\<close> obtain post details where r: "r = Inr post"
    and rec: "recorded ?x rq team ''post.create'' (sp_id post) ''Created AI draft'' details (201, Post_Body post) d = ((status, ans), False, db')"
    by (cases r) (simp_all add: refusals)
  show ?thesis by (rule created_proper [OF ok c [unfolded r] acc sc recorded_rows(2) [OF rec] recorded_rows(3) [OF rec]])
qed

lemma delete_proper:
  assumes ok: "store_ok db" and h: "handle_delete_post x rq p post db = ((status, ans), False, db')" and "status < 400"
  shows "proper p db db'"
proof -
  from h \<open>status < 400\<close> obtain existing where l: "look x ''post'' (get_scheduled_post_by_id post) db = Inr existing"
    by (cases "look x ''post'' (get_scheduled_post_by_id post) db") (simp_all add: handle_delete_post_def refusals)
  obtain r0 where r0: "r0 \<in> set (sd_posts db)" "rw_id r0 = post" "existing = scan_post db r0"
    and u: "\<And>q. q \<in> set (sd_posts db) \<Longrightarrow> rw_id q = post \<Longrightarrow> q = r0" using loaded_post [OF ok l] by metis
  note h = h [unfolded handle_delete_post_def l sum.case]
  have acc: "principal_allows p (post_delete_scope (sp_status existing)) \<and> team_access x p (sp_team_id existing) [Editor, Owner] db"
    by (rule ccontr) (use h \<open>status < 400\<close> in \<open>auto simp: refusals split: if_splits\<close>)
  let ?team = "sp_team_id existing" and ?d0 = "skip_recurring_occurrence_for_deleted_post x (sp_team_id existing) post db"
  obtain r d where c: "faulty (ax_env x) ''delete'' (always (delete_scheduled_post ?team post)) ?d0 = (r, d)" by (metis surj_pair)
  from h acc c \<open>status < 400\<close> have r: "r = Inr ()"
    and rec: "recorded x rq ?team ''post.delete'' post ''Deleted post'' [] (204, No_Body) d = ((status, ans), False, db')"
    by (cases r; simp add: refusals)+
  from c r have d: "d = delete_scheduled_post ?team post ?d0" by (auto simp: always_def elim: faulty_cases)
  note sk = skip_rows [of db x ?team post]
  have ok1: "store_ok d" unfolding d delete_scheduled_post_def
    using delete_post_rows_ok same_keys_ok [OF conjunct2 [OF sk] ok] by blast
  have o: "others_same post db d"
    using others_same_trans [OF same_rows_others [OF conjunct1 [OF sk]] delete_others] by (simp add: d)
  have n: "rw_id q \<noteq> post" if "q \<in> set (sd_posts d)" for q
  proof
    assume "rw_id q = post"
    moreover have "q \<in> set (sd_posts ?d0)" "rw_id q = post \<longrightarrow> rw_team q \<noteq> ?team" using delete_rows that by (auto simp: d)
    ultimately have "q \<in> set (sd_posts db)" "rw_id q = post" "rw_team q \<noteq> ?team" using sk by (auto simp: same_rows_def)
    with u [of q] r0 show False by simp
  qed
  have "edits_post p db d"
  proof (rule edits_postI [OF o])
    show "principal_has_team_access (sd_identity db) p ?team [Editor, Owner]" using team_access_edit [OF conjunct2 [OF acc]] by simp
    show "rw_team r = ?team" if "r \<in> set (sd_posts db)" "rw_id r = post" for r using u [OF that] r0(3) by simp
  qed (use n in blast)
  then show ?thesis using recorded_rows(2,3) [OF rec] ok1 edits_post_then by (auto simp: proper_def)
qed

lemma cancel_proper:
  assumes ok: "store_ok db" and h: "handle_cancel_post x rq p post db = ((status, ans), False, db')" and "status < 400"
  shows "proper p db db'"
proof -
  from h \<open>status < 400\<close> obtain existing where l: "look x ''post'' (get_scheduled_post_by_id post) db = Inr existing"
    by (cases "look x ''post'' (get_scheduled_post_by_id post) db") (simp_all add: handle_cancel_post_def refusals)
  obtain r0 where r0: "r0 \<in> set (sd_posts db)" "rw_id r0 = post" "existing = scan_post db r0"
    and u: "\<And>q. q \<in> set (sd_posts db) \<Longrightarrow> rw_id q = post \<Longrightarrow> q = r0" using loaded_post [OF ok l] by metis
  note h = h [unfolded handle_cancel_post_def l sum.case]
  have acc: "principal_allows p (post_write_scope (sp_status existing)) \<and> team_access x p (sp_team_id existing) [Editor, Owner] db"
    by (rule ccontr) (use h \<open>status < 400\<close> in \<open>auto simp: refusals split: if_splits\<close>)
  show ?thesis
  proof (cases "sp_status existing = Cancelled")
    case True
    with h acc have "db' = db" by simp
    with ok show ?thesis by (simp add: proper_same)
  next
    case False
    let ?team = "sp_team_id existing"
    obtain r d where c: "faulty (ax_env x) ''cancel'' (always (cancel_scheduled_post (ax_now x) ?team post)) db = (r, d)" by (metis surj_pair)
    from h acc c False \<open>status < 400\<close> have r: "r = Inr ()"
      and rec: "recorded x rq ?team ''post.cancel'' post ''Cancelled post'' [] (204, No_Body) d = ((status, ans), False, db')"
      by (cases r; simp add: refusals)+
    from c r have d: "d = cancel_scheduled_post (ax_now x) ?team post db" by (auto simp: always_def elim: faulty_cases)
    have ok1: "store_ok d" using post_step_ok [OF ps_cancel ok] by (simp add: d)
    have "edits_post p db d"
    proof (rule edits_postI [OF cancel_others [of post db "ax_now x" ?team, folded d]])
      show "principal_has_team_access (sd_identity db) p ?team [Editor, Owner]" using team_access_edit [OF conjunct2 [OF acc]] by simp
      show t: "rw_team r = ?team" if "r \<in> set (sd_posts db)" "rw_id r = post" for r using u [OF that] r0(3) by simp
      show "rw_team q = ?team \<and> (principal_allows p scope_write_schedule \<or> rw_status q = Draft \<or> rw_status q = Cancelled)"
        if "q \<in> set (sd_posts d)" "rw_id q = post" for q
        using cancel_rows [of q "ax_now x" ?team post db] that t by (auto simp: d)
    qed
    then show ?thesis using recorded_rows(2,3) [OF rec] ok1 edits_post_then by (auto simp: proper_def)
  qed
qed

lemma versions_proper:
  assumes ok: "store_ok db" and h: "handle_patch_post_versions x rq team post body db = ((status, ans), False, db')" and "status < 400"
    and acc: "principal_has_team_access (sd_identity db) p team [Editor, Owner]" "principal_allows p scope_write_schedule"
  shows "proper p db db'"
proof -
  from h \<open>status < 400\<close> obtain q0 where l0: "look x ''post'' (get_scheduled_post team post) db = Inr q0"
    by (cases "look x ''post'' (get_scheduled_post team post) db") (simp_all add: handle_patch_post_versions_def refusals)
  from h l0 \<open>status < 400\<close> obtain rows where body: "body = Some rows" by (cases body) (simp_all add: handle_patch_post_versions_def refusals)
  let ?vs = "map (\<lambda>(a, c). (trim_space a, trim_space c)) (filter (\<lambda>(a, _). trim_space a \<noteq> []) rows)"
  note h = h [unfolded handle_patch_post_versions_def l0 sum.case body option.case]
  from h \<open>status < 400\<close> obtain before where l1: "look x ''versions'' (\<lambda>db. Inr (list_post_versions_for_team_post team post db)) db = Inr before"
    by (cases "look x ''versions'' (\<lambda>db. Inr (list_post_versions_for_team_post team post db)) db") (simp_all add: refusals)
  note h = h [unfolded l1 sum.case]
  obtain r d where c: "faulty (ax_env x) ''versions patch'' (apply_post_versions_patch team post ?vs) db = (r, d)" by (metis surj_pair)
  from h c \<open>status < 400\<close> have r: "r = Inr ()" by (cases r) (auto simp: refusals split: if_splits)
  note h = h [unfolded c r prod.case sum.case]
  from c r have a: "apply_post_versions_patch team post ?vs db = (Inr (), d)" by (elim faulty_cases) auto
  from h \<open>status < 400\<close> obtain items where l2: "look x ''versions after'' (\<lambda>db. Inr (list_post_versions_for_team_post team post db)) d = Inr items"
    by (cases "look x ''versions after'' (\<lambda>db. Inr (list_post_versions_for_team_post team post db)) d") (simp_all add: refusals)
  note h = h [unfolded l2 sum.case]
  have e: "same_rows d db' \<and> (store_ok d \<longrightarrow> store_ok db')"
    by (cases "audit_versions_changed before items") (use h recorded_rows(2,3) in auto)
  obtain r0 where f: "find_post post db = Some r0" "rw_team r0 = team" using versions_patch_rows [OF a] by auto
  have o: "others_same post db d" "sd_posts d = sd_posts db" "store_ok d" using versions_patch_rows [OF a] ok by auto
  have t: "rw_team q = team" if "q \<in> set (sd_posts db)" "rw_id q = post" for q
    using find_post_unique(3) [OF ok f(1) that] f(2) by simp
  have "edits_post p db d" by (rule edits_postI [OF o(1) acc(1) t]) (use t o(2) acc(2) in auto)
  then show ?thesis using e o(3) edits_post_then by (auto simp: proper_def)
qed

lemma update_prepared_rows:
  assumes h: "update_prepared x rq existing post patch db = ((status, ans), False, db')" and "status < 400"
  obtains updated d where "patch_scheduled_post (ax_now x) (sp_team_id existing) post patch db = (Inr updated, d)"
    "same_rows d db'" "store_ok d \<longrightarrow> store_ok db'"
proof -
  let ?vs = "\<lambda>db. Inr (list_post_versions_for_team_post (sp_team_id existing) (sp_id existing) db) :: store_error + post_version list"
  from h \<open>status < 400\<close> obtain versions where l1: "look x ''versions'' ?vs db = Inr versions"
    by (cases "look x ''versions'' ?vs db") (simp_all add: update_prepared_def refusals)
  define m where "m = merged_input existing versions patch"
  let ?opts = "\<lparr>po_check_limits = (\<not> in_draft m), po_require_team = True, po_reject_past = (pt_publish_now patch \<noteq> Some True)\<rparr>"
  note h = h [unfolded update_prepared_def l1 sum.case Let_def, folded m_def]
  from h \<open>status < 400\<close> obtain res where pr: "prepare_post x (sp_team_id existing) m ?opts db = Inr res"
    by (cases "prepare_post x (sp_team_id existing) m ?opts db") (simp_all add: refusals split: if_splits)
  note h = h [unfolded pr sum.case]
  have v: "vr_valid (pr_validation res)" by (rule ccontr) (use h \<open>status < 400\<close> in simp)
  obtain r d where c: "faulty (ax_env x) ''patch'' (patch_scheduled_post (ax_now x) (sp_team_id existing) post patch) db = (r, d)"
    by (metis surj_pair)
  from h v c \<open>status < 400\<close> obtain updated where r: "r = Inr updated" by (cases r) (auto simp: refusals split: if_splits)
  have a: "patch_scheduled_post (ax_now x) (sp_team_id existing) post patch db = (Inr updated, d)"
    using c r by (elim faulty_cases) auto
  define changed where "changed = (if pt_override patch = None then Inr False
      else (case look x ''versions after'' ?vs d of Inl e \<Rightarrow> Inl e | Inr after \<Rightarrow> Inr (audit_versions_changed versions after)))"
  from h v c r have h: "(case changed of Inl (_ :: store_error) \<Rightarrow> refuse 500 ''internal_error'' d
      | Inr changed \<Rightarrow> if audit_changed existing updated \<or> changed
          then recorded x rq (sp_team_id existing) ''post.update'' (sp_id updated) ''Updated post'' [] (200, Post_Body updated) d
          else ((200, Post_Body updated), False, d)) = ((status, ans), False, db')"
    by (simp add: changed_def)
  have "same_rows d db' \<and> (store_ok d \<longrightarrow> store_ok db')"
  proof (cases changed)
    case (Inl e)
    with h \<open>status < 400\<close> show ?thesis by (simp add: refusals)
  next
    case (Inr b)
    with h show ?thesis
      by (cases "audit_changed existing updated \<or> b") (use recorded_rows(2,3) in auto)
  qed
  with a that show thesis by blast
qed

lemma resolved_draft:
  "source \<noteq> source_imported \<Longrightarrow> in_draft inp \<Longrightarrow> resolve_post_status_on_update now Draft source inp = Draft"
  by (simp add: resolve_post_status_on_update_def)

lemma merged_draft:
  "sp_status existing = Draft \<Longrightarrow> pt_draft patch \<noteq> Some False \<Longrightarrow> in_draft (fst (apply_post_patch existing vs patch))"
  by (auto simp: apply_post_patch_def Let_def set_or_def split: option.split)

lemma update_proper:
  assumes ok: "store_ok db" and h: "handle_update_post x rq p post body db = ((status, ans), False, db')" and "status < 400"
  shows "proper p db db'"
proof -
  from h \<open>status < 400\<close> obtain existing where l: "look x ''post'' (get_scheduled_post_by_id post) db = Inr existing"
    by (cases "look x ''post'' (get_scheduled_post_by_id post) db") (simp_all add: handle_update_post_def refusals)
  obtain r0 where r0: "r0 \<in> set (sd_posts db)" "rw_id r0 = post" "existing = scan_post db r0"
    and u: "\<And>q. q \<in> set (sd_posts db) \<Longrightarrow> rw_id q = post \<Longrightarrow> q = r0" using loaded_post [OF ok l] by metis
  let ?team = "sp_team_id existing"
  note h = h [unfolded handle_update_post_def l sum.case]
  have src: "sp_source existing \<noteq> source_imported" by (rule notI) (use h \<open>status < 400\<close> in \<open>simp add: refusals\<close>)
  have acc: "team_access x p ?team [Editor, Owner] db" by (rule ccontr) (use h src \<open>status < 400\<close> in \<open>simp add: refusals\<close>)
  from h src acc \<open>status < 400\<close> obtain raw where body: "body = Some raw" by (cases body) (simp_all add: refusals)
  from h src acc body \<open>status < 400\<close> have rv: "review_problem raw = None" by (cases "review_problem raw") (simp_all add: refusals)
  define patch where "patch = publish_patch (ax_now x) raw"
  from h src acc body rv \<open>status < 400\<close> have sc: "principal_allows p (required_write_scope (sp_status existing) patch)"
    and up: "update_prepared x rq existing post patch db = ((status, ans), False, db')"
    by (simp_all add: refusals Let_def patch_def split: if_splits)
  obtain updated d where a: "patch_scheduled_post (ax_now x) ?team post patch db = (Inr updated, d)"
    and rows: "same_rows d db'" "store_ok d \<longrightarrow> store_ok db'" by (rule update_prepared_rows [OF up \<open>status < 400\<close>])
  have ok1: "store_ok d" using patch_ok [OF ok, of "ax_now x" ?team post patch] a by simp
  have t: "rw_team r = ?team" if "r \<in> set (sd_posts db)" "rw_id r = post" for r using u [OF that] r0(3) by simp
  have got: "get_scheduled_post ?team post db = Inr e \<Longrightarrow> e = existing" for e
    using u r0(3) by (auto simp: get_scheduled_post_def split: option.splits dest!: find_SomeD)
  have st: "principal_allows p scope_write_schedule \<or>
      (sp_status existing = Draft \<and> pt_draft patch \<noteq> Some False \<and> pt_review_complete patch \<noteq> Some True)"
    using sc by (auto simp: required_write_scope_def post_write_scope_def Let_def split: if_splits option.splits)
  have new: "rw_team q = ?team \<and> (principal_allows p scope_write_schedule \<or> rw_status q = Draft \<or> rw_status q = Cancelled)"
    if q: "q \<in> set (sd_posts d)" "rw_id q = post" for q
  proof (cases "q \<in> set (sd_posts db)")
    case True
    with q st t u r0(3) show ?thesis by fastforce
  next
    case False
    with patch_others(2) [OF a q(1)] have "\<exists>r \<in> set (sd_posts db). rw_id q = rw_id r \<and> rw_team q = rw_team r \<and>
        (pt_review_complete patch = Some True \<or> (\<exists>e. get_scheduled_post ?team post db = Inr e \<and>
         rw_status q = resolve_post_status_on_update (ax_now x) (sp_status e) (sp_source e)
           (fst (apply_post_patch e (list_post_versions_for_team_post ?team post db) patch))))"
      unfolding row_from_def by (simp only: simp_thms)
    then obtain r where r: "r \<in> set (sd_posts db)" "rw_id q = rw_id r" "rw_team q = rw_team r"
      and s: "pt_review_complete patch = Some True \<or> (\<exists>e. get_scheduled_post ?team post db = Inr e \<and>
         rw_status q = resolve_post_status_on_update (ax_now x) (sp_status e) (sp_source e)
           (fst (apply_post_patch e (list_post_versions_for_team_post ?team post db) patch)))" by blast
    have "rw_status q = Draft" if "sp_status existing = Draft" "pt_draft patch \<noteq> Some False" "pt_review_complete patch \<noteq> Some True"
      using s that got resolved_draft [OF src merged_draft [OF that(1,2)]] by (metis that(1))
    moreover have "rw_team q = ?team" using t [OF r(1)] r(2,3) q(2) by simp
    ultimately show ?thesis using st by blast
  qed
  have "set [Editor, Owner] \<subseteq> {Editor, Owner}" by simp
  then have "edits_post p db d"
    by (rule edits_postI [OF patch_others(1) [OF a] team_access_edit [OF acc] t new])
  then show ?thesis using rows ok1 edits_post_then by (auto simp: proper_def)
qed

text \<open>Moving an account moves posts between two teams the principal owns.\<close>

definition moves_account :: "principal \<Rightarrow> store_db \<Rightarrow> store_db \<Rightarrow> bool" where
  "moves_account p db db' \<longleftrightarrow> sd_identity db' = sd_identity db \<and> sd_targets db' = sd_targets db \<and> sd_versions db' = sd_versions db \<and>
     (\<exists>a b ids now. principal_has_team_access (sd_identity db) p a [Editor, Owner] \<and>
        principal_has_team_access (sd_identity db) p b [Editor, Owner] \<and>
        (\<forall>r \<in> set (sd_posts db). rw_id r \<in> ids \<longrightarrow> rw_team r = a) \<and>
        sd_posts db' = update_where (\<lambda>r. rw_id r \<in> ids) (on_post (\<lambda>s. s\<lparr>sp_team_id := b\<rparr>) now) (sd_posts db))"

lemma migrate_moves:
  assumes ok: "store_ok db" and m: "migrate_account_to_team now user account b is_admin db = (Inr (), d)"
    and src: "get_account_by_id account db = Inr src"
    and acc: "principal_has_team_access (sd_identity db) p (sa_team_id src) [Editor, Owner]"
      "principal_has_team_access (sd_identity db) p b [Editor, Owner]"
  shows "moves_account p db d"
proof -
  define ids where "ids = set (map rw_id (filter (\<lambda>r. rw_team r = sa_team_id src \<and>
      list_ex (\<lambda>t. tg_post t = rw_id r \<and> tg_account t = account) (sd_targets db)) (sd_posts db)))"
  have d: "d = db\<lparr>sd_posts := update_where (\<lambda>r. rw_id r \<in> ids) (on_post (\<lambda>s. s\<lparr>sp_team_id := b\<rparr>) now) (sd_posts db),
      sd_accounts := update_where (\<lambda>a. sa_id a = account) (\<lambda>a. a\<lparr>sa_team_id := b\<rparr>) (sd_accounts db)\<rparr>"
    using m src by (simp add: migrate_account_to_team_def ids_def Let_def split: sum.splits if_splits)
  have "rw_team r = sa_team_id src" if "r \<in> set (sd_posts db)" "rw_id r \<in> ids" for r
  proof -
    from that(2) obtain r' where "r' \<in> set (sd_posts db)" "rw_id r' = rw_id r" "rw_team r' = sa_team_id src" by (auto simp: ids_def)
    with that(1) distinct_key_unique [of rw_id "sd_posts db" r r'] ok show ?thesis by (auto simp: store_ok_def post_ids_def)
  qed
  with acc show ?thesis unfolding moves_account_def d
    by (intro conjI exI [of _ "sa_team_id src"] exI [of _ b] exI [of _ ids] exI [of _ now]) simp_all
qed

lemma moves_then: "moves_account p db d \<Longrightarrow> same_rows d db' \<Longrightarrow> moves_account p db db'"
  by (simp add: moves_account_def same_rows_def)

lemma migrate_proper:
  assumes ok: "store_ok db" and h: "handle_migrate_account x rq p team account body db = ((status, ans), False, db')" and "status < 400"
  shows "moves_account p db db' \<and> store_ok db'"
proof -
  from h \<open>status < 400\<close> obtain dest where body: "body = Some dest" by (cases body) (simp_all add: handle_migrate_account_def refusals)
  note h = h [unfolded handle_migrate_account_def body option.case]
  have c0: "trim_space dest \<noteq> []" by (rule notI) (use h \<open>status < 400\<close> in \<open>simp add: refusals\<close>)
  from h c0 \<open>status < 400\<close> obtain src where l: "look x ''account'' (get_account_by_id account) db = Inr src"
    by (cases "look x ''account'' (get_account_by_id account) db") (simp_all add: refusals)
  from h c0 l \<open>status < 400\<close> have acc0: "sa_team_id src = team" by (cases "sa_team_id src = team") (simp_all add: refusals)
  note h = h [unfolded l sum.case acc0]
  have acc: "team_access x p team [Owner] db \<and> team_access x p dest [Owner] db"
    by (rule ccontr) (use h c0 \<open>status < 400\<close> in \<open>auto simp: refusals split: if_splits\<close>)
  let ?m = "migrate_account_to_team (ax_now x) (u_id (p_user p)) account dest (u_is_admin (p_user p))"
  obtain r d where c: "faulty (ax_env x) ''migrate'' ?m db = (r, d)" by (metis surj_pair)
  from h c0 acc c \<open>status < 400\<close> have r: "r = Inr ()" by (cases r) (auto simp: refusals split: if_splits)
  have m: "?m db = (Inr (), d)" using c r by (elim faulty_cases) auto
  from h c0 acc c r \<open>status < 400\<close> obtain ac where l2: "look x ''account after'' (get_account_by_id account) d = Inr ac"
    by (cases "look x ''account after'' (get_account_by_id account) d") (simp_all add: refusals)
  have e: "same_rows d db' \<and> (store_ok d \<longrightarrow> store_ok db')"
  proof (cases "team = sa_team_id ac")
    case True
    with h c0 acc c r l2 show ?thesis by auto
  next
    case False
    with h c0 acc c r l2 have "record_migration x rq account team (sa_team_id ac) d = (False, db')"
      by (auto split: prod.splits)
    then show ?thesis unfolding record_migration_def Let_def
      by (auto split: prod.splits dest: record_audit_rows intro: same_rows_trans)
  qed
  have "moves_account p db d"
    by (rule migrate_moves [OF ok m look_Inr [OF l]])
      (use acc acc0 team_access_edit [of x p _ "[Owner]" db] in simp_all)
  moreover have "store_ok d" using migrate_ok [OF ok, of "ax_now x" "u_id (p_user p)" account dest "u_is_admin (p_user p)"] m by simp
  ultimately show ?thesis using e moves_then by blast
qed

section \<open>Requests\<close>

lemma route_scopes:
  "token_route_allows p (routed team (Migrate_Account account body)) = principal_can_manage_api_token p [] None"
  "token_route_allows p (routed team (Patch_Versions post rows)) = principal_allows p scope_write"
proof -
  have s: "contains ''POST /v1/teams/{teamID}/accounts/{accountID}/migrate'' ''/accounts''"
    "has_suffix ''POST /v1/teams/{teamID}/accounts/{accountID}/migrate'' ''/migrate''"
    "\<not> contains ''PATCH /v1/teams/{teamID}/posts/{postID}/versions'' ''/members''"
    "\<not> contains ''PATCH /v1/teams/{teamID}/posts/{postID}/versions'' ''/invitations''"
    "\<not> contains ''PATCH /v1/teams/{teamID}/posts/{postID}/versions'' ''/ai-service-config''"
    "\<not> contains ''PATCH /v1/teams/{teamID}/posts/{postID}/versions'' ''/accounts''" by code_simp+
  have r: "route_path ''POST /v1/teams/{teamID}/accounts/{accountID}/migrate'' = ''/v1/teams/{teamID}/accounts/{accountID}/migrate''"
    "route_path ''PATCH /v1/teams/{teamID}/posts/{postID}/versions'' = ''/v1/teams/{teamID}/posts/{postID}/versions''" by code_simp+
  show "token_route_allows p (routed team (Migrate_Account account body)) = principal_can_manage_api_token p [] None"
    by (simp add: token_route_allows_def routed_def Let_def r s)
  show "token_route_allows p (routed team (Patch_Versions post rows)) = principal_allows p scope_write"
    by (simp add: token_route_allows_def routed_def Let_def r s own_token_routes_def read_scope_routes_def
        post_write_routes_def draft_write_routes_def)
qed

lemma write_covers_schedule: "principal_allows p scope_write \<Longrightarrow> principal_allows p scope_write_schedule"
proof -
  have "scope_satisfied ss scope_write \<Longrightarrow> scope_satisfied ss scope_write_schedule" for ss
    by (induction ss) (auto simp: scope_write_def scope_write_draft_def scope_write_schedule_def scope_delete_def
        scope_delete_draft_def scope_delete_schedule_def split: if_splits)
  then show "principal_allows p scope_write \<Longrightarrow> principal_allows p scope_write_schedule" by (auto simp: principal_allows_def)
qed

lemma request_proper:
  assumes ok: "store_ok db" and p: "aq_principal rq = Some p" and s: "serve_post_request a rq team r db = (answer, db')"
  shows "store_ok db' \<and> (same_rows db db' \<or> edits_post p db db' \<or> (moves_account p db db' \<and> principal_allows p scope_write_schedule))"
proof (cases "and_passed (api_gate (sd_identity db) p (routed team r)) (route_guard db p team r)")
  case (Refused_Request st code)
  with p s ok show ?thesis by (simp add: serve_post_request_def)
next
  case Passed
  then have g: "api_gate (sd_identity db) p (routed team r) = Passed" "route_guard db p team r = Passed"
    by (simp_all add: and_passed_def split: http_outcome.splits)
  then have tok: "token_route_allows p (routed team r)" by (simp add: api_gate_def split: if_splits)
  from p s Passed have "audited_handler (post_handler_of a rq p team r) db = (answer, db')" by (simp add: serve_post_request_def)
  then show ?thesis
  proof (cases rule: audited_cases)
    case 1
    with ok show ?thesis by simp
  next
    case (2 status body)
    have pr: ?thesis if "proper p db db'" using that by (auto simp: proper_def)
    note h = 2(1)
    show ?thesis
    proof (cases r)
      case (Create_Post x1)
      from pr [OF create_proper [OF ok h [unfolded Create_Post post_handler_of.simps] 2(2)]] show ?thesis .
    next
      case (Create_Draft x1)
      with g(2) have acc: "principal_has_team_access (sd_identity db) p team [Editor, Owner]"
        by (simp add: and_passed_def require_team_role_def split: http_outcome.splits if_splits)
      from pr [OF draft_proper [OF ok h [unfolded Create_Draft post_handler_of.simps] 2(2) acc]] show ?thesis .
    next
      case (Update_Post x1 x2)
      from pr [OF update_proper [OF ok h [unfolded Update_Post post_handler_of.simps] 2(2)]] show ?thesis .
    next
      case (Delete_Post x1)
      from pr [OF delete_proper [OF ok h [unfolded Delete_Post post_handler_of.simps] 2(2)]] show ?thesis .
    next
      case (Cancel_Post x1)
      from pr [OF cancel_proper [OF ok h [unfolded Cancel_Post post_handler_of.simps] 2(2)]] show ?thesis .
    next
      case (Patch_Versions x1 x2)
      with g(2) have acc: "principal_has_team_access (sd_identity db) p team [Editor, Owner]"
        by (simp add: require_team_role_def split: if_splits)
      have "principal_allows p scope_write_schedule" using tok write_covers_schedule by (simp add: Patch_Versions route_scopes)
      from pr [OF versions_proper [OF ok h [unfolded Patch_Versions post_handler_of.simps] 2(2) acc this]] show ?thesis .
    next
      case (Migrate_Account x1 x2)
      then have "principal_can_manage_api_token p [] None" using tok by (simp add: route_scopes)
      then have "p_scopes p = []" by (auto simp: principal_can_manage_api_token_def split: if_splits)
      then have "principal_allows p scope_write_schedule" by (simp add: principal_allows_def)
      with migrate_proper [OF ok h [unfolded Migrate_Account post_handler_of.simps] 2(2)] show ?thesis by blast
    qed
  qed
qed

section \<open>Sequences of requests\<close>

text \<open>The rows that belong to a post.\<close>

definition post_parts :: "string \<Rightarrow> store_db \<Rightarrow> post_row list \<times> target_row list \<times> post_version list" where
  "post_parts i db = (filter (\<lambda>r. rw_id r = i) (sd_posts db), filter (\<lambda>t. tg_post t = i) (sd_targets db),
     filter (\<lambda>v. pv_post_id v = i) (sd_versions db))"

lemma filter_key_other: "filter (\<lambda>x. key x \<noteq> i) xs = filter (\<lambda>x. key x \<noteq> i) ys \<Longrightarrow> j \<noteq> i \<Longrightarrow>
    filter (\<lambda>x. key x = j) xs = filter (\<lambda>x. key x = j) ys"
proof -
  assume a: "filter (\<lambda>x. key x \<noteq> i) xs = filter (\<lambda>x. key x \<noteq> i) ys" "j \<noteq> i"
  have "filter (\<lambda>x. key x = j) zs = filter (\<lambda>x. key x = j) (filter (\<lambda>x. key x \<noteq> i) zs)" for zs
    by (induction zs) (use a(2) in auto)
  with a(1) show ?thesis by metis
qed

lemma others_parts: "others_same i db db' \<Longrightarrow> j \<noteq> i \<Longrightarrow> post_parts j db' = post_parts j db"
  unfolding others_same_def post_parts_def
  using filter_key_other [of rw_id i "sd_posts db'" "sd_posts db" j] filter_key_other [of tg_post i "sd_targets db'" "sd_targets db" j]
    filter_key_other [of pv_post_id i "sd_versions db'" "sd_versions db" j] by (simp only: simp_thms prod.inject)

lemma parts_row: "post_parts (rw_id r) db' = post_parts (rw_id r) db \<Longrightarrow> r \<in> set (sd_posts db') \<longleftrightarrow> r \<in> set (sd_posts db)"
proof -
  assume "post_parts (rw_id r) db' = post_parts (rw_id r) db"
  then have "set (filter (\<lambda>q. rw_id q = rw_id r) (sd_posts db')) = set (filter (\<lambda>q. rw_id q = rw_id r) (sd_posts db))"
    by (simp add: post_parts_def)
  from this [unfolded set_filter] show ?thesis by blast
qed

lemma same_rows_parts: "same_rows db db' \<Longrightarrow> post_parts i db' = post_parts i db"
  by (simp add: same_rows_def post_parts_def)

lemma draft_step:
  assumes "request_by (\<lambda>p. \<not> principal_allows p scope_write_schedule) db db'" "store_ok db"
  shows "store_ok db' \<and> (\<forall>r \<in> set (sd_posts db'). rw_status r \<notin> {Draft, Cancelled} \<longrightarrow> post_parts (rw_id r) db' = post_parts (rw_id r) db)"
proof -
  obtain rq p a tm q answer where 1: "aq_principal rq = Some p" "\<not> principal_allows p scope_write_schedule"
    "serve_post_request a rq tm q db = (answer, db')" using assms(1) by (rule request_byE) blast
  note pr = request_proper [OF assms(2) 1(1) 1(3)]
  from pr 1(2) consider "same_rows db db'" | "edits_post p db db'" by blast
  then show ?thesis
  proof cases
    case 1
    with pr show ?thesis by (simp add: same_rows_parts)
  next
    case 2
    then obtain i where i: "others_same i db db'" "\<forall>q \<in> set (sd_posts db'). rw_id q = i \<longrightarrow> rw_status q = Draft \<or> rw_status q = Cancelled"
      using 1(2) unfolding edits_post_def by blast
    with pr others_parts [OF i(1)] show ?thesis by blast
  qed
qed

text \<open>C3: a token that may only write drafts never reaches the publication queue. Whatever sequence of requests
  principals without the schedule scope make to the post endpoints, with whatever failures of the database, every post
  that is then due, published or failed was so before, with the same text, targets and texts per account.\<close>
theorem draft_tokens_never_schedule:
  assumes "(request_by (\<lambda>p. \<not> principal_allows p scope_write_schedule))\<^sup>*\<^sup>* db db'" "store_ok db"
    and "r \<in> set (sd_posts db')" "rw_status r \<notin> {Draft, Cancelled}"
  shows "r \<in> set (sd_posts db) \<and> post_parts (rw_id r) db' = post_parts (rw_id r) db"
proof -
  have "store_ok db' \<and> (\<forall>r \<in> set (sd_posts db'). rw_status r \<notin> {Draft, Cancelled} \<longrightarrow> post_parts (rw_id r) db' = post_parts (rw_id r) db)"
    using assms(1)
  proof (induction rule: rtranclp_induct)
    case base
    with assms(2) show ?case by simp
  next
    case (step d1 d2)
    with draft_step [OF step(2)] have s: "store_ok d2"
      "\<forall>r \<in> set (sd_posts d2). rw_status r \<notin> {Draft, Cancelled} \<longrightarrow> post_parts (rw_id r) d2 = post_parts (rw_id r) d1" by auto
    with step(3) parts_row show ?case by metis
  qed
  with assms(3,4) parts_row show ?thesis by metis
qed

lemma request_by_serve:
  "aq_principal rq = Some p \<Longrightarrow> who p \<Longrightarrow> request_by who db (snd (serve_post_request a rq team r db))"
  by (rule request_by_intro [where answer = "fst (serve_post_request a rq team r db)"]) simp_all

lemma filter_update_avoid:
  "(\<And>r. r \<in> set rs \<Longrightarrow> p r \<Longrightarrow> \<not> Q r) \<Longrightarrow> (\<And>r. r \<in> set rs \<Longrightarrow> p r \<Longrightarrow> \<not> Q (f r)) \<Longrightarrow> filter Q (update_where p f rs) = filter Q rs"
  by (induction rs) (auto simp: update_where_def)

lemma confined_step:
  assumes "request_by (\<lambda>p. \<not> principal_has_team_access ids p team [Editor, Owner]) db db'" "store_ok db" "sd_identity db = ids"
  shows "store_ok db' \<and> sd_identity db' = ids \<and>
    (\<forall>i. (\<exists>r \<in> set (sd_posts db). rw_id r = i \<and> rw_team r = team) \<longrightarrow> post_parts i db' = post_parts i db) \<and>
    filter (\<lambda>r. rw_team r = team) (sd_posts db') = filter (\<lambda>r. rw_team r = team) (sd_posts db)"
proof -
  obtain rq p a tm q answer where 1: "aq_principal rq = Some p" "\<not> principal_has_team_access ids p team [Editor, Owner]"
    "serve_post_request a rq tm q db = (answer, db')" using assms(1) by (rule request_byE) blast
  note pr = request_proper [OF assms(2) 1(1) 1(3)]
  from pr consider "same_rows db db'" | "edits_post p db db'" | "moves_account p db db'" by blast
  then show ?thesis
  proof cases
    case 1
    with pr assms(3) show ?thesis by (simp add: same_rows_parts) (simp add: same_rows_def)
  next
    case 2
    then obtain i t where i: "others_same i db db'" "principal_has_team_access ids p t [Editor, Owner]"
      "\<forall>q \<in> set (sd_posts db). rw_id q = i \<longrightarrow> rw_team q = t" "\<forall>q \<in> set (sd_posts db'). rw_id q = i \<longrightarrow> rw_team q = t"
      using assms(3) unfolding edits_post_def by blast
    have t: "t \<noteq> team" using i(2) 1(2) by blast
    have f: "filter (\<lambda>r. rw_team r = team) xs = filter (\<lambda>r. rw_team r = team) (filter (\<lambda>r. rw_id r \<noteq> i) xs)"
      if "\<forall>q \<in> set xs. rw_id q = i \<longrightarrow> rw_team q = t" for xs
      using that t by (induction xs) auto
    have "filter (\<lambda>r. rw_id r \<noteq> i) (sd_posts db') = filter (\<lambda>r. rw_id r \<noteq> i) (sd_posts db)" using i(1) by (simp add: others_same_def)
    then have "filter (\<lambda>r. rw_team r = team) (sd_posts db') = filter (\<lambda>r. rw_team r = team) (sd_posts db)"
      by (simp only: f [OF i(3)] f [OF i(4)])
    moreover have "post_parts j db' = post_parts j db" if "r \<in> set (sd_posts db)" "rw_id r = j" "rw_team r = team" for r j
      using others_parts [OF i(1)] i(3) that t by metis
    ultimately show ?thesis using pr i(1) assms(3) by (auto simp: others_same_def)
  next
    case 3
    then obtain ta tb xs now where m: "sd_identity db' = sd_identity db" "sd_targets db' = sd_targets db" "sd_versions db' = sd_versions db"
      "principal_has_team_access ids p ta [Editor, Owner]" "principal_has_team_access ids p tb [Editor, Owner]"
      "\<forall>r \<in> set (sd_posts db). rw_id r \<in> xs \<longrightarrow> rw_team r = ta"
      "sd_posts db' = update_where (\<lambda>r. rw_id r \<in> xs) (on_post (\<lambda>s. s\<lparr>sp_team_id := tb\<rparr>) now) (sd_posts db)"
      using assms(3) unfolding moves_account_def by blast
    have t: "ta \<noteq> team" "tb \<noteq> team" using m(4,5) 1(2) by blast+
    have "filter (\<lambda>r. rw_team r = team) (sd_posts db') = filter (\<lambda>r. rw_team r = team) (sd_posts db)"
      unfolding m(7) by (rule filter_update_avoid) (use m(6) t in auto)
    moreover have "post_parts j db' = post_parts j db" if j: "r \<in> set (sd_posts db)" "rw_id r = j" "rw_team r = team" for r j
    proof -
      have "j \<notin> xs" using m(6) j t by blast
      then have "filter (\<lambda>r. rw_id r = j) (sd_posts db') = filter (\<lambda>r. rw_id r = j) (sd_posts db)"
        unfolding m(7) by (intro filter_update_avoid) auto
      with m(2,3) show ?thesis by (simp add: post_parts_def)
    qed
    ultimately show ?thesis using pr m(1) assms(3) by auto
  qed
qed

text \<open>C4: nobody edits the posts of a team that is not theirs. Whatever sequence of requests principals without an
  editor's or owner's access to a team make to the post endpoints, creations, updates, deletions, cancellations,
  texts per account and moved accounts, the posts of the team and the targets and texts of each stay as they are.\<close>
theorem post_requests_confined:
  assumes "(request_by (\<lambda>p. \<not> principal_has_team_access (sd_identity db) p team [Editor, Owner]))\<^sup>*\<^sup>* db db'" "store_ok db"
  shows "filter (\<lambda>r. rw_team r = team) (sd_posts db') = filter (\<lambda>r. rw_team r = team) (sd_posts db) \<and>
    list_all (\<lambda>r. post_parts (rw_id r) db' = post_parts (rw_id r) db) (filter (\<lambda>r. rw_team r = team) (sd_posts db))"
proof -
  let ?mine = "\<lambda>d. filter (\<lambda>r. rw_team r = team) (sd_posts d)"
  have "store_ok db' \<and> sd_identity db' = sd_identity db \<and> ?mine db' = ?mine db \<and>
    (\<forall>r \<in> set (?mine db). post_parts (rw_id r) db' = post_parts (rw_id r) db)"
    using assms(1)
  proof (induction rule: rtranclp_induct)
    case base
    with assms(2) show ?case by simp
  next
    case (step d1 d2)
    then have "sd_identity d1 = sd_identity db" "store_ok d1" by auto
    from confined_step [OF step(2) this(2,1)] have c: "store_ok d2" "sd_identity d2 = sd_identity db" "?mine d2 = ?mine d1"
      "\<forall>i. (\<exists>r \<in> set (sd_posts d1). rw_id r = i \<and> rw_team r = team) \<longrightarrow> post_parts i d2 = post_parts i d1" by blast+
    have "post_parts (rw_id r) d2 = post_parts (rw_id r) db" if "r \<in> set (?mine db)" for r
    proof -
      have "r \<in> set (?mine d1)" using that step(3) by simp
      then have "post_parts (rw_id r) d2 = post_parts (rw_id r) d1" using c(4) by fastforce
      moreover have "post_parts (rw_id r) d1 = post_parts (rw_id r) db" using step(3) that by blast
      ultimately show ?thesis by simp
    qed
    with c step(3) show ?case by simp
  qed
  then show ?thesis by (simp add: list_all_iff)
qed

section \<open>Two requests\<close>

text \<open>A draft and a post in the queue; a token that may write drafts cancels the draft and then tries to publish
  the other one; the owner of another team tries to delete it.\<close>

definition desk_row :: "string \<Rightarrow> post_status \<Rightarrow> post_row" where
  "desk_row i st = (new_post_row 0 i ''t1'' ann draft_input)\<lparr>rw_post := (rw_post (new_post_row 0 i ''t1'' ann draft_input))\<lparr>sp_status := st\<rparr>\<rparr>"

definition desk_store :: store_db where
  "desk_store = ann_store\<lparr>sd_identity := (sd_identity ann_store)\<lparr>
       id_teams := id_teams (sd_identity ann_store) @ [\<lparr>tm_id = ''t2'', tm_name = ''U'', tm_ai_enabled = False\<rparr>],
       id_members := [\<lparr>mb_user = ''u1'', mb_team = ''t1'', mb_role = Editor\<rparr>, \<lparr>mb_user = ''u9'', mb_team = ''t2'', mb_role = Owner\<rparr>]\<rparr>,
     sd_posts := [desk_row ''p1'' Pending, desk_row ''p2'' Draft], sd_targets := [new_target ''p1'' ''a1'']\<rparr>"

definition desk_env :: api_env where
  "desk_env = \<lparr>api_auto = job_env, api_auto_publish = (\<lambda>_. False), api_uuid = (\<lambda>_. None)\<rparr>"

definition token_request :: audit_request where
  "token_request = \<lparr>aq_principal = Some ann_draft_token, aq_request = ''r1'', aq_fields = []\<rparr>"

definition stranger_request :: audit_request where
  "stranger_request = \<lparr>aq_principal = Some (author\<lparr>p_user := (p_user author)\<lparr>u_id := ''u9''\<rparr>\<rparr>), aq_request = ''r2'', aq_fields = []\<rparr>"

definition publish_now_patch :: update_post_patch where
  "publish_now_patch = \<lparr>pt_title = None, pt_content = None, pt_scheduled_at = None, pt_target_accounts = None, pt_visibility = None,
     pt_media_ids = None, pt_media_exclude = None, pt_override = None, pt_draft = None, pt_publish_now = Some True, pt_review_complete = None\<rparr>"

definition after_cancel :: store_db where
  "after_cancel = snd (serve_post_request desk_env token_request ''t1'' (Cancel_Post ''p2'') desk_store)"

definition after_publish :: store_db where
  "after_publish = snd (serve_post_request desk_env token_request ''t1'' (Update_Post ''p1'' (Some publish_now_patch)) after_cancel)"

lemma desk_ok: "store_ok desk_store" by code_simp

lemma desk_facts:
  "fst (serve_post_request desk_env token_request ''t1'' (Cancel_Post ''p2'') desk_store) = Some (204, No_Body)"
  "fst (serve_post_request desk_env token_request ''t1'' (Update_Post ''p1'' (Some publish_now_patch)) after_cancel) =
     Some (403, Api_Error ''scope_required'')"
  by code_simp+

theorem draft_tokens_never_schedule_witness:
  "fst (serve_post_request desk_env token_request ''t1'' (Update_Post ''p1'' (Some publish_now_patch)) after_cancel) =
     Some (403, Api_Error ''scope_required'') \<and> post_parts ''p1'' after_publish = post_parts ''p1'' desk_store"
proof -
  let ?who = "\<lambda>p. \<not> principal_allows p scope_write_schedule"
  have t: "aq_principal token_request = Some ann_draft_token" "?who ann_draft_token" by code_simp+
  have "request_by ?who desk_store after_cancel" "request_by ?who after_cancel after_publish"
    unfolding after_cancel_def after_publish_def by (rule request_by_serve [where who = ?who, OF t])+
  then have "(request_by ?who)\<^sup>*\<^sup>* desk_store after_publish" by simp
  from draft_tokens_never_schedule [OF this desk_ok, of "desk_row ''p1'' Pending"] desk_facts(2)
  have "desk_row ''p1'' Pending \<in> set (sd_posts after_publish) \<Longrightarrow> rw_status (desk_row ''p1'' Pending) \<notin> {Draft, Cancelled} \<Longrightarrow>
      post_parts (rw_id (desk_row ''p1'' Pending)) after_publish = post_parts (rw_id (desk_row ''p1'' Pending)) desk_store" by blast
  moreover have "desk_row ''p1'' Pending \<in> set (sd_posts after_publish)" "rw_status (desk_row ''p1'' Pending) \<notin> {Draft, Cancelled}"
    "rw_id (desk_row ''p1'' Pending) = ''p1''" by code_simp+
  ultimately show ?thesis using desk_facts(2) by simp
qed

theorem post_requests_confined_witness:
  "map rw_id (filter (\<lambda>r. rw_team r = ''t1'')
     (sd_posts (snd (serve_post_request desk_env stranger_request ''t2'' (Delete_Post ''p1'') desk_store)))) = [''p1'', ''p2'']"
proof -
  let ?who = "\<lambda>p. \<not> principal_has_team_access (sd_identity desk_store) p ''t1'' [Editor, Owner]"
  let ?p = "author\<lparr>p_user := (p_user author)\<lparr>u_id := ''u9''\<rparr>\<rparr>"
  have t: "aq_principal stranger_request = Some ?p" "?who ?p" by code_simp+
  have "request_by ?who desk_store (snd (serve_post_request desk_env stranger_request ''t2'' (Delete_Post ''p1'') desk_store))"
    by (rule request_by_serve [where who = ?who, OF t])
  from post_requests_confined [OF r_into_rtranclp [where r = "request_by ?who", OF this] desk_ok]
  have "filter (\<lambda>r. rw_team r = ''t1'') (sd_posts (snd (serve_post_request desk_env stranger_request ''t2'' (Delete_Post ''p1'') desk_store))) =
      filter (\<lambda>r. rw_team r = ''t1'') (sd_posts desk_store)" by blast
  moreover have "map rw_id (filter (\<lambda>r. rw_team r = ''t1'') (sd_posts desk_store)) = [''p1'', ''p2'']" by code_simp
  ultimately show ?thesis by simp
qed

section \<open>Texts that are not checked\<close>

text \<open>Five characters for an account that takes three: the create endpoint refuses the post, the draft endpoint asked
  to schedule accepts it.\<close>

definition tight_env :: api_env where
  "tight_env = desk_env\<lparr>api_auto := job_env\<lparr>ax_clusters := map (\<lambda>c. [c]), ax_registry := demo_registry 3\<rparr>\<rparr>"

definition long_input :: create_post_input where
  "long_input = empty_input\<lparr>in_title := ''T'', in_content := ''hello'', in_scheduled_at := 5, in_target_accounts := [''a1'']\<rparr>"

definition long_draft :: draft_request where
  "long_draft = \<lparr>dq_title = ''T'', dq_content = ''hello'', dq_accounts = [''a1''], dq_override = [], dq_scheduled_at = Some 5,
     dq_schedule = True, dq_job = []\<rparr>"

lemma draft_endpoint_skips_check:
  "fst (fst (handle_create_post (api_auto tight_env) demo_request ann ''t1'' (Some long_input) desk_store)) = 422"
  "fst (fst (handle_create_ai_draft tight_env demo_request ann ''t1'' (Some long_draft) desk_store)) = 201"
  "map rw_status (sd_posts (snd (snd (handle_create_ai_draft tight_env demo_request ann ''t1'' (Some long_draft) desk_store)))) =
     [Pending, Draft, Pending]"
  by code_simp+

text \<open>An imported post is read-only for the update endpoint, its texts per account are not.\<close>

definition imported_store :: store_db where
  "imported_store = desk_store\<lparr>sd_posts := update_where (\<lambda>r. rw_id r = ''p1'')
     (\<lambda>r. r\<lparr>rw_post := (rw_post r)\<lparr>sp_source := source_imported, sp_status := Posted\<rparr>\<rparr>) (sd_posts desk_store)\<rparr>"

lemma versions_endpoint_skips_check:
  "fst (fst (handle_update_post (api_auto desk_env) demo_request ann ''p1'' (Some publish_now_patch) imported_store)) = 403"
  "fst (fst (handle_patch_post_versions (api_auto desk_env) demo_request ''t1'' ''p1'' (Some [(''a1'', ''hello'')]) imported_store)) = 200"
  "sd_versions (snd (snd (handle_patch_post_versions (api_auto desk_env) demo_request ''t1'' ''p1'' (Some [(''a1'', ''hello'')]) imported_store))) =
     [\<lparr>pv_post_id = ''p1'', pv_account_id = ''a1'', pv_content = ''hello''\<rparr>]"
  by code_simp+

end
