(* ===== verification/Security.thy ===== *)
theory Security
  imports Go_Strings Go_Time "HOL-Library.AList"
begin

text \<open>
  \<open>internal/security/security.go\<close>: encryption of stored secrets, the rate limiter in front of the API, the headers for
  other origins. AES-GCM, SHA-256, the token buckets of \<open>golang.org/x/time/rate\<close> and \<open>net.SplitHostPort\<close> are
  parameters; base64 is written out.
\<close>

section \<open>Base64\<close>

definition b64_alphabet :: string where
  "b64_alphabet = ''ABCDEFGHIJKLMNOPQRSTUVWXYZabcdefghijklmnopqrstuvwxyz0123456789+/''"

definition b64_char :: "nat \<Rightarrow> char" where "b64_char n = b64_alphabet ! n"

definition b64_val :: "char \<Rightarrow> nat option" where
  "b64_val c = find (\<lambda>n. b64_char n = c) [0..<64]"

abbreviation byte :: "char \<Rightarrow> nat" where "byte c \<equiv> of_char c"

text \<open>\<open>base64.StdEncoding\<close>: three bytes are four digits, a shorter rest is padded.\<close>

fun base64_encode :: "string \<Rightarrow> string" where
  "base64_encode [] = []"
| "base64_encode [a] = [b64_char (byte a div 4), b64_char (byte a mod 4 * 16), CHR ''='', CHR ''='']"
| "base64_encode [a, b] =
     [b64_char (byte a div 4), b64_char (byte a mod 4 * 16 + byte b div 16), b64_char (byte b mod 16 * 4), CHR ''='']"
| "base64_encode (a # b # c # s) =
     [b64_char (byte a div 4), b64_char (byte a mod 4 * 16 + byte b div 16),
      b64_char (byte b mod 16 * 4 + byte c div 64), b64_char (byte c mod 64)] @ base64_encode s"

text \<open>The decoder skips line breaks and does not look at the bits the padding leaves over.\<close>

definition quantum1 :: "nat \<Rightarrow> nat \<Rightarrow> char" where "quantum1 p q = char_of (p * 4 + q div 16)"
definition quantum2 :: "nat \<Rightarrow> nat \<Rightarrow> char" where "quantum2 q r = char_of (q mod 16 * 16 + r div 4)"
definition quantum3 :: "nat \<Rightarrow> nat \<Rightarrow> char" where "quantum3 r s = char_of (r mod 4 * 64 + s)"

fun decode_quanta :: "string \<Rightarrow> string option" where
  "decode_quanta [] = Some []"
| "decode_quanta (p # q # r # s # rest) =
     (case (b64_val p, b64_val q) of
        (Some p', Some q') \<Rightarrow>
          (if r = CHR ''='' then (if s = CHR ''='' \<and> rest = [] then Some [quantum1 p' q'] else None)
           else (case b64_val r of
                   None \<Rightarrow> None
                 | Some r' \<Rightarrow>
                     if s = CHR ''='' then (if rest = [] then Some [quantum1 p' q', quantum2 q' r'] else None)
                     else (case (b64_val s, decode_quanta rest) of
                             (Some s', Some t) \<Rightarrow> Some (quantum1 p' q' # quantum2 q' r' # quantum3 r' s' # t)
                           | _ \<Rightarrow> None)))
      | _ \<Rightarrow> None)"
| "decode_quanta _ = None"

definition base64_decode :: "string \<Rightarrow> string option" where
  "base64_decode s = decode_quanta (filter (\<lambda>c. c \<noteq> CHR 0x0A \<and> c \<noteq> CHR 0x0D) s)"

section \<open>Secrets\<close>

record aead =
  seal_with :: "string \<Rightarrow> string \<Rightarrow> string \<Rightarrow> string"
  open_with :: "string \<Rightarrow> string \<Rightarrow> string \<Rightarrow> string option"

definition nonce_size :: nat where "nonce_size = 12"

text \<open>The key is the digest of the configured secret. \<open>nonce\<close> is what the random source delivers, if anything.\<close>

definition new_encrypter :: "(string \<Rightarrow> string) \<Rightarrow> string \<Rightarrow> string" where
  "new_encrypter sha256 secret = sha256 secret"

definition encrypt_token :: "aead \<Rightarrow> string \<Rightarrow> string option \<Rightarrow> string \<Rightarrow> string + string" where
  "encrypt_token g key nonce plaintext =
     (case nonce of None \<Rightarrow> Inl ''read nonce'' | Some n \<Rightarrow> Inr (base64_encode (n @ seal_with g key n plaintext)))"

definition decrypt_token :: "aead \<Rightarrow> string \<Rightarrow> string \<Rightarrow> string + string" where
  "decrypt_token g key ciphertext =
     (case base64_decode ciphertext of
        None \<Rightarrow> Inl ''decode token''
      | Some raw \<Rightarrow>
          if length raw < nonce_size then Inl ''ciphertext too short''
          else (case open_with g key (take nonce_size raw) (drop nonce_size raw) of
                  None \<Rightarrow> Inl ''decrypt token'' | Some p \<Rightarrow> Inr p))"

definition hash_token :: "(string \<Rightarrow> string) \<Rightarrow> string \<Rightarrow> string" where
  "hash_token sha256 token = base64_encode (sha256 token)"

section \<open>The rate limiter\<close>

record api_request =
  ar_method :: string
  ar_path :: string
  ar_origin :: string
  ar_forwarded :: string
  ar_remote :: string
  ar_authorization :: string

text \<open>A bucket is made from the interval of a token and the burst; it answers whether it allows an event.\<close>

record 'b buckets =
  bk_new :: "int \<Rightarrow> int \<Rightarrow> 'b"
  bk_allow :: "instant \<Rightarrow> 'b \<Rightarrow> bool \<times> 'b"

record 'b visitor =
  vi_anon :: 'b
  vi_auth :: 'b
  vi_seen :: instant

record 'b limiter =
  li_anon :: "int \<times> int"
  li_auth :: "int \<times> int"
  li_ttl :: int
  li_prune :: int
  li_visitors :: "(string \<times> 'b visitor) list"
  li_last_prune :: instant

definition minute :: int where "minute = 60 * nanos"

definition new_limiter_dual :: "int \<Rightarrow> int \<Rightarrow> int \<Rightarrow> int \<Rightarrow> 'b limiter" where
  "new_limiter_dual anon auth ttl prune =
     \<lparr>li_anon = (minute div anon, anon), li_auth = (minute div auth, auth), li_ttl = (if ttl \<le> 0 then 15 * minute else ttl),
      li_prune = (if prune \<le> 0 then minute else prune), li_visitors = [], li_last_prune = zero_time\<rparr>"

definition new_limiter :: "int \<Rightarrow> int \<Rightarrow> 'b limiter" where
  "new_limiter anon0 auth0 =
     (let anon = (if anon0 \<le> 0 then 120 else anon0);
          auth1 = (if auth0 \<le> 0 then (if anon * 5 < 300 then 300 else anon * 5) else auth0);
          auth = (if auth1 < anon then anon else auth1)
      in new_limiter_dual anon auth (15 * minute) minute)"

text \<open>\<open>strings.EqualFold\<close> on ASCII text, which is all that can equal \<open>bearer\<close> and a space.\<close>

definition request_has_bearer :: "api_request \<Rightarrow> bool" where
  "request_has_bearer rq = (let s = trim_space (ar_authorization rq) in length s > 7 \<and> map lower_char (take 7 s) = ''bearer '')"

definition client_ip :: "(string \<Rightarrow> string option) \<Rightarrow> api_request \<Rightarrow> string" where
  "client_ip host_of rq =
     (let forwarded = trim_space (hd (split_on (CHR '','') (ar_forwarded rq))) in
      if forwarded \<noteq> [] then forwarded
      else (case host_of (ar_remote rq) of None \<Rightarrow> ar_remote rq | Some h \<Rightarrow> h))"

definition prune :: "instant \<Rightarrow> 'b limiter \<Rightarrow> 'b limiter" where
  "prune now l =
     (if now - li_last_prune l \<ge> li_prune l
      then l\<lparr>li_visitors := filter (\<lambda>(_, v). \<not> vi_seen v < now - li_ttl l) (li_visitors l), li_last_prune := now\<rparr> else l)"

definition visitor_of :: "'b buckets \<Rightarrow> instant \<Rightarrow> string \<Rightarrow> 'b limiter \<Rightarrow> 'b visitor" where
  "visitor_of bk now ip l =
     (case map_of (li_visitors l) ip of
        Some v \<Rightarrow> v\<lparr>vi_seen := now\<rparr>
      | None \<Rightarrow> \<lparr>vi_anon = bk_new bk (fst (li_anon l)) (snd (li_anon l)), vi_auth = bk_new bk (fst (li_auth l)) (snd (li_auth l)), vi_seen = now\<rparr>)"

text \<open>One request: whether it reaches the API.\<close>

definition limit_client :: "'b buckets \<Rightarrow> instant \<Rightarrow> string \<Rightarrow> bool \<Rightarrow> 'b limiter \<Rightarrow> bool \<times> 'b limiter" where
  "limit_client bk now ip bearer l0 =
     (let l = prune now l0; v = visitor_of bk now ip l in
      case bk_allow bk now (if bearer then vi_auth v else vi_anon v) of
        (ok, b) \<Rightarrow> (ok, l\<lparr>li_visitors := AList.update ip (if bearer then v\<lparr>vi_auth := b\<rparr> else v\<lparr>vi_anon := b\<rparr>) (li_visitors l)\<rparr>))"

definition limiter_middleware ::
  "'b buckets \<Rightarrow> (string \<Rightarrow> string option) \<Rightarrow> instant \<Rightarrow> api_request \<Rightarrow> 'b limiter \<Rightarrow> bool \<times> 'b limiter" where
  "limiter_middleware bk host_of now rq l =
     (if ar_method rq = ''GET'' \<and> ar_path rq = ''/healthz'' then (True, l)
      else limit_client bk now (client_ip host_of rq) (request_has_bearer rq) l)"

fun limit_all :: "'b buckets \<Rightarrow> (instant \<times> string \<times> bool) list \<Rightarrow> 'b limiter \<Rightarrow> bool list" where
  "limit_all bk [] l = []"
| "limit_all bk ((now, ip, bearer) # rs) l =
     (case limit_client bk now ip bearer l of (ok, l') \<Rightarrow> ok # limit_all bk rs l')"

section \<open>Other origins\<close>

text \<open>The headers added to the answer, and whether the request goes on (\<open>None\<close>) or is answered with a status.\<close>

definition cors_middleware :: "string list \<Rightarrow> api_request \<Rightarrow> (string \<times> string) list \<times> nat option" where
  "cors_middleware allowed rq =
     ((if ar_origin rq = [] then []
       else (if ''*'' \<in> set allowed then [(''Access-Control-Allow-Origin'', ''*'')]
             else if ar_origin rq \<in> set allowed then [(''Access-Control-Allow-Origin'', ar_origin rq), (''Vary'', ''Origin'')]
             else []) @
            [(''Access-Control-Allow-Headers'', ''Authorization, Content-Type, Accept, Mcp-Session-Id, Mcp-Protocol-Version''),
             (''Access-Control-Expose-Headers'', ''Mcp-Session-Id, Mcp-Protocol-Version''),
             (''Access-Control-Allow-Methods'', ''GET, POST, PATCH, DELETE, OPTIONS'')]),
      if ar_method rq = ''OPTIONS'' then Some 204 else None)"

section \<open>Base64 is lossless\<close>

lemma b64_digits: "n < 64 \<Longrightarrow> b64_val (b64_char n) = Some n \<and> b64_char n \<notin> {CHR ''='', CHR 0x0A, CHR 0x0D}"
proof -
  have "list_all (\<lambda>n. b64_val (b64_char n) = Some n \<and> b64_char n \<notin> {CHR ''='', CHR 0x0A, CHR 0x0D}) [0..<64]" by code_simp
  then show "n < 64 \<Longrightarrow> ?thesis" by (simp add: list_all_iff)
qed

lemma byte_less: "byte (c :: char) < (256 :: nat)"
  by simp

lemma split_digit: "(y :: nat) < k \<Longrightarrow> (x * k + y) div k = x \<and> (x * k + y) mod k = y"
  by simp

lemma byte_parts:
  "byte a div 4 < (64 :: nat)" "byte a mod 4 < (4 :: nat)" "byte a div 16 < (16 :: nat)" "byte a mod 16 < (16 :: nat)"
  "byte a div 64 < (4 :: nat)" "byte a mod 64 < (64 :: nat)"
  using byte_less [of a] by (simp_all add: less_mult_imp_div_less)

lemma digit_bounds:
  "byte a div 4 < (64 :: nat)" "byte a mod 4 * 16 < (64 :: nat)" "byte a mod 4 * 16 + byte b div 16 < (64 :: nat)"
  "byte b mod 16 * 4 < (64 :: nat)" "byte b mod 16 * 4 + byte c div 64 < (64 :: nat)" "byte c mod 64 < (64 :: nat)"
  using byte_parts(1,2) [of a] byte_parts(3,4) [of b] byte_parts(5,6) [of c] by linarith+

lemmas digit_simps = digit_bounds [THEN b64_digits [THEN conjunct1]] digit_bounds [THEN b64_digits [THEN conjunct2]]

lemma quanta:
  "quantum1 (byte a div 4) (byte a mod 4 * 16) = a" "quantum1 (byte a div 4) (byte a mod 4 * 16 + byte b div 16) = a"
  "quantum2 (byte a mod 4 * 16 + byte b div 16) (byte b mod 16 * 4) = b"
  "quantum2 (byte a mod 4 * 16 + byte b div 16) (byte b mod 16 * 4 + byte c div 64) = b"
  "quantum3 (byte b mod 16 * 4 + byte c div 64) (byte c mod 64) = c"
proof -
  note q = split_digit [OF byte_parts(3), of "byte a mod 4" b] split_digit [OF byte_parts(5), of "byte b mod 16" c]
  have z: "byte b mod 16 * 4 div 4 = (byte b mod 16 :: nat)" "byte a mod 4 * 16 div 16 = (byte a mod 4 :: nat)" by simp_all
  show "quantum1 (byte a div 4) (byte a mod 4 * 16) = a" "quantum1 (byte a div 4) (byte a mod 4 * 16 + byte b div 16) = a"
    "quantum2 (byte a mod 4 * 16 + byte b div 16) (byte b mod 16 * 4) = b"
    "quantum2 (byte a mod 4 * 16 + byte b div 16) (byte b mod 16 * 4 + byte c div 64) = b"
    "quantum3 (byte b mod 16 * 4 + byte c div 64) (byte c mod 64) = c"
    unfolding quantum1_def quantum2_def quantum3_def q [THEN conjunct1] q [THEN conjunct2] z div_mult_mod_eq by simp_all
qed

lemma encode_no_breaks: "filter (\<lambda>c. c \<noteq> CHR 0x0A \<and> c \<noteq> CHR 0x0D) (base64_encode s) = base64_encode s"
  by (induction s rule: base64_encode.induct) (simp_all add: digit_simps [simplified])

lemma decode_encode: "decode_quanta (base64_encode s) = Some s"
  by (induction s rule: base64_encode.induct) (simp_all add: digit_simps [simplified] quanta)

lemma base64_roundtrip: "base64_decode (base64_encode s) = Some s"
  by (simp add: base64_decode_def encode_no_breaks decode_encode)

text \<open>C28: a stored secret comes back. What \<open>Encrypt\<close> makes of a text, whatever nonce it draws, \<open>Decrypt\<close> turns into the
  same text, through base64 and the split of nonce and ciphertext, when the cipher opens what it sealed.\<close>
theorem decrypt_encrypt:
  assumes "\<And>n p. length n = nonce_size \<Longrightarrow> open_with g key n (seal_with g key n p) = Some p" "length nonce = nonce_size"
  shows "\<exists>c. encrypt_token g key (Some nonce) plaintext = Inr c \<and> decrypt_token g key c = Inr plaintext"
  using assms by (simp add: encrypt_token_def decrypt_token_def base64_roundtrip)

definition demo_aead :: aead where
  "demo_aead = \<lparr>seal_with = (\<lambda>k n p. rev p @ k), open_with = (\<lambda>k n c. if drop (length c - length k) c = k then Some (rev (take (length c - length k) c)) else None)\<rparr>"

theorem decrypt_encrypt_witness:
  "decrypt_token demo_aead ''key'' (base64_encode (''nonce nonce!'' @ ''terces'' @ ''key'')) = Inr ''secret''"
proof -
  have "open_with demo_aead ''key'' n (seal_with demo_aead ''key'' n p) = Some p" for n p by (simp add: demo_aead_def)
  moreover have "length ''nonce nonce!'' = nonce_size" by (simp add: nonce_size_def)
  ultimately obtain c where "encrypt_token demo_aead ''key'' (Some ''nonce nonce!'') ''secret'' = Inr c"
    "decrypt_token demo_aead ''key'' c = Inr ''secret''" using decrypt_encrypt [of demo_aead "''key''" "''nonce nonce!''" "''secret''"] by blast
  then show ?thesis by (simp add: encrypt_token_def demo_aead_def)
qed

section \<open>Every client has its own buckets\<close>

text \<open>The reference: each client and kind of request has a bucket that is never thrown away, and sees only its own
  requests.\<close>

definition used :: "'b buckets \<Rightarrow> int \<times> int \<Rightarrow> instant list \<Rightarrow> 'b" where
  "used bk rate ts = fold (\<lambda>t b. snd (bk_allow bk t b)) ts (bk_new bk (fst rate) (snd rate))"

definition own_times :: "(instant \<times> string \<times> bool) list \<Rightarrow> string \<Rightarrow> bool \<Rightarrow> instant list" where
  "own_times rs ip bearer = map fst (filter (\<lambda>(_, i, b). i = ip \<and> b = bearer) rs)"

fun each_alone ::
  "'b buckets \<Rightarrow> (bool \<Rightarrow> int \<times> int) \<Rightarrow> (instant \<times> string \<times> bool) list \<Rightarrow> (instant \<times> string \<times> bool) list \<Rightarrow> bool list" where
  "each_alone bk rate before [] = []"
| "each_alone bk rate before ((now, ip, bearer) # rs) =
     fst (bk_allow bk now (used bk (rate bearer) (own_times before ip bearer))) # each_alone bk rate (before @ [(now, ip, bearer)]) rs"

text \<open>What the buckets promise: idle for the time the burst takes to refill, a bucket is as good as new.\<close>

definition refills :: "'b buckets \<Rightarrow> bool" where
  "refills bk \<longleftrightarrow> (\<forall>i b ts t. 0 < b \<and> 0 \<le> i \<and> (\<forall>u \<in> set ts. u + b * i \<le> t) \<longrightarrow>
     bk_allow bk t (used bk (i, b) ts) = bk_allow bk t (bk_new bk i b))"

definition rate_of :: "'b limiter \<Rightarrow> bool \<Rightarrow> int \<times> int" where
  "rate_of l bearer = (if bearer then li_auth l else li_anon l)"

definition bucket_of :: "'b visitor \<Rightarrow> bool \<Rightarrow> 'b" where
  "bucket_of v bearer = (if bearer then vi_auth v else vi_anon v)"

definition same_from :: "'b buckets \<Rightarrow> instant \<Rightarrow> 'b \<Rightarrow> 'b \<Rightarrow> bool" where
  "same_from bk t a b \<longleftrightarrow> (\<forall>u \<ge> t. bk_allow bk u a = bk_allow bk u b)"

definition agrees :: "'b buckets \<Rightarrow> instant \<Rightarrow> int \<times> int \<Rightarrow> instant list \<Rightarrow> bool \<Rightarrow> 'b visitor option \<Rightarrow> bool" where
  "agrees bk t rate ts k vo =
     (case vo of
        None \<Rightarrow> same_from bk t (bk_new bk (fst rate) (snd rate)) (used bk rate ts)
      | Some v \<Rightarrow> same_from bk t (bucket_of v k) (used bk rate ts) \<and> (\<forall>u \<in> set ts. u \<le> vi_seen v))"

definition tracks :: "'b buckets \<Rightarrow> instant \<Rightarrow> (instant \<times> string \<times> bool) list \<Rightarrow> 'b limiter \<Rightarrow> bool" where
  "tracks bk t before l \<longleftrightarrow> distinct (map fst (li_visitors l)) \<and>
     (\<forall>ip k. agrees bk t (rate_of l k) (own_times before ip k) k (map_of (li_visitors l) ip))"

definition short_refill :: "'b limiter \<Rightarrow> bool" where
  "short_refill l \<longleftrightarrow> (\<forall>k. 0 < snd (rate_of l k) \<and> 0 \<le> fst (rate_of l k) \<and> snd (rate_of l k) * fst (rate_of l k) \<le> li_ttl l)"

lemma same_from_refl [simp]: "same_from bk t a a" by (simp add: same_from_def)
lemma same_from_later: "same_from bk t a b \<Longrightarrow> t \<le> u \<Longrightarrow> same_from bk u a b" by (auto simp: same_from_def)

lemma map_of_filter:
  "distinct (map fst xs) \<Longrightarrow> map_of (filter (\<lambda>(_, v). P v) xs) k = (case map_of xs k of None \<Rightarrow> None | Some v \<Rightarrow> if P v then Some v else None)"
proof (induction xs)
  case (Cons x xs)
  obtain a v where x: "x = (a, v)" by (cases x)
  have "map_of (filter (\<lambda>(_, v). P v) xs) a = None" using Cons x
    by (auto simp: map_of_eq_None_iff)
  with Cons x show ?case by (cases "k = a") simp_all
qed simp

lemma prune_simps [simp]: "rate_of (prune now l) = rate_of l" "li_ttl (prune now l) = li_ttl l" "short_refill (prune now l) = short_refill l"
  by (simp_all add: prune_def rate_of_def short_refill_def fun_eq_iff)

lemma tracks_later: "tracks bk t before l \<Longrightarrow> t \<le> u \<Longrightarrow> tracks bk u before l"
proof -
  have "agrees bk t r ts k vo \<Longrightarrow> t \<le> u \<Longrightarrow> agrees bk u r ts k vo" for r ts k vo
    by (cases vo) (auto simp: agrees_def intro: same_from_later)
  then show "tracks bk t before l \<Longrightarrow> t \<le> u \<Longrightarrow> ?thesis" unfolding tracks_def by blast
qed

lemma idle_bucket:
  assumes "refills bk" "0 < snd rate" "0 \<le> fst rate" "\<forall>u \<in> set ts. u + snd rate * fst rate \<le> now"
  shows "same_from bk now (bk_new bk (fst rate) (snd rate)) (used bk rate ts)"
  unfolding same_from_def
proof (intro allI impI)
  fix t assume "now \<le> t"
  with assms(4) have "\<forall>u \<in> set ts. u + snd rate * fst rate \<le> t" by auto
  with assms(1-3) have "bk_allow bk t (used bk (fst rate, snd rate) ts) = bk_allow bk t (bk_new bk (fst rate) (snd rate))"
    unfolding refills_def by blast
  then show "bk_allow bk t (bk_new bk (fst rate) (snd rate)) = bk_allow bk t (used bk rate ts)" by simp
qed

lemma prune_tracks:
  assumes "refills bk" "short_refill l" "tracks bk now before l"
  shows "tracks bk now before (prune now l)"
proof (cases "now - li_last_prune l \<ge> li_prune l")
  case True
  let ?P = "\<lambda>v. \<not> vi_seen v < now - li_ttl l"
  have d: "distinct (map fst (li_visitors l))" using assms(3) by (simp add: tracks_def)
  have vs: "li_visitors (prune now l) = filter (\<lambda>(_, v). ?P v) (li_visitors l)" using True by (simp add: prune_def)
  have "agrees bk now (rate_of l k) (own_times before ip k) k (map_of (li_visitors (prune now l)) ip)" for ip k
  proof -
    have a: "agrees bk now (rate_of l k) (own_times before ip k) k (map_of (li_visitors l) ip)" using assms(3) by (simp add: tracks_def)
    have r: "0 < snd (rate_of l k)" "0 \<le> fst (rate_of l k)" "snd (rate_of l k) * fst (rate_of l k) \<le> li_ttl l"
      using assms(2) by (auto simp: short_refill_def)
    show ?thesis
    proof (cases "map_of (li_visitors l) ip")
      case None
      with a show ?thesis by (simp add: vs map_of_filter [OF d])
    next
      case (Some v)
      show ?thesis
      proof (cases "?P v")
        case True
        with a Some show ?thesis by (simp add: vs map_of_filter [OF d])
      next
        case False
        have "\<forall>u \<in> set (own_times before ip k). u + snd (rate_of l k) * fst (rate_of l k) \<le> now"
        proof
          fix u assume "u \<in> set (own_times before ip k)"
          with a Some have "u \<le> vi_seen v" by (simp add: agrees_def)
          with False r(3) show "u + snd (rate_of l k) * fst (rate_of l k) \<le> now" by simp
        qed
        from idle_bucket [OF assms(1) r(1,2) this] False Some show ?thesis by (simp add: vs map_of_filter [OF d] agrees_def)
      qed
    qed
  qed
  moreover have "distinct (map fst (li_visitors (prune now l)))" unfolding vs using d by (simp add: distinct_map_filter)
  ultimately show ?thesis by (simp add: tracks_def)
next
  case False
  then have "prune now l = l" by (simp add: prune_def)
  with assms(3) show ?thesis by simp
qed

lemma own_times_snoc: "own_times (before @ [(now, ip, k)]) i k' = own_times before i k' @ (if i = ip \<and> k' = k then [now] else [])"
  by (cases "ip = i"; cases "k = k'") (simp_all add: own_times_def)

lemma used_snoc: "used bk r (ts @ [t]) = snd (bk_allow bk t (used bk r ts))"
  by (simp add: used_def)

lemma limit_client_tracks:
  assumes "refills bk" "short_refill l" "tracks bk now before l" "limit_client bk now ip k l = (ok, l')"
    and past: "\<forall>u \<in> fst ` set before. u \<le> now"
  shows "ok = fst (bk_allow bk now (used bk (rate_of l k) (own_times before ip k)))"
    and "tracks bk now (before @ [(now, ip, k)]) l'" and "rate_of l' = rate_of l" and "li_ttl l' = li_ttl l"
proof -
  define m where "m = prune now l"
  define v where "v = visitor_of bk now ip m"
  have t: "tracks bk now before m" unfolding m_def by (rule prune_tracks [OF assms(1-3)])
  have r: "rate_of m = rate_of l" by (simp add: m_def)
  have a: "agrees bk now (rate_of l k') (own_times before i k') k' (map_of (li_visitors m) i)" for i k'
    using t by (simp add: tracks_def r)
  have b: "same_from bk now (bucket_of v k') (used bk (rate_of l k') (own_times before ip k'))" for k'
  proof (cases "map_of (li_visitors m) ip")
    case None
    with a [of k' ip] r [THEN fun_cong, of k'] show ?thesis
      by (cases k') (simp_all add: agrees_def v_def visitor_of_def bucket_of_def rate_of_def)
  next
    case (Some w)
    with a [of k' ip] show ?thesis by (cases k') (simp_all add: agrees_def v_def visitor_of_def bucket_of_def)
  qed
  have seen: "vi_seen v = now" by (simp add: v_def visitor_of_def split: option.split)
  obtain s where s: "bk_allow bk now (bucket_of v k) = (ok, s)"
    and l': "l' = m\<lparr>li_visitors := AList.update ip (if k then v\<lparr>vi_auth := s\<rparr> else v\<lparr>vi_anon := s\<rparr>) (li_visitors m)\<rparr>"
    using assms(4) by (cases "bk_allow bk now (bucket_of v k)")
      (auto simp: limit_client_def Let_def bucket_of_def m_def [symmetric] v_def [symmetric] split: if_splits)
  have u: "bk_allow bk now (used bk (rate_of l k) (own_times before ip k)) = (ok, s)" using b [of k] s by (simp add: same_from_def)
  then show "ok = fst (bk_allow bk now (used bk (rate_of l k) (own_times before ip k)))" by simp
  have "rate_of l' = rate_of m" by (simp add: l' rate_of_def fun_eq_iff)
  with r show rate: "rate_of l' = rate_of l" by simp
  show "li_ttl l' = li_ttl l" by (simp add: l' m_def)
  let ?v' = "if k then v\<lparr>vi_auth := s\<rparr> else v\<lparr>vi_anon := s\<rparr>"
  have old: "x \<le> now" if "x \<in> set (own_times before ip k')" for x k'
    using that past by (auto simp: own_times_def)
  have "agrees bk now (rate_of l k') (own_times (before @ [(now, ip, k)]) i k') k' (map_of (li_visitors l') i)" for i k'
  proof (cases "i = ip")
    case False
    with a show ?thesis by (simp add: own_times_snoc l' update_conv')
  next
    case True
    have "same_from bk now (bucket_of ?v' k') (used bk (rate_of l k') (own_times (before @ [(now, ip, k)]) ip k'))"
    proof (cases "k' = k")
      case True
      with u show ?thesis by (simp add: own_times_snoc used_snoc bucket_of_def)
    next
      case False
      with b [of k'] show ?thesis by (cases k) (simp_all add: own_times_snoc bucket_of_def)
    qed
    moreover have "\<forall>x \<in> set (own_times (before @ [(now, ip, k)]) ip k'). x \<le> vi_seen ?v'"
      using old by (auto simp: own_times_snoc seen)
    ultimately show ?thesis using True by (simp add: agrees_def l' update_conv')
  qed
  moreover have "distinct (map fst (li_visitors l'))" using t by (simp add: l' tracks_def distinct_update)
  ultimately show "tracks bk now (before @ [(now, ip, k)]) l'" by (simp add: tracks_def rate)
qed

lemma limit_all_alone:
  "refills bk \<Longrightarrow> short_refill l \<Longrightarrow> tracks bk t before l \<Longrightarrow> \<forall>u \<in> fst ` set before. u \<le> t \<Longrightarrow> sorted (t # map fst rs) \<Longrightarrow>
     limit_all bk rs l = each_alone bk (rate_of l) before rs"
proof (induction rs arbitrary: t before l)
  case (Cons r rs)
  obtain now ip k where r: "r = (now, ip, k)" by (cases r) auto
  obtain ok l' where l': "limit_client bk now ip k l = (ok, l')" by fastforce
  have tn: "t \<le> now" "sorted (now # map fst rs)" using Cons.prems(5) by (auto simp: r)
  have past: "\<forall>u \<in> fst ` set before. u \<le> now" using Cons.prems(4) tn(1) by fastforce
  note st = limit_client_tracks [OF Cons.prems(1,2) tracks_later [OF Cons.prems(3) tn(1)] l' past]
  have "short_refill l'" using Cons.prems(2) st(3,4) by (simp add: short_refill_def)
  moreover have "\<forall>u \<in> fst ` set (before @ [(now, ip, k)]). u \<le> now" using past by auto
  ultimately have "limit_all bk rs l' = each_alone bk (rate_of l') (before @ [(now, ip, k)]) rs"
    using Cons.IH [OF Cons.prems(1) _ st(2)] tn(2) by blast
  with st(1,3) show ?case by (simp add: r l')
qed simp

lemma new_limiter_ok: "short_refill (new_limiter anon auth)" "tracks bk t [] (new_limiter anon auth)"
proof -
  have m: "minute div n * n \<le> 15 * minute" "0 \<le> minute div n" if "0 < n" for n :: int
  proof -
    have "minute div n * n \<le> minute" using that by (simp add: minus_mod_eq_div_mult [symmetric])
    moreover have "0 \<le> minute" by (simp add: minute_def nanos_def)
    ultimately show "minute div n * n \<le> 15 * minute" "0 \<le> minute div n" using that by (simp_all add: pos_imp_zdiv_nonneg_iff)
  qed
  show "short_refill (new_limiter anon auth)"
    unfolding short_refill_def
    using m [of "snd (rate_of (new_limiter anon auth :: 'b limiter) True)"] m [of "snd (rate_of (new_limiter anon auth :: 'b limiter) False)"]
    by (auto simp: rate_of_def new_limiter_def new_limiter_dual_def Let_def minute_def nanos_def mult.commute split: if_splits)
  show "tracks bk t [] (new_limiter anon auth)"
    by (simp add: tracks_def new_limiter_def new_limiter_dual_def Let_def agrees_def own_times_def used_def)
qed

text \<open>C25: throwing idle visitors away is not observable, and clients do not disturb each other. For requests in the
  order of their times, the limiter answers each as a limiter would that keeps two buckets per client forever and shows
  each bucket only the client's own requests of its kind, when buckets refill as promised.\<close>
theorem limiter_isolates_clients:
  fixes bk :: "'b buckets"
  assumes "refills bk" "sorted (map fst rs)"
  shows "limit_all bk rs (new_limiter anon auth) = each_alone bk (rate_of (new_limiter anon auth :: 'b limiter)) [] rs"
proof (cases rs)
  case (Cons r rs')
  have "sorted (fst r # map fst rs)" using assms(2) by (simp add: Cons)
  from limit_all_alone [OF assms(1) new_limiter_ok _ this] show ?thesis by simp
qed simp

text \<open>Buckets that keep the time at which they are full again.\<close>

definition tat_allow :: "instant \<Rightarrow> (int \<times> int) \<times> instant option \<Rightarrow> bool \<times> (int \<times> int) \<times> instant option" where
  "tat_allow t b =
     (case b of ((i, n), full) \<Rightarrow>
        (let base = (case full of None \<Rightarrow> t | Some f \<Rightarrow> max f t) in
         if base + i \<le> t + n * i then (True, (i, n), Some (base + i)) else (False, b)))"

definition tat_buckets :: "((int \<times> int) \<times> instant option) buckets" where
  "tat_buckets = \<lparr>bk_new = (\<lambda>i n. ((i, n), None)), bk_allow = tat_allow\<rparr>"

lemma tat_used:
  "\<forall>u \<in> set ts. u + n * i \<le> t \<Longrightarrow> \<exists>full. used tat_buckets (i, n) ts = ((i, n), full) \<and> (case full of None \<Rightarrow> True | Some f \<Rightarrow> f \<le> t)"
proof (induction ts rule: rev_induct)
  case Nil
  then show ?case by (simp add: used_def tat_buckets_def)
next
  case (snoc x ts)
  then obtain full where "used tat_buckets (i, n) ts = ((i, n), full)" "case full of None \<Rightarrow> True | Some f \<Rightarrow> f \<le> t" by auto
  with snoc(2) show ?case unfolding used_snoc
    by (cases full) (auto simp: tat_buckets_def tat_allow_def Let_def)
qed

lemma tat_refills: "refills tat_buckets"
  unfolding refills_def
proof (intro allI impI)
  fix i b :: int and ts t assume a: "0 < b \<and> 0 \<le> i \<and> (\<forall>u \<in> set ts. u + b * i \<le> t)"
  then obtain full where u: "used tat_buckets (i, b) ts = ((i, b), full)" "case full of None \<Rightarrow> True | Some f \<Rightarrow> f \<le> t"
    using tat_used by blast
  have "i \<le> b * i" using a by (simp add: mult_le_cancel_right1)
  with u show "bk_allow tat_buckets t (used tat_buckets (i, b) ts) = bk_allow tat_buckets t (bk_new tat_buckets i b)"
    by (cases full) (auto simp: tat_buckets_def tat_allow_def Let_def)
qed

text \<open>One request a minute: the second is refused, another client and a later request are not.\<close>

theorem limiter_isolates_clients_witness:
  "limit_all tat_buckets [(0, ''a'', False), (1, ''a'', False), (2, ''b'', False), (20 * minute, ''b'', False), (40 * minute, ''a'', False)]
     (new_limiter 1 1) = [True, False, True, True, True]"
proof -
  let ?rs = "[(0, ''a'', False), (1, ''a'', False), (2, ''b'', False), (20 * minute, ''b'', False), (40 * minute, ''a'', False)]"
  have "sorted (map fst ?rs)" by code_simp
  from limiter_isolates_clients [OF tat_refills this, of 1 1]
  have "limit_all tat_buckets ?rs (new_limiter 1 1) =
      each_alone tat_buckets (rate_of (new_limiter 1 1 :: ((int \<times> int) \<times> instant option) limiter)) [] ?rs" .
  moreover have "each_alone tat_buckets (rate_of (new_limiter 1 1 :: ((int \<times> int) \<times> instant option) limiter)) [] ?rs =
      [True, False, True, True, True]" by code_simp
  ultimately show ?thesis by simp
qed

text \<open>The visitor is named by a header the sender writes: whoever changes it is a new visitor with full buckets.\<close>

lemma forwarded_header_names_visitor:
  "CHR '','' \<notin> set name \<Longrightarrow> trim_space name \<noteq> [] \<Longrightarrow> client_ip host_of (rq\<lparr>ar_forwarded := name\<rparr>) = trim_space name"
  "limit_all tat_buckets [(0, ''1'', False), (1, ''2'', False), (2, ''3'', False)] (new_limiter 1 1) = [True, True, True]"
proof -
  have "split_on c s = [s]" if "c \<notin> set s" for c s
    using that by (induction c s rule: split_on.induct) auto
  then show "CHR '','' \<notin> set name \<Longrightarrow> trim_space name \<noteq> [] \<Longrightarrow> client_ip host_of (rq\<lparr>ar_forwarded := name\<rparr>) = trim_space name"
    by (simp add: client_ip_def)
qed code_simp

end
