(* ===== verification/Spec2Isabelle.thy ===== *)
theory Spec2Isabelle
  imports Recurrence Auth Net_Guard Template_Progress Rss_Polls External_Once Post_Api_Safety Security
begin

text \<open>
  Goloom schedules posts for social networks. Teams own accounts and posts; users and API tokens act for
  teams; a poller hands due posts to publication workers, which claim a target row, call a provider and
  record the outcome; templates and RSS feeds produce posts on their own. Everything lives in SQL tables,
  and the tables are what the parts share.

  \<^item> \<open>Prelude\<close>: results of fallible calls, updates of tables held as lists of rows, 64-bit wrap-around.
  \<^item> \<open>Go_Strings\<close>, \<open>Utf8\<close>, \<open>Go_Time\<close>: what the code uses of Go's standard library: byte strings, runes,
    instants in nanoseconds, the calendar and \<open>time.Date\<close> in a location.
  \<^item> \<open>Recurrence\<close> (\<open>internal/scheduling\<close>): validation of a rule and its next occurrence. The searches of
    the code have constant bounds (800 days, 120 months), which are the fuel of \<open>search\<close>; for rules that
    pass validation they are proved to suffice.
  \<^item> \<open>Domain\<close> (\<open>internal/domain\<close>): posts, inputs, patches, accounts, their normal forms and status rules.
  \<^item> \<open>Identity_Store\<close> (\<open>internal/store/sqlite\<close>: users, teams, memberships, invitations, API tokens): the
    operations on these tables, the invariant of every reachable state, the life of a token.
  \<^item> \<open>Auth\<close> (\<open>internal/auth\<close>, \<open>api/token_route_policy.go\<close>, \<open>api/user_api_tokens.go\<close>): what a request may
    do, and that delegation with tokens never widens authority.
  \<^item> \<open>Net_Guard\<close> (\<open>internal/netguard\<close>): which addresses user-supplied URLs may reach, on 32- and 128-bit
    words.
  \<^item> \<open>Post_Service\<close> (\<open>internal/textcount\<close>, \<open>internal/postvalidate\<close>, \<open>internal/postservice\<close>): length of a text
    for a provider, limits per account, and the preparation of every interactive create and update.
  \<^item> \<open>Post_Tables\<close>, \<open>Post_Store\<close>, \<open>Rss_Store\<close>, \<open>Media_Store\<close> (\<open>internal/store\<close>): the tables behind posts, the
    reads, every write with its guards, transactions and cascades, the audit outbox, job locks, the RSS
    markers with their daily budget, the content-addressed media files. \<open>store_ok\<close> is the invariant of the
    tables; \<open>store_step\<close> the writes that keep it.
  \<^item> \<open>Content\<close> (\<open>internal/domain/templatevars.go\<close>, \<open>internal/hashtag\<close>): the variables expanded when a post
    goes out, and the hashtags extracted from it.
  \<^item> \<open>Publisher\<close>, \<open>Publisher_Safety\<close> (\<open>internal/scheduler\<close>, \<open>internal/socialtokens\<close>): the worker as a
    program counter whose steps run from one commit point to the next, the system of workers, poller, API
    and restarts as a step relation, the ledger protocol it refines, at-most-once delivery, and what a
    healthy run achieves.
  \<^item> \<open>Ai_Jobs\<close>, \<open>Ai_Jobs_Safety\<close>, \<open>Ai_Jobs_Success\<close> (\<open>internal/store/sqlite/ai.go\<close>, \<open>api/ai_callback.go\<close> and the
    automation callbacks): the job table, the completion of a job with the post it creates, what a completion
    may change, and that it succeeds when the database does.
  \<^item> \<open>Job_Manager\<close> (\<open>internal/aijobs\<close>, \<open>api/ai_cancel.go\<close>, \<open>api/audit_transaction.go\<close>): submission, the goroutines
    with their concurrency slots, cancellation, recovery and restarts as a step relation; every job is settled
    once, and recovery settles what was interrupted.

  \<^item> \<open>Effects\<close>: the two contracts of the effects a completed job has, over any relation between the tables.
  \<^item> \<open>Templates\<close>, \<open>Template_Scheduler\<close>, \<open>Template_Changes\<close> (\<open>internal/store/sqlite/post_templates.go\<close>,
    \<open>internal/scheduler\<close>: \<open>template_materialize.go\<close>, \<open>template_skip.go\<close>, \<open>template_regenerate.go\<close>,
    \<open>recurring_ai.go\<close>): recurring templates, the skips and shifts of single occurrences, the walk that turns the
    occurrences of the horizon into posts or AI jobs, and what users may do to rounds that exist. The walk's loop has
    the code's bound of 64 rounds.
  \<^item> \<open>Template_Rounds\<close>, \<open>Job_Rounds\<close>, \<open>Template_System\<close>, \<open>Template_Progress\<close>: a round (an occurrence of a template
    and a role) is materialized at most once, over the step relation of everything that happens to templates and
    their jobs; the walk covers the horizon.
  \<^item> \<open>Rss_Import\<close>, \<open>Rss_Polls\<close> (\<open>internal/scheduler/rss_import.go\<close>, \<open>rss_ai.go\<close>, \<open>internal/rss\<close>): a poll of
    the feeds, from the parsed entries over the expanded templates to the reservation of an item and the job or post
    made of it; the budget holds through polls, an import is all or nothing, a baseline is never imported.
  \<^item> \<open>External_Import\<close>, \<open>External_Once\<close> (\<open>internal/scheduler/external_post_import.go\<close>,
    \<open>internal/store/sqlite/external_post_monitor.go\<close>, \<open>internal/provider/author_post_ids.go\<close>,
    \<open>internal/postdedup\<close>): the monitor that imports posts published elsewhere, the manual import with its pages
    (each further page imported something, so the limit bounds the loop), and the identifiers by which both recognise
    a remote post; it is imported once, and the cleanup removes exactly the duplicates of own posts.
  \<^item> \<open>Post_Api\<close>, \<open>Post_Api_Safety\<close> (\<open>api/http.go\<close>, \<open>api/ai_draft.go\<close>, \<open>api/analytics.go\<close>: the post endpoints): gate,
    route guards, handlers and their transaction for creating, updating, deleting and cancelling posts, their texts per
    account, AI drafts and moved accounts; over any sequence of requests a draft token never fills the queue, and posts
    of a team are changed only by its editors and owners.
  \<^item> \<open>Security\<close> (\<open>internal/security\<close>): encryption of stored secrets with base64 written out, the rate limiter with its
    visitors, which answers as if no visitor were ever thrown away, and the headers for other origins.

  Interfaces. \<open>Post_Service\<close> states what it needs of the account store as the locale \<open>account_loader\<close>,
  interpreted on the reads of \<open>Post_Store\<close>; \<open>delegation\<close> is the contract of token minting, interpreted on
  the token routes; \<open>effect_contract\<close> and \<open>completion_contract\<close> say what a completed job may do, in terms of a
  relation that composes, and are interpreted twice: on the audit trace of a job (\<open>jt\<close>, \<open>jc\<close>) and on the rounds it
  fills (\<open>jr\<close>, \<open>jc_rounds\<close>); the publication protocol is the relation
  \<open>ledger_step\<close>, which the worker's steps are shown to implement.

  Conventions. A table is the list of its rows. A store operation takes the clock, its random ids and, where it
  matters, the errors of the database as arguments, and returns its error or result with the tables after it;
  a failed transaction returns the tables it started from. A SQL statement is one step, and so is a
  transaction, since SQLite has one writer. A worker's step additionally bundles the reads and the follow-up
  writes between two commits (for example the audit event and the drain after a persisted outcome); what other
  processes do in between touches other rows or is invisible to the properties.

  Parameters: the time-zone database, AES-GCM, SHA-256 and random secrets, token buckets, JSON decoding,
  grapheme segmentation, Unicode classes and lower-casing of arbitrary text, the resolver and the address
  parser, the OIDC verifier, the path \<open>url.Parse\<close> finds, the providers' answers and author feeds, the results of language models, and refusals of the operating system and the database.

  Not modelled: the PostgreSQL implementation of the same interface, the HTTP clients of the providers, the
  language-model services and their prompts, the other HTTP endpoints, HTTP decoding and rendering, push notifications and server-sent
  events, logging, translations, the configuration and the user interfaces. They are input and output around
  the modelled parts, or code whose behaviour lies in services outside the repository.
\<close>

end
